(* ===== verification/Prelude.thy ===== *)
theory Prelude
  imports Main "HOL-Library.Char_ord" "HOL-Library.List_Lexorder"
begin

text \<open>
  What every component shares: the exceptions of the library as one datatype \<open>error\<close> and
  results as \<open>error + 'a\<close>, the parts of the C++ standard library the sources use
  (\<open>std::string\<close> searching and slicing, \<open>std::map\<close> with a comparator as a sorted
  association list, 64-bit \<open>size_t\<close> arithmetic), and the generic lemmas about them.
  The laws of \<open>std::map\<close> are proved once in the locale \<open>map_comparator\<close>, from the
  strict-weak-ordering contract that \<open>std::map\<close> puts on its comparator.
\<close>

named_theorems result_simps \<open>unfolding of the result combinators\<close>
named_theorems name_simps \<open>evaluation of operations on type names\<close>
named_theorems layout_simps \<open>evaluation of memory layout operations\<close>

lemma ex_false [simp]: "\<exists>b. \<not> b"
  by blast

section \<open>Exceptions and results\<close>

text \<open>
  One constructor per exception class of the sources and of the library calls they make. \<open>UndefinedBehaviour\<close> marks the
  branches where the C++ code reads out of range or dereferences a past-the-end iterator;
  \<open>OutOfFuel\<close> marks a recursion that ran out of the fuel of the model.
\<close>

datatype error =
    BadName string
  | AlreadyDefined string
  | Undefined string
  | DefinitionMismatch string
  | InvalidIndirectName string
  | UnknownContainer string
  | BadCategory
  | BadCast
  | NullTypeFound string
  | EnumAlreadyExists string
  | EnumSymbolNotFound string
  | EnumValueNotFound int
  | NoLayout string
  | InvalidMemoryLayout
  | UnknownLayoutBytecode
  | UnsupportedEndianSwap
  | UnsupportedType string
  | FieldNotFound string
  | ExportError "string list"
  | MalformedXML
  | BadRootElement string
  | MissingAttribute string
  | BadLexicalCast string
  | RuntimeError
  | OutOfRange
  | LengthError
  | UndefinedBehaviour
  | OutOfFuel

type_synonym 'a result = "error + 'a"

definition bind_result :: "'e + 'a \<Rightarrow> ('a \<Rightarrow> 'e + 'b) \<Rightarrow> 'e + 'b" where
  "bind_result r f = (case r of Inl e \<Rightarrow> Inl e | Inr x \<Rightarrow> f x)"

lemma bind_result_simps [simp]:
  "bind_result (Inl e) f = Inl e"
  "bind_result (Inr x) f = f x"
  by (simp_all add: bind_result_def)

lemma bind_result_eq_Inr [simp]:
  "bind_result r f = Inr y \<longleftrightarrow> (\<exists>x. r = Inr x \<and> f x = Inr y)"
  by (cases r) auto

lemma Inr_eq_bind_result [simp]:
  "Inr y = bind_result r f \<longleftrightarrow> (\<exists>x. r = Inr x \<and> f x = Inr y)"
  by (cases r) auto

lemma Inl_eq_bind_Inr: "Inl e = bind_result r (\<lambda>x. Inr (f x)) \<longleftrightarrow> r = Inl e"
  by (cases r) auto

lemma bind_result_assoc:
  "bind_result (bind_result r f) g = bind_result r (\<lambda>x. bind_result (f x) g)"
  by (cases r) auto

lemma bind_result_cong [fundef_cong]:
  "r = r' \<Longrightarrow> (\<And>x. r' = Inr x \<Longrightarrow> f x = f' x) \<Longrightarrow> bind_result r f = bind_result r' f'"
  by (cases r') auto

text \<open>A loop over a list whose body may throw: it stops at the first exception.\<close>

fun fold_result :: "('s \<Rightarrow> 'a \<Rightarrow> 's result) \<Rightarrow> 's \<Rightarrow> 'a list \<Rightarrow> 's result" where
  "fold_result f s [] = Inr s"
| "fold_result f s (x # xs) = bind_result (f s x) (\<lambda>s'. fold_result f s' xs)"

lemma fold_result_append:
  "fold_result f s (xs @ ys) = bind_result (fold_result f s xs) (\<lambda>s'. fold_result f s' ys)"
  by (induction xs arbitrary: s) (auto simp: bind_result_assoc)

text \<open>A property that every step of a throwing loop keeps holds at the end of the loop.\<close>

lemma fold_result_invariant:
  assumes "fold_result f s xs = Inr s'" and "P s"
    and "\<And>t x t'. x \<in> set xs \<Longrightarrow> P t \<Longrightarrow> f t x = Inr t' \<Longrightarrow> P t'"
  shows "P s'"
  using assms
proof (induction xs arbitrary: s)
  case Nil
  then show ?case by simp
next
  case (Cons x xs)
  from Cons.prems(1) obtain t where t: "f s x = Inr t" "fold_result f t xs = Inr s'"
    by auto
  from Cons.prems(2,3) t(1) have "P t" by (meson list.set_intros(1))
  with t(2) show ?case using Cons.IH Cons.prems(3) by (meson list.set_intros(2))
qed

text \<open>What a result satisfies: \<open>Q\<close> if it is an exception, \<open>P\<close> if it is a value.\<close>

definition result_ok :: "(error \<Rightarrow> bool) \<Rightarrow> ('a \<Rightarrow> bool) \<Rightarrow> 'a result \<Rightarrow> bool" where
  "result_ok Q P r = (case r of Inl e \<Rightarrow> Q e | Inr x \<Rightarrow> P x)"

lemma result_ok_simps [simp]: "result_ok Q P (Inl e) = Q e" "result_ok Q P (Inr x) = P x"
  by (simp_all add: result_ok_def)

lemma result_ok_bind:
  "result_ok Q P r \<Longrightarrow> (\<And>x. r = Inr x \<Longrightarrow> P x \<Longrightarrow> result_ok Q P' (f x)) \<Longrightarrow> result_ok Q P' (bind_result r f)"
  by (cases r) auto

lemma result_ok_mono:
  "result_ok Q P r \<Longrightarrow> (\<And>x. P x \<Longrightarrow> P' x) \<Longrightarrow> result_ok Q P' r"
  by (cases r) auto

lemma result_ok_fold:
  assumes "P s" and "\<And>t x. x \<in> set xs \<Longrightarrow> P t \<Longrightarrow> result_ok Q P (f t x)"
  shows "result_ok Q P (fold_result f s xs)"
  using assms
proof (induction xs arbitrary: s)
  case (Cons x xs)
  show ?case
    unfolding fold_result.simps
  proof (rule result_ok_bind)
    show "result_ok Q P (f s x)" using Cons.prems by simp
    show "result_ok Q P (fold_result f t xs)" if "P t" for t
      using Cons.IH[OF that] Cons.prems(2) by simp
  qed
qed simp

section \<open>Machine sizes\<close>

text \<open>
  Sizes and offsets are \<open>size_t\<close>. They are naturals here; where the sources add, multiply or
  subtract them the wrap-around of the unsigned 64-bit operation is written out.
\<close>

definition size_t_modulus :: nat where
  "size_t_modulus = 2 ^ 64"

definition sub_size_t :: "nat \<Rightarrow> nat \<Rightarrow> nat" where
  "sub_size_t a b = (if b \<le> a then a - b else a + size_t_modulus - b)"

definition add_size_t :: "nat \<Rightarrow> nat \<Rightarrow> nat" where
  "add_size_t a b = (a + b) mod size_t_modulus"

definition mul_size_t :: "nat \<Rightarrow> nat \<Rightarrow> nat" where
  "mul_size_t a b = a * b mod size_t_modulus"

text \<open>Evaluation goes through the binary integers.\<close>

lemma add_size_t_code [code]: "add_size_t a b = nat ((int a + int b) mod 18446744073709551616)"
  by (simp add: add_size_t_def size_t_modulus_def nat_mod_distrib nat_add_distrib)

lemma mul_size_t_code [code]: "mul_size_t a b = nat (int a * int b mod 18446744073709551616)"
  by (simp add: mul_size_t_def size_t_modulus_def nat_mod_distrib nat_mult_distrib)

lemma sub_size_t_no_wrap [simp]: "b \<le> a \<Longrightarrow> sub_size_t a b = a - b"
  by (simp add: sub_size_t_def)

lemma add_size_t_no_wrap [simp]: "a + b < 2 ^ 64 \<Longrightarrow> add_size_t a b = a + b"
  by (simp add: add_size_t_def size_t_modulus_def)

lemma mul_size_t_no_wrap [simp]: "a * b < 2 ^ 64 \<Longrightarrow> mul_size_t a b = a * b"
  by (simp add: mul_size_t_def size_t_modulus_def)

section \<open>Strings\<close>

text \<open>\<open>std::string(s, pos, n)\<close>, \<open>s[i]\<close> with the terminating NUL, and the searches.\<close>

definition substr :: "string \<Rightarrow> nat \<Rightarrow> nat \<Rightarrow> string" where
  "substr s pos n = take n (drop pos s)"

definition char_at :: "string \<Rightarrow> nat \<Rightarrow> char" where
  "char_at s i = (if i < length s then s ! i else CHR 0x00)"

fun find_first_of :: "string \<Rightarrow> string \<Rightarrow> nat option" where
  "find_first_of cs [] = None"
| "find_first_of cs (c # s) = (if c \<in> set cs then Some 0 else map_option Suc (find_first_of cs s))"

lemma find_first_of_split:
  "find_first_of cs s = Some pos \<Longrightarrow> pos < length s \<and> s ! pos \<in> set cs \<and> list_all (\<lambda>c. c \<notin> set cs) (take pos s)"
proof (induction s arbitrary: pos)
  case (Cons c s)
  then show ?case by (cases pos) (auto split: if_splits)
qed simp

definition only_of :: "string \<Rightarrow> string \<Rightarrow> bool" where
  "only_of cs s = list_all (\<lambda>c. c \<in> set cs) s"

text \<open>\<open>s.find_first_not_of(cs) == npos\<close> is \<open>only_of cs s\<close>; \<open>s.find(t) != npos\<close> is:\<close>

fun starts_with :: "string \<Rightarrow> string \<Rightarrow> bool" where
  "starts_with [] s = True"
| "starts_with (t # ts) [] = False"
| "starts_with (t # ts) (c # s) = (t = c \<and> starts_with ts s)"

fun contains_string :: "string \<Rightarrow> string \<Rightarrow> bool" where
  "contains_string t [] = (t = [])"
| "contains_string t (c # s) = (starts_with t (c # s) \<or> contains_string t s)"

lemma drop_eq_ConsD:
  "drop i s = c # r \<Longrightarrow> i < length s \<and> s ! i = c \<and> drop (Suc i) s = r"
  by (metis Cons_nth_drop_Suc drop_eq_Nil list.distinct(1) list.inject not_le)

lemma starts_with_iff: "starts_with p s \<longleftrightarrow> (\<exists>r. s = p @ r)"
  by (induction p s rule: starts_with.induct) auto

lemma starts_with_take: "starts_with p s \<longleftrightarrow> take (length p) s = p"
  by (metis append_eq_conv_conj append_take_drop_id starts_with_iff)

lemma starts_with_append [simp]: "starts_with p (p @ r)"
  by (auto simp: starts_with_iff)

lemma starts_with_refl [simp]: "starts_with p p"
  by (auto simp: starts_with_iff)

lemma starts_with_trans: "starts_with p q \<Longrightarrow> starts_with q s \<Longrightarrow> starts_with p s"
  by (auto simp: starts_with_iff)

lemma contains_string_iff: "contains_string t s \<longleftrightarrow> (\<exists>a b. s = a @ t @ b)"
proof (induction s)
  case Nil
  then show ?case by simp
next
  case (Cons c s)
  have "(\<exists>a b. c # s = a @ t @ b) \<longleftrightarrow> (\<exists>b. c # s = t @ b) \<or> (\<exists>a b. s = a @ t @ b)"
    by (metis append_Cons append_Nil append_eq_Cons_conv)
  then show ?case using Cons.IH by (auto simp: starts_with_iff)
qed

text \<open>Decimal output of an unsigned number, and \<open>atoi\<close>, without its overflow.\<close>

definition digit_char :: "nat \<Rightarrow> char" where
  "digit_char d = char_of (48 + d)"

definition is_digit :: "char \<Rightarrow> bool" where
  "is_digit c = (let n = (of_char c :: nat) in 48 \<le> n \<and> n \<le> 57)"

definition digit_value :: "char \<Rightarrow> nat" where
  "digit_value c = of_char c - 48"

fun show_nat :: "nat \<Rightarrow> string" where
  "show_nat n = (if n < 10 then [digit_char n] else show_nat (n div 10) @ [digit_char (n mod 10)])"

declare show_nat.simps [simp del]

definition read_digits :: "string \<Rightarrow> nat" where
  "read_digits ds = foldl (\<lambda>n c. 10 * n + digit_value c) 0 ds"

definition is_space :: "char \<Rightarrow> bool" where
  "is_space c = (c = CHR '' '' \<or> (let n = (of_char c :: nat) in 9 \<le> n \<and> n \<le> 13))"

definition atoi :: "string \<Rightarrow> int" where
  "atoi s =
     (case dropWhile is_space s of
        [] \<Rightarrow> 0
      | c # r \<Rightarrow>
          if c = CHR ''-'' then - int (read_digits (takeWhile is_digit r))
          else if c = CHR ''+'' then int (read_digits (takeWhile is_digit r))
          else int (read_digits (takeWhile is_digit (c # r))))"

lemma digit_char_props [simp]:
  "d < 10 \<Longrightarrow> is_digit (digit_char d)" "d < 10 \<Longrightarrow> digit_value (digit_char d) = d"
  by (simp_all add: is_digit_def digit_char_def digit_value_def)

lemma show_nat_digits: "list_all is_digit (show_nat n)"
  by (induction n rule: show_nat.induct) (subst show_nat.simps, simp)

lemma show_nat_chars: "\<not> is_digit c \<Longrightarrow> c \<notin> set (show_nat n)"
  using show_nat_digits[of n] by (auto simp: list_all_iff)

lemma mark_not_in_show_nat [simp]: "CHR ''/'' \<notin> set (show_nat n)"
  by (rule show_nat_chars) (simp add: is_digit_def)

lemma show_nat_nonempty [simp]: "show_nat n \<noteq> []"
  by (subst show_nat.simps) simp

lemma read_show_nat: "read_digits (show_nat n) = n"
proof (induction n rule: show_nat.induct)
  case (1 n)
  then show ?case by (subst show_nat.simps) (auto simp: read_digits_def)
qed

lemma atoi_show_nat:
  assumes "r = [] \<or> \<not> is_digit (hd r)"
  shows "atoi (show_nat n @ r) = int n"
proof -
  obtain c cs where c: "show_nat n = c # cs" "is_digit c"
    using show_nat_digits[of n] by (cases "show_nat n") auto
  then have first: "\<not> is_space c" "c \<noteq> CHR ''-''" "c \<noteq> CHR ''+''"
    by (auto simp: is_digit_def is_space_def Let_def)
  have "takeWhile is_digit (show_nat n @ r) = show_nat n"
    using assms show_nat_digits[of n]
    by (cases r) (auto simp: list_all_iff takeWhile_append)
  then show ?thesis using c first read_show_nat[of n] by (simp add: atoi_def)
qed

text \<open>Pieces of text output: a double quote, a line break, a signed number.\<close>

definition quote :: string where "quote = [CHR 0x22]"

definition newline :: string where "newline = [CHR 0x0A]"

definition show_int :: "int \<Rightarrow> string" where
  "show_int i = (if i < 0 then ''-'' @ show_nat (nat (- i)) else show_nat (nat i))"

section \<open>Ordered maps\<close>

text \<open>
  A \<open>std::map\<close> with comparator \<open>lt\<close> is an association list sorted by \<open>lt\<close>.
  \<open>omap_insert\<close> is \<open>insert\<close>, which keeps an existing entry; \<open>omap_assign\<close> is the
  assignment through \<open>operator[]\<close>, which replaces it; \<open>omap_erase\<close> is \<open>erase\<close> by key;
  \<open>omap_lower_bound\<close> is the range from \<open>lower_bound\<close> to \<open>end\<close>. A lookup is
  \<open>map_of\<close>.
\<close>

fun omap_insert :: "('k \<Rightarrow> 'k \<Rightarrow> bool) \<Rightarrow> 'k \<Rightarrow> 'v \<Rightarrow> ('k \<times> 'v) list \<Rightarrow> ('k \<times> 'v) list" where
  "omap_insert lt k v [] = [(k, v)]"
| "omap_insert lt k v ((k', v') # m) =
     (if lt k k' then (k, v) # (k', v') # m
      else if lt k' k then (k', v') # omap_insert lt k v m
      else (k', v') # m)"

fun omap_assign :: "('k \<Rightarrow> 'k \<Rightarrow> bool) \<Rightarrow> 'k \<Rightarrow> 'v \<Rightarrow> ('k \<times> 'v) list \<Rightarrow> ('k \<times> 'v) list" where
  "omap_assign lt k v [] = [(k, v)]"
| "omap_assign lt k v ((k', v') # m) =
     (if lt k k' then (k, v) # (k', v') # m
      else if lt k' k then (k', v') # omap_assign lt k v m
      else (k, v) # m)"

definition omap_erase :: "'k \<Rightarrow> ('k \<times> 'v) list \<Rightarrow> ('k \<times> 'v) list" where
  "omap_erase k m = filter (\<lambda>e. fst e \<noteq> k) m"

definition omap_lower_bound :: "('k \<Rightarrow> 'k \<Rightarrow> bool) \<Rightarrow> 'k \<Rightarrow> ('k \<times> 'v) list \<Rightarrow> ('k \<times> 'v) list" where
  "omap_lower_bound lt k m = dropWhile (\<lambda>e. lt (fst e) k) m"

definition omap_sorted :: "('k \<Rightarrow> 'k \<Rightarrow> bool) \<Rightarrow> ('k \<times> 'v) list \<Rightarrow> bool" where
  "omap_sorted lt m = sorted_wrt lt (map fst m)"

lemma omap_sorted_simps [simp]:
  "omap_sorted lt []"
  "omap_sorted lt ((k, v) # m) \<longleftrightarrow> (\<forall>k' \<in> fst ` set m. lt k k') \<and> omap_sorted lt m"
  by (auto simp: omap_sorted_def)

lemma omap_sorted_filter: "omap_sorted lt m \<Longrightarrow> omap_sorted lt (filter P m)"
  by (induction m) auto

lemma omap_sorted_erase [simp]: "omap_sorted lt m \<Longrightarrow> omap_sorted lt (omap_erase k m)"
  by (simp add: omap_erase_def omap_sorted_filter)

lemma map_of_omap_erase [simp]: "map_of (omap_erase k m) = (map_of m)(k := None)"
  by (induction m) (auto simp: omap_erase_def fun_eq_iff)

lemma map_of_filter_value:
  "distinct (map fst m) \<Longrightarrow> map_of (filter (\<lambda>e. P (snd e)) m) k =
     (case map_of m k of None \<Rightarrow> None | Some v \<Rightarrow> if P v then Some v else None)"
  by (induction m) (auto simp: map_of_eq_None_iff split: option.splits)

text \<open>The contract \<open>std::map\<close> puts on its comparator, and what it gives in return.\<close>

locale map_comparator =
  fixes lt :: "'k \<Rightarrow> 'k \<Rightarrow> bool"
  assumes lt_irrefl: "\<not> lt k k"
    and lt_trans: "lt a b \<Longrightarrow> lt b c \<Longrightarrow> lt a c"
    and lt_total: "a \<noteq> b \<Longrightarrow> lt a b \<or> lt b a"
begin

lemma lt_asym: "lt a b \<Longrightarrow> \<not> lt b a"
  using lt_irrefl lt_trans by blast

lemma lt_neither [dest]: "\<not> lt a b \<Longrightarrow> \<not> lt b a \<Longrightarrow> a = b"
  using lt_total by blast

lemma omap_find_insert:
  "map_of (omap_insert lt k v m) =
     (map_of m)(k := (case map_of m k of None \<Rightarrow> Some v | Some w \<Rightarrow> Some w))"
  if "omap_sorted lt m"
  using that
proof (induction m)
  case Nil
  then show ?case by auto
next
  case (Cons e m)
  obtain k' v' where e: "e = (k', v')" by fastforce
  have notin: "map_of m k = None" if "lt k k'"
    using Cons.prems that e lt_trans lt_irrefl
    by (metis map_of_eq_None_iff omap_sorted_simps(2))
  show ?case
    using Cons e notin lt_irrefl lt_asym
    by (auto simp: fun_eq_iff split: option.splits)
qed

lemma omap_insert_keys:
  "fst ` set (omap_insert lt k v m) = insert k (fst ` set m)"
proof (induction m)
  case (Cons e m)
  then show ?case by (cases e) auto
qed simp

lemma omap_sorted_insert: "omap_sorted lt m \<Longrightarrow> omap_sorted lt (omap_insert lt k v m)"
proof (induction m)
  case Nil
  then show ?case by simp
next
  case (Cons e m)
  then show ?case using lt_trans by (cases e) (auto simp: omap_insert_keys)
qed

lemma omap_find_assign:
  "map_of (omap_assign lt k v m) = (map_of m)(k \<mapsto> v)"
  if "omap_sorted lt m"
  using that
proof (induction m)
  case Nil
  then show ?case by auto
next
  case (Cons e m)
  then show ?case using lt_irrefl lt_asym
    by (cases e) (auto simp: fun_eq_iff)
qed

lemma omap_assign_keys:
  "fst ` set (omap_assign lt k v m) = insert k (fst ` set m)"
proof (induction m)
  case (Cons e m)
  then show ?case by (cases e) auto
qed simp

lemma omap_sorted_assign: "omap_sorted lt m \<Longrightarrow> omap_sorted lt (omap_assign lt k v m)"
proof (induction m)
  case Nil
  then show ?case by simp
next
  case (Cons e m)
  then show ?case using lt_trans by (cases e) (auto simp: omap_assign_keys)
qed

lemma omap_lower_bound_filter:
  "omap_sorted lt m \<Longrightarrow> omap_lower_bound lt k m = filter (\<lambda>e. \<not> lt (fst e) k) m"
proof (induction m)
  case Nil
  then show ?case by (simp add: omap_lower_bound_def)
next
  case (Cons e m)
  show ?case
  proof (cases "lt (fst e) k")
    case True
    with Cons show ?thesis by (cases e) (simp add: omap_lower_bound_def)
  next
    case False
    with Cons.prems have "\<forall>x \<in> set m. \<not> lt (fst x) k"
      using lt_trans by (cases e) fastforce
    with False show ?thesis by (simp add: omap_lower_bound_def)
  qed
qed

lemma omap_sorted_distinct: "omap_sorted lt m \<Longrightarrow> distinct (map fst m)"
proof (induction m)
  case (Cons e m)
  then show ?case using lt_irrefl by (cases e) force
qed simp

end

text \<open>\<open>std::map<std::string, T>\<close> compares with \<open>std::less\<close>, byte by byte.\<close>

definition string_less :: "string \<Rightarrow> string \<Rightarrow> bool" where
  "string_less a b = (a < b)"

interpretation string_map: map_comparator string_less
  by unfold_locales (auto simp: string_less_def)

section \<open>Sequences of operations\<close>

text \<open>
  A component is used through sequences of operations from its initial states. An invariant
  that holds initially and that every operation keeps holds in all reachable states.
\<close>

inductive reachable :: "('s \<Rightarrow> bool) \<Rightarrow> ('s \<Rightarrow> 's \<Rightarrow> bool) \<Rightarrow> 's \<Rightarrow> bool" for init step where
  reachable_init: "init s \<Longrightarrow> reachable init step s"
| reachable_step: "reachable init step s \<Longrightarrow> step s s' \<Longrightarrow> reachable init step s'"

locale stateful_component =
  fixes init :: "'s \<Rightarrow> bool" and step :: "'s \<Rightarrow> 's \<Rightarrow> bool" and invariant :: "'s \<Rightarrow> bool"
  assumes invariant_init: "init s \<Longrightarrow> invariant s"
    and invariant_step: "invariant s \<Longrightarrow> step s s' \<Longrightarrow> invariant s'"
begin

lemma invariant_reachable: "reachable init step s \<Longrightarrow> invariant s"
  by (induction rule: reachable.induct) (auto intro: invariant_init invariant_step)

end

end
