(* ===== verification/Typename.thy ===== *)
theory Typename
  imports Prelude
begin

text \<open>
  Type names: \<open>typelib/typename.cc\<close>, and \<open>nameSort\<close> of \<open>typelib/registry.cc\<close>, the
  comparator of the registry's type map. A name is a path of segments separated by \<open>/\<close>,
  where a segment may hold template arguments in \<open><\<close> and \<open>>\<close> whose own separators do
  not split it. Proved: the name validator terminates, splitting a name into its
  namespace and its base name loses nothing, and \<open>nameSort\<close> is a strict total order in
  which the types of one namespace are contiguous.
\<close>

section \<open>Characters and identifiers\<close>

definition NamespaceMark :: char where
  "NamespaceMark = CHR ''/''"

definition NamespaceMarkString :: string where
  "NamespaceMarkString = ''/''"

text \<open>\<open>isalnum\<close> of the C locale.\<close>

definition isalnum :: "char \<Rightarrow> bool" where
  "isalnum c = (let n = (of_char c :: nat) in
     48 \<le> n \<and> n \<le> 57 \<or> 65 \<le> n \<and> n \<le> 90 \<or> 97 \<le> n \<and> n \<le> 122)"

definition isValidIdentifier :: "string \<Rightarrow> bool" where
  "isValidIdentifier identifier = (identifier \<noteq> [] \<and>
     list_all (\<lambda>c. c = CHR ''_'' \<or> c = CHR '' '' \<or> isalnum c \<or> c = CHR ''<'' \<or> c = CHR ''>'')
       identifier)"

definition isAbsoluteName :: "string \<Rightarrow> bool" where
  "isAbsoluteName identifier = (identifier \<noteq> [] \<and> hd identifier = NamespaceMark)"

text \<open>
  The text before the first \<open>*\<close> or \<open>[\<close> has to be an identifier; what follows it is not
  looked at. \<open>s[0]\<close> of the empty string is the terminating NUL.
\<close>

definition isValidTypeBasename :: "string \<Rightarrow> bool \<Rightarrow> bool \<Rightarrow> bool" where
  "isValidTypeBasename s absolute accept_integers =
     (if accept_integers \<and> only_of ''-0123456789'' s then True
      else if absolute \<and> char_at s 0 \<noteq> CHR ''/'' then False
      else let pos = (if char_at s 0 = CHR ''/'' then 1 else 0) in
        case find_first_of ''*['' s of
          Some modifiers \<Rightarrow> isValidIdentifier (substr s pos (modifiers - pos))
        | None \<Rightarrow> isValidIdentifier (drop pos s))"

section \<open>Splitting\<close>

text \<open>
  The loop of \<open>splitTypename\<close>: \<open>cur\<close> is the text from \<open>start_pos\<close> to the current
  position and \<open>template_level\<close> the nesting of template arguments, an \<open>int\<close> that an
  unbalanced \<open>>\<close> makes negative.
\<close>

fun splitTypename_loop :: "int \<Rightarrow> string \<Rightarrow> string \<Rightarrow> string list" where
  "splitTypename_loop template_level cur [] = (if cur \<noteq> [] then [cur] else [])"
| "splitTypename_loop template_level cur (c # name) =
     (if c = CHR ''/'' then
        (if template_level = 0 then cur # splitTypename_loop template_level [] name
         else splitTypename_loop template_level (cur @ [c]) name)
      else if c = CHR ''<'' then splitTypename_loop (template_level + 1) (cur @ [c]) name
      else if c = CHR ''>'' then splitTypename_loop (template_level - 1) (cur @ [c]) name
      else splitTypename_loop template_level (cur @ [c]) name)"

definition splitTypename :: "string \<Rightarrow> string list" where
  "splitTypename name =
     (if char_at name 0 = CHR ''/'' then splitTypename_loop 0 [] (tl name)
      else splitTypename_loop 0 [] name)"

definition getTypename :: "string \<Rightarrow> string" where
  "getTypename name = (let split = splitTypename name in if split = [] then [] else last split)"

definition getNamespace :: "string \<Rightarrow> string" where
  "getNamespace name = (let split = splitTypename name in
     if split = [] then ''/'' else concat (map (\<lambda>t. CHR ''/'' # t) (butlast split)) @ ''/'')"

definition getNormalizedNamespace :: "string \<Rightarrow> string" where
  "getNormalizedNamespace name =
     (if name = [] then NamespaceMarkString
      else if last name \<noteq> NamespaceMark then name @ [NamespaceMark]
      else name)"

definition isInNamespace :: "string \<Rightarrow> string \<Rightarrow> bool \<Rightarrow> bool" where
  "isInNamespace type nspace recursive =
     (let normalized_nspace = getNormalizedNamespace nspace;
          len = length normalized_nspace in
      if take len type \<noteq> normalized_nspace then False
      else if recursive then True
      else length (splitTypename (drop len type)) = 1)"

text \<open>
  \<open>*ns.rbegin()\<close> of an empty namespace is undefined; a \<open>std::string\<close> slice that starts
  behind the end throws \<open>std::out_of_range\<close>.
\<close>

definition getRelativeName :: "string \<Rightarrow> string \<Rightarrow> string result" where
  "getRelativeName name ns =
     (if ns = [] then Inl UndefinedBehaviour
      else let size = (if last ns \<noteq> CHR ''/'' then length ns + 1 else length ns) in
        if length name < size then Inl OutOfRange else Inr (drop size name))"

text \<open>
  \<open>getMinimalPathTo\<close>: the common leading segments, the rest of the type's namespace, and
  the loop that puts common segments back until the path is no longer found in \<open>ns\<close>.
\<close>

fun common_prefix :: "string list \<Rightarrow> string list \<Rightarrow> string list" where
  "common_prefix (a # as) (b # bs) = (if a = b then a # common_prefix as bs else [])"
| "common_prefix _ _ = []"

fun join_namespaces :: "string list \<Rightarrow> string" where
  "join_namespaces [] = []"
| "join_namespaces [t] = t"
| "join_namespaces (t # ts) = t @ NamespaceMarkString @ join_namespaces ts"

text \<open>The common tokens are given last first.\<close>

fun disambiguate :: "string list \<Rightarrow> string \<Rightarrow> string \<Rightarrow> string list \<times> string" where
  "disambiguate [] ns path = ([], path)"
| "disambiguate (t # common_tokens) ns path =
     (if contains_string path ns
      then disambiguate common_tokens ns (t @ NamespaceMarkString @ path)
      else (t # common_tokens, path))"

definition getMinimalPathTo :: "string \<Rightarrow> string \<Rightarrow> string result" where
  "getMinimalPathTo full_name ns =
     (let type_ns = getNamespace full_name in
      if isInNamespace full_name ns True then getRelativeName (getNamespace full_name) ns
      else if contains_string type_ns ns \<or> contains_string full_name ns then Inr type_ns
      else
        let tok1 = splitTypename type_ns;
            tok2 = splitTypename ns;
            common_tokens = common_prefix tok1 tok2;
            rest = drop (length common_tokens) tok1 in
        if common_tokens = [] then Inr type_ns
        else if rest = [] then Inl UndefinedBehaviour
        else case disambiguate (rev common_tokens) ns (join_namespaces rest) of
          (remaining, path) \<Rightarrow>
            if remaining = [] then Inr type_ns
            else if path = [] then Inr path
            else Inr (path @ NamespaceMarkString))"

section \<open>Validation\<close>

text \<open>
  The recursive validator works on positions of \<open>s\<close>. \<open>isValidTypename_at\<close> is the
  function, \<open>isValidTypename_loop\<close> its \<open>for\<close> loop and \<open>isValidTypename_args\<close> the
  \<open>while\<close> loop over template arguments, which gives the position of the closing \<open>>\<close>, or
  the result to return at once. The first argument is fuel.
\<close>

fun isValidTypename_at :: "nat \<Rightarrow> string \<Rightarrow> nat \<Rightarrow> bool \<Rightarrow> bool \<Rightarrow> (bool \<times> nat) option"
and isValidTypename_loop :: "nat \<Rightarrow> string \<Rightarrow> nat \<Rightarrow> nat \<Rightarrow> bool \<Rightarrow> bool \<Rightarrow> (bool \<times> nat) option"
and isValidTypename_args :: "nat \<Rightarrow> string \<Rightarrow> nat \<Rightarrow> ((bool \<times> nat) + nat) option" where
  "isValidTypename_at 0 s pos absolute accept_integers = None"
| "isValidTypename_at (Suc fuel) s pos absolute accept_integers =
     isValidTypename_loop fuel s pos (if char_at s pos = CHR ''/'' then pos + 1 else pos)
       absolute accept_integers"
| "isValidTypename_loop 0 s start_pos i absolute accept_integers = None"
| "isValidTypename_loop (Suc fuel) s start_pos i absolute accept_integers =
     (if i < length s then
        (let part = substr s start_pos (i - start_pos) in
         if s ! i = CHR ''/'' then
           (if \<not> isValidTypeBasename part absolute accept_integers then Some (False, i)
            else isValidTypename_loop fuel s i (i + 1) absolute accept_integers)
         else if s ! i = CHR ''<'' then
           (if \<not> isValidTypeBasename part absolute accept_integers then Some (False, i)
            else case isValidTypename_args fuel s i of
              None \<Rightarrow> None
            | Some (Inl r) \<Rightarrow> Some r
            | Some (Inr j) \<Rightarrow>
                (if j + 1 < length s then
                   (if s ! (j + 1) = CHR ''/'' then
                      isValidTypename_loop fuel s (j + 1) (j + 2) absolute accept_integers
                    else if s ! (j + 1) \<noteq> CHR ''>'' \<and> s ! (j + 1) \<noteq> CHR ''['' \<and> s ! (j + 1) \<noteq> CHR '',''
                    then Some (False, j + 1)
                    else isValidTypename_loop fuel s (j + 1) (j + 1) absolute accept_integers)
                 else isValidTypename_loop fuel s (j + 1) (j + 1) absolute accept_integers))
         else if s ! i = CHR ''['' then
           (if start_pos \<noteq> i \<and> \<not> isValidTypeBasename part absolute accept_integers then Some (False, i)
            else if i + 1 = length s then Some (False, i)
            else isValidTypename_loop fuel s (i + 1) (i + 1) absolute accept_integers)
         else if s ! i = CHR '']'' then
           (if start_pos = i then Some (False, start_pos)
            else if \<not> only_of ''0123456789'' part then Some (False, start_pos)
            else if i + 1 < length s then
              (if s ! (i + 1) = CHR ''/'' then
                 isValidTypename_loop fuel s (i + 1) (i + 2) absolute accept_integers
               else if s ! (i + 1) \<noteq> CHR ''>'' \<and> s ! (i + 1) \<noteq> CHR ''['' then Some (False, i + 1)
               else isValidTypename_loop fuel s (i + 1) (i + 1) absolute accept_integers)
            else isValidTypename_loop fuel s (i + 1) (i + 1) absolute accept_integers)
         else if s ! i = CHR ''>'' \<or> s ! i = CHR '','' then
           (if \<not> isValidTypeBasename part True True then Some (False, i) else Some (True, i))
         else isValidTypename_loop fuel s start_pos (i + 1) absolute accept_integers)
      else if start_pos \<noteq> length s then
        Some (isValidTypeBasename (substr s start_pos (length s - start_pos)) absolute accept_integers,
          length s)
      else Some (True, length s))"
| "isValidTypename_args 0 s i = None"
| "isValidTypename_args (Suc fuel) s i =
     (if char_at s i = CHR ''>'' then Some (Inr i)
      else case isValidTypename_at fuel s (i + 1) True True of
        None \<Rightarrow> None
      | Some (valid, j) \<Rightarrow>
          (if \<not> valid then Some (Inl (valid, j))
           else if j = length s \<or> (s ! j \<noteq> CHR '','' \<and> s ! j \<noteq> CHR ''>'') then Some (Inl (False, j))
           else isValidTypename_args fuel s j))"

text \<open>Enough fuel for every name of the given length; see \<open>isValidTypename_terminates\<close>.\<close>

definition typename_fuel :: "string \<Rightarrow> nat" where
  "typename_fuel s = 3 * length s + 2"

definition isValidTypename :: "string \<Rightarrow> bool \<Rightarrow> bool" where
  "isValidTypename name absolute =
     (if name = [] then False
      else case isValidTypename_at (typename_fuel name) name 0 absolute False of
        None \<Rightarrow> False | Some r \<Rightarrow> fst r)"

text \<open>
  The segments of a namespace come from a \<open>boost::tokenizer\<close>, which is not part of the
  repository: it is the parameter \<open>tok\<close>. What the sources rely on is its documented
  behaviour for the separator \<open>/\<close> with empty tokens dropped.
\<close>

type_synonym tokenizer = "string \<Rightarrow> string list"

definition NameTokenizer_spec :: "tokenizer \<Rightarrow> bool" where
  "NameTokenizer_spec tok \<longleftrightarrow>
     tok [] = [] \<and>
     (\<forall>s. tok (CHR ''/'' # s) = tok s) \<and>
     (\<forall>t. t \<noteq> [] \<and> CHR ''/'' \<notin> set t \<longrightarrow> tok t = [t]) \<and>
     (\<forall>t s. t \<noteq> [] \<and> CHR ''/'' \<notin> set t \<longrightarrow> tok (t @ CHR ''/'' # s) = t # tok s)"

definition isValidNamespace :: "tokenizer \<Rightarrow> string \<Rightarrow> bool \<Rightarrow> bool" where
  "isValidNamespace tok name absolute =
     (if name = [] then False
      else if absolute \<and> hd name \<noteq> NamespaceMark then False
      else list_all isValidIdentifier (tok name))"

section \<open>The order of type names\<close>

text \<open>
  \<open>nameSort\<close> compares plain \<open>char\<close>s, which are signed on the supported platforms; the
  namespace mark comes before every other character.
\<close>

definition char_value :: "char \<Rightarrow> int" where
  "char_value c = (let n = (of_char c :: nat) in if n < 128 then int n else int n - 256)"

fun nameSort :: "string \<Rightarrow> string \<Rightarrow> bool" where
  "nameSort [] name2 = (name2 \<noteq> [])"
| "nameSort (c1 # name1) [] = False"
| "nameSort (c1 # name1) (c2 # name2) =
     (if c1 \<noteq> c2 then
        (if c1 = CHR ''/'' then True
         else if c2 = CHR ''/'' then False
         else char_value c1 < char_value c2)
      else nameSort name1 name2)"


section \<open>Splitting loses nothing\<close>

lemma splitTypename_loop_concat:
  "(if s = [] then cur \<noteq> [] else last s \<noteq> CHR ''/'') \<Longrightarrow>
   concat (map (\<lambda>t. CHR ''/'' # t) (splitTypename_loop level cur s)) = ''/'' @ cur @ s"
  by (induction level cur s rule: splitTypename_loop.induct) (auto split: if_splits)

lemma splitTypename_loop_nonempty:
  "(if s = [] then cur \<noteq> [] else last s \<noteq> CHR ''/'') \<Longrightarrow>
   splitTypename_loop level cur s \<noteq> []"
  by (induction level cur s rule: splitTypename_loop.induct) (auto split: if_splits)

lemma splitTypename_loop_last:
  "(if s = [] then cur \<noteq> [] else last s \<noteq> CHR ''/'') \<Longrightarrow>
   last (splitTypename_loop level cur s) \<noteq> []"
proof (induction level cur s rule: splitTypename_loop.induct)
  case (2 level cur c s)
  then show ?case
    using splitTypename_loop_nonempty[of s "[]" level] by (cases "s = []") auto
qed simp

text \<open>
  A segment that the loop emits is not split again: the level at which the loop reached its
  end is the level that a fresh run over the segment reaches.
\<close>

lemma splitTypename_loop_segment:
  assumes "\<And>r. splitTypename_loop 0 [] (cur @ r) = splitTypename_loop level cur r"
    and "t \<in> set (splitTypename_loop level cur s)" and "t \<noteq> []"
  shows "splitTypename_loop 0 [] t = [t]"
  using assms
proof (induction level cur s rule: splitTypename_loop.induct)
  case (1 level cur)
  then show ?case using "1.prems"(1)[of "[]"] by (simp split: if_splits)
next
  case (2 level cur c s)
  have step: "splitTypename_loop 0 [] ((cur @ [c]) @ r) = splitTypename_loop level cur (c # r)" for r
    using "2.prems"(1)[of "c # r"] by simp
  show ?case
  proof (cases "c = CHR ''/'' \<and> level = 0")
    case True
    then have "t = cur \<or> t \<in> set (splitTypename_loop 0 [] s)"
      using "2.prems"(2) by simp
    then show ?thesis
    proof
      assume "t = cur"
      then show ?thesis using "2.prems"(1)[of "[]"] "2.prems"(3) by simp
    next
      assume "t \<in> set (splitTypename_loop 0 [] s)"
      then show ?thesis using "2.IH"(1) True "2.prems"(3) by simp
    qed
  next
    case False
    define level' where "level' = (if c = CHR ''<'' then level + 1 else
      if c = CHR ''>'' then level - 1 else level)"
    have next_level: "splitTypename_loop level cur (c # r) = splitTypename_loop level' (cur @ [c]) r" for r
      using False by (simp add: level'_def)
    have "t \<in> set (splitTypename_loop level' (cur @ [c]) s)"
      using "2.prems"(2) next_level by simp
    moreover have "splitTypename_loop 0 [] ((cur @ [c]) @ r) = splitTypename_loop level' (cur @ [c]) r" for r
      using step next_level by simp
    ultimately show ?thesis
      using "2.IH"(2-5) False "2.prems"(3)
      by (cases "c = CHR ''/''") (simp_all add: level'_def split: if_splits)
  qed
qed

lemma splitTypename_absolute:
  "splitTypename (CHR ''/'' # r) = splitTypename_loop 0 [] r"
  by (simp add: splitTypename_def char_at_def)

lemma splitTypename_segment:
  assumes "t \<in> set (splitTypename (CHR ''/'' # r))" and "t \<noteq> []"
  shows "splitTypename t = [t]"
proof -
  have one: "splitTypename_loop 0 [] t = [t]"
    by (rule splitTypename_loop_segment[of "[]" 0 t r])
      (use assms in \<open>simp_all add: splitTypename_absolute\<close>)
  have "char_at t 0 \<noteq> CHR ''/''"
    using one assms(2) by (cases t) (auto simp: char_at_def)
  then show ?thesis using one by (simp add: splitTypename_def)
qed

text \<open>A name the registry accepts in practice: absolute, and not ending with a separator.\<close>

definition proper_name :: "string \<Rightarrow> bool" where
  "proper_name name \<longleftrightarrow> isAbsoluteName name \<and> last name \<noteq> NamespaceMark"

lemma proper_nameE:
  assumes "proper_name name"
  obtains r where "name = CHR ''/'' # r" and "r \<noteq> []" and "last r \<noteq> CHR ''/''"
  using assms
  by (cases name) (auto simp: proper_name_def isAbsoluteName_def NamespaceMark_def split: if_splits)

lemma getNamespace_ends_with_mark:
  "getNamespace name \<noteq> [] \<and> last (getNamespace name) = NamespaceMark"
  by (simp add: getNamespace_def NamespaceMark_def Let_def)

lemma normalized_getNamespace [simp]:
  "getNormalizedNamespace (getNamespace name) = getNamespace name"
  using getNamespace_ends_with_mark by (simp add: getNormalizedNamespace_def)

lemma namespace_typename_append:
  assumes "proper_name name"
  shows "getNamespace name @ getTypename name = name"
proof -
  obtain r where r: "name = CHR ''/'' # r" "r \<noteq> []" "last r \<noteq> CHR ''/''"
    using assms by (rule proper_nameE)
  define ts where "ts = splitTypename name"
  have ts: "ts = splitTypename_loop 0 [] r"
    by (simp add: ts_def r(1) splitTypename_absolute)
  have ne: "ts \<noteq> []" and cat: "concat (map (\<lambda>t. CHR ''/'' # t) ts) = name"
    using r splitTypename_loop_nonempty[of r] splitTypename_loop_concat[of r "[]" 0]
    by (simp_all add: ts)
  have "concat (map (\<lambda>t. CHR ''/'' # t) (butlast ts)) @ ''/'' @ last ts =
        concat (map (\<lambda>t. CHR ''/'' # t) (butlast ts @ [last ts]))"
    by simp
  with ne cat show ?thesis
    by (simp add: getNamespace_def getTypename_def ts_def[symmetric] Let_def)
qed

lemma getTypename_not_split:
  assumes "proper_name name"
  shows "splitTypename (getTypename name) = [getTypename name]"
proof -
  obtain r where r: "name = CHR ''/'' # r" "r \<noteq> []" "last r \<noteq> CHR ''/''"
    using assms by (rule proper_nameE)
  have ne: "splitTypename name \<noteq> []" and last: "last (splitTypename name) \<noteq> []"
    using r splitTypename_loop_nonempty[of r] splitTypename_loop_last[of r]
    by (simp_all add: splitTypename_absolute)
  then have "last (splitTypename name) \<in> set (splitTypename (CHR ''/'' # r))"
    using r(1) by (metis last_in_set)
  then show ?thesis
    using splitTypename_segment last ne by (simp add: getTypename_def Let_def)
qed

section \<open>The validator terminates\<close>

text \<open>An accepted part ends at or after the position where the scan started.\<close>

lemma isValidTypename_args_rejects:
  "isValidTypename_args fuel s i = Some (Inl r) \<Longrightarrow> \<not> fst r"
  by (induction fuel arbitrary: i) (auto split: if_splits option.splits)

lemma isValidTypename_progress:
  "isValidTypename_at fuel s pos ab acc = Some (True, j) \<Longrightarrow> pos \<le> length s \<Longrightarrow> pos \<le> j \<and> j \<le> length s"
  "isValidTypename_loop fuel s start i ab acc = Some (True, j) \<Longrightarrow> i \<le> length s \<Longrightarrow> i \<le> j \<and> j \<le> length s"
  "isValidTypename_args fuel s i = Some (Inr j) \<Longrightarrow> i < length s \<Longrightarrow> i \<le> j \<and> j < length s"
proof (induction fuel arbitrary: pos ab acc j start i)
  case 0
  {
    case 1 then show ?case by simp
  next
    case 2 then show ?case by simp
  next
    case 3 then show ?case by simp
  }
next
  case (Suc fuel)
  {
    case 1
    then show ?case using Suc(2)
      by (fastforce simp: char_at_def split: if_splits)
  next
    case 2
    then show ?case
      by (auto simp: Let_def split: if_splits option.splits sum.splits
          dest!: Suc(2) Suc(3) isValidTypename_args_rejects)
  next
    case 3
    then show ?case
      by (auto split: if_splits option.splits dest!: Suc(1) Suc(3))
  }
qed

text \<open>
  Three units of fuel per character are enough: a template argument costs one unit in the
  loop, one in the argument loop and one in the function, and consumes its bracket.
\<close>

lemma isValidTypename_enough_fuel:
  "pos \<le> length s \<Longrightarrow> 3 * (length s - pos) + 2 \<le> fuel \<Longrightarrow>
     isValidTypename_at fuel s pos ab acc \<noteq> None"
  "i \<le> length s \<Longrightarrow> 3 * (length s - i) + 1 \<le> fuel \<Longrightarrow>
     isValidTypename_loop fuel s start i ab acc \<noteq> None"
  "i < length s \<Longrightarrow> 3 * (length s - i) \<le> fuel \<Longrightarrow> isValidTypename_args fuel s i \<noteq> None"
proof (induction fuel arbitrary: pos ab acc start i)
  case 0
  {
    case 1 then show ?case by simp
  next
    case 2 then show ?case by simp
  next
    case 3 then show ?case by simp
  }
next
  case (Suc fuel)
  note at_ok = Suc(1) and loop_ok = Suc(2) and args_ok = Suc(3)
  {
    case 1
    have "isValidTypename_loop fuel s pos (if char_at s pos = CHR ''/'' then pos + 1 else pos) ab acc \<noteq> None"
      by (rule loop_ok) (use 1 in \<open>auto simp: char_at_def split: if_splits\<close>)
    then show ?case by simp
  next
    case 2
    have rec: "isValidTypename_loop fuel s st k ab acc \<noteq> None"
      if "i < k" "k \<le> length s" for st k ab acc
      by (rule loop_ok) (use that 2 in auto)
    have args: "isValidTypename_args fuel s i \<noteq> None" if "i < length s"
      by (rule args_ok) (use that 2 in auto)
    have after: "isValidTypename_loop fuel s (j + 1) (j + 1) ab acc \<noteq> None \<and>
        (j + 1 < length s \<longrightarrow> isValidTypename_loop fuel s (j + 1) (j + 2) ab acc \<noteq> None)"
      if "isValidTypename_args fuel s i = Some (Inr j)" "i < length s" for j
      using isValidTypename_progress(3)[OF that] rec by auto
    show ?case
    proof (cases "i < length s \<and> s ! i = CHR ''<''")
      case True
      then obtain r where r: "isValidTypename_args fuel s i = Some r" using args by blast
      show ?thesis
      proof (cases r)
        case (Inl x)
        then show ?thesis using r True by (auto simp: Let_def)
      next
        case (Inr j)
        then show ?thesis using r True after[of j]
          by (simp add: Let_def del: not_None_eq)
      qed
    next
      case False
      have more: "isValidTypename_loop fuel s st (Suc i) ab acc \<noteq> None"
          "Suc i < length s \<Longrightarrow> isValidTypename_loop fuel s st (Suc (Suc i)) ab acc \<noteq> None"
        if "i < length s" for st
        using rec[of "Suc i" st] rec[of "Suc (Suc i)" st] that by simp_all
      show ?thesis
        using False more by (cases "i < length s") (simp_all add: Let_def del: not_None_eq)
    qed
  next
    case 3
    have "isValidTypename_at fuel s (i + 1) True True \<noteq> None"
      by (rule at_ok) (use 3 in auto)
    moreover have "isValidTypename_args fuel s j \<noteq> None"
      if "isValidTypename_at fuel s (i + 1) True True = Some (True, j)" "j \<noteq> length s" for j
      using isValidTypename_progress(1)[OF that(1)] that(2) 3 by (intro args_ok) auto
    ultimately show ?case by (auto split: option.splits)
  }
qed

lemma isValidTypename_at_total: "\<exists>r. isValidTypename_at (typename_fuel s) s 0 ab acc = Some r"
  using isValidTypename_enough_fuel(1)[of 0 s "typename_fuel s" ab acc]
  unfolding typename_fuel_def not_None_eq by simp

declare isValidTypename_at.simps(2) [simp del] isValidTypename_loop.simps(2) [simp del]

section \<open>The order of type names is a map comparator\<close>

text \<open>On single characters the order is that of an integer key.\<close>

definition mark_key :: "char \<Rightarrow> int" where
  "mark_key c = (if c = CHR ''/'' then -129 else char_value c)"

lemma char_value_bounds: "-128 \<le> char_value c \<and> char_value c \<le> 127"
  using nat_of_char_less_256[of c]
  by (auto simp: char_value_def Let_def simp del: nat_of_char_less_256)

lemma char_value_inj: "char_value a = char_value b \<longleftrightarrow> a = b"
proof
  assume "char_value a = char_value b"
  then have "(of_char a :: nat) = of_char b"
    using nat_of_char_less_256[of a] nat_of_char_less_256[of b]
    by (auto simp: char_value_def Let_def simp del: nat_of_char_less_256 split: if_splits)
  then show "a = b" by simp
qed simp

lemma mark_key_inj: "mark_key a = mark_key b \<longleftrightarrow> a = b"
  using char_value_bounds[of a] char_value_bounds[of b] char_value_inj[of a b]
  by (auto simp: mark_key_def)

lemma nameSort_Cons:
  "nameSort (c1 # a) (c2 # b) \<longleftrightarrow> mark_key c1 < mark_key c2 \<or> c1 = c2 \<and> nameSort a b"
  using char_value_bounds[of c1] char_value_bounds[of c2] by (auto simp: mark_key_def)

lemma nameSort_Nil [simp]: "\<not> nameSort a []"
  by (cases a) auto

lemmas nameSort_simps = nameSort.simps(1) nameSort_Nil nameSort_Cons

lemma nameSort_trans: "nameSort a b \<Longrightarrow> nameSort b c \<Longrightarrow> nameSort a c"
proof (induction a arbitrary: b c)
  case Nil
  then show ?case by (cases c) auto
next
  case (Cons c1 a)
  then obtain c2 b' c3 c' where "b = c2 # b'" "c = c3 # c'"
    by (cases b; cases c) auto
  with Cons show ?case by (auto simp: nameSort_Cons simp del: nameSort.simps)
qed

interpretation nameSort_map: map_comparator nameSort
proof
  show "\<not> nameSort k k" for k by (induction k) auto
  show "nameSort a b \<Longrightarrow> nameSort b c \<Longrightarrow> nameSort a c" for a b c by (rule nameSort_trans)
  show "a \<noteq> b \<Longrightarrow> nameSort a b \<or> nameSort b a" for a b
  proof (induction a b rule: nameSort.induct)
    case (3 c1 a c2 b)
    then show ?case
      using mark_key_inj[of c1 c2] by (auto simp: nameSort_Cons simp del: nameSort.simps)
  qed auto
qed

text \<open>
  The names that start with a prefix form an interval of the order, which begins at the
  prefix itself: this is why \<open>importNamespace\<close> may stop at the first name outside.
\<close>

lemma nameSort_prefix_not_before: "starts_with p x \<Longrightarrow> \<not> nameSort x p"
  by (induction p x rule: starts_with.induct) auto

lemma nameSort_prefix_closed:
  "\<not> nameSort x p \<Longrightarrow> \<not> starts_with p x \<Longrightarrow> nameSort x y \<Longrightarrow> \<not> starts_with p y"
proof (induction x y arbitrary: p rule: nameSort.induct)
  case (1 y)
  then show ?case by (cases p) auto
next
  case (3 c1 x c2 y)
  then show ?case by (cases p) (auto split: if_splits)
qed simp

lemma takeWhile_prefix_filter:
  "omap_sorted nameSort m \<Longrightarrow> \<forall>e \<in> set m. \<not> nameSort (fst e) p \<Longrightarrow>
   takeWhile (\<lambda>e. starts_with p (fst e)) m = filter (\<lambda>e. starts_with p (fst e)) m"
proof (induction m)
  case (Cons e m)
  show ?case
  proof (cases "starts_with p (fst e)")
    case True
    with Cons show ?thesis by (cases e) auto
  next
    case False
    have "\<forall>x \<in> set m. \<not> starts_with p (fst x)"
      using Cons.prems False nameSort_prefix_closed[of "fst e" p] by (cases e) auto
    with False show ?thesis by (simp add: filter_empty_conv)
  qed
qed simp

text \<open>The namespace range from \<open>lower_bound\<close> holds exactly the names with the prefix.\<close>

lemma lower_bound_prefix_range:
  assumes "omap_sorted nameSort m"
  shows "takeWhile (\<lambda>e. starts_with p (fst e)) (omap_lower_bound nameSort p m) =
         filter (\<lambda>e. starts_with p (fst e)) m"
proof -
  have lb: "omap_lower_bound nameSort p m = filter (\<lambda>e. \<not> nameSort (fst e) p) m"
    using assms by (rule nameSort_map.omap_lower_bound_filter)
  have "takeWhile (\<lambda>e. starts_with p (fst e)) (omap_lower_bound nameSort p m) =
      filter (\<lambda>e. starts_with p (fst e)) (omap_lower_bound nameSort p m)"
    unfolding lb by (rule takeWhile_prefix_filter) (use assms in \<open>auto simp: omap_sorted_filter\<close>)
  also have "\<dots> = filter (\<lambda>e. starts_with p (fst e)) m"
    unfolding lb using nameSort_prefix_not_before by (auto intro: filter_cong)
  finally show ?thesis .
qed

section \<open>Names without modifiers and template arguments\<close>

definition plain_char :: "char \<Rightarrow> bool" where
  "plain_char c \<longleftrightarrow> c = CHR ''_'' \<or> c = CHR '' '' \<or> isalnum c"

definition path_name :: "string list \<Rightarrow> string" where
  "path_name segments = concat (map (\<lambda>t. CHR ''/'' # t) segments)"

lemma plain_char_not_special:
  "plain_char c \<Longrightarrow> c \<notin> set ''/<>[],*-''"
  by (auto simp: plain_char_def isalnum_def)

lemma find_first_of_plain: "list_all plain_char t \<Longrightarrow> find_first_of ''*['' t = None"
  by (induction t) (auto dest: plain_char_not_special)

lemma isValidTypeBasename_plain:
  assumes "list_all plain_char t"
  shows "isValidTypeBasename (CHR ''/'' # t) absolute False \<longleftrightarrow> t \<noteq> []"
proof -
  have "list_all (\<lambda>c. c = CHR ''_'' \<or> c = CHR '' '' \<or> isalnum c \<or> c = CHR ''<'' \<or> c = CHR ''>'') t"
    using assms by (auto simp: list_all_iff plain_char_def)
  then show ?thesis
    using find_first_of_plain[OF assms]
    by (simp add: isValidTypeBasename_def char_at_def isValidIdentifier_def)
qed

text \<open>The state of the scan: the part read so far is \<open>/cur\<close> and \<open>t\<close> is left of its segment.\<close>

lemma isValidTypename_loop_plain:
  assumes "isValidTypename_loop fuel s start i absolute False = Some r"
    and "start \<le> i" and "i \<le> length s" and "substr s start (i - start) = CHR ''/'' # cur"
    and "drop i s = t @ path_name segments"
    and "list_all plain_char cur" and "list_all plain_char t" and "list_all (list_all plain_char) segments"
  shows "fst r \<longleftrightarrow> cur @ t \<noteq> [] \<and> [] \<notin> set segments"
  using assms
proof (induction fuel arbitrary: start i cur t segments)
  case (Suc fuel)
  have step: "substr s start (Suc i - start) = substr s start (i - start) @ [s ! i]" if "i < length s"
    using that Suc.prems(2) by (simp add: substr_def Suc_diff_le take_Suc_conv_app_nth)
  consider (char) c t' where "t = c # t'" | (sep) u us where "t = []" "segments = u # us"
    | (fin) "t = []" "segments = []"
    by (cases t; cases segments) auto
  then show ?case
  proof cases
    case char
    then have i: "i < length s" "s ! i = c" "drop (Suc i) s = t' @ path_name segments"
      using Suc.prems(5) drop_eq_ConsD[of i s c] by simp_all
    have "isValidTypename_loop fuel s start (Suc i) absolute False = Some r"
      using Suc.prems(1,7) i char plain_char_not_special[of c]
      by (simp add: isValidTypename_loop.simps Let_def)
    then have "fst r \<longleftrightarrow> (cur @ [c]) @ t' \<noteq> [] \<and> [] \<notin> set segments"
      by (rule Suc.IH[where start = start]) (use Suc.prems i char step in \<open>auto\<close>)
    then show ?thesis using char by simp
  next
    case sep
    then have i: "i < length s" "s ! i = CHR ''/''" "drop (Suc i) s = u @ path_name us"
      using Suc.prems(5) drop_eq_ConsD[of i s] by (simp_all add: path_name_def)
    show ?thesis
    proof (cases "cur = []")
      case True
      then show ?thesis
        using Suc.prems(1,4) i sep isValidTypeBasename_plain[of "[]"]
        by (auto simp: isValidTypename_loop.simps Let_def)
    next
      case False
      have "isValidTypename_loop fuel s i (Suc i) absolute False = Some r"
        using Suc.prems(1,4,6) i False
        by (simp add: isValidTypename_loop.simps Let_def isValidTypeBasename_plain)
      then have "fst r \<longleftrightarrow> [] @ u \<noteq> [] \<and> [] \<notin> set us"
        by (rule Suc.IH[where start = i])
          (use Suc.prems i sep in \<open>auto simp: substr_def path_name_def\<close>)
      then show ?thesis using sep False by auto
    qed
  next
    case fin
    then have "i = length s" using Suc.prems(3,5) by (simp add: path_name_def)
    moreover have "start < length s"
      using Suc.prems(4) by (cases "start < length s") (simp_all add: substr_def)
    ultimately show ?thesis
      using Suc.prems(1,4,6) fin
      by (auto simp: isValidTypename_loop.simps isValidTypeBasename_plain)
  qed
qed simp

section \<open>Properties\<close>

text \<open>C28: The validation of a type name terminates on every string: the recursive
  \<open>isValidTypename\<close> never runs out of the fuel that is linear in the length of the name.\<close>

theorem isValidTypename_terminates:
  "isValidTypename_at (typename_fuel s) s 0 absolute accept_integers \<noteq> None"
  using isValidTypename_at_total[of s absolute accept_integers] by auto

text \<open>C29: An absolute type name that does not end with a separator is its namespace followed
  by its base name, and it lies in that namespace, both recursively and directly.\<close>

theorem getNamespace_getTypename:
  assumes "proper_name name"
  shows "getNamespace name @ getTypename name = name \<and>
    isInNamespace name (getNamespace name) recursive"
proof
  show append: "getNamespace name @ getTypename name = name"
    using assms by (rule namespace_typename_append)
  have "take (length (getNamespace name)) name = getNamespace name"
    and "drop (length (getNamespace name)) name = getTypename name"
    by (metis append append_eq_conv_conj)+
  then show "isInNamespace name (getNamespace name) recursive"
    using getTypename_not_split[OF assms] by (simp add: isInNamespace_def Let_def)
qed

theorem getNamespace_getTypename_witness:
  "getNamespace ''/A/B</C/D>/E'' @ getTypename ''/A/B</C/D>/E'' = ''/A/B</C/D>/E'' \<and>
   isInNamespace ''/A/B</C/D>/E'' (getNamespace ''/A/B</C/D>/E'') False \<and>
   getTypename ''/A/B</C/D>/E'' = ''E''"
proof -
  have h: "proper_name ''/A/B</C/D>/E''" by code_simp
  have e: "getTypename ''/A/B</C/D>/E'' = ''E''" by code_simp
  show ?thesis using getNamespace_getTypename[OF h] e by blast
qed

text \<open>On names without template arguments and modifiers the validator accepts exactly
  the non-empty paths of non-empty segments.\<close>

theorem isValidTypename_plain:
  assumes "list_all (list_all plain_char) segments"
  shows "isValidTypename (path_name segments) absolute \<longleftrightarrow> segments \<noteq> [] \<and> [] \<notin> set segments"
proof (cases segments)
  case Nil
  then show ?thesis by (simp add: path_name_def isValidTypename_def)
next
  case (Cons u us)
  let ?s = "path_name segments"
  have s: "?s = CHR ''/'' # u @ path_name us" using Cons by (simp add: path_name_def)
  obtain r where r: "isValidTypename_at (typename_fuel ?s) ?s 0 absolute False = Some r"
    using isValidTypename_at_total by blast
  obtain fuel where fuel: "typename_fuel ?s = Suc fuel"
    by (metis add_2_eq_Suc' typename_fuel_def)
  have "isValidTypename_loop fuel ?s 0 1 absolute False = Some r"
    using r s unfolding fuel by (simp add: char_at_def isValidTypename_at.simps)
  then have "fst r \<longleftrightarrow> [] @ u \<noteq> [] \<and> [] \<notin> set us"
    by (rule isValidTypename_loop_plain) (use assms Cons s in \<open>simp_all add: substr_def\<close>)
  then show ?thesis using r s Cons by (auto simp: isValidTypename_def)
qed

theorem isValidTypename_plain_witness:
  "isValidTypename (path_name [''base'', ''Time'']) True \<and>
   \<not> isValidTypename (path_name [''base'', []]) True"
proof -
  have h: "list_all (list_all plain_char) [''base'', ''Time'']"
    "list_all (list_all plain_char) [''base'', []]" by code_simp+
  show ?thesis using isValidTypename_plain[OF h(1)] isValidTypename_plain[OF h(2)] by simp
qed

text \<open>The validator is more permissive and more restrictive than a type name: it stops at a
  top-level closing bracket and ignores what follows, it accepts the absolute name \<open>[3]\<close>,
  which has no base at all, and it rejects the name of a pointer to a template type.\<close>

theorem isValidTypename_surprises:
  "isValidTypename ''/A>%$'' True \<and> isValidTypename ''[3]'' True \<and>
   \<not> isValidTypename (''/std/vector</int>'' @ ''*'') True"
  by code_simp

end
