(* ===== verification/TypeModel.thy ===== *)
theory TypeModel
  imports Typename "HOL-Library.Product_Lexorder"
begin

text \<open>
  The type model: \<open>typelib/typemodel.cc\<close> and \<open>typelib/typemodel.hh\<close>. \<open>Type\<close> objects are
  shared by reference and compared by address, so they live in an explicit \<open>store\<close> and a
  reference is a \<open>tid\<close>. Modelled here: metadata, the class hierarchy with its
  constructors, enumerations, compounds, and the comparison of types (\<open>isSame\<close>,
  \<open>canCastTo\<close>), which may run over cyclic type graphs. What needs a registry (merging,
  resizing, alias propagation) is in the theories that import \<open>Registry\<close>. Proved: the
  map laws of metadata and enumerations, that \<open>addField\<close> keeps a compound large enough
  for its fields, that the comparison terminates, and that a positive \<open>isSame\<close> comes with
  a bisimulation between the two type graphs.
\<close>

section \<open>Metadata\<close>

text \<open>\<open>std::map<std::string, std::set<std::string>>\<close>, both ordered.\<close>

type_synonym MetaData = "(string \<times> string list) list"

definition MetaData_include :: "MetaData \<Rightarrow> string \<Rightarrow> bool" where
  "MetaData_include m key = (map_of m key \<noteq> None)"

definition MetaData_get :: "MetaData \<Rightarrow> string \<Rightarrow> string list" where
  "MetaData_get m key = (case map_of m key of None \<Rightarrow> [] | Some values \<Rightarrow> values)"

definition MetaData_clear :: "MetaData \<Rightarrow> string \<Rightarrow> MetaData" where
  "MetaData_clear m key = omap_erase key m"

definition MetaData_add :: "MetaData \<Rightarrow> string \<Rightarrow> string \<Rightarrow> MetaData" where
  "MetaData_add m key value = omap_assign string_less key (List.insort_insert value (MetaData_get m key)) m"

definition MetaData_add_values :: "MetaData \<Rightarrow> string \<Rightarrow> string list \<Rightarrow> MetaData" where
  "MetaData_add_values m key values =
     omap_assign string_less key (fold List.insort_insert values (MetaData_get m key)) m"

definition MetaData_set :: "MetaData \<Rightarrow> string \<Rightarrow> string \<Rightarrow> MetaData" where
  "MetaData_set m key value = MetaData_add (MetaData_clear m key) key value"

definition MetaData_clear_all :: "MetaData \<Rightarrow> MetaData" where
  "MetaData_clear_all m = []"

definition MetaData_merge :: "MetaData \<Rightarrow> MetaData \<Rightarrow> MetaData" where
  "MetaData_merge m metadata = fold (\<lambda>(key, values) m'. MetaData_add_values m' key values) metadata m"

section \<open>Type objects\<close>

type_synonym tid = nat

datatype NumericCategory = SInt | UInt | Float

record Field =
  fld_name :: string
  fld_type :: tid
  fld_offset :: nat
  fld_metadata :: MetaData

text \<open>
  A container remembers its factory function; the two of the sources are those of
  \<open>std::vector\<close> and \<open>std::string\<close>. The values of an enumeration are a
  \<open>std::map<std::string, int>\<close>.
\<close>

datatype factory = VectorFactory | StringFactory

datatype kind =
    NullType
  | Array nat tid
  | Pointer tid
  | Numeric NumericCategory
  | Enum "(string \<times> int) list" int
  | Compound "Field list"
  | Opaque
  | Container string factory tid

datatype Category = CatNull | CatArray | CatPointer | CatNumeric | CatEnum | CatCompound
  | CatOpaque | CatContainer

record Type =
  ty_name :: string
  ty_size :: nat
  ty_kind :: kind
  ty_metadata :: MetaData

fun getCategory_of :: "kind \<Rightarrow> Category" where
  "getCategory_of NullType = CatNull"
| "getCategory_of (Array _ _) = CatArray"
| "getCategory_of (Pointer _) = CatPointer"
| "getCategory_of (Numeric _) = CatNumeric"
| "getCategory_of (Enum _ _) = CatEnum"
| "getCategory_of (Compound _) = CatCompound"
| "getCategory_of Opaque = CatOpaque"
| "getCategory_of (Container _ _ _) = CatContainer"

definition getCategory :: "Type \<Rightarrow> Category" where
  "getCategory t = getCategory_of (ty_kind t)"

definition isNull :: "Type \<Rightarrow> bool" where
  "isNull t = (getCategory t = CatNull)"

definition getBasename :: "Type \<Rightarrow> string" where
  "getBasename t = getTypename (ty_name t)"

definition Type_getNamespace :: "Type \<Rightarrow> string" where
  "Type_getNamespace t = getNamespace (ty_name t)"

text \<open>
  The store of type objects. \<open>new_type\<close> is \<open>new\<close>. References are never null; a dangling
  one is undefined behaviour, here the unspecified value of \<open>the None\<close>.
\<close>

record store =
  objects :: "tid \<rightharpoonup> Type"
  next_id :: tid

definition type_at :: "store \<Rightarrow> tid \<Rightarrow> Type" where
  "type_at st t = the (objects st t)"

definition new_type :: "store \<Rightarrow> Type \<Rightarrow> tid \<times> store" where
  "new_type st t = (next_id st, st\<lparr>objects := (objects st)(next_id st \<mapsto> t), next_id := Suc (next_id st)\<rparr>)"

definition update_type :: "store \<Rightarrow> tid \<Rightarrow> (Type \<Rightarrow> Type) \<Rightarrow> store" where
  "update_type st t f = st\<lparr>objects := (objects st)(t \<mapsto> f (type_at st t))\<rparr>"

definition setSize :: "store \<Rightarrow> tid \<Rightarrow> nat \<Rightarrow> store" where
  "setSize st t sz = update_type st t (\<lambda>t'. t'\<lparr>ty_size := sz\<rparr>)"

text \<open>Constructors. \<open>sizeof(int*)\<close> is 8 and \<open>sizeof(int)\<close> is 4.\<close>

definition Type_ctor :: "string \<Rightarrow> nat \<Rightarrow> kind \<Rightarrow> Type" where
  "Type_ctor name sz k = \<lparr>ty_name = name, ty_size = sz, ty_kind = k, ty_metadata = []\<rparr>"

definition NullType_ctor :: "string \<Rightarrow> Type" where
  "NullType_ctor name = Type_ctor name 0 NullType"

definition OpaqueType_ctor :: "string \<Rightarrow> nat \<Rightarrow> Type" where
  "OpaqueType_ctor name sz = Type_ctor name sz Opaque"

definition Numeric_ctor :: "string \<Rightarrow> nat \<Rightarrow> NumericCategory \<Rightarrow> Type" where
  "Numeric_ctor name sz category = Type_ctor name sz (Numeric category)"

definition Enum_ctor :: "string \<Rightarrow> int \<Rightarrow> Type" where
  "Enum_ctor name initial_value = Type_ctor name 4 (Enum [] (initial_value - 1))"

definition Compound_ctor :: "string \<Rightarrow> Type" where
  "Compound_ctor name = Type_ctor name 0 (Compound [])"

definition getArrayName :: "string \<Rightarrow> nat \<Rightarrow> string" where
  "getArrayName name dim = name @ ''['' @ show_nat dim @ '']''"

definition getPointerName :: "string \<Rightarrow> string" where
  "getPointerName base = base @ ''*''"

definition Array_ctor :: "store \<Rightarrow> tid \<Rightarrow> nat \<Rightarrow> Type" where
  "Array_ctor st elt new_dim =
     Type_ctor (getArrayName (ty_name (type_at st elt)) new_dim)
       (new_dim * ty_size (type_at st elt)) (Array new_dim elt)"

definition Pointer_ctor :: "store \<Rightarrow> tid \<Rightarrow> Type" where
  "Pointer_ctor st on = Type_ctor (getPointerName (ty_name (type_at st on))) 8 (Pointer on)"

text \<open>The types a type refers to directly.\<close>

fun kind_refs :: "kind \<Rightarrow> tid list" where
  "kind_refs (Array _ on) = [on]"
| "kind_refs (Pointer on) = [on]"
| "kind_refs (Container _ _ on) = [on]"
| "kind_refs (Compound flds) = map fld_type flds"
| "kind_refs _ = []"

definition dependsOn :: "Type \<Rightarrow> tid set" where
  "dependsOn t = set (kind_refs (ty_kind t))"

section \<open>Enumerations\<close>

definition Enum_add :: "(string \<times> int) list \<Rightarrow> int \<Rightarrow> string \<Rightarrow> int \<Rightarrow> ((string \<times> int) list \<times> int) result" where
  "Enum_add values last_value name value =
     (case map_of values name of
        None \<Rightarrow> Inr (omap_insert string_less name value values, value)
      | Some old \<Rightarrow> if old \<noteq> value then Inl (EnumAlreadyExists name) else Inr (values, value))"

definition Enum_get_symbol :: "(string \<times> int) list \<Rightarrow> string \<Rightarrow> int result" where
  "Enum_get_symbol values name =
     (case map_of values name of None \<Rightarrow> Inl (EnumSymbolNotFound name) | Some v \<Rightarrow> Inr v)"

fun Enum_get_value :: "(string \<times> int) list \<Rightarrow> int \<Rightarrow> string result" where
  "Enum_get_value [] value = Inl (EnumValueNotFound value)"
| "Enum_get_value ((symbol, v) # values) value =
     (if v = value then Inr symbol else Enum_get_value values value)"

definition Enum_names :: "(string \<times> int) list \<Rightarrow> string list" where
  "Enum_names values = map fst values"

text \<open>\<open>m_last_value + 1\<close> overflows at \<open>INT_MAX\<close>.\<close>

definition Enum_getNextValue :: "int \<Rightarrow> int result" where
  "Enum_getNextValue last_value =
     (if last_value = 2147483647 then Inl UndefinedBehaviour else Inr (last_value + 1))"

section \<open>Compounds\<close>

fun getField :: "Field list \<Rightarrow> string \<Rightarrow> Field option" where
  "getField [] name = None"
| "getField (f # flds) name = (if fld_name f = name then Some f else getField flds name)"

definition normalizeFieldOrder :: "Field list \<Rightarrow> Field list" where
  "normalizeFieldOrder flds = sort_key (\<lambda>f. (fld_offset f, fld_name f)) flds"

text \<open>A conversion of a \<open>size_t\<close> to \<open>int\<close>.\<close>

definition to_int32 :: "nat \<Rightarrow> int" where
  "to_int32 n = (let m = n mod 2 ^ 32 in if m < 2 ^ 31 then int m else int m - 2 ^ 32)"

definition getTrailingPadding :: "store \<Rightarrow> Type \<Rightarrow> nat" where
  "getTrailingPadding st t =
     (case ty_kind t of
        Compound flds \<Rightarrow>
          (if flds = [] then ty_size t mod 2 ^ 32
           else let max_offset = fold (\<lambda>f m.
                  let offset = to_int32 (fld_offset f + ty_size (type_at st (fld_type f)))
                  in if m < offset then offset else m) flds 0
                in nat ((int (ty_size t) - max_offset) mod 2 ^ 32))
      | _ \<Rightarrow> 0)"

definition addField :: "store \<Rightarrow> Type \<Rightarrow> string \<Rightarrow> tid \<Rightarrow> nat \<Rightarrow> Type" where
  "addField st t name type offset =
     (case ty_kind t of
        Compound flds \<Rightarrow>
          let t' = t\<lparr>ty_kind := Compound (flds @
                [\<lparr>fld_name = name, fld_type = type, fld_offset = offset, fld_metadata = []\<rparr>])\<rparr>;
              new_size = add_size_t offset (ty_size (type_at st type))
          in if ty_size t < new_size then t'\<lparr>ty_size := new_size\<rparr> else t'
      | _ \<Rightarrow> t)"

text \<open>Metadata of a compound is merged together with that of the fields of the same name.\<close>

definition Compound_mergeMetaData :: "Type \<Rightarrow> Type \<Rightarrow> Type" where
  "Compound_mergeMetaData t other =
     (let t' = t\<lparr>ty_metadata := MetaData_merge (ty_metadata t) (ty_metadata other)\<rparr> in
      case (ty_kind t, ty_kind other) of
        (Compound flds, Compound other_fields) \<Rightarrow>
          t'\<lparr>ty_kind := Compound (map (\<lambda>f. case getField other_fields (fld_name f) of
               None \<Rightarrow> f
             | Some g \<Rightarrow> f\<lparr>fld_metadata := MetaData_merge (fld_metadata f) (fld_metadata g)\<rparr>) flds)\<rparr>
      | _ \<Rightarrow> t')"

section \<open>Comparison\<close>

type_synonym RecursionStack = "tid \<rightharpoonup> tid"

definition Type_do_compare :: "Type \<Rightarrow> Type \<Rightarrow> bool" where
  "Type_do_compare l r = (ty_size l = ty_size r \<and> getCategory l = getCategory r)"

text \<open>Every symbol of the left enumeration has the same value on the right.\<close>

definition Enum_subset :: "(string \<times> int) list \<Rightarrow> (string \<times> int) list \<Rightarrow> bool" where
  "Enum_subset values other_values =
     (length values \<le> length other_values \<and>
      list_all (\<lambda>(symbol, v). map_of other_values symbol = Some v) values)"

type_synonym comparison = "tid \<Rightarrow> tid \<Rightarrow> bool \<Rightarrow> RecursionStack \<Rightarrow> (bool \<times> RecursionStack) option"

text \<open>
  \<open>rec_compare\<close> over a given \<open>do_compare\<close>, and the loop over the fields of two compounds,
  which threads the stack and stops at the first difference.
\<close>

definition rec_compare :: "comparison \<Rightarrow> comparison" where
  "rec_compare do_cmp left right equality stack =
     (if left = right then Some (True, stack)
      else case stack left of
        Some r \<Rightarrow> Some (right = r, stack)
      | None \<Rightarrow> do_cmp left right equality (stack(left \<mapsto> right)))"

fun compare_fields :: "comparison \<Rightarrow> Field list \<Rightarrow> Field list \<Rightarrow> bool \<Rightarrow> RecursionStack
    \<Rightarrow> (bool \<times> RecursionStack) option" where
  "compare_fields do_cmp (f # fs) (g # gs) equality stack =
     (if fld_name f \<noteq> fld_name g \<or> fld_offset f \<noteq> fld_offset g then Some (False, stack)
      else case rec_compare do_cmp (fld_type f) (fld_type g) equality stack of
        None \<Rightarrow> None
      | Some (False, stack') \<Rightarrow> Some (False, stack')
      | Some (True, stack') \<Rightarrow> compare_fields do_cmp fs gs equality stack')"
| "compare_fields do_cmp _ _ equality stack = Some (True, stack)"

text \<open>
  \<open>do_compare\<close> of each class, over the comparison \<open>cmp\<close> it recurses with. The casts to the
  class of the left type happen only once the categories agree. Arrays and containers
  compare their element types for strict equality whatever the flag.
\<close>

definition NullType_do_compare :: "Type \<Rightarrow> Type \<Rightarrow> bool" where
  "NullType_do_compare left right = (ty_name right = ty_name left)"

definition OpaqueType_do_compare :: "Type \<Rightarrow> Type \<Rightarrow> bool" where
  "OpaqueType_do_compare left right = (Type_do_compare left right \<and> ty_name left = ty_name right)"

definition Numeric_do_compare :: "Type \<Rightarrow> NumericCategory \<Rightarrow> Type \<Rightarrow> bool" where
  "Numeric_do_compare left category right =
     (ty_size left = ty_size right \<and> getCategory left = getCategory right \<and>
      ty_kind right = Numeric category)"

definition Enum_do_compare :: "Type \<Rightarrow> (string \<times> int) list \<Rightarrow> Type \<Rightarrow> bool \<Rightarrow> bool" where
  "Enum_do_compare left values right equality =
     (case ty_kind right of
        Enum other_values _ \<Rightarrow> Type_do_compare left right \<and>
          (if equality then values = other_values else Enum_subset values other_values)
      | _ \<Rightarrow> False)"

definition Indirect_do_compare :: "comparison \<Rightarrow> Type \<Rightarrow> tid \<Rightarrow> Type \<Rightarrow> tid \<Rightarrow> bool \<Rightarrow> RecursionStack
    \<Rightarrow> (bool \<times> RecursionStack) option" where
  "Indirect_do_compare cmp left on right other_on equality stack =
     (if \<not> Type_do_compare left right then Some (False, stack)
      else rec_compare cmp on other_on equality stack)"

definition Array_do_compare :: "comparison \<Rightarrow> Type \<Rightarrow> nat \<Rightarrow> tid \<Rightarrow> Type \<Rightarrow> bool \<Rightarrow> RecursionStack
    \<Rightarrow> (bool \<times> RecursionStack) option" where
  "Array_do_compare cmp left dim on right equality stack =
     (case ty_kind right of
        Array other_dim other_on \<Rightarrow>
          if \<not> Type_do_compare left right \<or> dim \<noteq> other_dim then Some (False, stack)
          else Indirect_do_compare cmp left on right other_on True stack
      | _ \<Rightarrow> Some (False, stack))"

definition Pointer_do_compare :: "comparison \<Rightarrow> Type \<Rightarrow> tid \<Rightarrow> Type \<Rightarrow> bool \<Rightarrow> RecursionStack
    \<Rightarrow> (bool \<times> RecursionStack) option" where
  "Pointer_do_compare cmp left on right equality stack =
     (case ty_kind right of
        Pointer other_on \<Rightarrow> Indirect_do_compare cmp left on right other_on equality stack
      | _ \<Rightarrow> Some (False, stack))"

definition Container_do_compare :: "comparison \<Rightarrow> Type \<Rightarrow> factory \<Rightarrow> tid \<Rightarrow> Type \<Rightarrow> bool \<Rightarrow> RecursionStack
    \<Rightarrow> (bool \<times> RecursionStack) option" where
  "Container_do_compare cmp left fac on right equality stack =
     (case ty_kind right of
        Container _ other_fac other_on \<Rightarrow>
          if \<not> Type_do_compare left right \<or> fac \<noteq> other_fac then Some (False, stack)
          else Indirect_do_compare cmp left on right other_on True stack
      | _ \<Rightarrow> Some (False, stack))"

definition Compound_do_compare :: "comparison \<Rightarrow> Type \<Rightarrow> Field list \<Rightarrow> Type \<Rightarrow> bool \<Rightarrow> RecursionStack
    \<Rightarrow> (bool \<times> RecursionStack) option" where
  "Compound_do_compare cmp left flds right equality stack =
     (case ty_kind right of
        Compound other_fields \<Rightarrow>
          if equality \<and> \<not> Type_do_compare left right then Some (False, stack)
          else if length flds \<noteq> length other_fields then Some (False, stack)
          else compare_fields cmp flds other_fields equality stack
      | _ \<Rightarrow> Some (False, stack))"

text \<open>
  The virtual call: dispatch on the class of the left type. The first argument is fuel;
  \<open>comparison_terminates\<close> gives the amount that is enough.
\<close>

primrec do_compare :: "nat \<Rightarrow> store \<Rightarrow> comparison" where
  "do_compare 0 st = (\<lambda>l r equality stack. None)"
| "do_compare (Suc fuel) st = (\<lambda>l r equality stack.
     let left = type_at st l; right = type_at st r in
     case ty_kind left of
       NullType \<Rightarrow> Some (NullType_do_compare left right, stack)
     | Opaque \<Rightarrow> Some (OpaqueType_do_compare left right, stack)
     | Numeric category \<Rightarrow> Some (Numeric_do_compare left category right, stack)
     | Enum values last_value \<Rightarrow> Some (Enum_do_compare left values right equality, stack)
     | Array dim on \<Rightarrow> Array_do_compare (do_compare fuel st) left dim on right equality stack
     | Pointer on \<Rightarrow> Pointer_do_compare (do_compare fuel st) left on right equality stack
     | Container k fac on \<Rightarrow> Container_do_compare (do_compare fuel st) left fac on right equality stack
     | Compound flds \<Rightarrow> Compound_do_compare (do_compare fuel st) left flds right equality stack)"

lemmas class_compare_defs = NullType_do_compare_def OpaqueType_do_compare_def Numeric_do_compare_def
  Enum_do_compare_def Indirect_do_compare_def Array_do_compare_def Pointer_do_compare_def
  Container_do_compare_def Compound_do_compare_def

text \<open>One unit of fuel per object of the store, and one more.\<close>

definition compare_fuel :: "store \<Rightarrow> nat" where
  "compare_fuel st = Suc (next_id st)"

definition isSame :: "store \<Rightarrow> tid \<Rightarrow> tid \<Rightarrow> bool option" where
  "isSame st this other =
     (if this = other then Some True
      else map_option fst (do_compare (compare_fuel st) st this other True [this \<mapsto> other]))"

definition canCastTo :: "store \<Rightarrow> tid \<Rightarrow> tid \<Rightarrow> bool option" where
  "canCastTo st this other =
     (if this = other then Some True
      else map_option fst (do_compare (compare_fuel st) st this other False [this \<mapsto> other]))"

section \<open>Laws of metadata and enumerations\<close>

definition MetaData_ok :: "MetaData \<Rightarrow> bool" where
  "MetaData_ok m \<longleftrightarrow> omap_sorted string_less m \<and>
     (\<forall>values \<in> snd ` set m. sorted values \<and> distinct values)"

lemma MetaData_get_ok: "MetaData_ok m \<Longrightarrow> sorted (MetaData_get m key) \<and> distinct (MetaData_get m key)"
  by (auto simp: MetaData_ok_def MetaData_get_def split: option.splits dest!: map_of_SomeD)

lemma insort_insert_ok:
  "sorted vs \<and> distinct vs \<Longrightarrow> sorted (List.insort_insert v vs) \<and> distinct (List.insort_insert v vs)"
  by (simp add: sorted_insort_insert distinct_insort_insert)

lemma fold_insort_insert:
  "set (fold List.insort_insert xs vs) = set xs \<union> set vs"
  "sorted vs \<and> distinct vs \<Longrightarrow>
     sorted (fold List.insort_insert xs vs) \<and> distinct (fold List.insort_insert xs vs)"
proof (induction xs arbitrary: vs)
  case (Cons v xs)
  { case 1 then show ?case using Cons by (auto simp: set_insort_insert) }
  { case 2 then show ?case using Cons(2)[OF insort_insert_ok] by simp }
qed auto

lemma omap_assign_values:
  "snd ` set (omap_assign lt k v m) \<subseteq> insert v (snd ` set m)"
  by (induction lt k v m rule: omap_assign.induct) auto

lemma MetaData_assign_ok:
  "MetaData_ok m \<Longrightarrow> sorted vs \<and> distinct vs \<Longrightarrow> MetaData_ok (omap_assign string_less key vs m)"
proof -
  assume m: "MetaData_ok m" and vs: "sorted vs \<and> distinct vs"
  have "\<forall>x \<in> snd ` set (omap_assign string_less key vs m). sorted x \<and> distinct x"
    using omap_assign_values[of string_less key vs m] m vs unfolding MetaData_ok_def by blast
  then show ?thesis using m by (simp add: MetaData_ok_def string_map.omap_sorted_assign)
qed

lemma MetaData_add_values_ok: "MetaData_ok m \<Longrightarrow> MetaData_ok (MetaData_add_values m key xs)"
  by (simp add: MetaData_add_values_def MetaData_assign_ok MetaData_get_ok fold_insort_insert)

lemma MetaData_get_assign:
  "MetaData_ok m \<Longrightarrow> MetaData_get (omap_assign string_less key vs m) k =
     (if k = key then vs else MetaData_get m k)"
  by (simp add: MetaData_get_def MetaData_ok_def string_map.omap_find_assign)

lemma MetaData_include_assign:
  "MetaData_ok m \<Longrightarrow> MetaData_include (omap_assign string_less key vs m) k \<longleftrightarrow>
     k = key \<or> MetaData_include m k"
  by (simp add: MetaData_include_def MetaData_ok_def string_map.omap_find_assign)

lemma MetaData_include_key: "MetaData_include m k \<longleftrightarrow> k \<in> fst ` set m"
  by (force simp: MetaData_include_def map_of_eq_None_iff)

lemma MetaData_merge_laws:
  assumes "MetaData_ok m" and "MetaData_ok other"
  shows "MetaData_ok (MetaData_merge m other) \<and>
     set (MetaData_get (MetaData_merge m other) k) = set (MetaData_get m k) \<union> set (MetaData_get other k) \<and>
     (MetaData_include (MetaData_merge m other) k \<longleftrightarrow> MetaData_include m k \<or> MetaData_include other k)"
  using assms
proof (induction other arbitrary: m)
  case Nil
  then show ?case by (simp add: MetaData_merge_def MetaData_get_def MetaData_include_def)
next
  case (Cons e other)
  obtain key xs where e: "e = (key, xs)" by fastforce
  let ?m = "MetaData_add_values m key xs"
  have other: "MetaData_ok other" and fresh: "map_of other key = None"
    using Cons.prems(2) e by (auto simp: MetaData_ok_def map_of_eq_None_iff string_less_def)
  have step: "MetaData_merge m (e # other) = MetaData_merge ?m other"
    by (simp add: MetaData_merge_def e)
  have m: "MetaData_ok ?m" using Cons.prems(1) by (rule MetaData_add_values_ok)
  have get: "MetaData_get (e # other) k = (if k = key then xs else MetaData_get other k)"
    and key: "MetaData_get other key = []"
    and inc: "MetaData_include (e # other) k \<longleftrightarrow> k = key \<or> MetaData_include other k"
    using fresh by (simp_all add: e MetaData_get_def MetaData_include_def)
  have get_m: "set (MetaData_get ?m k) = (if k = key then set xs else {}) \<union> set (MetaData_get m k)"
    and inc_m: "MetaData_include ?m k \<longleftrightarrow> k = key \<or> MetaData_include m k"
    using Cons.prems(1)
    by (simp_all add: MetaData_add_values_def MetaData_get_assign MetaData_include_assign fold_insort_insert)
  show ?case
    using Cons.IH[OF m other] unfolding step get inc get_m inc_m by (auto simp: key)
qed

lemma Enum_get_value_sound:
  "distinct (map fst xs) \<Longrightarrow> Enum_get_value xs v = Inr symbol \<Longrightarrow>
   map_of xs symbol = Some v"
  by (induction xs v rule: Enum_get_value.induct)
    (auto split: if_splits dest!: map_of_SomeD intro: rev_image_eqI)

lemma Enum_get_value_complete:
  "map_of xs symbol = Some v \<Longrightarrow> \<exists>symbol'. Enum_get_value xs v = Inr symbol'"
  by (induction xs v rule: Enum_get_value.induct) (auto split: if_splits)

section \<open>Compounds contain their fields\<close>

definition fields_fit :: "store \<Rightarrow> Type \<Rightarrow> bool" where
  "fields_fit st t = (case ty_kind t of
     Compound flds \<Rightarrow> list_all (\<lambda>f. fld_offset f + ty_size (type_at st (fld_type f)) \<le> ty_size t) flds
   | _ \<Rightarrow> True)"

section \<open>The comparison of types\<close>

text \<open>
  A store is well formed when it holds only allocated objects and every reference in it
  points to an object.
\<close>

definition wf_store :: "store \<Rightarrow> bool" where
  "wf_store st \<longleftrightarrow> (\<forall>t obj. objects st t = Some obj \<longrightarrow>
     t < next_id st \<and> set (kind_refs (ty_kind obj)) \<subseteq> dom (objects st))"

lemma wf_store_finite: "wf_store st \<Longrightarrow> dom (objects st) \<subseteq> {..< next_id st}"
  by (auto simp: wf_store_def)

lemma wf_store_refs:
  "wf_store st \<Longrightarrow> t \<in> dom (objects st) \<Longrightarrow> u \<in> set (kind_refs (ty_kind (type_at st t))) \<Longrightarrow>
   u \<in> dom (objects st)"
  unfolding wf_store_def type_at_def by fastforce

text \<open>The objects that may still enter the recursion stack.\<close>

definition pending :: "store \<Rightarrow> RecursionStack \<Rightarrow> nat" where
  "pending st stack = card (dom (objects st) - dom stack)"

lemma pending_mono:
  assumes "wf_store st" and "dom s \<subseteq> dom s'"
  shows "pending st s' \<le> pending st s"
  unfolding pending_def
  using assms finite_subset[OF wf_store_finite[OF assms(1)]] by (intro card_mono) auto

lemma pending_insert:
  assumes "wf_store st" and "l \<in> dom (objects st)" and "s l = None"
  shows "pending st (s(l \<mapsto> r)) < pending st s"
  unfolding pending_def
  using assms finite_subset[OF wf_store_finite[OF assms(1)]] by (intro psubset_card_mono) auto

text \<open>
  A comparison is good for \<open>n\<close> when it returns, and only extends the stack, on every stack
  with fewer than \<open>n\<close> pending objects.
\<close>

definition comparison_returns :: "store \<Rightarrow> nat \<Rightarrow> comparison \<Rightarrow> bool" where
  "comparison_returns st n cmp \<longleftrightarrow> (\<forall>l r equality stack.
     l \<in> dom (objects st) \<longrightarrow> pending st stack < n \<longrightarrow>
     (\<exists>b stack'. cmp l r equality stack = Some (b, stack') \<and> stack \<subseteq>\<^sub>m stack'))"

lemma rec_compare_returns:
  assumes "wf_store st" and "comparison_returns st n cmp" and "l \<in> dom (objects st)"
    and "pending st stack < Suc n"
  shows "\<exists>b stack'. rec_compare cmp l r equality stack = Some (b, stack') \<and> stack \<subseteq>\<^sub>m stack'"
proof (cases "l = r \<or> stack l \<noteq> None")
  case True
  then show ?thesis by (auto simp: rec_compare_def)
next
  case False
  then have "pending st (stack(l \<mapsto> r)) < n"
    using pending_insert[OF assms(1,3), of stack r] assms(4) by auto
  then obtain b stack' where "cmp l r equality (stack(l \<mapsto> r)) = Some (b, stack')"
    and "stack(l \<mapsto> r) \<subseteq>\<^sub>m stack'"
    using assms(2,3) unfolding comparison_returns_def by blast
  moreover have "stack \<subseteq>\<^sub>m stack(l \<mapsto> r)" using False by (auto simp: map_le_def)
  ultimately show ?thesis using False by (auto simp: rec_compare_def intro: map_le_trans)
qed

lemma compare_fields_returns:
  assumes "wf_store st" and "comparison_returns st n cmp"
    and "fld_type ` set fs \<subseteq> dom (objects st)" and "pending st stack < Suc n"
  shows "\<exists>b stack'. compare_fields cmp fs gs equality stack = Some (b, stack') \<and> stack \<subseteq>\<^sub>m stack'"
  using assms(3,4)
proof (induction fs arbitrary: gs stack)
  case (Cons f fs)
  show ?case
  proof (cases "gs = [] \<or> fld_name f \<noteq> fld_name (hd gs) \<or> fld_offset f \<noteq> fld_offset (hd gs)")
    case True
    then show ?thesis by (cases gs) auto
  next
    case False
    then obtain g gs' where g: "gs = g # gs'" by (cases gs) auto
    obtain b s where b: "rec_compare cmp (fld_type f) (fld_type g) equality stack = Some (b, s)"
      and le: "stack \<subseteq>\<^sub>m s"
      using rec_compare_returns[OF assms(1,2) _ Cons.prems(2), of "fld_type f"] Cons.prems(1)
      by (meson image_subset_iff list.set_intros(1))
    show ?thesis
    proof (cases b)
      case True
      have "pending st s < Suc n"
        using pending_mono[OF assms(1), of stack s] map_le_implies_dom_le[OF le] Cons.prems(2) by simp
      then obtain b' s' where "compare_fields cmp fs gs' equality s = Some (b', s')" "s \<subseteq>\<^sub>m s'"
        using Cons.IH[of s gs'] Cons.prems(1) by auto
      then show ?thesis using True False b g le by (auto intro: map_le_trans)
    next
      case False
      then show ?thesis using b g le \<open>\<not> (gs = [] \<or> _)\<close> by auto
    qed
  qed
qed auto

lemma do_compare_returns:
  assumes "wf_store st"
  shows "comparison_returns st n (do_compare n st)"
proof (induction n)
  case 0
  then show ?case by (simp add: comparison_returns_def)
next
  case (Suc n)
  show ?case
    unfolding comparison_returns_def
  proof (intro allI impI)
    fix l r equality stack
    assume l: "l \<in> dom (objects st)" and pend: "pending st stack < Suc n"
    note rec = rec_compare_returns[OF assms Suc.IH _ pend]
      and flds = compare_fields_returns[OF assms Suc.IH _ pend]
      and refs = wf_store_refs[OF assms l]
    show "\<exists>b stack'. do_compare (Suc n) st l r equality stack = Some (b, stack') \<and> stack \<subseteq>\<^sub>m stack'"
    proof (cases "ty_kind (type_at st l)")
      case (Compound x)
      then have "fld_type ` set x \<subseteq> dom (objects st)" using refs by auto
      from flds[OF this] show ?thesis using Compound by (simp add: Let_def class_compare_defs split: kind.split)
    next
      case (Array d u)
      then have "u \<in> dom (objects st)" using refs by simp
      from rec[OF this] show ?thesis using Array by (simp add: Let_def class_compare_defs split: kind.split)
    next
      case (Pointer u)
      then have "u \<in> dom (objects st)" using refs by simp
      from rec[OF this] show ?thesis using Pointer by (simp add: Let_def class_compare_defs split: kind.split)
    next
      case (Container k fac u)
      then have "u \<in> dom (objects st)" using refs by simp
      from rec[OF this] show ?thesis using Container by (simp add: Let_def class_compare_defs split: kind.split)
    qed (simp_all add: Let_def)
  qed
qed

subsection \<open>A positive comparison is a bisimulation\<close>

text \<open>
  Two types have the same shape over \<open>R\<close> when they agree in everything but their names
  (which count for null and opaque types only) and refer to types that are identical or
  related by \<open>R\<close>. A relation all of whose pairs have the same shape over itself is a
  bisimulation: no observation through references can tell related types apart.
\<close>

definition same_shape :: "store \<Rightarrow> tid rel \<Rightarrow> tid \<Rightarrow> tid \<Rightarrow> bool" where
  "same_shape st R l r =
     (let left = type_at st l; right = type_at st r in
      case ty_kind left of
        NullType \<Rightarrow> ty_name left = ty_name right
      | Opaque \<Rightarrow> Type_do_compare left right \<and> ty_name left = ty_name right
      | Numeric category \<Rightarrow> Type_do_compare left right \<and> ty_kind right = Numeric category
      | Enum xs last_value \<Rightarrow> Type_do_compare left right \<and> (\<exists>last'. ty_kind right = Enum xs last')
      | Array dim on \<Rightarrow> Type_do_compare left right \<and>
          (\<exists>on'. ty_kind right = Array dim on' \<and> (on, on') \<in> R\<^sup>=)
      | Pointer on \<Rightarrow> Type_do_compare left right \<and>
          (\<exists>on'. ty_kind right = Pointer on' \<and> (on, on') \<in> R\<^sup>=)
      | Container k fac on \<Rightarrow> Type_do_compare left right \<and>
          (\<exists>k' on'. ty_kind right = Container k' fac on' \<and> (on, on') \<in> R\<^sup>=)
      | Compound fs \<Rightarrow> Type_do_compare left right \<and>
          (\<exists>gs. ty_kind right = Compound gs \<and> list_all2 (\<lambda>f g. fld_name f = fld_name g \<and>
             fld_offset f = fld_offset g \<and> (fld_type f, fld_type g) \<in> R\<^sup>=) fs gs))"

definition bisimulation :: "store \<Rightarrow> tid rel \<Rightarrow> bool" where
  "bisimulation st R \<longleftrightarrow> (\<forall>(l, r) \<in> R. same_shape st R l r)"

lemma same_shape_mono:
  assumes "R \<subseteq> S" and "same_shape st R l r"
  shows "same_shape st S l r"
proof -
  have sub: "p \<in> R\<^sup>= \<Longrightarrow> p \<in> S\<^sup>=" for p using assms(1) by blast
  show ?thesis
  proof (cases "ty_kind (type_at st l)")
    case (Compound fs)
    then obtain gs where gs: "ty_kind (type_at st r) = Compound gs"
      "list_all2 (\<lambda>f g. fld_name f = fld_name g \<and>
             fld_offset f = fld_offset g \<and> (fld_type f, fld_type g) \<in> R\<^sup>=) fs gs"
      "Type_do_compare (type_at st l) (type_at st r)"
      using assms(2) by (auto simp: same_shape_def Let_def)
    have "list_all2 (\<lambda>f g. fld_name f = fld_name g \<and>
             fld_offset f = fld_offset g \<and> (fld_type f, fld_type g) \<in> S\<^sup>=) fs gs"
      by (rule list_all2_mono[OF gs(2)]) (use sub in blast)
    then show ?thesis using gs(1,3) Compound by (simp add: same_shape_def)
  qed (use assms(2) sub in \<open>auto simp: same_shape_def Let_def\<close>)
qed

text \<open>What a step from stack \<open>s\<close> to stack \<open>s'\<close> has established.\<close>

definition extends :: "store \<Rightarrow> RecursionStack \<Rightarrow> RecursionStack \<Rightarrow> bool" where
  "extends st s s' \<longleftrightarrow> s \<subseteq>\<^sub>m s' \<and>
     (\<forall>a b. s' a = Some b \<longrightarrow> s a = None \<longrightarrow> same_shape st (Map.graph s') a b)"

lemma map_le_graph: "s \<subseteq>\<^sub>m s' \<Longrightarrow> Map.graph s \<subseteq> Map.graph s'"
  by (auto simp: Map.graph_def map_le_def dom_def)

lemma extends_refl [simp]: "extends st s s"
  by (simp add: extends_def)

lemma extends_trans:
  assumes "extends st s t" and "extends st t u"
  shows "extends st s u"
  unfolding extends_def
proof (intro conjI allI impI)
  show "s \<subseteq>\<^sub>m u" using assms by (auto simp: extends_def intro: map_le_trans)
  fix a b assume u: "u a = Some b" and s: "s a = None"
  show "same_shape st (Map.graph u) a b"
  proof (cases "t a")
    case None
    then show ?thesis using assms(2) u by (simp add: extends_def)
  next
    case (Some c)
    then have "u a = Some c" using assms(2) by (auto simp: extends_def map_le_def dom_def)
    then have "same_shape st (Map.graph t) a b" using assms(1) Some s u by (simp add: extends_def)
    then show ?thesis using assms(2) map_le_graph same_shape_mono by (metis extends_def)
  qed
qed

definition comparison_sound :: "store \<Rightarrow> comparison \<Rightarrow> bool" where
  "comparison_sound st cmp \<longleftrightarrow> (\<forall>l r s s'. cmp l r True s = Some (True, s') \<longrightarrow>
     extends st s s' \<and> same_shape st (Map.graph s') l r)"

lemma rec_compare_sound:
  assumes "comparison_sound st cmp" and "rec_compare cmp l r True s = Some (True, s')"
  shows "extends st s s' \<and> (l, r) \<in> (Map.graph s')\<^sup>="
proof (cases "l = r \<or> s l \<noteq> None")
  case True
  then show ?thesis using assms(2)
    by (auto simp: rec_compare_def Map.graph_def split: if_splits option.splits)
next
  case False
  then have cmp: "cmp l r True (s(l \<mapsto> r)) = Some (True, s')"
    using assms(2) by (simp add: rec_compare_def)
  then have ext: "extends st (s(l \<mapsto> r)) s'" and shape: "same_shape st (Map.graph s') l r"
    using assms(1) by (simp_all add: comparison_sound_def)
  have lr: "s' l = Some r" using ext by (auto simp: extends_def map_le_def)
  have "s \<subseteq>\<^sub>m s(l \<mapsto> r)" using False by (auto simp: map_le_def)
  then have le: "s \<subseteq>\<^sub>m s'" using ext by (auto simp: extends_def intro: map_le_trans)
  have "same_shape st (Map.graph s') a b" if "s' a = Some b" "s a = None" for a b
    using that ext shape lr by (cases "a = l") (auto simp: extends_def)
  then show ?thesis using le lr by (simp add: extends_def Map.graph_def)
qed

lemma compare_fields_sound:
  assumes "comparison_sound st cmp" and "compare_fields cmp fs gs True s = Some (True, s')"
    and "length fs = length gs"
  shows "extends st s s' \<and> list_all2 (\<lambda>f g. fld_name f = fld_name g \<and>
     fld_offset f = fld_offset g \<and> (fld_type f, fld_type g) \<in> (Map.graph s')\<^sup>=) fs gs"
  using assms(3,2)
proof (induction fs gs arbitrary: s rule: list_induct2)
  case (Cons f fs g gs)
  from Cons.prems obtain t where names: "fld_name f = fld_name g" "fld_offset f = fld_offset g"
    and t: "rec_compare cmp (fld_type f) (fld_type g) True s = Some (True, t)"
    and rest: "compare_fields cmp fs gs True t = Some (True, s')"
    by (auto split: if_splits option.splits bool.splits)
  from rec_compare_sound[OF assms(1) t] have "extends st s t"
    and pair: "(fld_type f, fld_type g) \<in> (Map.graph t)\<^sup>=" by simp_all
  with Cons.IH[OF rest] have ext: "extends st s s'" and t_s': "extends st t s'"
    by (auto intro: extends_trans)
  have "(fld_type f, fld_type g) \<in> (Map.graph s')\<^sup>="
    using pair map_le_graph t_s' by (auto simp: extends_def)
  with Cons.IH[OF rest] ext names show ?case by simp
qed simp

lemma do_compare_sound: "comparison_sound st (do_compare n st)"
proof (induction n)
  case 0
  then show ?case by (simp add: comparison_sound_def)
next
  case (Suc n)
  show ?case
    unfolding comparison_sound_def
  proof (intro allI impI)
    fix l r s s'
    assume cmp: "do_compare (Suc n) st l r True s = Some (True, s')"
    note rec = rec_compare_sound[OF Suc.IH] and flds = compare_fields_sound[OF Suc.IH]
    show "extends st s s' \<and> same_shape st (Map.graph s') l r"
    proof (cases "ty_kind (type_at st l)")
      case (Compound fs)
      then obtain gs where "ty_kind (type_at st r) = Compound gs" "length fs = length gs"
        "compare_fields (do_compare n st) fs gs True s = Some (True, s')"
        "Type_do_compare (type_at st l) (type_at st r)"
        using cmp by (auto simp: Let_def class_compare_defs split: kind.splits if_splits)
      then show ?thesis using flds Compound by (auto simp: same_shape_def Let_def)
    next
      case (Array d u)
      then show ?thesis using cmp
        by (auto simp: same_shape_def Let_def class_compare_defs Type_do_compare_def split: kind.splits if_splits dest!: rec)
    next
      case (Pointer u)
      then show ?thesis using cmp
        by (auto simp: same_shape_def Let_def class_compare_defs Type_do_compare_def split: kind.splits if_splits dest!: rec)
    next
      case (Container k fac u)
      then show ?thesis using cmp
        by (auto simp: same_shape_def Let_def class_compare_defs Type_do_compare_def split: kind.splits if_splits dest!: rec)
    qed (use cmp in \<open>auto simp: same_shape_def Let_def class_compare_defs Type_do_compare_def split: kind.splits\<close>)
  qed
qed

section \<open>Properties\<close>

text \<open>
  A store with two linked list nodes, recursive through a pointer and equal up to their
  names, and with two enumerations one of which extends the other.
\<close>

definition list_node :: "string \<Rightarrow> tid \<Rightarrow> Type" where
  "list_node name next_ptr = (Compound_ctor name)\<lparr>ty_size := 16, ty_kind := Compound
     [\<lparr>fld_name = ''next'', fld_type = next_ptr, fld_offset = 0, fld_metadata = []\<rparr>,
      \<lparr>fld_name = ''v'', fld_type = 0, fld_offset = 8, fld_metadata = []\<rparr>]\<rparr>"

definition list_example :: store where
  "list_example = \<lparr>objects =
     [0 \<mapsto> Numeric_ctor ''/int'' 4 SInt,
      1 \<mapsto> list_node ''/A'' 2, 2 \<mapsto> Type_ctor ''/A*'' 8 (Pointer 1),
      3 \<mapsto> list_node ''/B'' 4, 4 \<mapsto> Type_ctor ''/B*'' 8 (Pointer 3)], next_id = 5\<rparr>"

definition cast_pair :: "string \<Rightarrow> string \<Rightarrow> tid \<Rightarrow> string \<Rightarrow> tid \<Rightarrow> nat \<Rightarrow> Type" where
  "cast_pair name f1 t1 f2 t2 offset2 = (Compound_ctor name)\<lparr>ty_size := 12, ty_kind := Compound
     [\<lparr>fld_name = f1, fld_type = t1, fld_offset = 0, fld_metadata = []\<rparr>,
      \<lparr>fld_name = f2, fld_type = t2, fld_offset = offset2, fld_metadata = []\<rparr>]\<rparr>"

definition cast_example :: store where
  "cast_example = \<lparr>objects =
     [0 \<mapsto> Type_ctor ''/E'' 4 (Enum [(''A'', 1)] 1),
      1 \<mapsto> Type_ctor ''/F'' 4 (Enum [(''A'', 1), (''B'', 2)] 2),
      2 \<mapsto> Type_ctor ''/E[2]'' 8 (Array 2 0), 3 \<mapsto> Type_ctor ''/F[2]'' 8 (Array 2 1),
      4 \<mapsto> cast_pair ''/S1'' ''b'' 0 ''a'' 2 4, 5 \<mapsto> cast_pair ''/S2'' ''b'' 1 ''a'' 3 4,
      6 \<mapsto> cast_pair ''/S3'' ''a'' 2 ''b'' 0 8, 7 \<mapsto> cast_pair ''/S4'' ''a'' 3 ''b'' 1 8],
     next_id = 8\<rparr>"

lemmas list_example_simps = list_example_def list_node_def Numeric_ctor_def Compound_ctor_def Type_ctor_def

lemma list_example_wf: "wf_store list_example"
  by (simp add: wf_store_def list_example_simps)

lemma list_example_same: "isSame list_example 1 3 = Some True"
  by code_simp

lemma getField_append:
  "getField (xs @ ys) n = (case getField xs n of None \<Rightarrow> getField ys n | Some f \<Rightarrow> Some f)"
  by (induction xs) auto


text \<open>
  C30: Merging metadata keeps the representation invariant (ordered keys, ordered value sets
  without duplicates), and the merged object has, for every key, the union of the values
  of both; a key is present exactly when it is in one of them.
\<close>

theorem MetaData_merge_union:
  assumes "MetaData_ok m" and "MetaData_ok other"
  shows "MetaData_ok (MetaData_merge m other) \<and>
     set (MetaData_get (MetaData_merge m other) key) =
       set (MetaData_get m key) \<union> set (MetaData_get other key) \<and>
     (MetaData_include (MetaData_merge m other) key \<longleftrightarrow>
       MetaData_include m key \<or> MetaData_include other key)"
  by (rule MetaData_merge_laws[OF assms])

theorem MetaData_merge_union_witness:
  "set (MetaData_get (MetaData_merge [(''doc'', [''a''])] [(''doc'', [''b'']), (''unit'', [])]) ''doc'')
     = {''a'', ''b''}"
proof -
  have "MetaData_ok [(''doc'', [''a''])]" "MetaData_ok [(''doc'', [''b'']), (''unit'', [])]"
    by (simp_all add: MetaData_ok_def string_less_def)
  from MetaData_merge_union[OF this, of "''doc''"] show ?thesis
    by (auto simp: MetaData_get_def)
qed

text \<open>
  C31: Enumerations: adding a symbol throws \<open>EnumAlreadyExists\<close> if the symbol is known with
  another value. In every other case it succeeds: the symbol is then readable under its
  value, every other symbol is kept, the symbols stay ordered, automatic numbering continues
  from the value, and looking the value up finds a symbol that has it.
\<close>

theorem Enum_add_get:
  assumes "omap_sorted string_less xs"
  shows "if \<exists>old. Enum_get_symbol xs name = Inr old \<and> old \<noteq> v
    then Enum_add xs last_value name v = Inl (EnumAlreadyExists name)
    else \<exists>ys. Enum_add xs last_value name v = Inr (ys, v) \<and> omap_sorted string_less ys \<and>
      Enum_get_symbol ys name = Inr v \<and>
      (\<forall>other. other \<noteq> name \<longrightarrow> Enum_get_symbol ys other = Enum_get_symbol xs other) \<and>
      (\<exists>symbol. Enum_get_value ys v = Inr symbol \<and> Enum_get_symbol ys symbol = Inr v)"
proof (cases "\<exists>old. Enum_get_symbol xs name = Inr old \<and> old \<noteq> v")
  case True
  then show ?thesis by (auto simp: Enum_add_def Enum_get_symbol_def split: option.splits)
next
  case False
  then obtain ys where add: "Enum_add xs last_value name v = Inr (ys, v)" and ys: "omap_sorted string_less ys"
    and find: "map_of ys = (map_of xs)(name \<mapsto> v)"
    using assms by (force simp: Enum_add_def Enum_get_symbol_def string_map.omap_sorted_insert
        string_map.omap_find_insert split: option.splits)
  then have "map_of ys name = Some v" by simp
  from Enum_get_value_complete[OF this] obtain symbol where "Enum_get_value ys v = Inr symbol" ..
  moreover from this have "map_of ys symbol = Some v"
    by (intro Enum_get_value_sound) (simp_all add: string_map.omap_sorted_distinct ys)
  ultimately show ?thesis using False add ys find by (auto simp: Enum_get_symbol_def)
qed

theorem Enum_add_get_witness:
  "(\<exists>ys. Enum_add [(''A'', 0), (''B'', 1)] 1 ''C'' 1 = Inr (ys, 1) \<and> Enum_get_symbol ys ''C'' = Inr 1 \<and>
     Enum_get_symbol ys ''A'' = Inr 0) \<and>
   Enum_add [(''A'', 0), (''B'', 1)] 1 ''A'' 5 = Inl (EnumAlreadyExists ''A'')"
proof -
  have "omap_sorted string_less [(''A'', 0::int), (''B'', 1)]" by (simp add: string_less_def)
  note add = Enum_add_get[OF this, where last_value = 1]
  show ?thesis using add[of "''C''" 1] add[of "''A''" 5] by (auto simp: Enum_get_symbol_def)
qed

text \<open>
  C33: Adding a field to a compound that contains all its fields, where the end of the new
  field is a \<open>size_t\<close>, gives a compound that contains all its fields, the new one
  included. It is as large as before or as the end of the new field, whichever is larger; a
  field already there is found unchanged, and the new name is found if it was not used before.
\<close>

theorem addField_fits:
  assumes "ty_kind t = Compound flds" and "fields_fit st t"
    and "offset + ty_size (type_at st type) < 2 ^ 64"
    and "t' = addField st t name type offset"
  shows "fields_fit st t' \<and> ty_size t' = max (ty_size t) (offset + ty_size (type_at st type)) \<and>
     (\<exists>flds'. ty_kind t' = Compound flds' \<and> length flds' = Suc (length flds) \<and>
        (\<forall>n f. getField flds n = Some f \<longrightarrow> getField flds' n = Some f) \<and>
        (getField flds name = None \<longrightarrow>
           map_option fld_type (getField flds' name) = Some type \<and>
           map_option fld_offset (getField flds' name) = Some offset))"
proof -
  let ?f = "\<lparr>fld_name = name, fld_type = type, fld_offset = offset, fld_metadata = []\<rparr>"
  have kind: "ty_kind t' = Compound (flds @ [?f])"
    and sz: "ty_size t' = max (ty_size t) (offset + ty_size (type_at st type))"
    using assms(1,3) by (auto simp: assms(4) addField_def Let_def)
  have "fields_fit st t'"
    using assms(1,2) by (auto simp: fields_fit_def kind sz list_all_iff)
  then show ?thesis using getField_append[of flds "[?f]"] by (simp add: kind sz)
qed

theorem addField_fits_witness:
  "fields_fit list_example (addField list_example (Compound_ctor ''/S'') ''f'' 0 4) \<and>
   ty_size (addField list_example (Compound_ctor ''/S'') ''f'' 0 4) = 8"
  using addField_fits[of "Compound_ctor ''/S''" "[]" list_example 4 0 _ "''f''"]
  by (simp add: Compound_ctor_def Type_ctor_def fields_fit_def list_example_simps type_at_def)

text \<open>
  C27: The comparison of two types terminates on every type graph, however cyclic: with one
  unit of fuel per object, \<open>isSame\<close> and \<open>canCastTo\<close> always return a verdict.
\<close>

theorem comparison_terminates:
  assumes "wf_store st" and "l \<in> dom (objects st)"
  shows "isSame st l r \<noteq> None \<and> canCastTo st l r \<noteq> None"
proof -
  have "pending st [l \<mapsto> r] < compare_fuel st"
    using card_mono[OF _ wf_store_finite[OF assms(1)]] card_mono[of "{..< next_id st}" "dom (objects st) - {l}"]
      wf_store_finite[OF assms(1)] by (fastforce simp: pending_def compare_fuel_def)
  then show ?thesis
    using do_compare_returns[OF assms(1), of "compare_fuel st"] assms(2)
    unfolding comparison_returns_def isSame_def canCastTo_def by fastforce
qed

theorem comparison_terminates_witness:
  "isSame list_example 1 3 \<noteq> None \<and> canCastTo list_example 1 3 \<noteq> None"
  by (rule comparison_terminates[OF list_example_wf]) (simp add: list_example_def)

text \<open>
  C26: A positive \<open>isSame\<close> is justified by a bisimulation: there is a relation that holds
  between the two types, and related types agree in size, class, enumeration values, array
  dimension, container factory, field names and offsets, and refer to identical or related
  types.
\<close>

theorem isSame_bisimulation:
  assumes "isSame st l r = Some True"
  shows "l = r \<or> (\<exists>R. (l, r) \<in> R \<and> bisimulation st R)"
proof (cases "l = r")
  case False
  then obtain s where "do_compare (compare_fuel st) st l r True [l \<mapsto> r] = Some (True, s)"
    using assms by (auto simp: isSame_def)
  then have ext: "extends st [l \<mapsto> r] s" and lr: "same_shape st (Map.graph s) l r"
    using do_compare_sound[of st "compare_fuel st"] by (auto simp: comparison_sound_def)
  have pair: "(l, r) \<in> Map.graph s" using ext by (auto simp: extends_def map_le_def Map.graph_def)
  have "same_shape st (Map.graph s) a b" if "(a, b) \<in> Map.graph s" for a b
    using that ext lr pair by (cases "a = l") (auto simp: extends_def Map.graph_def)
  then show ?thesis using pair by (auto simp: bisimulation_def)
qed simp

theorem isSame_bisimulation_witness:
  "\<exists>R. (1, 3) \<in> R \<and> bisimulation list_example R"
  using isSame_bisimulation[OF list_example_same] by simp

text \<open>
  The verdict of \<open>canCastTo\<close> depends on the order in which the fields are compared. The
  recursion stack remembers that a pair of types was compared, not whether it was compared
  for equality or for inclusion: a structure whose first field is an enumeration and whose
  second is an array of it can be cast to the structure with the larger enumeration,
  although the array cannot; with the two fields swapped it cannot.
\<close>

theorem canCastTo_field_order:
  "canCastTo cast_example 2 3 = Some False \<and>
   canCastTo cast_example 4 5 = Some True \<and>
   canCastTo cast_example 6 7 = Some False"
  by code_simp

end
