(* ===== verification/MemoryLayout.thy ===== *)
theory MemoryLayout
  imports TypeModel
begin

text \<open>
  Memory layouts: \<open>typelib/memory_layout.cc\<close>, \<open>typelib/memory_layout.hh\<close> and the dispatch
  of \<open>typelib/typevisitor.cc\<close>. A layout is bytecode in a \<open>std::vector<size_t>\<close>: here a list
  of naturals, and an iterator into it is the rest of the list, the end iterator the empty
  list. The operand of a container operation is the address of the container type, here
  its \<open>tid\<close>. Reading an operand behind the end is undefined behaviour.
\<close>

section \<open>Bytecode\<close>

definition FLAG_MEMCPY :: nat where "FLAG_MEMCPY = 0"

definition FLAG_ARRAY :: nat where "FLAG_ARRAY = 1"

definition FLAG_CONTAINER :: nat where "FLAG_CONTAINER = 2"

definition FLAG_SKIP :: nat where "FLAG_SKIP = 3"

definition FLAG_END :: nat where "FLAG_END = 4"

definition FLAG_INIT :: nat where "FLAG_INIT = 0"

definition FLAG_INIT_REPEAT :: nat where "FLAG_INIT_REPEAT = 1"

definition FLAG_INIT_CONTAINER :: nat where "FLAG_INIT_CONTAINER = FLAG_CONTAINER"

definition FLAG_INIT_SKIP :: nat where "FLAG_INIT_SKIP = FLAG_SKIP"

definition FLAG_INIT_END :: nat where "FLAG_INIT_END = FLAG_END"

lemmas flag_defs = FLAG_MEMCPY_def FLAG_ARRAY_def FLAG_CONTAINER_def FLAG_SKIP_def FLAG_END_def
  FLAG_INIT_def FLAG_INIT_REPEAT_def FLAG_INIT_CONTAINER_def FLAG_INIT_SKIP_def FLAG_INIT_END_def

record MemoryLayout =
  ops :: "nat list"
  init_ops :: "nat list"

definition empty_layout :: MemoryLayout where
  "empty_layout = \<lparr>ops = [], init_ops = []\<rparr>"

definition isMemcpy :: "MemoryLayout \<Rightarrow> bool" where
  "isMemcpy l = (length (ops l) = 2 \<and> hd (ops l) = FLAG_MEMCPY)"

section \<open>Building layouts\<close>

definition pushGenericOp :: "MemoryLayout \<Rightarrow> nat \<Rightarrow> nat \<Rightarrow> MemoryLayout" where
  "pushGenericOp l op element = l\<lparr>ops := ops l @ [op, element]\<rparr>"

definition pushEnd :: "MemoryLayout \<Rightarrow> MemoryLayout" where
  "pushEnd l = l\<lparr>ops := ops l @ [FLAG_END]\<rparr>"

definition pushInitGenericOp :: "MemoryLayout \<Rightarrow> nat \<Rightarrow> nat \<Rightarrow> MemoryLayout" where
  "pushInitGenericOp l op element = l\<lparr>init_ops := init_ops l @ [op, element]\<rparr>"

definition pushInitEnd :: "MemoryLayout \<Rightarrow> MemoryLayout" where
  "pushInitEnd l = l\<lparr>init_ops := init_ops l @ [FLAG_INIT_END]\<rparr>"

definition pushInit :: "MemoryLayout \<Rightarrow> nat list \<Rightarrow> MemoryLayout" where
  "pushInit l data = (let l' = pushInitGenericOp l FLAG_INIT (length data)
     in l'\<lparr>init_ops := init_ops l' @ data\<rparr>)"

definition pushInitSkip :: "MemoryLayout \<Rightarrow> nat \<Rightarrow> MemoryLayout" where
  "pushInitSkip l sz = pushInitGenericOp l FLAG_INIT_SKIP sz"

definition pushInitRepeat :: "MemoryLayout \<Rightarrow> nat \<Rightarrow> MemoryLayout \<Rightarrow> MemoryLayout" where
  "pushInitRepeat l dimension array_ops =
     (let l' = pushInitGenericOp l FLAG_INIT_REPEAT dimension
      in pushInitEnd (l'\<lparr>init_ops := init_ops l' @ init_ops array_ops\<rparr>))"

definition pushInitContainer :: "MemoryLayout \<Rightarrow> tid \<Rightarrow> MemoryLayout" where
  "pushInitContainer l container = pushInitGenericOp l FLAG_INIT_CONTAINER container"

definition pushMemcpy :: "MemoryLayout \<Rightarrow> nat \<Rightarrow> nat list \<Rightarrow> MemoryLayout result" where
  "pushMemcpy l sz init_data =
     (let l' = pushGenericOp l FLAG_MEMCPY sz in
      if init_data = [] then Inr (pushInitSkip l' sz)
      else if sz \<noteq> length init_data then Inl RuntimeError
      else Inr (pushInit l' init_data))"

definition pushSkip :: "MemoryLayout \<Rightarrow> nat \<Rightarrow> MemoryLayout" where
  "pushSkip l sz = pushInitSkip (pushGenericOp l FLAG_SKIP sz) sz"

definition pushArray :: "MemoryLayout \<Rightarrow> nat \<Rightarrow> MemoryLayout \<Rightarrow> MemoryLayout" where
  "pushArray l dimension array_ops =
     (let l' = pushGenericOp l FLAG_ARRAY dimension
      in pushInitRepeat (pushEnd (l'\<lparr>ops := ops l' @ ops array_ops\<rparr>)) dimension array_ops)"

definition pushContainer :: "MemoryLayout \<Rightarrow> tid \<Rightarrow> MemoryLayout \<Rightarrow> MemoryLayout" where
  "pushContainer l type container_ops =
     (let l' = pushGenericOp l FLAG_CONTAINER type
      in pushInitContainer (pushEnd (l'\<lparr>ops := ops l' @ ops container_ops\<rparr>)) type)"

lemmas push_defs = pushGenericOp_def pushEnd_def pushInitGenericOp_def pushInitEnd_def pushInit_def
  pushInitSkip_def pushInitRepeat_def pushInitContainer_def pushMemcpy_def pushSkip_def pushArray_def
  pushContainer_def

section \<open>The layout of a type\<close>

text \<open>
  One definition per \<open>visit_\<close> of the visitor, over the dispatch it recurses with. Arrays
  and containers use a new visitor, which accepts neither pointers nor opaque types.
\<close>

type_synonym layout_visit = "bool \<Rightarrow> bool \<Rightarrow> tid \<Rightarrow> MemoryLayout \<Rightarrow> MemoryLayout result"

definition visit_Numeric :: "Type \<Rightarrow> MemoryLayout \<Rightarrow> MemoryLayout result" where
  "visit_Numeric t l = pushMemcpy l (ty_size t) []"

text \<open>The bytes of the first enumeration value, converted to \<open>uint64_t\<close>, little end first.\<close>

definition enum_init_data :: "(string \<times> int) list \<Rightarrow> nat \<Rightarrow> nat list" where
  "enum_init_data values sz =
     (case values of
        [] \<Rightarrow> []
      | (_, v) # _ \<Rightarrow> map (\<lambda>i. nat (v mod 2 ^ 64) div 256 ^ i mod 256) [0..<sz])"

definition visit_Enum :: "Type \<Rightarrow> (string \<times> int) list \<Rightarrow> MemoryLayout \<Rightarrow> MemoryLayout result" where
  "visit_Enum t values l =
     (if ty_size t > 8 then Inl RuntimeError
      else pushMemcpy l (ty_size t) (enum_init_data values (ty_size t)))"

definition visit_Array :: "layout_visit \<Rightarrow> nat \<Rightarrow> tid \<Rightarrow> MemoryLayout \<Rightarrow> MemoryLayout result" where
  "visit_Array visit dim on l =
     bind_result (visit False False on empty_layout) (\<lambda>subops. Inr (pushArray l dim subops))"

definition visit_Container :: "layout_visit \<Rightarrow> tid \<Rightarrow> tid \<Rightarrow> MemoryLayout \<Rightarrow> MemoryLayout result" where
  "visit_Container visit t on l =
     bind_result (visit False False on empty_layout) (\<lambda>subops. Inr (pushContainer l t subops))"

definition visit_field :: "store \<Rightarrow> (tid \<Rightarrow> MemoryLayout \<Rightarrow> MemoryLayout result) \<Rightarrow>
    nat \<times> MemoryLayout \<Rightarrow> Field \<Rightarrow> (nat \<times> MemoryLayout) result" where
  "visit_field st visit s f =
     (case s of (current_offset, l) \<Rightarrow>
      bind_result (visit (fld_type f) (pushSkip l (sub_size_t (fld_offset f) current_offset)))
        (\<lambda>l'. Inr (add_size_t (fld_offset f) (ty_size (type_at st (fld_type f))), l')))"

definition visit_Compound :: "store \<Rightarrow> (tid \<Rightarrow> MemoryLayout \<Rightarrow> MemoryLayout result) \<Rightarrow>
    Type \<Rightarrow> Field list \<Rightarrow> MemoryLayout \<Rightarrow> MemoryLayout result" where
  "visit_Compound st visit t flds l =
     bind_result (fold_result (visit_field st visit) (0, l) flds)
       (\<lambda>(current_offset, l'). Inr (pushSkip l' (sub_size_t (ty_size t) current_offset)))"

definition visit_Pointer :: "bool \<Rightarrow> Type \<Rightarrow> MemoryLayout \<Rightarrow> MemoryLayout result" where
  "visit_Pointer accept_pointers t l =
     (if accept_pointers then pushMemcpy l (ty_size t) [] else Inl (NoLayout (ty_name t)))"

definition visit_Opaque :: "bool \<Rightarrow> Type \<Rightarrow> MemoryLayout \<Rightarrow> MemoryLayout result" where
  "visit_Opaque accept_opaques t l =
     (if accept_opaques then Inr (pushSkip l (ty_size t)) else Inl (NoLayout (ty_name t)))"

text \<open>\<open>TypeVisitor::dispatch\<close>. The fuel bounds the nesting of types.\<close>

fun visit :: "nat \<Rightarrow> store \<Rightarrow> layout_visit" where
  "visit 0 st accept_pointers accept_opaques t l = Inl OutOfFuel"
| "visit (Suc fuel) st accept_pointers accept_opaques t l =
    (let obj = type_at st t in
     case ty_kind obj of
       NullType \<Rightarrow> Inl (NullTypeFound (ty_name obj))
     | Numeric _ \<Rightarrow> visit_Numeric obj l
     | Enum values _ \<Rightarrow> visit_Enum obj values l
     | Array dim on \<Rightarrow> visit_Array (visit fuel st) dim on l
     | Pointer on \<Rightarrow> visit_Pointer accept_pointers obj l
     | Opaque \<Rightarrow> visit_Opaque accept_opaques obj l
     | Compound flds \<Rightarrow> visit_Compound st (visit fuel st accept_pointers accept_opaques) obj flds l
     | Container _ _ on \<Rightarrow> visit_Container (visit fuel st) t on l)"

definition raw_layout_of :: "store \<Rightarrow> tid \<Rightarrow> bool \<Rightarrow> bool \<Rightarrow> MemoryLayout result" where
  "raw_layout_of st t accept_pointers accept_opaques =
     visit (Suc (next_id st)) st accept_pointers accept_opaques t empty_layout"

section \<open>Simplification\<close>

text \<open>\<open>std::vector::resize\<close>; the largest size of a vector of \<open>size_t\<close> is below \<open>2 ^ 60\<close>.\<close>

definition resize_ops :: "nat list \<Rightarrow> nat \<Rightarrow> nat list result" where
  "resize_ops xs n = (if n < 2 ^ 60 then Inr (take n xs @ replicate (n - length xs) 0) else Inl LengthError)"

definition push_pending :: "nat list \<Rightarrow> nat \<Rightarrow> nat \<Rightarrow> nat list" where
  "push_pending simplified op count = (if count \<noteq> 0 then simplified @ [op, count] else simplified)"

text \<open>\<open>simplifyBlock\<close> checks that the recursive call stopped at \<open>FLAG_END\<close>.\<close>

definition expect_end :: "(nat list \<times> nat list) result \<Rightarrow> (nat list \<times> nat list) result" where
  "expect_end r = bind_result r (\<lambda>(it, simplified).
     case it of
       [] \<Rightarrow> Inl InvalidMemoryLayout
     | op # _ \<Rightarrow> if op \<noteq> FLAG_END then Inl InvalidMemoryLayout else Inr (it, simplified))"

text \<open>
  The loop of \<open>simplify\<close>: \<open>it\<close> is the input, \<open>simplified\<close> the output, followed by
  \<open>current_op\<close>, \<open>current_op_count\<close> and \<open>current_skip_count\<close>. It returns the iterator it
  stopped at and the output. The fuel exceeds the length of the input.
\<close>

fun simplify_loop :: "nat \<Rightarrow> bool \<Rightarrow> bool \<Rightarrow> nat \<Rightarrow> nat list \<Rightarrow> nat list \<Rightarrow> nat \<Rightarrow> nat \<Rightarrow> nat
    \<Rightarrow> (nat list \<times> nat list) result" where
  "simplify_loop 0 merge_skip_copy remove_trailing_skips depth it simplified cur_op cur_count cur_skip =
     Inl OutOfFuel"
| "simplify_loop (Suc fuel) merge_skip_copy remove_trailing_skips depth it simplified cur_op cur_count cur_skip =
     (case it of
        [] \<Rightarrow> Inr ([], if cur_count \<noteq> 0 \<and> (\<not> remove_trailing_skips \<or> cur_op \<noteq> FLAG_SKIP \<or> depth > 0)
                then simplified @ [cur_op, sub_size_t cur_count cur_skip] else simplified)
      | op # rest \<Rightarrow>
        let loop = simplify_loop fuel merge_skip_copy remove_trailing_skips in
        if op = FLAG_END then Inr (it, push_pending simplified cur_op cur_count)
        else (case rest of
          [] \<Rightarrow> Inl UndefinedBehaviour
        | operand # rest' \<Rightarrow>
          if op = FLAG_ARRAY then
            let simplified' = push_pending simplified cur_op cur_count @ [FLAG_ARRAY, operand];
                content_i = length simplified'
            in bind_result (expect_end (loop (depth + 1) rest' simplified' FLAG_MEMCPY 0 0)) (\<lambda>(it', s).
                 if length s - content_i = 2 then
                   let op' = s ! content_i; count = mul_size_t (s ! (content_i + 1)) operand in
                   if op' = cur_op \<and> cur_count \<noteq> 0 then
                     bind_result (resize_ops s (sub_size_t content_i 4))
                       (\<lambda>s'. loop depth (tl it') s' cur_op (add_size_t cur_count count) 0)
                   else
                     bind_result (resize_ops s (sub_size_t content_i 2))
                       (\<lambda>s'. loop depth (tl it') s' op' count 0)
                 else if length s - content_i = 0 then
                   bind_result (resize_ops s (sub_size_t content_i 4))
                     (\<lambda>s'. loop depth (tl it') s' cur_op cur_count 0)
                 else loop depth (tl it') (s @ [FLAG_END]) cur_op 0 0)
          else if op = FLAG_CONTAINER then
            let simplified' = push_pending simplified cur_op cur_count @ [FLAG_CONTAINER, operand]
            in bind_result (expect_end (loop (depth + 1) rest' simplified' FLAG_MEMCPY 0 0)) (\<lambda>(it', s).
                 loop depth (tl it') (s @ [FLAG_END]) cur_op 0 0)
          else
            let skip = (if op = FLAG_SKIP then add_size_t cur_skip operand else 0) in
            if op = cur_op then loop depth rest' simplified cur_op (add_size_t cur_count operand) skip
            else if merge_skip_copy then loop depth rest' simplified FLAG_MEMCPY (add_size_t cur_count operand) skip
            else loop depth rest' (push_pending simplified cur_op cur_count) op operand skip))"

declare simplify_loop.simps(2) [simp del]

definition simplify_ops :: "bool \<Rightarrow> bool \<Rightarrow> nat list \<Rightarrow> nat list result" where
  "simplify_ops merge_skip_copy remove_trailing_skips l =
     bind_result (simplify_loop (Suc (length l)) merge_skip_copy remove_trailing_skips 0 l [] FLAG_MEMCPY 0 0)
       (\<lambda>(it, merged). if it \<noteq> [] then Inl InvalidMemoryLayout else Inr merged)"

text \<open>The same for the initialization bytecode; \<open>init_data\<close> collects adjacent \<open>FLAG_INIT\<close> blocks.\<close>

definition push_init_data :: "nat list \<Rightarrow> nat list \<Rightarrow> nat list" where
  "push_init_data simplified init_data =
     (if init_data \<noteq> [] then simplified @ [FLAG_INIT, length init_data] @ init_data else simplified)"

fun simplifyInit_loop :: "nat \<Rightarrow> bool \<Rightarrow> nat list \<Rightarrow> nat list \<Rightarrow> nat \<Rightarrow> nat list
    \<Rightarrow> (nat list \<times> nat list) result" where
  "simplifyInit_loop 0 shave_last_skip it simplified cur_count init_data = Inl OutOfFuel"
| "simplifyInit_loop (Suc fuel) shave_last_skip it simplified cur_count init_data =
     (case it of
        [] \<Rightarrow> Inr ([], if cur_count \<noteq> 0 \<and> \<not> shave_last_skip
                then push_pending simplified FLAG_INIT_SKIP cur_count
                else push_init_data simplified init_data)
      | op # rest \<Rightarrow>
        if op = FLAG_INIT_END then
          Inr (it, if cur_count \<noteq> 0 then push_pending simplified FLAG_INIT_SKIP cur_count
                   else push_init_data simplified init_data)
        else (case rest of
          [] \<Rightarrow> Inl UndefinedBehaviour
        | operand # rest' \<Rightarrow>
          if op = FLAG_INIT then
            (if length rest' < operand then Inl UndefinedBehaviour
             else simplifyInit_loop fuel shave_last_skip (drop operand rest')
               (push_pending simplified FLAG_INIT_SKIP cur_count) 0
               (init_data @ map (\<lambda>b. b mod 256) (take operand rest')))
          else
            let simplified0 = push_init_data simplified init_data in
            if op = FLAG_INIT_REPEAT then
              let simplified' = push_pending simplified0 FLAG_INIT_SKIP cur_count @ [FLAG_INIT_REPEAT, operand];
                  content_i = length simplified'
              in bind_result (expect_end (simplifyInit_loop fuel False rest' simplified' 0 [])) (\<lambda>(it', s).
                   if length s - content_i = 2 \<and> s ! content_i = FLAG_INIT_SKIP then
                     let count = mul_size_t (s ! (content_i + 1)) operand in
                     if cur_count \<noteq> 0 then
                       bind_result (resize_ops s (sub_size_t content_i 4))
                         (\<lambda>s'. simplifyInit_loop fuel shave_last_skip (tl it') s' (add_size_t cur_count count) [])
                     else
                       bind_result (resize_ops s (sub_size_t content_i 2))
                         (\<lambda>s'. simplifyInit_loop fuel shave_last_skip (tl it') s' count [])
                   else if length s - content_i = 0 then
                     bind_result (resize_ops s (sub_size_t content_i 4))
                       (\<lambda>s'. simplifyInit_loop fuel shave_last_skip (tl it') s' cur_count [])
                   else simplifyInit_loop fuel shave_last_skip (tl it') (s @ [FLAG_INIT_END]) 0 [])
            else if op = FLAG_INIT_CONTAINER then
              simplifyInit_loop fuel shave_last_skip rest'
                (push_pending simplified0 FLAG_INIT_SKIP cur_count @ [FLAG_INIT_CONTAINER, operand]) 0 []
            else if op = FLAG_INIT_SKIP then
              simplifyInit_loop fuel shave_last_skip rest' simplified0 (add_size_t cur_count operand) []
            else Inl InvalidMemoryLayout))"

declare simplifyInit_loop.simps(2) [simp del]

definition simplifyInit :: "nat list \<Rightarrow> nat list result" where
  "simplifyInit l =
     bind_result (simplifyInit_loop (Suc (length l)) True l [] 0 []) (\<lambda>(it, simplified).
       if it \<noteq> [] then Inl InvalidMemoryLayout
       else Inr (if length simplified = 2 \<and> hd simplified = FLAG_INIT_SKIP then [] else simplified))"

definition simplify :: "bool \<Rightarrow> bool \<Rightarrow> MemoryLayout \<Rightarrow> MemoryLayout result" where
  "simplify merge_skip_copy remove_trailing_skips l =
     bind_result (simplify_ops merge_skip_copy remove_trailing_skips (ops l)) (\<lambda>merged.
       bind_result (simplifyInit (init_ops l)) (\<lambda>init.
         Inr \<lparr>ops = merged, init_ops = init\<rparr>))"

definition layout_of :: "store \<Rightarrow> tid \<Rightarrow> bool \<Rightarrow> bool \<Rightarrow> bool \<Rightarrow> bool \<Rightarrow> MemoryLayout result" where
  "layout_of st t accept_pointers accept_opaques merge_skip_copy remove_trailing_skips =
     bind_result (raw_layout_of st t accept_pointers accept_opaques)
       (simplify merge_skip_copy remove_trailing_skips)"

section \<open>Validation and skipping\<close>

text \<open>\<open>++it\<close> at the last element and the increment of the loop step behind the end.\<close>

fun validate_ops :: "nat \<Rightarrow> nat list \<Rightarrow> unit result" where
  "validate_ops indent [] = (if indent > 0 then Inl InvalidMemoryLayout else Inr ())"
| "validate_ops indent (op # it) =
     (if op = FLAG_MEMCPY \<or> op = FLAG_SKIP then
        (case it of [] \<Rightarrow> Inl UndefinedBehaviour | _ # it' \<Rightarrow> validate_ops indent it')
      else if op = FLAG_ARRAY \<or> op = FLAG_CONTAINER then
        (case it of [] \<Rightarrow> Inl UndefinedBehaviour | _ # it' \<Rightarrow> validate_ops (indent + 1) it')
      else if op = FLAG_END then
        (if indent = 0 then Inl InvalidMemoryLayout else validate_ops (indent - 1) it)
      else Inl InvalidMemoryLayout)"

text \<open>
  The size of a \<open>FLAG_INIT\<close> block is compared, as an \<open>int\<close>, with the distance from the size
  itself to the end, so a block that is one too long passes and the loop runs past the end.
\<close>

fun validate_init :: "nat \<Rightarrow> nat list \<Rightarrow> unit result" where
  "validate_init indent [] = (if indent > 0 then Inl InvalidMemoryLayout else Inr ())"
| "validate_init indent (op # it) =
     (if op = FLAG_INIT_SKIP \<or> op = FLAG_INIT_CONTAINER then
        (case it of [] \<Rightarrow> Inl UndefinedBehaviour | _ # it' \<Rightarrow> validate_init indent it')
      else if op = FLAG_INIT then
        (case it of
           [] \<Rightarrow> Inl UndefinedBehaviour
         | sz # it' \<Rightarrow>
             if int (length it') + 1 < to_int32 sz then Inl InvalidMemoryLayout
             else if length it' < sz then Inl UndefinedBehaviour
             else validate_init indent (drop sz it'))
      else if op = FLAG_INIT_REPEAT then
        (case it of [] \<Rightarrow> Inl UndefinedBehaviour | _ # it' \<Rightarrow> validate_init (indent + 1) it')
      else if op = FLAG_INIT_END then
        (if indent = 0 then Inl InvalidMemoryLayout else validate_init (indent - 1) it)
      else validate_init indent it)"

definition validate :: "MemoryLayout \<Rightarrow> unit result" where
  "validate l = bind_result (validate_ops 0 (ops l)) (\<lambda>_. validate_init 0 (init_ops l))"

fun skipBlock :: "nat \<Rightarrow> nat list \<Rightarrow> nat list result" where
  "skipBlock nesting [] = Inr []"
| "skipBlock nesting (op # it) =
     (if op = FLAG_ARRAY \<or> op = FLAG_CONTAINER then
        (case it of [] \<Rightarrow> Inl UndefinedBehaviour | _ # it' \<Rightarrow> skipBlock (nesting + 1) it')
      else if op = FLAG_END then
        (if nesting = 0 then Inr (op # it) else skipBlock (nesting - 1) it)
      else if op = FLAG_SKIP \<or> op = FLAG_MEMCPY then
        (case it of [] \<Rightarrow> Inl UndefinedBehaviour | _ # it' \<Rightarrow> skipBlock nesting it')
      else skipBlock nesting it)"

end
