(* ===== verification/LayoutSemantics.thy ===== *)
theory LayoutSemantics
  imports MemoryLayout
begin

text \<open>
  The meaning of layouts. Bytecode is the encoding of a tree of operations, and a tree
  denotes the sequence of cells it describes: data bytes, padding bytes and container
  objects. Proved: the simplifier maps the encoding of a tree to the encoding of a tree
  that covers the same cells, the visitor produces encodings whose size is the size of the
  type, and these are what \<open>validate\<close> and \<open>skipBlock\<close> expect.
\<close>

section \<open>Operation trees\<close>

datatype lop = Memcpy nat | Skip nat | ArrayOp nat "lop list" | ContainerOp nat "lop list"

fun encode_op :: "lop \<Rightarrow> nat list" where
  "encode_op (Memcpy n) = [FLAG_MEMCPY, n]"
| "encode_op (Skip n) = [FLAG_SKIP, n]"
| "encode_op (ArrayOp d b) = [FLAG_ARRAY, d] @ concat (map encode_op b) @ [FLAG_END]"
| "encode_op (ContainerOp c b) = [FLAG_CONTAINER, c] @ concat (map encode_op b) @ [FLAG_END]"

definition encode :: "lop list \<Rightarrow> nat list" where
  "encode ts = concat (map encode_op ts)"

lemma encode_simps [simp]:
  "encode [] = []" "encode (t # ts) = encode_op t @ encode ts" "encode (ts @ us) = encode ts @ encode us"
  "encode_op (ArrayOp d b) = [FLAG_ARRAY, d] @ encode b @ [FLAG_END]"
  "encode_op (ContainerOp c b) = [FLAG_CONTAINER, c] @ encode b @ [FLAG_END]"
  by (simp_all add: encode_def)

declare encode_op.simps(3,4) [simp del]

datatype cell = Data | Pad | Cont nat "cell list"

fun flat_op :: "lop \<Rightarrow> cell list" where
  "flat_op (Memcpy n) = replicate n Data"
| "flat_op (Skip n) = replicate n Pad"
| "flat_op (ArrayOp d b) = concat (replicate d (concat (map flat_op b)))"
| "flat_op (ContainerOp c b) = [Cont c (concat (map flat_op b))]"

definition flat :: "lop list \<Rightarrow> cell list" where
  "flat ts = concat (map flat_op ts)"

lemma flat_simps [simp]:
  "flat [] = []" "flat (t # ts) = flat_op t @ flat ts" "flat (ts @ us) = flat ts @ flat us"
  "flat_op (ArrayOp d b) = concat (replicate d (flat b))" "flat_op (ContainerOp c b) = [Cont c (flat b)]"
  by (simp_all add: flat_def)

declare flat_op.simps(3,4) [simp del]

text \<open>
  Every array has an element that occupies memory, and the number of cells of a block is a
  \<open>size_t\<close>. The simplifier is wrong without these conditions (\<open>simplify_empty_array\<close>,
  \<open>simplify_wraps\<close>). With \<open>z\<close>, the dimension of an array is not 0 either.
\<close>

fun solid_op :: "bool \<Rightarrow> lop \<Rightarrow> bool" where
  "solid_op z (ArrayOp d b) = (flat b \<noteq> [] \<and> length (flat b) < 2 ^ 64 \<and> (z \<longrightarrow> 0 < d) \<and> list_all (solid_op z) b)"
| "solid_op z (ContainerOp c b) = (length (flat b) < 2 ^ 64 \<and> list_all (solid_op z) b)"
| "solid_op z _ = True"

text \<open>
  The shape of simplified operations: a block of a container that describes bytes only is
  a single copy when skips are merged into copies.
\<close>

definition byte_cells :: "cell list \<Rightarrow> bool" where
  "byte_cells cs = list_all (\<lambda>c. c = Data \<or> c = Pad) cs"

definition merged_block :: "bool \<Rightarrow> lop list \<Rightarrow> bool" where
  "merged_block m b \<longleftrightarrow> (m \<longrightarrow> byte_cells (flat b) \<longrightarrow> flat b \<noteq> [] \<longrightarrow> b = [Memcpy (length (flat b))])"

fun tidy_op :: "bool \<Rightarrow> bool \<Rightarrow> lop \<Rightarrow> bool" where
  "tidy_op z m (ArrayOp d b) = ((z \<longrightarrow> 0 < d) \<and> list_all (tidy_op z m) b)"
| "tidy_op z m (ContainerOp c b) = ((z \<longrightarrow> merged_block m b) \<and> list_all (tidy_op z m) b)"
| "tidy_op z m _ = True"

text \<open>A cell may be replaced by itself, or padding by data when \<open>merge_skip_copy\<close> is set.\<close>

fun cell_le :: "bool \<Rightarrow> cell \<Rightarrow> cell \<Rightarrow> bool" where
  "cell_le m (Cont c xs) (Cont d ys) = (c = d \<and> list_all2 (cell_le m) xs ys)"
| "cell_le m Data c = (c = Data)"
| "cell_le m Pad c = (c = Pad \<or> m \<and> c = Data)"
| "cell_le m (Cont c xs) _ = False"

abbreviation cells_le :: "bool \<Rightarrow> cell list \<Rightarrow> cell list \<Rightarrow> bool" where
  "cells_le m \<equiv> list_all2 (cell_le m)"

lemma cells_le_replicate [simp]: "cell_le m a b \<Longrightarrow> cells_le m (replicate n a) (replicate n b)"
  by (simp add: list_all2_conv_all_nth)

lemma cells_le_Pad: "cells_le m A (replicate n Pad) \<Longrightarrow> A = replicate n Pad"
proof (induction n arbitrary: A)
  case (Suc n)
  then obtain a A' where A: "A = a # A'" "cell_le m a Pad" "cells_le m A' (replicate n Pad)"
    by (auto simp: list_all2_Cons2)
  then show ?case using Suc.IH[of A'] by (cases a) auto
qed simp

lemma cells_le_merge: "cells_le True A (replicate n c) \<Longrightarrow> c = Data \<or> c = Pad \<Longrightarrow> cells_le True A (replicate n Data)"
  by (auto dest: cells_le_Pad)

lemma cells_le_no_pad: "cells_le False (A @ replicate k Pad) (replicate n Data) \<Longrightarrow> k = 0"
  by (cases k) (auto simp: list_all2_append1 list_all2_Cons1 dest!: arg_cong[where f = set])

lemma cells_le_array: "cells_le m xs (replicate k c) \<Longrightarrow> cells_le m (concat (replicate d xs)) (replicate (k * d) c)"
  by (induction d) (auto simp: replicate_add intro: list_all2_appendI)

lemma cells_le_arrays: "cells_le m xs ys \<Longrightarrow> cells_le m (concat (replicate d xs)) (concat (replicate d ys))"
  by (induction d) (auto intro: list_all2_appendI)

section \<open>Simplification keeps the cells\<close>

definition op_cell :: "nat \<Rightarrow> cell" where
  "op_cell op = (if op = FLAG_MEMCPY then Data else Pad)"

definition pend_ops :: "nat \<Rightarrow> nat \<Rightarrow> lop list" where
  "pend_ops op n = (if n = 0 then [] else if op = FLAG_MEMCPY then [Memcpy n] else [Skip n])"

lemma flat_pend_ops [simp]: "flat (pend_ops op n) = replicate n (op_cell op)"
  by (simp add: pend_ops_def op_cell_def)

lemma tidy_pend_ops [simp]: "list_all (tidy_op z m) (pend_ops op n)"
  by (simp add: pend_ops_def)

lemma push_pending_encode:
  "op = FLAG_MEMCPY \<or> op = FLAG_SKIP \<Longrightarrow> push_pending s op n = s @ encode (pend_ops op n)"
  by (auto simp: push_pending_def pend_ops_def)

lemma length_pend_ops: "length (encode (pend_ops op n)) = (if n = 0 then 0 else 2)"
  by (simp add: pend_ops_def)

text \<open>
  The output covers the cells read before (\<open>A\<close>) and those of the operations still to be
  read; at the end of the bytecode trailing padding may be dropped.
\<close>

definition covers :: "bool \<Rightarrow> nat list \<Rightarrow> cell list \<Rightarrow> cell list \<Rightarrow> bool" where
  "covers m rest cells cells' = (if rest = [] then
     \<exists>B k. cells = B @ replicate k Pad \<and> cells_le m B cells' else cells_le m cells cells')"

definition simplified_to :: "bool \<Rightarrow> bool \<Rightarrow> nat list \<Rightarrow> nat \<Rightarrow> cell list \<Rightarrow> nat list \<Rightarrow> (nat list \<times> nat list) result \<Rightarrow> bool" where
  "simplified_to z m rest bound cells simp r \<longleftrightarrow> (\<exists>ts. r = Inr (rest, simp @ encode ts) \<and>
     covers m rest cells (flat ts) \<and> list_all (tidy_op z m) ts \<and>
     length simp + length (encode ts) + length rest \<le> bound)"

lemma simplified_to_prefix:
  assumes "simplified_to z m rest bound cells (simp @ encode pre) r" and "cells_le m A (flat pre)"
    and "list_all (tidy_op z m) pre"
  shows "simplified_to z m rest bound (A @ cells) simp r"
proof -
  obtain ts where ts: "r = Inr (rest, simp @ encode (pre @ ts))" "covers m rest cells (flat ts)"
    "list_all (tidy_op z m) (pre @ ts)" "length simp + length (encode (pre @ ts)) + length rest \<le> bound"
    using assms(1,3) by (auto simp: simplified_to_def)
  moreover have "covers m rest (A @ cells) (flat (pre @ ts))"
    using ts(2) assms(2) unfolding covers_def
    by (auto intro: list_all2_appendI split: if_splits) (metis append.assoc list_all2_appendI)
  ultimately show ?thesis unfolding simplified_to_def by blast
qed

lemma simplified_to_mono: "simplified_to z m rest b cells simp r \<Longrightarrow> b \<le> b' \<Longrightarrow> simplified_to z m rest b' cells simp r"
  unfolding simplified_to_def by force

lemma encode_op_nonempty [simp]: "encode_op t \<noteq> []"
  by (cases t) auto

lemma encode_two:
  assumes "length (encode ts) = 2"
  shows "\<exists>n. ts = [Memcpy n] \<or> ts = [Skip n]"
proof (cases ts)
  case (Cons t us)
  have "2 \<le> length (encode_op u)" for u by (cases u) auto
  from this[of t] this[of "hd us"] have "us = []" using assms Cons by (cases us) simp_all
  then show ?thesis using assms Cons by (cases t) auto
qed (use assms in simp)

text \<open>Equations of the loop on encoded operations.\<close>

lemma flags_distinct [simp]:
  "FLAG_MEMCPY \<noteq> FLAG_ARRAY" "FLAG_MEMCPY \<noteq> FLAG_CONTAINER" "FLAG_MEMCPY \<noteq> FLAG_SKIP" "FLAG_MEMCPY \<noteq> FLAG_END"
  "FLAG_ARRAY \<noteq> FLAG_MEMCPY" "FLAG_ARRAY \<noteq> FLAG_CONTAINER" "FLAG_ARRAY \<noteq> FLAG_SKIP" "FLAG_ARRAY \<noteq> FLAG_END"
  "FLAG_CONTAINER \<noteq> FLAG_MEMCPY" "FLAG_CONTAINER \<noteq> FLAG_ARRAY" "FLAG_CONTAINER \<noteq> FLAG_SKIP" "FLAG_CONTAINER \<noteq> FLAG_END"
  "FLAG_SKIP \<noteq> FLAG_MEMCPY" "FLAG_SKIP \<noteq> FLAG_ARRAY" "FLAG_SKIP \<noteq> FLAG_CONTAINER" "FLAG_SKIP \<noteq> FLAG_END"
  "FLAG_END \<noteq> FLAG_MEMCPY" "FLAG_END \<noteq> FLAG_ARRAY" "FLAG_END \<noteq> FLAG_CONTAINER" "FLAG_END \<noteq> FLAG_SKIP"
  by (simp_all add: flag_defs)

text \<open>
  The hypotheses on the state of the loop: the pending operation stands for the cells \<open>A\<close>,
  the last \<open>cur_skip\<close> of which are padding, and the output fits into a vector.
\<close>

definition loop_state :: "bool \<Rightarrow> cell list \<Rightarrow> nat \<Rightarrow> nat \<Rightarrow> nat \<Rightarrow> bool" where
  "loop_state m A cur_op cur_count cur_skip \<longleftrightarrow> (cur_op = FLAG_MEMCPY \<or> cur_op = FLAG_SKIP) \<and>
     cells_le m A (replicate cur_count (op_cell cur_op)) \<and> (\<exists>A'. A = A' @ replicate cur_skip Pad)"

definition loop_size :: "nat list \<Rightarrow> nat \<Rightarrow> nat list \<Rightarrow> nat" where
  "loop_size simp cur_count it = length simp + (if cur_count = 0 then 0 else 2) + length it"

definition loop_sound :: "bool \<Rightarrow> nat \<Rightarrow> bool \<Rightarrow> bool \<Rightarrow> bool" where
  "loop_sound z fuel m r \<longleftrightarrow> (\<forall>ts rest depth simp cur_op cur_count cur_skip A.
     length (encode ts @ rest) < fuel \<longrightarrow> (rest = [] \<or> hd rest = FLAG_END) \<longrightarrow> list_all (solid_op z) ts \<longrightarrow>
     loop_state m A cur_op cur_count cur_skip \<longrightarrow> loop_size simp cur_count (encode ts @ rest) < 2 ^ 60 \<longrightarrow>
     length (A @ flat ts) < 2 ^ 64 \<longrightarrow>
     simplified_to z m rest (loop_size simp cur_count (encode ts @ rest)) (A @ flat ts) simp
       (simplify_loop fuel m r depth (encode ts @ rest) simp cur_op cur_count cur_skip))"

lemma loop_soundD:
  "loop_sound z fuel m r \<Longrightarrow> length (encode ts @ rest) < fuel \<Longrightarrow> rest = [] \<or> hd rest = FLAG_END \<Longrightarrow>
   list_all (solid_op z) ts \<Longrightarrow> loop_state m A cur_op cur_count cur_skip \<Longrightarrow>
   loop_size simp cur_count (encode ts @ rest) < 2 ^ 60 \<Longrightarrow> length (A @ flat ts) < 2 ^ 64 \<Longrightarrow>
   simplified_to z m rest (loop_size simp cur_count (encode ts @ rest)) (A @ flat ts) simp
     (simplify_loop fuel m r depth (encode ts @ rest) simp cur_op cur_count cur_skip)"
  unfolding loop_sound_def by blast

lemma loop_state_start [simp]: "loop_state m [] FLAG_MEMCPY 0 0" "cur_op = FLAG_MEMCPY \<or> cur_op = FLAG_SKIP \<Longrightarrow> loop_state m [] cur_op 0 0"
  by (simp_all add: loop_state_def)

lemma simplify_at_end:
  assumes "loop_state m A cur_op cur_count cur_skip" and "rest = [] \<or> hd rest = FLAG_END"
  shows "simplified_to z m rest (loop_size simp cur_count rest) A simp
    (simplify_loop (Suc fuel) m r depth rest simp cur_op cur_count cur_skip)"
proof (cases rest)
  case (Cons e rs)
  have "simplify_loop (Suc fuel) m r depth rest simp cur_op cur_count cur_skip =
      Inr (rest, simp @ encode (pend_ops cur_op cur_count))"
    using assms Cons by (simp add: simplify_loop.simps(2) push_pending_encode loop_state_def)
  then show ?thesis
    using assms(1) Cons length_pend_ops[of cur_op cur_count] unfolding simplified_to_def
    by (intro exI[of _ "pend_ops cur_op cur_count"]) (auto simp: covers_def loop_state_def loop_size_def)
next
  case Nil
  obtain A' where A': "A = A' @ replicate cur_skip Pad" using assms(1) by (auto simp: loop_state_def)
  have op: "cur_op = FLAG_MEMCPY \<or> cur_op = FLAG_SKIP" and le: "cells_le m A (replicate cur_count (op_cell cur_op))"
    using assms(1) by (auto simp: loop_state_def)
  have len: "length A = cur_count" using list_all2_lengthD[OF le] by simp
  then have "cells_le m A' (take (length A') (replicate cur_count (op_cell cur_op)))"
    using list_all2_takeI[OF le, of "length A'"] A' by simp
  then have le': "cells_le m A' (replicate (cur_count - cur_skip) (op_cell cur_op))"
    using len A' by (auto simp: min_def)
  let ?push = "\<not> r \<or> cur_op \<noteq> FLAG_SKIP \<or> depth > 0"
  show ?thesis
  proof (cases "cur_count \<noteq> 0 \<and> ?push")
    case True
    define us where "us = (if cur_op = FLAG_MEMCPY then [Memcpy (cur_count - cur_skip)] else [Skip (cur_count - cur_skip)])"
    have us: "encode us = [cur_op, cur_count - cur_skip]" "flat us = replicate (cur_count - cur_skip) (op_cell cur_op)"
      "list_all (tidy_op z m) us"
      using op by (auto simp: us_def op_cell_def)
    have "simplify_loop (Suc fuel) m r depth rest simp cur_op cur_count cur_skip = Inr ([], simp @ encode us)"
      using True Nil us len A' by (simp add: simplify_loop.simps(2))
    moreover have "covers m [] A (flat us)" using A' le' us by (auto simp: covers_def)
    ultimately show ?thesis using Nil us True unfolding simplified_to_def
      by (intro exI[of _ us]) (simp add: loop_size_def)
  next
    case False
    then have "simplify_loop (Suc fuel) m r depth rest simp cur_op cur_count cur_skip = Inr ([], simp @ encode [])"
      using Nil by (auto simp: simplify_loop.simps(2))
    moreover have "A = replicate cur_count Pad"
      using False le op cells_le_Pad[of m A cur_count] by (auto simp: op_cell_def split: if_splits)
    then have "covers m [] A (flat [])" by (simp add: covers_def)
    ultimately show ?thesis using Nil unfolding simplified_to_def
      by (intro exI[of _ "[]"]) (simp add: loop_size_def)
  qed
qed

text \<open>A copy or a skip is merged with the pending operation or replaces it.\<close>

definition run_op :: "nat \<Rightarrow> nat \<Rightarrow> lop" where
  "run_op op n = (if op = FLAG_MEMCPY then Memcpy n else Skip n)"

lemma loop_state_append:
  assumes "loop_state m A op n sk" and "op = FLAG_MEMCPY \<or> op = FLAG_SKIP"
  shows "loop_state m (A @ replicate k (op_cell op)) op (n + k) (if op = FLAG_SKIP then sk + k else 0)"
proof -
  obtain A' where A': "A = A' @ replicate sk Pad" using assms(1) by (auto simp: loop_state_def)
  have "cells_le m (A @ replicate k (op_cell op)) (replicate (n + k) (op_cell op))"
    using assms(1) unfolding loop_state_def replicate_add
    by (intro list_all2_appendI) (auto simp: op_cell_def)
  moreover have "\<exists>B. A @ replicate k (op_cell op) = B @ replicate (if op = FLAG_SKIP then sk + k else 0) Pad"
    using assms(2) A' by (auto simp: op_cell_def replicate_add)
  ultimately show ?thesis using assms(2) by (simp add: loop_state_def)
qed

lemma loop_state_merge:
  assumes "loop_state True A cur n sk" and "op = FLAG_MEMCPY \<or> op = FLAG_SKIP"
  shows "loop_state True (A @ replicate k (op_cell op)) FLAG_MEMCPY (n + k) (if op = FLAG_SKIP then sk + k else 0)"
proof -
  obtain A' where A': "A = A' @ replicate sk Pad" using assms(1) by (auto simp: loop_state_def)
  have "cells_le True A (replicate n Data)"
    using assms(1) cells_le_merge by (auto simp: loop_state_def op_cell_def)
  then have "cells_le True (A @ replicate k (op_cell op)) (replicate (n + k) Data)"
    unfolding replicate_add by (intro list_all2_appendI) (auto simp: op_cell_def)
  moreover have "\<exists>B. A @ replicate k (op_cell op) = B @ replicate (if op = FLAG_SKIP then sk + k else 0) Pad"
    using assms(2) A' by (auto simp: op_cell_def replicate_add)
  ultimately show ?thesis by (simp add: loop_state_def op_cell_def)
qed

lemma loop_state_count:
  assumes "loop_state m A cur_op cur_count cur_skip"
  shows "length A = cur_count" and "cur_skip \<le> cur_count"
proof -
  have "cells_le m A (replicate cur_count (op_cell cur_op))" using assms by (simp add: loop_state_def)
  then show "length A = cur_count" using list_all2_lengthD by fastforce
  then show "cur_skip \<le> cur_count" using assms by (auto simp: loop_state_def)
qed

lemma simplify_run:
  assumes IH: "loop_sound z fuel m r" and op: "op = FLAG_MEMCPY \<or> op = FLAG_SKIP"
    and len: "length (encode (run_op op n # ts) @ rest) < Suc fuel" and rest: "rest = [] \<or> hd rest = FLAG_END"
    and solid: "list_all (solid_op z) ts" and state: "loop_state m A cur_op cur_count cur_skip"
    and bound: "loop_size simp cur_count (encode (run_op op n # ts) @ rest) < 2 ^ 60"
    and cells: "length (A @ flat (run_op op n # ts)) < 2 ^ 64"
  shows "simplified_to z m rest (loop_size simp cur_count (encode (run_op op n # ts) @ rest)) (A @ flat (run_op op n # ts)) simp
    (simplify_loop (Suc fuel) m r depth (encode (run_op op n # ts) @ rest) simp cur_op cur_count cur_skip)"
proof -
  let ?sk = "if op = FLAG_SKIP then cur_skip + n else 0"
  have cur: "cur_op = FLAG_MEMCPY \<or> cur_op = FLAG_SKIP" using state by (simp add: loop_state_def)
  have enc: "encode (run_op op n # ts) @ rest = op # n # (encode ts @ rest)"
    and flat: "A @ flat (run_op op n # ts) = (A @ replicate n (op_cell op)) @ flat ts"
    using op by (auto simp: run_op_def op_cell_def)
  have cells': "length ((A @ replicate n (op_cell op)) @ flat ts) < 2 ^ 64" using cells unfolding flat .
  have no_wrap [simp]: "add_size_t cur_count n = cur_count + n" "add_size_t cur_skip n = cur_skip + n"
    using loop_state_count[OF state] cells' by simp_all
  note next_loop = loop_soundD[OF IH _ rest solid, of _ _ _ _ simp depth]
  have len': "length (encode ts @ rest) < fuel" using len enc by simp
  have size': "loop_size simp (cur_count + n) (encode ts @ rest) \<le>
      loop_size simp cur_count (encode (run_op op n # ts) @ rest)"
    unfolding enc by (simp add: loop_size_def)
  then have bound': "loop_size simp (cur_count + n) (encode ts @ rest) < 2 ^ 60" using bound by simp
  consider (same) "op = cur_op" | (merge) "op \<noteq> cur_op" "m" | (push) "op \<noteq> cur_op" "\<not> m" by blast
  then show ?thesis
  proof cases
    case same
    have "loop_state m (A @ replicate n (op_cell op)) cur_op (cur_count + n) ?sk"
      using loop_state_append[of m A op cur_count cur_skip n] state op same by simp
    from simplified_to_mono[OF next_loop[OF len' this bound' cells'] size'] show ?thesis
      using same op unfolding enc flat by (auto simp: simplify_loop.simps(2) Let_def)
  next
    case merge
    have "loop_state m (A @ replicate n (op_cell op)) FLAG_MEMCPY (cur_count + n) ?sk"
      using loop_state_merge[of A cur_op cur_count cur_skip op n] state op merge by simp
    from simplified_to_mono[OF next_loop[OF len' this bound' cells'] size'] show ?thesis
      using merge op unfolding enc flat by (auto simp: simplify_loop.simps(2) Let_def)
  next
    case push
    have sk: "op = FLAG_SKIP \<Longrightarrow> cur_skip = 0"
      using state push op cur cells_le_no_pad by (auto simp: loop_state_def op_cell_def)
    then have "loop_state m (replicate n (op_cell op)) op n ?sk"
      using loop_state_append[of m "[]" op 0 0 n] op by (auto split: if_splits)
    note IH' = loop_soundD[OF IH len' rest solid this, of "simp @ encode (pend_ops cur_op cur_count)" depth]
    have size'': "loop_size (simp @ encode (pend_ops cur_op cur_count)) n (encode ts @ rest) \<le>
        loop_size simp cur_count (encode (run_op op n # ts) @ rest)"
      unfolding enc by (simp add: loop_size_def length_pend_ops)
    have "simplified_to z m rest (loop_size simp cur_count (encode (run_op op n # ts) @ rest))
        (replicate n (op_cell op) @ flat ts) (simp @ encode (pend_ops cur_op cur_count))
        (simplify_loop fuel m r depth (encode ts @ rest) (simp @ encode (pend_ops cur_op cur_count)) op n ?sk)"
      by (rule simplified_to_mono[OF IH' size'']) (use size'' bound cells' in simp_all)
    from simplified_to_prefix[OF this, of A] show ?thesis
      using state push op unfolding enc
      by (auto simp: simplify_loop.simps(2) Let_def push_pending_encode loop_state_def run_op_def op_cell_def)
  qed
qed

text \<open>A nested block: the recursive call stops at the \<open>FLAG_END\<close> of the block.\<close>

lemma resize_ops_take: "n \<le> length xs \<Longrightarrow> length xs < 2 ^ 60 \<Longrightarrow> resize_ops xs n = Inr (take n xs)"
  by (simp add: resize_ops_def)

fun pure_op :: "lop \<Rightarrow> bool" where
  "pure_op (ContainerOp c b) = False"
| "pure_op (ArrayOp d b) = list_all pure_op b"
| "pure_op _ = True"

lemma pure_op_cells: "solid_op True t \<Longrightarrow> byte_cells (flat_op t) \<Longrightarrow> pure_op t"
proof (induction t)
  case (ArrayOp d b)
  then have "byte_cells (flat b)" by (cases d) (simp_all add: byte_cells_def)
  then have "byte_cells (flat_op x)" if "x \<in> set b" for x
    using that by (auto simp: byte_cells_def flat_def list_all_iff)
  then show ?case using ArrayOp by (auto simp: list_all_iff)
qed (auto simp: byte_cells_def)

lemma pure_ops_cells: "list_all (solid_op True) ts \<Longrightarrow> byte_cells (flat ts) \<Longrightarrow> list_all pure_op ts"
  by (induction ts) (auto simp: byte_cells_def intro: pure_op_cells)

text \<open>With \<open>merge_skip_copy\<close>, a block of copies, skips and arrays of them becomes one copy.\<close>

lemma simplify_pure:
  assumes "list_all pure_op ts" and "list_all (solid_op z) ts" and "length (encode ts @ FLAG_END # after) < fuel"
    and "loop_size simp n (encode ts @ FLAG_END # after) < 2 ^ 60" and "n + length (flat ts) < 2 ^ 64"
  shows "simplify_loop fuel True r depth (encode ts @ FLAG_END # after) simp FLAG_MEMCPY n sk =
    Inr (FLAG_END # after, simp @ encode (pend_ops FLAG_MEMCPY (n + length (flat ts))))"
  using assms
proof (induction fuel arbitrary: ts simp n sk depth after)
  case (Suc fuel)
  show ?case
  proof (cases ts)
    case Nil
    then show ?thesis by (simp add: simplify_loop.simps(2) push_pending_encode)
  next
    case (Cons t us)
    have two: "2 \<le> length (encode_op t)" by (cases t) auto
    have step: "simplify_loop fuel True r depth (encode us @ FLAG_END # after) simp FLAG_MEMCPY n' sk' =
        Inr (FLAG_END # after, simp @ encode (pend_ops FLAG_MEMCPY (n' + length (flat us))))"
      if "loop_size simp n' (encode us @ FLAG_END # after) < 2 ^ 60" "n' + length (flat us) < 2 ^ 64" for n' sk'
      using that Suc.prems Cons two by (intro Suc.IH) auto
    have fits: "loop_size simp n' (encode us @ FLAG_END # after) < 2 ^ 60" if "n \<noteq> 0 \<or> 2 \<le> length (encode_op t)" for n'
      using that Suc.prems(4) Cons by (auto simp: loop_size_def split: if_splits)
    show ?thesis
    proof (cases t)
      case (Memcpy k)
      then show ?thesis using step[OF fits] two Cons Suc.prems(5)
        by (simp add: simplify_loop.simps(2) Let_def add.assoc)
    next
      case (Skip k)
      then show ?thesis using step[OF fits] two Cons Suc.prems(5)
        by (simp add: simplify_loop.simps(2) Let_def add.assoc)
    next
      case (ArrayOp d b)
      let ?pend = "encode (pend_ops FLAG_MEMCPY n)" and ?more = "encode us @ FLAG_END # after"
      let ?s = "simp @ ?pend @ [FLAG_ARRAY, d]" and ?b = "[Memcpy (length (flat b))]"
      have size: "length ?s + length (encode b) + 1 + length ?more < 2 ^ 60"
        using Suc.prems(4) Cons ArrayOp by (simp add: loop_size_def length_pend_ops)
      have len: "length (flat b) < 2 ^ 64" "length (flat_op t) = length (flat b) * d"
        using Suc.prems(2) Cons ArrayOp by (simp_all add: length_concat sum_list_replicate mult.commute)
      then have no_wrap: "mul_size_t (length (flat b)) d = length (flat b) * d"
        "add_size_t n (length (flat b) * d) = n + length (flat b) * d"
        using Suc.prems(5) Cons by simp_all
      have pos: "0 < length (flat b)" using Suc.prems(2) Cons ArrayOp by simp
      have "b \<noteq> []" using pos by auto
      then have two_b: "2 \<le> length (encode b)" by (cases b; cases "hd b") auto
      have b': "expect_end (simplify_loop fuel True r (depth + 1) (encode b @ FLAG_END # ?more) ?s FLAG_MEMCPY 0 0) =
          Inr (FLAG_END # ?more, ?s @ encode ?b)"
        using Suc.IH[of b ?more ?s 0 "depth + 1" 0] Suc.prems Cons ArrayOp size pos len
        by (simp add: loop_size_def pend_ops_def expect_end_def)
      have "length (?s @ encode ?b) < 2 ^ 60" using size two_b by simp
      from resize_ops_take[OF _ this]
      have "resize_ops (?s @ encode ?b) (length simp) = Inr simp"
        "resize_ops (?s @ encode ?b) (length simp + length ?pend) = Inr (simp @ ?pend)" by simp_all
      then have "simplify_loop (Suc fuel) True r depth (encode ts @ FLAG_END # after) simp FLAG_MEMCPY n sk =
          simplify_loop fuel True r depth ?more simp FLAG_MEMCPY (n + length (flat b) * d) 0"
        using b' Cons ArrayOp no_wrap
        by (cases "n = 0") (simp_all add: simplify_loop.simps(2) Let_def push_pending_encode length_pend_ops nth_append)
      then show ?thesis using step[OF fits] two Cons ArrayOp Suc.prems(5)
        by (simp add: length_concat sum_list_replicate add.assoc mult.commute)
    next
      case (ContainerOp c b)
      then show ?thesis using Suc.prems(1) Cons by simp
    qed
  qed
qed simp

lemma simplify_block:
  assumes IH: "loop_sound z fuel m r" and "length (encode b @ FLAG_END # after) < fuel" and "list_all (solid_op z) b"
    and "length simp + length (encode b @ FLAG_END # after) < 2 ^ 60" and "length (flat b) < 2 ^ 64"
  shows "\<exists>b'. expect_end (simplify_loop fuel m r depth (encode b @ FLAG_END # after) simp FLAG_MEMCPY 0 0) =
      Inr (FLAG_END # after, simp @ encode b') \<and> cells_le m (flat b) (flat b') \<and>
      (z \<longrightarrow> merged_block m b') \<and> list_all (tidy_op z m) b' \<and> length (encode b') \<le> length (encode b)"
proof (cases "m \<and> z \<and> byte_cells (flat b) \<and> flat b \<noteq> []")
  case True
  let ?b = "[Memcpy (length (flat b))]"
  have "list_all pure_op b" using pure_ops_cells assms(3) True by simp
  then have "simplify_loop fuel m r depth (encode b @ FLAG_END # after) simp FLAG_MEMCPY 0 0 =
      Inr (FLAG_END # after, simp @ encode ?b)"
    using simplify_pure[of b z after fuel simp 0 r depth 0] assms True by (simp add: loop_size_def pend_ops_def)
  moreover have "cells_le m (flat b) (flat ?b)"
    using True by (auto simp: byte_cells_def list_all_length list_all2_conv_all_nth)
  moreover have "length (encode ?b) \<le> length (encode b)" using True by (cases b; cases "hd b") auto
  ultimately show ?thesis by (intro exI[of _ ?b]) (simp add: expect_end_def merged_block_def)
next
  case False
  have "simplified_to z m (FLAG_END # after) (loop_size simp 0 (encode b @ FLAG_END # after)) ([] @ flat b) simp
      (simplify_loop fuel m r depth (encode b @ FLAG_END # after) simp FLAG_MEMCPY 0 0)"
    by (rule loop_soundD[OF IH]) (use assms in \<open>simp_all add: loop_size_def\<close>)
  then obtain b' where b': "simplify_loop fuel m r depth (encode b @ FLAG_END # after) simp FLAG_MEMCPY 0 0 =
      Inr (FLAG_END # after, simp @ encode b')" "cells_le m (flat b) (flat b')" "list_all (tidy_op z m) b'"
      "length (encode b') \<le> length (encode b)"
    by (auto simp: simplified_to_def covers_def loop_size_def)
  have "byte_cells (flat b') = byte_cells (flat b)"
    using b'(2) unfolding byte_cells_def by (induction rule: list_all2_induct) (auto elim: cell_le.elims)
  then have "z \<longrightarrow> merged_block m b'" using False list_all2_lengthD[OF b'(2)] by (auto simp: merged_block_def)
  then show ?thesis using b' by (intro exI[of _ b']) (simp add: expect_end_def)
qed

lemma simplify_array:
  assumes IH: "loop_sound z fuel m r"
    and len: "length (encode (ArrayOp d b # ts) @ rest) < Suc fuel" and rest: "rest = [] \<or> hd rest = FLAG_END"
    and solid: "list_all (solid_op z) (ArrayOp d b # ts)" and state: "loop_state m A cur_op cur_count cur_skip"
    and bound: "loop_size simp cur_count (encode (ArrayOp d b # ts) @ rest) < 2 ^ 60"
    and cells: "length (A @ flat (ArrayOp d b # ts)) < 2 ^ 64"
  shows "simplified_to z m rest (loop_size simp cur_count (encode (ArrayOp d b # ts) @ rest))
      (A @ flat (ArrayOp d b # ts)) simp
    (simplify_loop (Suc fuel) m r depth (encode (ArrayOp d b # ts) @ rest) simp cur_op cur_count cur_skip)"
proof -
  let ?pend = "encode (pend_ops cur_op cur_count)" and ?more = "encode ts @ rest"
  let ?s = "simp @ ?pend @ [FLAG_ARRAY, d]" and ?arr = "concat (replicate d (flat b))"
  let ?L = "loop_size simp cur_count (encode (ArrayOp d b # ts) @ rest)"
  have cur: "cur_op = FLAG_MEMCPY \<or> cur_op = FLAG_SKIP" and A: "cells_le m A (flat (pend_ops cur_op cur_count))"
    using state by (simp_all add: loop_state_def)
  have L: "?L = length simp + length ?pend + 3 + length (encode b) + length ?more"
    by (simp add: loop_size_def length_pend_ops)
  obtain b' where b': "expect_end (simplify_loop fuel m r (depth + 1) (encode b @ FLAG_END # ?more) ?s FLAG_MEMCPY 0 0) =
      Inr (FLAG_END # ?more, ?s @ encode b')" and le: "cells_le m (flat b) (flat b')"
      and tidy: "z \<longrightarrow> merged_block m b'" "list_all (tidy_op z m) b'"
      and shorter: "length (encode b') \<le> length (encode b)"
    using simplify_block[OF IH, of b ?more ?s "depth + 1"] len solid bound L by auto
  have loop: "simplify_loop (Suc fuel) m r depth (encode (ArrayOp d b # ts) @ rest) simp cur_op cur_count cur_skip =
      (if length (encode b') = 2 then
         (let op' = hd (encode b'); count = mul_size_t (encode b' ! 1) d in
          if op' = cur_op \<and> cur_count \<noteq> 0 then simplify_loop fuel m r depth ?more simp cur_op (add_size_t cur_count count) 0
          else simplify_loop fuel m r depth ?more (simp @ ?pend) op' count 0)
       else simplify_loop fuel m r depth ?more (?s @ encode b' @ [FLAG_END]) cur_op 0 0)"
  proof -
    have "flat b' \<noteq> []" using le solid list_all2_lengthD[OF le] by auto
    then have "length (encode b') \<noteq> 0" by (cases b') auto
    moreover have "length (?s @ encode b') < 2 ^ 60" using bound L shorter by simp
    from resize_ops_take[OF _ this]
    have "resize_ops (?s @ encode b') (length simp) = Inr simp"
      "resize_ops (?s @ encode b') (length simp + length ?pend) = Inr (simp @ ?pend)" by simp_all
    ultimately show ?thesis
      using b' cur by (simp add: simplify_loop.simps(2) Let_def push_pending_encode
          length_pend_ops nth_append hd_conv_nth)
  qed
  have len': "length ?more < fuel" using len by simp
  note IH' = loop_soundD[OF IH len' rest]
  have solid': "list_all (solid_op z) ts" using solid by simp
  show ?thesis
  proof (cases "length (encode b') = 2")
    case True
    then obtain k where k: "b' = [Memcpy k] \<or> b' = [Skip k]" using encode_two by blast
    let ?op = "hd (encode b')"
    have op: "?op = FLAG_MEMCPY \<or> ?op = FLAG_SKIP" and nth: "encode b' ! 1 = k"
      and arr: "cells_le m ?arr (replicate (k * d) (op_cell ?op))"
      using k le by (auto simp: op_cell_def intro!: cells_le_array)
    have "length ?arr = k * d" "length A = cur_count"
      using list_all2_lengthD[OF arr] loop_state_count[OF state] by simp_all
    then have no_wrap: "mul_size_t k d = k * d" "add_size_t cur_count (k * d) = cur_count + k * d"
      using cells by simp_all
    have new: "loop_state m ?arr ?op (k * d) 0" using op arr by (simp add: loop_state_def)
    show ?thesis
    proof (cases "?op = cur_op \<and> cur_count \<noteq> 0")
      case same: True
      have st: "loop_state m (A @ ?arr) cur_op (cur_count + k * d) 0"
        using state arr same unfolding loop_state_def replicate_add by (auto intro: list_all2_appendI)
      have size': "loop_size simp (cur_count + k * d) ?more \<le> ?L" unfolding L using same by (simp add: loop_size_def length_pend_ops)
      have "simplified_to z m rest ?L ((A @ ?arr) @ flat ts) simp
          (simplify_loop fuel m r depth ?more simp cur_op (cur_count + k * d) 0)"
        by (rule simplified_to_mono[OF IH'[OF solid' st] size']) (use size' bound cells in simp_all)
      then show ?thesis unfolding loop using True same nth no_wrap by (simp add: Let_def)
    next
      case False
      have size': "loop_size (simp @ ?pend) (k * d) ?more \<le> ?L" unfolding L by (simp add: loop_size_def)
      have "simplified_to z m rest ?L (?arr @ flat ts) (simp @ ?pend)
          (simplify_loop fuel m r depth ?more (simp @ ?pend) ?op (k * d) 0)"
        by (rule simplified_to_mono[OF IH'[OF solid' new] size']) (use size' bound cells in simp_all)
      from simplified_to_prefix[OF this A tidy_pend_ops] show ?thesis unfolding loop using True False nth no_wrap by (auto simp: Let_def)
    qed
  next
    case False
    let ?pre = "pend_ops cur_op cur_count @ [ArrayOp d b']"
    have st: "loop_state m [] cur_op 0 0" using cur by simp
    have size': "loop_size (simp @ encode ?pre) 0 ?more \<le> ?L" unfolding L using shorter by (simp add: loop_size_def)
    have "simplified_to z m rest ?L ([] @ flat ts) (simp @ encode ?pre)
        (simplify_loop fuel m r depth ?more (simp @ encode ?pre) cur_op 0 0)"
      by (rule simplified_to_mono[OF IH'[OF solid' st] size']) (use size' bound cells in simp_all)
    moreover have "cells_le m (A @ ?arr) (flat ?pre)"
      using A cells_le_arrays[OF le, of d] by (auto intro: list_all2_appendI)
    moreover have "list_all (tidy_op z m) ?pre" using tidy(2) solid by simp
    ultimately show ?thesis using simplified_to_prefix[of z m rest ?L "[] @ flat ts" simp ?pre _ "A @ ?arr"] False
      unfolding loop by simp
  qed
qed

lemma simplify_container:
  assumes IH: "loop_sound z fuel m r"
    and len: "length (encode (ContainerOp c b # ts) @ rest) < Suc fuel" and rest: "rest = [] \<or> hd rest = FLAG_END"
    and solid: "list_all (solid_op z) (ContainerOp c b # ts)" and state: "loop_state m A cur_op cur_count cur_skip"
    and bound: "loop_size simp cur_count (encode (ContainerOp c b # ts) @ rest) < 2 ^ 60"
    and cells: "length (A @ flat (ContainerOp c b # ts)) < 2 ^ 64"
  shows "simplified_to z m rest (loop_size simp cur_count (encode (ContainerOp c b # ts) @ rest))
      (A @ flat (ContainerOp c b # ts)) simp
    (simplify_loop (Suc fuel) m r depth (encode (ContainerOp c b # ts) @ rest) simp cur_op cur_count cur_skip)"
proof -
  let ?pend = "encode (pend_ops cur_op cur_count)" and ?more = "encode ts @ rest"
  let ?s = "simp @ ?pend @ [FLAG_CONTAINER, c]"
  let ?L = "loop_size simp cur_count (encode (ContainerOp c b # ts) @ rest)"
  have cur: "cur_op = FLAG_MEMCPY \<or> cur_op = FLAG_SKIP" and A: "cells_le m A (flat (pend_ops cur_op cur_count))"
    using state by (simp_all add: loop_state_def)
  have L: "?L = length simp + length ?pend + 3 + length (encode b) + length ?more"
    by (simp add: loop_size_def length_pend_ops)
  obtain b' where b': "expect_end (simplify_loop fuel m r (depth + 1) (encode b @ FLAG_END # ?more) ?s FLAG_MEMCPY 0 0) =
      Inr (FLAG_END # ?more, ?s @ encode b')" and le: "cells_le m (flat b) (flat b')"
      and tidy: "z \<longrightarrow> merged_block m b'" "list_all (tidy_op z m) b'"
      and shorter: "length (encode b') \<le> length (encode b)"
    using simplify_block[OF IH, of b ?more ?s "depth + 1"] len solid bound L by auto
  let ?pre = "pend_ops cur_op cur_count @ [ContainerOp c b']"
  have loop: "simplify_loop (Suc fuel) m r depth (encode (ContainerOp c b # ts) @ rest) simp cur_op cur_count cur_skip =
      simplify_loop fuel m r depth ?more (simp @ encode ?pre) cur_op 0 0"
    using b' cur by (simp add: simplify_loop.simps(2) Let_def push_pending_encode)
  have st: "loop_state m [] cur_op 0 0" using cur by simp
  have size': "loop_size (simp @ encode ?pre) 0 ?more \<le> ?L" unfolding L using shorter by (simp add: loop_size_def)
  have "length ?more < fuel" "list_all (solid_op z) ts" using len solid by simp_all
  from simplified_to_mono[OF loop_soundD[OF IH this(1) rest this(2) st] size']
  have "simplified_to z m rest ?L ([] @ flat ts) (simp @ encode ?pre)
      (simplify_loop fuel m r depth ?more (simp @ encode ?pre) cur_op 0 0)"
    using size' bound cells by simp
  from simplified_to_prefix[OF this, of "A @ [Cont c (flat b)]"] show ?thesis
    unfolding loop using A le tidy by (simp add: list_all2_appendI)
qed

lemma simplify_loop_sound: "loop_sound z fuel m r"
proof (induction fuel)
  case 0
  then show ?case by (simp add: loop_sound_def)
next
  case (Suc fuel)
  show ?case
    unfolding loop_sound_def
  proof (intro allI impI)
    fix ts rest depth simp cur_op cur_count cur_skip A
    assume len: "length (encode ts @ rest) < Suc fuel" and rest: "rest = [] \<or> hd rest = FLAG_END"
      and solid: "list_all (solid_op z) ts" and state: "loop_state m A cur_op cur_count cur_skip"
      and bound: "loop_size simp cur_count (encode ts @ rest) < 2 ^ 60" and cells: "length (A @ flat ts) < 2 ^ 64"
    show "simplified_to z m rest (loop_size simp cur_count (encode ts @ rest)) (A @ flat ts) simp
       (simplify_loop (Suc fuel) m r depth (encode ts @ rest) simp cur_op cur_count cur_skip)"
    proof (cases ts)
      case Nil
      then show ?thesis using simplify_at_end[OF state rest] by simp
    next
      case (Cons t us)
      note hyps = len[unfolded Cons] rest solid[unfolded Cons] state bound[unfolded Cons] cells[unfolded Cons]
      show ?thesis
      proof (cases t)
        case (Memcpy n)
        then show ?thesis using simplify_run[OF Suc, of FLAG_MEMCPY n us rest] hyps Cons by (simp add: run_op_def)
      next
        case (Skip n)
        then show ?thesis using simplify_run[OF Suc, of FLAG_SKIP n us rest] hyps Cons by (simp add: run_op_def)
      next
        case (ArrayOp d b)
        then show ?thesis using simplify_array[OF Suc hyps[unfolded ArrayOp]] Cons by simp
      next
        case (ContainerOp c b)
        then show ?thesis using simplify_container[OF Suc hyps[unfolded ContainerOp]] Cons by simp
      qed
    qed
  qed
qed

lemma simplify_ops_covers:
  assumes "list_all (solid_op z) ts" and "length (encode ts) < 2 ^ 60" and "length (flat ts) < 2 ^ 64"
  shows "\<exists>ts' B k. simplify_ops m r (encode ts) = Inr (encode ts') \<and>
    flat ts = B @ replicate k Pad \<and> cells_le m B (flat ts') \<and> list_all (tidy_op z m) ts'"
proof -
  have "simplified_to z m [] (loop_size [] 0 (encode ts @ [])) ([] @ flat ts) []
      (simplify_loop (Suc (length (encode ts))) m r 0 (encode ts @ []) [] FLAG_MEMCPY 0 0)"
    by (rule loop_soundD[OF simplify_loop_sound]) (use assms in \<open>simp_all add: loop_size_def\<close>)
  then show ?thesis by (auto simp: simplified_to_def covers_def simplify_ops_def)
qed

end
