(* ===== verification/LayoutInit.thy ===== *)
theory LayoutInit
  imports LayoutSemantics
begin

text \<open>
  The meaning of the initialization bytecode of a layout, in the same style as
  \<open>LayoutSemantics\<close>: trees of initialization operations, the cells they denote (a byte to
  write, a byte to leave, a container to construct), and the proof that \<open>simplifyInit\<close>
  keeps the cells up to trailing bytes that are left alone.
\<close>

datatype iop = IInit "nat list" | ISkip nat | IRepeat nat "iop list" | IContainer nat

fun encode_iop :: "iop \<Rightarrow> nat list" where
  "encode_iop (IInit bs) = [FLAG_INIT, length bs] @ bs"
| "encode_iop (ISkip n) = [FLAG_INIT_SKIP, n]"
| "encode_iop (IRepeat d b) = [FLAG_INIT_REPEAT, d] @ concat (map encode_iop b) @ [FLAG_INIT_END]"
| "encode_iop (IContainer c) = [FLAG_INIT_CONTAINER, c]"

definition encode_init :: "iop list \<Rightarrow> nat list" where
  "encode_init ts = concat (map encode_iop ts)"

lemma encode_init_simps [simp]:
  "encode_init [] = []" "encode_init (t # ts) = encode_iop t @ encode_init ts"
  "encode_init (ts @ us) = encode_init ts @ encode_init us"
  "encode_iop (IRepeat d b) = [FLAG_INIT_REPEAT, d] @ encode_init b @ [FLAG_INIT_END]"
  by (simp_all add: encode_init_def)

declare encode_iop.simps(3) [simp del]

datatype icell = IByte nat | ILeave | ICont nat

fun flat_iop :: "iop \<Rightarrow> icell list" where
  "flat_iop (IInit bs) = map IByte bs"
| "flat_iop (ISkip n) = replicate n ILeave"
| "flat_iop (IRepeat d b) = concat (replicate d (concat (map flat_iop b)))"
| "flat_iop (IContainer c) = [ICont c]"

definition flat_init :: "iop list \<Rightarrow> icell list" where
  "flat_init ts = concat (map flat_iop ts)"

lemma flat_init_simps [simp]:
  "flat_init [] = []" "flat_init (t # ts) = flat_iop t @ flat_init ts"
  "flat_init (ts @ us) = flat_init ts @ flat_init us"
  "flat_iop (IRepeat d b) = concat (replicate d (flat_init b))"
  by (simp_all add: flat_init_def)

declare flat_iop.simps(3) [simp del]

text \<open>
  Init data are bytes, and repeated blocks are not empty and as long as a \<open>size_t\<close> can
  count. With \<open>z\<close>, they are repeated at
  least once; the simplifier keeps that.
\<close>

fun solid_iop :: "bool \<Rightarrow> iop \<Rightarrow> bool" where
  "solid_iop z (IInit bs) = list_all (\<lambda>b. b < 256) bs"
| "solid_iop z (IRepeat d b) = (flat_init b \<noteq> [] \<and> length (flat_init b) < 2 ^ 64 \<and> (z \<longrightarrow> 0 < d) \<and> list_all (solid_iop z) b)"
| "solid_iop z _ = True"

fun tidy_iop :: "bool \<Rightarrow> iop \<Rightarrow> bool" where
  "tidy_iop z (IRepeat d b) = ((z \<longrightarrow> 0 < d) \<and> list_all (tidy_iop z) b)"
| "tidy_iop z _ = True"

lemma iflags_distinct [simp]:
  "FLAG_INIT \<noteq> FLAG_INIT_END" "FLAG_INIT_REPEAT \<noteq> FLAG_INIT_END" "FLAG_INIT_CONTAINER \<noteq> FLAG_INIT_END"
  "FLAG_INIT_SKIP \<noteq> FLAG_INIT_END" "FLAG_INIT_REPEAT \<noteq> FLAG_INIT" "FLAG_INIT_CONTAINER \<noteq> FLAG_INIT"
  "FLAG_INIT_SKIP \<noteq> FLAG_INIT" "FLAG_INIT_CONTAINER \<noteq> FLAG_INIT_REPEAT" "FLAG_INIT_SKIP \<noteq> FLAG_INIT_REPEAT"
  "FLAG_INIT_SKIP \<noteq> FLAG_INIT_CONTAINER" "FLAG_INIT \<noteq> FLAG_INIT_SKIP" "FLAG_INIT_REPEAT \<noteq> FLAG_INIT_SKIP"
  "FLAG_INIT_CONTAINER \<noteq> FLAG_INIT_SKIP"
  by (simp_all add: flag_defs)

section \<open>Simplification keeps the cells\<close>

text \<open>At most one of the pending skip and the pending data is not empty.\<close>

definition pend_iops :: "nat \<Rightarrow> nat list \<Rightarrow> iop list" where
  "pend_iops n bs = (if n \<noteq> 0 then [ISkip n] else if bs \<noteq> [] then [IInit bs] else [])"

definition pend_icells :: "nat \<Rightarrow> nat list \<Rightarrow> icell list" where
  "pend_icells n bs = replicate n ILeave @ map IByte bs"

lemma tidy_pend_iops [simp]: "list_all (tidy_iop z) (pend_iops n bs)"
  by (simp add: pend_iops_def)

lemma flat_pend_iops: "n = 0 \<or> bs = [] \<Longrightarrow> flat_init (pend_iops n bs) = pend_icells n bs"
  by (auto simp: pend_iops_def pend_icells_def)

lemma push_init_encode: "push_init_data s bs = s @ encode_init (pend_iops 0 bs)"
  by (simp add: push_init_data_def pend_iops_def)

lemma push_skip_encode: "push_pending s FLAG_INIT_SKIP n = s @ encode_init (pend_iops n [])"
  by (simp add: push_pending_def pend_iops_def)

definition icovers :: "nat list \<Rightarrow> icell list \<Rightarrow> icell list \<Rightarrow> bool" where
  "icovers rest cells cells' = (if rest = [] then \<exists>k. cells = cells' @ replicate k ILeave else cells = cells')"

definition init_to :: "bool \<Rightarrow> nat list \<Rightarrow> nat \<Rightarrow> icell list \<Rightarrow> nat list \<Rightarrow> (nat list \<times> nat list) result \<Rightarrow> bool" where
  "init_to z rest bound cells simp r \<longleftrightarrow> (\<exists>ts. r = Inr (rest, simp @ encode_init ts) \<and>
     icovers rest cells (flat_init ts) \<and> list_all (tidy_iop z) ts \<and> length simp + length (encode_init ts) + length rest \<le> bound)"

lemma init_to_prefix:
  assumes "init_to z rest bound cells (simp @ encode_init pre) r" and "list_all (tidy_iop z) pre"
  shows "init_to z rest bound (flat_init pre @ cells) simp r"
proof -
  obtain ts where "r = Inr (rest, simp @ encode_init (pre @ ts))" "icovers rest cells (flat_init ts)"
    "list_all (tidy_iop z) (pre @ ts)" "length simp + length (encode_init (pre @ ts)) + length rest \<le> bound"
    using assms by (auto simp: init_to_def)
  moreover from this(2) have "icovers rest (flat_init pre @ cells) (flat_init (pre @ ts))"
    by (auto simp: icovers_def split: if_splits)
  ultimately show ?thesis unfolding init_to_def by blast
qed

lemma init_to_mono: "init_to z rest b cells simp r \<Longrightarrow> b \<le> b' \<Longrightarrow> init_to z rest b' cells simp r"
  unfolding init_to_def by force

definition init_size_of :: "nat list \<Rightarrow> nat \<Rightarrow> nat list \<Rightarrow> nat list \<Rightarrow> nat" where
  "init_size_of simp n bs it = length simp + length (encode_init (pend_iops n bs)) + length it"

definition init_sound :: "bool \<Rightarrow> nat \<Rightarrow> bool" where
  "init_sound z fuel \<longleftrightarrow> (\<forall>ts rest simp shave n bs.
     length (encode_init ts @ rest) < fuel \<longrightarrow> (rest = [] \<and> shave \<or> rest \<noteq> [] \<and> hd rest = FLAG_INIT_END) \<longrightarrow>
     list_all (solid_iop z) ts \<longrightarrow> n = 0 \<or> bs = [] \<longrightarrow> init_size_of simp n bs (encode_init ts @ rest) < 2 ^ 60 \<longrightarrow>
     length (pend_icells n bs @ flat_init ts) < 2 ^ 64 \<longrightarrow>
     init_to z rest (init_size_of simp n bs (encode_init ts @ rest)) (pend_icells n bs @ flat_init ts) simp
       (simplifyInit_loop fuel shave (encode_init ts @ rest) simp n bs))"

lemma init_soundD:
  "init_sound z fuel \<Longrightarrow> length (encode_init ts @ rest) < fuel \<Longrightarrow>
   rest = [] \<and> shave \<or> rest \<noteq> [] \<and> hd rest = FLAG_INIT_END \<Longrightarrow> list_all (solid_iop z) ts \<Longrightarrow> n = 0 \<or> bs = [] \<Longrightarrow>
   init_size_of simp n bs (encode_init ts @ rest) < 2 ^ 60 \<Longrightarrow> length (pend_icells n bs @ flat_init ts) < 2 ^ 64 \<Longrightarrow>
   init_to z rest (init_size_of simp n bs (encode_init ts @ rest)) (pend_icells n bs @ flat_init ts) simp
     (simplifyInit_loop fuel shave (encode_init ts @ rest) simp n bs)"
  unfolding init_sound_def by blast

text \<open>
  Continuing the loop after \<open>pre\<close> was written behind \<open>simp\<close>: what is left to show is
  that the cells agree and that the output did not outgrow the input.
\<close>

lemma init_continue:
  assumes IH: "init_sound z fuel" and len: "length (encode_init ts @ rest) < fuel"
    and rest: "rest = [] \<and> shave \<or> rest \<noteq> [] \<and> hd rest = FLAG_INIT_END"
    and solid: "list_all (solid_iop z) ts" and pend: "n = 0 \<or> bs = []"
    and size: "init_size_of (simp @ encode_init pre) n bs (encode_init ts @ rest) \<le> bound" and bound: "bound < 2 ^ 60"
    and cells: "cells = flat_init pre @ pend_icells n bs @ flat_init ts" and few: "length cells < 2 ^ 64" and tidy: "list_all (tidy_iop z) pre"
  shows "init_to z rest bound cells simp (simplifyInit_loop fuel shave (encode_init ts @ rest) (simp @ encode_init pre) n bs)"
  unfolding cells
  by (rule init_to_prefix, rule init_to_mono[OF init_soundD[OF IH len rest solid pend] size])
    (use size bound tidy few cells in simp_all)

lemma length_pend_iops:
  "length (encode_init (pend_iops n bs)) = (if n \<noteq> 0 then 2 else if bs \<noteq> [] then 2 + length bs else 0)"
  by (simp add: pend_iops_def)

lemma init_at_end:
  assumes "n = 0 \<or> bs = []" and "rest = [] \<and> shave \<or> rest \<noteq> [] \<and> hd rest = FLAG_INIT_END"
  shows "init_to z rest (init_size_of simp n bs rest) (pend_icells n bs) simp
    (simplifyInit_loop (Suc fuel) shave rest simp n bs)"
proof (cases "rest = []")
  case True
  then have "simplifyInit_loop (Suc fuel) shave rest simp n bs = Inr ([], simp @ encode_init (pend_iops 0 bs))"
    using assms(2) by (simp add: simplifyInit_loop.simps(2) push_init_encode)
  moreover have "icovers [] (pend_icells n bs) (flat_init (pend_iops 0 bs))"
    using assms(1) by (auto simp: icovers_def pend_icells_def pend_iops_def)
  ultimately show ?thesis using assms(1) True
    unfolding init_to_def init_size_of_def
    by (intro exI[of _ "pend_iops 0 bs"]) (auto simp: length_pend_iops)
next
  case False
  then have "simplifyInit_loop (Suc fuel) shave rest simp n bs = Inr (rest, simp @ encode_init (pend_iops n bs))"
    using assms by (cases rest)
      (auto simp: simplifyInit_loop.simps(2) push_init_encode push_skip_encode pend_iops_def)
  then show ?thesis using False flat_pend_iops[OF assms(1)]
    unfolding init_to_def init_size_of_def
    by (intro exI[of _ "pend_iops n bs"]) (auto simp: icovers_def)
qed

lemma map_mod_bytes: "list_all (\<lambda>b. b < 256) bs \<Longrightarrow> map (\<lambda>b. b mod (256::nat)) bs = bs"
  by (induction bs) auto

lemma init_step_init:
  assumes IH: "init_sound z fuel" and len: "length (encode_init (IInit cs # ts) @ rest) < Suc fuel"
    and rest: "rest = [] \<and> shave \<or> rest \<noteq> [] \<and> hd rest = FLAG_INIT_END"
    and solid: "list_all (solid_iop z) (IInit cs # ts)" and pend: "n = 0 \<or> bs = []"
    and bound: "init_size_of simp n bs (encode_init (IInit cs # ts) @ rest) < 2 ^ 60"
    and few: "length (pend_icells n bs @ flat_init (IInit cs # ts)) < 2 ^ 64"
  shows "init_to z rest (init_size_of simp n bs (encode_init (IInit cs # ts) @ rest))
    (pend_icells n bs @ flat_init (IInit cs # ts)) simp
    (simplifyInit_loop (Suc fuel) shave (encode_init (IInit cs # ts) @ rest) simp n bs)"
proof -
  have loop: "simplifyInit_loop (Suc fuel) shave (encode_init (IInit cs # ts) @ rest) simp n bs =
      simplifyInit_loop fuel shave (encode_init ts @ rest) (simp @ encode_init (pend_iops n [])) 0 (bs @ cs)"
    using solid by (simp add: simplifyInit_loop.simps(2) push_skip_encode map_mod_bytes)
  show ?thesis unfolding loop
    by (rule init_continue[OF IH _ rest _ _ _ bound])
      (use len solid pend few in \<open>auto simp: init_size_of_def length_pend_iops pend_icells_def pend_iops_def\<close>)
qed

lemma init_step_skip:
  assumes IH: "init_sound z fuel" and len: "length (encode_init (ISkip k # ts) @ rest) < Suc fuel"
    and rest: "rest = [] \<and> shave \<or> rest \<noteq> [] \<and> hd rest = FLAG_INIT_END"
    and solid: "list_all (solid_iop z) (ISkip k # ts)" and pend: "n = 0 \<or> bs = []"
    and bound: "init_size_of simp n bs (encode_init (ISkip k # ts) @ rest) < 2 ^ 60"
    and few: "length (pend_icells n bs @ flat_init (ISkip k # ts)) < 2 ^ 64"
  shows "init_to z rest (init_size_of simp n bs (encode_init (ISkip k # ts) @ rest))
    (pend_icells n bs @ flat_init (ISkip k # ts)) simp
    (simplifyInit_loop (Suc fuel) shave (encode_init (ISkip k # ts) @ rest) simp n bs)"
proof -
  have loop: "simplifyInit_loop (Suc fuel) shave (encode_init (ISkip k # ts) @ rest) simp n bs =
      simplifyInit_loop fuel shave (encode_init ts @ rest) (simp @ encode_init (pend_iops 0 bs)) (n + k) []"
    using few by (simp add: simplifyInit_loop.simps(2) push_init_encode pend_icells_def)
  show ?thesis unfolding loop
    by (rule init_continue[OF IH _ rest _ _ _ bound])
      (use len solid pend few in \<open>auto simp: init_size_of_def length_pend_iops pend_icells_def pend_iops_def replicate_add\<close>)
qed

lemma init_step_container:
  assumes IH: "init_sound z fuel" and len: "length (encode_init (IContainer c # ts) @ rest) < Suc fuel"
    and rest: "rest = [] \<and> shave \<or> rest \<noteq> [] \<and> hd rest = FLAG_INIT_END"
    and solid: "list_all (solid_iop z) (IContainer c # ts)" and pend: "n = 0 \<or> bs = []"
    and bound: "init_size_of simp n bs (encode_init (IContainer c # ts) @ rest) < 2 ^ 60"
    and few: "length (pend_icells n bs @ flat_init (IContainer c # ts)) < 2 ^ 64"
  shows "init_to z rest (init_size_of simp n bs (encode_init (IContainer c # ts) @ rest))
    (pend_icells n bs @ flat_init (IContainer c # ts)) simp
    (simplifyInit_loop (Suc fuel) shave (encode_init (IContainer c # ts) @ rest) simp n bs)"
proof -
  have loop: "simplifyInit_loop (Suc fuel) shave (encode_init (IContainer c # ts) @ rest) simp n bs =
      simplifyInit_loop fuel shave (encode_init ts @ rest) (simp @ encode_init (pend_iops n bs @ [IContainer c])) 0 []"
    using pend by (auto simp: simplifyInit_loop.simps(2) push_init_encode push_skip_encode pend_iops_def)
  show ?thesis unfolding loop
    by (rule init_continue[OF IH _ rest _ _ _ bound])
      (use len solid pend few in \<open>auto simp: init_size_of_def length_pend_iops pend_icells_def flat_pend_iops\<close>)
qed

lemma encode_iop_length: "2 \<le> length (encode_iop t)"
  by (cases t) auto

lemma encode_init_skip:
  assumes "length (encode_init ts) = 2" and "hd (encode_init ts) = FLAG_INIT_SKIP"
  shows "\<exists>n. ts = [ISkip n]"
proof (cases ts)
  case (Cons t us)
  have "us = []"
    using assms(1) Cons encode_iop_length[of t] encode_iop_length[of "hd us"] by (cases us) simp_all
  then show ?thesis using assms Cons by (cases t) auto
qed (use assms in simp)

lemma concat_replicate_replicate: "concat (replicate d (replicate k x)) = replicate (k * d) x"
  by (induction d) (simp_all add: replicate_add)

lemma init_block:
  assumes IH: "init_sound z fuel" and "length (encode_init b @ FLAG_INIT_END # after) < fuel" and "list_all (solid_iop z) b"
    and "length simp + length (encode_init b @ FLAG_INIT_END # after) < 2 ^ 60" and "length (flat_init b) < 2 ^ 64"
  shows "\<exists>b'. expect_end (simplifyInit_loop fuel False (encode_init b @ FLAG_INIT_END # after) simp 0 []) =
      Inr (FLAG_INIT_END # after, simp @ encode_init b') \<and> flat_init b = flat_init b' \<and>
      list_all (tidy_iop z) b' \<and> length (encode_init b') \<le> length (encode_init b)"
proof -
  have "init_to z (FLAG_INIT_END # after) (init_size_of simp 0 [] (encode_init b @ FLAG_INIT_END # after))
      (pend_icells 0 [] @ flat_init b) simp
      (simplifyInit_loop fuel False (encode_init b @ FLAG_INIT_END # after) simp 0 [])"
    by (rule init_soundD[OF IH]) (use assms in \<open>simp_all add: init_size_of_def pend_iops_def pend_icells_def\<close>)
  then show ?thesis
    by (auto simp: init_to_def expect_end_def icovers_def init_size_of_def pend_iops_def pend_icells_def
        FLAG_INIT_END_def)
qed

lemma init_step_repeat:
  assumes IH: "init_sound z fuel" and len: "length (encode_init (IRepeat d b # ts) @ rest) < Suc fuel"
    and rest: "rest = [] \<and> shave \<or> rest \<noteq> [] \<and> hd rest = FLAG_INIT_END"
    and solid: "list_all (solid_iop z) (IRepeat d b # ts)" and pend: "n = 0 \<or> bs = []"
    and bound: "init_size_of simp n bs (encode_init (IRepeat d b # ts) @ rest) < 2 ^ 60"
    and few: "length (pend_icells n bs @ flat_init (IRepeat d b # ts)) < 2 ^ 64"
  shows "init_to z rest (init_size_of simp n bs (encode_init (IRepeat d b # ts) @ rest))
    (pend_icells n bs @ flat_init (IRepeat d b # ts)) simp
    (simplifyInit_loop (Suc fuel) shave (encode_init (IRepeat d b # ts) @ rest) simp n bs)"
proof -
  let ?pend = "encode_init (pend_iops n bs)" and ?more = "encode_init ts @ rest"
  let ?s = "simp @ ?pend @ [FLAG_INIT_REPEAT, d]"
  let ?L = "init_size_of simp n bs (encode_init (IRepeat d b # ts) @ rest)"
  have L: "?L = length simp + length ?pend + 3 + length (encode_init b) + length ?more"
    by (simp add: init_size_of_def)
  have pushed: "push_pending (push_init_data simp bs) FLAG_INIT_SKIP n = simp @ ?pend"
    using pend by (auto simp: push_init_encode push_skip_encode pend_iops_def)
  obtain b' where b': "expect_end (simplifyInit_loop fuel False (encode_init b @ FLAG_INIT_END # ?more) ?s 0 []) =
      Inr (FLAG_INIT_END # ?more, ?s @ encode_init b')" and eq: "flat_init b = flat_init b'"
      and tidy: "list_all (tidy_iop z) b'"
      and shorter: "length (encode_init b') \<le> length (encode_init b)"
    using init_block[OF IH, of b ?more ?s] len solid bound L by auto
  have "length (?s @ encode_init b') < 2 ^ 60" using bound L shorter by simp
  from resize_ops_take[OF _ this]
  have resize: "resize_ops (?s @ encode_init b') (length simp) = Inr simp"
    "resize_ops (?s @ encode_init b') (length simp + length ?pend) = Inr (simp @ ?pend)" by simp_all
  have nonempty: "encode_init b' \<noteq> []"
    using eq solid encode_iop_length[of "hd b'"] by (cases b') auto
  have len': "length ?more < fuel" and solid': "list_all (solid_iop z) ts" using len solid by simp_all
  show ?thesis
  proof (cases "length (encode_init b') = 2 \<and> hd (encode_init b') = FLAG_INIT_SKIP")
    case True
    then obtain k where k: "b' = [ISkip k]" using encode_init_skip by blast
    have "length (flat_init (IRepeat d b # ts)) = k * d + length (flat_init ts)"
      by (simp add: eq k concat_replicate_replicate)
    then have no_wrap: "mul_size_t k d = k * d" "add_size_t n (k * d) = n + k * d"
      using few by (simp_all add: pend_icells_def)
    show ?thesis
    proof (cases "n = 0")
      case True
      have "simplifyInit_loop (Suc fuel) shave (encode_init (IRepeat d b # ts) @ rest) simp n bs =
          simplifyInit_loop fuel shave ?more (simp @ ?pend) (k * d) []"
        using b' resize pushed k True no_wrap by (simp add: simplifyInit_loop.simps(2) Let_def nth_append)
      then show ?thesis using init_continue[OF IH len' rest solid' _ _ bound, of "k * d" "[]" simp "pend_iops n bs"]
          flat_pend_iops[OF pend] L few
        by (simp add: eq k concat_replicate_replicate pend_icells_def init_size_of_def length_pend_iops)
    next
      case False
      then have "bs = []" using pend by simp
      have "simplifyInit_loop (Suc fuel) shave (encode_init (IRepeat d b # ts) @ rest) simp n bs =
          simplifyInit_loop fuel shave ?more (simp @ encode_init []) (n + k * d) []"
        using b' resize pushed k False no_wrap length_pend_iops[of n bs]
        by (simp add: simplifyInit_loop.simps(2) Let_def nth_append)
      then show ?thesis using init_continue[OF IH len' rest solid' _ _ bound, of "n + k * d" "[]" simp "[]"]
          \<open>bs = []\<close> False L few
        by (simp add: eq k concat_replicate_replicate pend_icells_def init_size_of_def length_pend_iops replicate_add)
    qed
  next
    case False
    have "simplifyInit_loop (Suc fuel) shave (encode_init (IRepeat d b # ts) @ rest) simp n bs =
        simplifyInit_loop fuel shave ?more (simp @ encode_init (pend_iops n bs @ [IRepeat d b'])) 0 []"
      using b' pushed False nonempty
      by (auto simp: simplifyInit_loop.simps(2) Let_def nth_append hd_conv_nth)
    then show ?thesis using init_continue[OF IH len' rest solid' _ _ bound, of 0 "[]" simp "pend_iops n bs @ [IRepeat d b']"]
        flat_pend_iops[OF pend] L shorter tidy solid few
      by (simp add: eq pend_icells_def init_size_of_def length_pend_iops)
  qed
qed

lemma simplifyInit_loop_sound: "init_sound z fuel"
proof (induction fuel)
  case 0
  then show ?case by (simp add: init_sound_def)
next
  case (Suc fuel)
  show ?case
    unfolding init_sound_def
  proof (intro allI impI)
    fix ts rest simp shave n bs
    assume hyps: "length (encode_init ts @ rest) < Suc fuel"
      "rest = [] \<and> shave \<or> rest \<noteq> [] \<and> hd rest = FLAG_INIT_END" "list_all (solid_iop z) ts" "n = 0 \<or> bs = []"
      "init_size_of simp n bs (encode_init ts @ rest) < 2 ^ 60" "length (pend_icells n bs @ flat_init ts) < 2 ^ 64"
    show "init_to z rest (init_size_of simp n bs (encode_init ts @ rest)) (pend_icells n bs @ flat_init ts) simp
       (simplifyInit_loop (Suc fuel) shave (encode_init ts @ rest) simp n bs)"
    proof (cases ts)
      case Nil
      then show ?thesis using init_at_end[OF hyps(4,2)] by simp
    next
      case (Cons t us)
      note hyps = hyps[unfolded Cons]
      show ?thesis unfolding Cons
      proof (cases t)
        case (IInit cs)
        show "init_to z rest (init_size_of simp n bs (encode_init (t # us) @ rest)) (pend_icells n bs @ flat_init (t # us)) simp
          (simplifyInit_loop (Suc fuel) shave (encode_init (t # us) @ rest) simp n bs)"
          unfolding IInit by (rule init_step_init[OF Suc hyps[unfolded IInit]])
      next
        case (ISkip k)
        show "init_to z rest (init_size_of simp n bs (encode_init (t # us) @ rest)) (pend_icells n bs @ flat_init (t # us)) simp
          (simplifyInit_loop (Suc fuel) shave (encode_init (t # us) @ rest) simp n bs)"
          unfolding ISkip by (rule init_step_skip[OF Suc hyps[unfolded ISkip]])
      next
        case (IRepeat d b)
        show "init_to z rest (init_size_of simp n bs (encode_init (t # us) @ rest)) (pend_icells n bs @ flat_init (t # us)) simp
          (simplifyInit_loop (Suc fuel) shave (encode_init (t # us) @ rest) simp n bs)"
          unfolding IRepeat by (rule init_step_repeat[OF Suc hyps[unfolded IRepeat]])
      next
        case (IContainer c)
        show "init_to z rest (init_size_of simp n bs (encode_init (t # us) @ rest)) (pend_icells n bs @ flat_init (t # us)) simp
          (simplifyInit_loop (Suc fuel) shave (encode_init (t # us) @ rest) simp n bs)"
          unfolding IContainer by (rule init_step_container[OF Suc hyps[unfolded IContainer]])
      qed
    qed
  qed
qed

lemma simplifyInit_covers:
  assumes "list_all (solid_iop z) ts" and "length (encode_init ts) < 2 ^ 60" and "length (flat_init ts) < 2 ^ 64"
  shows "\<exists>ts' k. simplifyInit (encode_init ts) = Inr (encode_init ts') \<and>
    flat_init ts = flat_init ts' @ replicate k ILeave \<and> list_all (tidy_iop z) ts'"
proof -
  have "init_to z [] (init_size_of [] 0 [] (encode_init ts @ [])) (pend_icells 0 [] @ flat_init ts) []
      (simplifyInit_loop (Suc (length (encode_init ts))) True (encode_init ts @ []) [] 0 [])"
    by (rule init_soundD[OF simplifyInit_loop_sound]) (use assms in \<open>simp_all add: init_size_of_def pend_iops_def pend_icells_def\<close>)
  then obtain ts' k where ts': "simplifyInit_loop (Suc (length (encode_init ts))) True (encode_init ts) [] 0 [] =
      Inr ([], encode_init ts')" "flat_init ts = flat_init ts' @ replicate k ILeave"
      "list_all (tidy_iop z) ts'"
    by (auto simp: init_to_def icovers_def pend_icells_def)
  show ?thesis
  proof (cases "length (encode_init ts') = 2 \<and> hd (encode_init ts') = FLAG_INIT_SKIP")
    case True
    then obtain n where "ts' = [ISkip n]" using encode_init_skip by blast
    then have "flat_init ts = flat_init [] @ replicate (n + k) ILeave" using ts'(2) by (simp add: replicate_add)
    moreover have "simplifyInit (encode_init ts) = Inr (encode_init [])" using ts'(1) True by (simp add: simplifyInit_def)
    ultimately show ?thesis by (intro exI[of _ "[]"]) auto
  next
    case False
    then have "simplifyInit (encode_init ts) = Inr (encode_init ts')" using ts'(1) by (auto simp: simplifyInit_def)
    then show ?thesis using ts'(2,3) by blast
  qed
qed

end
