(* ===== verification/LayoutOf.thy ===== *)
theory LayoutOf
  imports LayoutInit
begin

text \<open>
  The layouts that \<open>raw_layout_of\<close> and \<open>layout_of\<close> compute for types. Proved: the visitor
  terminates on types that do not contain themselves, the raw layout describes exactly the
  bytes of the type and is accepted by \<open>validate\<close>, simplification never fails on it and
  keeps its meaning, and \<open>skipBlock\<close> finds the end of a block.
\<close>

section \<open>Reading balanced bytecode\<close>

text \<open>
  \<open>validate\<close> and \<open>skipBlock\<close> read bytecode with a nesting counter. What they share: an
  operation with its operand leaves the counter, the start of a block increments it and its
  end decrements it. Any such reader steps over the encoding of operations.
\<close>

locale block_reader =
  fixes read :: "nat \<Rightarrow> nat list \<Rightarrow> 'r"
  assumes read_run: "op = FLAG_MEMCPY \<or> op = FLAG_SKIP \<Longrightarrow> read n (op # k # r) = read n r"
    and read_start: "op = FLAG_ARRAY \<or> op = FLAG_CONTAINER \<Longrightarrow> read n (op # k # r) = read (Suc n) r"
    and read_end: "read (Suc n) (FLAG_END # r) = read n r"
begin

lemma read_ops: "(\<And>x n r. x \<in> set ts \<Longrightarrow> read n (encode_op x @ r) = read n r) \<Longrightarrow> read n (encode ts @ r) = read n r"
  by (induction ts arbitrary: n r) simp_all

lemma read_op: "read n (encode_op t @ r) = read n r"
proof (induction t arbitrary: n r)
  case (ArrayOp d b)
  then have "read (Suc n) (encode b @ FLAG_END # r) = read (Suc n) (FLAG_END # r)" by (intro read_ops)
  then show ?case by (simp add: read_start read_end)
next
  case (ContainerOp c b)
  then have "read (Suc n) (encode b @ FLAG_END # r) = read (Suc n) (FLAG_END # r)" by (intro read_ops)
  then show ?case by (simp add: read_start read_end)
qed (simp_all add: read_run)

lemma read_encode: "read n (encode ts @ r) = read n r"
  by (rule read_ops) (rule read_op)

end

interpretation validate_reader: block_reader validate_ops
  by unfold_locales auto

interpretation skip_reader: block_reader skipBlock
  by unfold_locales (auto simp: flag_defs)

lemma to_int32_le: "to_int32 n \<le> int n"
proof -
  have "int (n mod 2 ^ 32) \<le> int n" using mod_less_eq_dividend[of n "2 ^ 32"] by (simp del: of_nat_mod)
  moreover have "to_int32 n \<le> int (n mod 2 ^ 32)" by (simp add: to_int32_def Let_def del: of_nat_mod)
  ultimately show ?thesis by linarith
qed

lemma validate_init_list:
  "(\<And>x n r. x \<in> set ts \<Longrightarrow> validate_init n (encode_iop x @ r) = validate_init n r) \<Longrightarrow>
   validate_init n (encode_init ts @ r) = validate_init n r"
  by (induction ts arbitrary: n r) simp_all

lemma validate_init_op: "validate_init n (encode_iop t @ r) = validate_init n r"
proof (induction t arbitrary: n r)
  case (IInit bs)
  have "\<not> int (length (bs @ r)) + 1 < to_int32 (length bs)"
    using to_int32_le[of "length bs"] by simp
  moreover have "FLAG_INIT \<noteq> FLAG_INIT_CONTAINER" by (simp add: flag_defs)
  ultimately show ?case by simp
next
  case (IRepeat d b)
  have "validate_init (Suc n) (encode_init b @ FLAG_INIT_END # r) = validate_init (Suc n) (FLAG_INIT_END # r)"
    by (rule validate_init_list) (rule IRepeat)
  moreover have "validate_init n (FLAG_INIT_REPEAT # d # r') = validate_init (Suc n) r'" for r'
    by (simp add: flag_defs)
  moreover have "validate_init (Suc n) (FLAG_INIT_END # r) = validate_init n r" by (simp add: flag_defs)
  ultimately show ?case by simp
qed (simp_all add: flag_defs)

lemma validate_init_encode: "validate_init n (encode_init ts @ r) = validate_init n r"
  by (rule validate_init_list) (rule validate_init_op)

lemma validate_encoded:
  "ops l = encode ts \<Longrightarrow> init_ops l = encode_init us \<Longrightarrow> validate l = Inr ()"
  using validate_reader.read_encode[of 0 ts "[]"] validate_init_encode[of 0 us "[]"]
  by (simp add: validate_def)

section \<open>The layout of a type has its size\<close>

fun cell_bytes :: "store \<Rightarrow> cell \<Rightarrow> nat" where
  "cell_bytes st (Cont t _) = ty_size (type_at st t)"
| "cell_bytes st _ = 1"

definition cells_bytes :: "store \<Rightarrow> cell list \<Rightarrow> nat" where
  "cells_bytes st cells = sum_list (map (cell_bytes st) cells)"

fun icell_bytes :: "store \<Rightarrow> icell \<Rightarrow> nat" where
  "icell_bytes st (ICont t) = ty_size (type_at st t)"
| "icell_bytes st _ = 1"

definition icells_bytes :: "store \<Rightarrow> icell list \<Rightarrow> nat" where
  "icells_bytes st cells = sum_list (map (icell_bytes st) cells)"

lemma cells_bytes_simps [simp]:
  "cells_bytes st [] = 0" "cells_bytes st (c # cs) = cell_bytes st c + cells_bytes st cs"
  "cells_bytes st (cs @ ds) = cells_bytes st cs + cells_bytes st ds"
  "cells_bytes st (replicate n Data) = n" "cells_bytes st (replicate n Pad) = n"
  "cells_bytes st (concat (replicate n cs)) = n * cells_bytes st cs"
  by (simp_all add: cells_bytes_def sum_list_replicate) (induction n; simp add: cells_bytes_def)

lemma icells_bytes_simps [simp]:
  "icells_bytes st [] = 0" "icells_bytes st (i # is) = icell_bytes st i + icells_bytes st is"
  "icells_bytes st (is @ js) = icells_bytes st is + icells_bytes st js"
  "icells_bytes st (replicate n ILeave) = n" "icells_bytes st (map IByte bs) = length bs"
  "icells_bytes st (concat (replicate n is)) = n * icells_bytes st is"
  by (simp_all add: icells_bytes_def sum_list_replicate o_def sum_list_triv)
    (induction n; simp add: icells_bytes_def)

lemma cells_le_bytes: "cells_le m xs ys \<Longrightarrow> cells_bytes st xs = cells_bytes st ys"
proof (induction xs ys rule: list_all2_induct)
  case (Cons x xs y ys)
  then have "cell_bytes st x = cell_bytes st y" by (cases x; cases y) auto
  then show ?case using Cons by simp
qed simp

text \<open>
  A store describes memory consistently when sizes are \<open>size_t\<close> values, fields do not
  overlap, come in the order of their offsets and lie inside the compound, arrays have the
  size of their elements, and container objects occupy memory.
\<close>

fun fields_in_order :: "store \<Rightarrow> nat \<Rightarrow> Field list \<Rightarrow> nat \<Rightarrow> bool" where
  "fields_in_order st offset [] sz = (offset \<le> sz)"
| "fields_in_order st offset (f # fs) sz = (offset \<le> fld_offset f \<and>
     fields_in_order st (fld_offset f + ty_size (type_at st (fld_type f))) fs sz)"

definition well_laid :: "store \<Rightarrow> bool" where
  "well_laid st \<longleftrightarrow> (\<forall>t \<in> dom (objects st).
     set (kind_refs (ty_kind (type_at st t))) \<subseteq> dom (objects st) \<and> ty_size (type_at st t) < 2 ^ 64 \<and>
     (case ty_kind (type_at st t) of
        Array dim on \<Rightarrow> ty_size (type_at st t) = dim * ty_size (type_at st on) \<and> 0 < ty_size (type_at st on)
      | Compound flds \<Rightarrow> fields_in_order st 0 flds (ty_size (type_at st t))
      | Container _ _ _ \<Rightarrow> 0 < ty_size (type_at st t)
      | _ \<Rightarrow> True))"

definition no_empty_arrays :: "store \<Rightarrow> bool" where
  "no_empty_arrays st \<longleftrightarrow> (\<forall>t \<in> dom (objects st).
     case ty_kind (type_at st t) of Array dim on \<Rightarrow> 0 < dim | _ \<Rightarrow> True)"

lemma no_empty_arraysD:
  "no_empty_arrays st \<Longrightarrow> t \<in> dom (objects st) \<Longrightarrow> ty_kind (type_at st t) = Array dim on \<Longrightarrow> 0 < dim"
  unfolding no_empty_arrays_def by (drule (1) bspec) simp

text \<open>
  The specification of a layout: the cells of a type, straight from its definition. The
  gaps between fields are padding.
\<close>

fun compound_cells :: "store \<Rightarrow> (tid \<Rightarrow> cell list) \<Rightarrow> nat \<Rightarrow> nat \<Rightarrow> Field list \<Rightarrow> cell list" where
  "compound_cells st cells sz offset [] = replicate (sub_size_t sz offset) Pad"
| "compound_cells st cells sz offset (f # fs) =
     replicate (sub_size_t (fld_offset f) offset) Pad @ cells (fld_type f) @
     compound_cells st cells sz (fld_offset f + ty_size (type_at st (fld_type f))) fs"

fun cells_upto :: "nat \<Rightarrow> store \<Rightarrow> tid \<Rightarrow> cell list" where
  "cells_upto 0 st t = []"
| "cells_upto (Suc fuel) st t =
    (let obj = type_at st t in
     case ty_kind obj of
       Array dim on \<Rightarrow> concat (replicate dim (cells_upto fuel st on))
     | Opaque \<Rightarrow> replicate (ty_size obj) Pad
     | Compound flds \<Rightarrow> compound_cells st (cells_upto fuel st) (ty_size obj) 0 flds
     | Container _ _ on \<Rightarrow> [Cont t (cells_upto fuel st on)]
     | NullType \<Rightarrow> []
     | _ \<Rightarrow> replicate (ty_size obj) Data)"

definition type_cells :: "store \<Rightarrow> tid \<Rightarrow> cell list" where
  "type_cells st t = cells_upto (Suc (next_id st)) st t"

text \<open>An initialization cell stands at a cell of the layout.\<close>

fun same_place :: "cell \<Rightarrow> icell \<Rightarrow> bool" where
  "same_place (Cont t _) i = (i = ICont t)"
| "same_place _ (ICont _) = False"
| "same_place _ _ = True"

lemma same_place_replicate [simp]:
  "list_all2 same_place (replicate n Pad) (replicate n ILeave)"
  "list_all2 same_place (replicate n Data) (replicate n ILeave)"
  "length bs = n \<Longrightarrow> list_all2 same_place (replicate n Data) (map IByte bs)"
  by (simp_all add: list_all2_conv_all_nth)

lemma same_place_concat: "list_all2 R xs ys \<Longrightarrow> list_all2 R (concat (replicate n xs)) (concat (replicate n ys))"
  by (induction n) (auto intro: list_all2_appendI)

lemma same_place_bytes: "list_all2 same_place cs is \<Longrightarrow> icells_bytes st is = cells_bytes st cs"
proof (induction cs "is" rule: list_all2_induct)
  case (Cons x xs y ys)
  then have "cell_bytes st x = icell_bytes st y" by (cases x; cases y) auto
  then show ?case using Cons by simp
qed simp

text \<open>\<open>l'\<close> is \<open>l\<close> with operations appended that describe the cells \<open>cs\<close>.\<close>

definition laid_out :: "bool \<Rightarrow> cell list \<Rightarrow> MemoryLayout \<Rightarrow> MemoryLayout \<Rightarrow> bool" where
  "laid_out z cs l l' \<longleftrightarrow> (\<exists>ts us. ops l' = ops l @ encode ts \<and> init_ops l' = init_ops l @ encode_init us \<and>
     list_all (solid_op z) ts \<and> list_all (solid_iop z) us \<and> flat ts = cs \<and> list_all2 same_place cs (flat_init us))"

lemma laid_outI:
  assumes "ops l' = ops l @ encode ts" and "init_ops l' = init_ops l @ encode_init us"
    and "list_all (solid_op z) ts" and "list_all (solid_iop z) us"
    and "flat ts = cs" and "list_all2 same_place cs (flat_init us)"
  shows "laid_out z cs l l'"
  using assms unfolding laid_out_def by blast

lemma laid_out_trans:
  assumes "laid_out z cs l l'" and "laid_out z cs' l' l''"
  shows "laid_out z (cs @ cs') l l''"
proof -
  obtain ts us ts' us' where
    "ops l' = ops l @ encode ts" "init_ops l' = init_ops l @ encode_init us"
    "list_all (solid_op z) ts" "list_all (solid_iop z) us" "flat ts = cs" "list_all2 same_place cs (flat_init us)"
    "ops l'' = ops l' @ encode ts'" "init_ops l'' = init_ops l' @ encode_init us'"
    "list_all (solid_op z) ts'" "list_all (solid_iop z) us'" "flat ts' = cs'" "list_all2 same_place cs' (flat_init us')"
    using assms unfolding laid_out_def by blast
  then show ?thesis by (intro laid_outI[of _ _ "ts @ ts'" "us @ us'"]) (simp_all add: list_all2_appendI)
qed

lemma laid_out_pushSkip: "laid_out z (replicate n Pad) l (pushSkip l n)"
  by (rule laid_outI[of _ _ "[Skip n]" "[ISkip n]"]) (simp_all add: push_defs)

lemma laid_out_pushMemcpy:
  assumes "pushMemcpy l n bs = Inr l'" and "list_all (\<lambda>b. b < 256) bs"
  shows "laid_out z (replicate n Data) l l'"
  using assms
  by (intro laid_outI[of _ _ "[Memcpy n]" "[if bs = [] then ISkip n else IInit bs]"])
    (auto simp: push_defs Let_def split: if_splits)

lemma laid_out_pushArray:
  assumes "laid_out z cs empty_layout sub" and "cs \<noteq> []" and "length cs < 2 ^ 64" and "z \<longrightarrow> 0 < d"
  shows "laid_out z (concat (replicate d cs)) l (pushArray l d sub)"
proof -
  obtain ts us where sub: "ops sub = encode ts" "init_ops sub = encode_init us"
    "list_all (solid_op z) ts" "list_all (solid_iop z) us" "flat ts = cs" "list_all2 same_place cs (flat_init us)"
    using assms(1) unfolding laid_out_def by (auto simp: empty_layout_def)
  then have "flat ts \<noteq> []" "flat_init us \<noteq> []" "length (flat_init us) = length cs"
    using assms(2) list_all2_lengthD[OF sub(6)] by auto
  then show ?thesis using sub assms(3,4)
    by (intro laid_outI[of _ _ "[ArrayOp d ts]" "[IRepeat d us]"]) (simp_all add: push_defs Let_def same_place_concat)
qed

lemma laid_out_pushContainer:
  assumes "laid_out z cs empty_layout sub" and "length cs < 2 ^ 64"
  shows "laid_out z [Cont t cs] l (pushContainer l t sub)"
proof -
  obtain ts where "ops sub = encode ts" "list_all (solid_op z) ts" "flat ts = cs"
    using assms(1) unfolding laid_out_def by (auto simp: empty_layout_def)
  then show ?thesis using assms(2)
    by (intro laid_outI[of _ _ "[ContainerOp t ts]" "[IContainer t]"]) (simp_all add: push_defs Let_def)
qed

lemma visit_field_step:
  "visit_field st v (offset, l) f =
     bind_result (v (fld_type f) (pushSkip l (sub_size_t (fld_offset f) offset)))
       (\<lambda>l'. Inr (add_size_t (fld_offset f) (ty_size (type_at st (fld_type f))), l'))"
  by (simp add: visit_field_def)

lemma fields_in_order_le: "fields_in_order st offset fs sz \<Longrightarrow> offset \<le> sz"
proof (induction fs arbitrary: offset)
  case (Cons f fs)
  then show ?case using Cons.IH[of "fld_offset f + ty_size (type_at st (fld_type f))"] by fastforce
qed simp

lemma visit_fields_laid_out:
  assumes "\<And>f l l'. f \<in> set fs \<Longrightarrow> v (fld_type f) l = Inr l' \<Longrightarrow> laid_out z (cells (fld_type f)) l l'"
    and "fold_result (visit_field st v) (offset, l) fs = Inr (offset', l')"
    and "fields_in_order st offset fs sz" and "sz < 2 ^ 64"
  shows "laid_out z (compound_cells st cells sz offset fs) l (pushSkip l' (sub_size_t sz offset'))"
  using assms
proof (induction fs arbitrary: offset l)
  case Nil
  then show ?case by (auto intro: laid_out_pushSkip)
next
  case (Cons f fs)
  let ?pad = "sub_size_t (fld_offset f) offset"
  obtain l1 where l1: "v (fld_type f) (pushSkip l ?pad) = Inr l1"
    and rest: "fold_result (visit_field st v) (add_size_t (fld_offset f) (ty_size (type_at st (fld_type f))), l1) fs =
      Inr (offset', l')"
    using Cons.prems(2) by (auto simp: visit_field_step)
  have order: "fields_in_order st (fld_offset f + ty_size (type_at st (fld_type f))) fs sz" using Cons.prems(3) by simp
  have "add_size_t (fld_offset f) (ty_size (type_at st (fld_type f))) = fld_offset f + ty_size (type_at st (fld_type f))"
    by (rule add_size_t_no_wrap) (use fields_in_order_le[OF order] Cons.prems(4) in linarith)
  note rest = rest[unfolded this]
  have "laid_out z (cells (fld_type f)) (pushSkip l ?pad) l1" using Cons.prems(1) l1 by simp
  from laid_out_trans[OF laid_out_trans[OF laid_out_pushSkip this] Cons.IH[OF _ rest order Cons.prems(4)]]
  show ?case using Cons.prems(1) by simp
qed

lemma visit_fields_each:
  assumes "fold_result (visit_field st v) s fs = Inr s'" and "f \<in> set fs"
  shows "\<exists>l l'. v (fld_type f) l = Inr l'"
  using assms by (induction fs arbitrary: s) (auto simp: visit_field_def, blast)

lemma enum_init_bytes: "list_all (\<lambda>b. b < 256) (enum_init_data vs sz)"
  by (auto simp: enum_init_data_def list_all_iff split: list.splits)

lemma compound_cells_bytes:
  assumes "\<And>f. f \<in> set fs \<Longrightarrow> cells_bytes st (cells (fld_type f)) = ty_size (type_at st (fld_type f))"
    and "fields_in_order st offset fs sz"
  shows "cells_bytes st (compound_cells st cells sz offset fs) + offset = sz"
  using assms
proof (induction fs arbitrary: offset)
  case (Cons f fs)
  have "cells_bytes st (compound_cells st cells sz (fld_offset f + ty_size (type_at st (fld_type f))) fs) +
      (fld_offset f + ty_size (type_at st (fld_type f))) = sz"
    by (rule Cons.IH) (use Cons.prems in auto)
  then show ?case using Cons.prems by simp
qed simp

lemma compound_cells_all:
  assumes "\<And>f. f \<in> set fs \<Longrightarrow> list_all P (cells (fld_type f))" and "P Pad"
  shows "list_all P (compound_cells st cells sz offset fs)"
  using assms by (induction fs arbitrary: offset) (auto simp: list_all_iff)

lemma cells_count: "list_all (\<lambda>c. 0 < cell_bytes st c) cs \<Longrightarrow> length cs \<le> cells_bytes st cs"
  by (induction cs) auto

lemma cells_positive_replicate [simp]:
  "list_all (\<lambda>c. 0 < cell_bytes st c) (replicate n Data)" "list_all (\<lambda>c. 0 < cell_bytes st c) (replicate n Pad)"
  "list_all (\<lambda>c. 0 < cell_bytes st c) cs \<Longrightarrow> list_all (\<lambda>c. 0 < cell_bytes st c) (concat (replicate n cs))"
  by (auto simp: list_all_iff)

lemma well_laidD:
  assumes "well_laid st" and "t \<in> dom (objects st)"
  shows "set (kind_refs (ty_kind (type_at st t))) \<subseteq> dom (objects st)"
    and "ty_kind (type_at st t) = Array dim on \<Longrightarrow>
      ty_size (type_at st t) = dim * ty_size (type_at st on) \<and> 0 < ty_size (type_at st on)"
    and "ty_kind (type_at st t) = Compound flds \<Longrightarrow> fields_in_order st 0 flds (ty_size (type_at st t))"
    and "ty_kind (type_at st t) = Container c fac on \<Longrightarrow> 0 < ty_size (type_at st t)"
    and "ty_size (type_at st t) < 2 ^ 64"
  using bspec[OF assms(1)[unfolded well_laid_def] assms(2)] by simp_all

text \<open>A successful visit appends exactly the cells of the type, which have its size.\<close>

definition sized_cells :: "store \<Rightarrow> cell list \<Rightarrow> nat \<Rightarrow> bool" where
  "sized_cells st cs n \<longleftrightarrow> cells_bytes st cs = n \<and> list_all (\<lambda>c. 0 < cell_bytes st c) cs"

lemma sized_cells_few: "sized_cells st cs n \<Longrightarrow> n < 2 ^ 64 \<Longrightarrow> length cs < 2 ^ 64"
  using cells_count[of st cs] by (simp add: sized_cells_def)

lemma visit_laid_out:
  assumes "well_laid st" and "z \<longrightarrow> no_empty_arrays st" and "t \<in> dom (objects st)" and "visit fuel st ap ao t l = Inr l'"
  shows "laid_out z (cells_upto fuel st t) l l' \<and> sized_cells st (cells_upto fuel st t) (ty_size (type_at st t))"
  using assms(3,4)
proof (induction fuel arbitrary: t ap ao l l')
  case (Suc fuel)
  let ?k = "ty_kind (type_at st t)" and ?sz = "ty_size (type_at st t)"
  note well = well_laidD[OF assms(1) Suc.prems(1)]
  have few: "length (cells_upto fuel st on) < 2 ^ 64"
    if "sized_cells st (cells_upto fuel st on) (ty_size (type_at st on))" "on \<in> dom (objects st)" for on
    using sized_cells_few[OF that(1)] well_laidD(5)[OF assms(1) that(2)] by blast
  show ?case
  proof (cases ?k)
    case (Array dim on)
    then obtain sub where sub: "visit fuel st False False on empty_layout = Inr sub" "l' = pushArray l dim sub"
      using Suc.prems(2) by (auto simp: Let_def visit_Array_def)
    have on: "on \<in> dom (objects st)" using well(1) Array by simp
    have ih: "laid_out z (cells_upto fuel st on) empty_layout sub"
      "sized_cells st (cells_upto fuel st on) (ty_size (type_at st on))"
      using Suc.IH[OF on sub(1)] by blast+
    then have "cells_upto fuel st on \<noteq> []" using well(2)[OF Array] by (auto simp: sized_cells_def)
    moreover have "z \<longrightarrow> 0 < dim" using no_empty_arraysD[OF _ Suc.prems(1) Array] assms(2) by blast
    ultimately have "laid_out z (concat (replicate dim (cells_upto fuel st on))) l l'"
      using laid_out_pushArray[OF ih(1)] few[OF ih(2) on] sub(2) by blast
    then show ?thesis using ih(2) well(2)[OF Array] Array by (simp add: Let_def sized_cells_def)
  next
    case (Container c fac on)
    then obtain sub where sub: "visit fuel st False False on empty_layout = Inr sub" "l' = pushContainer l t sub"
      using Suc.prems(2) by (auto simp: Let_def visit_Container_def)
    have on: "on \<in> dom (objects st)" using well(1) Container by simp
    have ih: "laid_out z (cells_upto fuel st on) empty_layout sub" "length (cells_upto fuel st on) < 2 ^ 64"
      using Suc.IH[OF on sub(1)] few[OF _ on] by blast+
    show ?thesis using laid_out_pushContainer[OF ih] well(4)[OF Container] sub(2) Container
      by (simp add: Let_def sized_cells_def)
  next
    case (Compound fs)
    obtain offset l1 where fold: "fold_result (visit_field st (visit fuel st ap ao)) (0, l) fs = Inr (offset, l1)"
      and l': "l' = pushSkip l1 (sub_size_t ?sz offset)"
      using Suc.prems(2) Compound by (auto simp: Let_def visit_Compound_def)
    have refs: "fld_type f \<in> dom (objects st)" if "f \<in> set fs" for f using well(1) Compound that by auto
    have ih: "laid_out z (cells_upto fuel st (fld_type f)) l l' \<and>
        sized_cells st (cells_upto fuel st (fld_type f)) (ty_size (type_at st (fld_type f)))"
      if "f \<in> set fs" "visit fuel st ap ao (fld_type f) l = Inr l'" for f l l'
      using Suc.IH[OF _ that(2)] refs[OF that(1)] by blast
    have "\<exists>l l'. visit fuel st ap ao (fld_type f) l = Inr l'" if "f \<in> set fs" for f
      using fold that by (rule visit_fields_each)
    then have each: "sized_cells st (cells_upto fuel st (fld_type f)) (ty_size (type_at st (fld_type f)))"
      if "f \<in> set fs" for f using ih that by blast
    then have "cells_bytes st (compound_cells st (cells_upto fuel st) ?sz 0 fs) + 0 = ?sz"
      by (intro compound_cells_bytes) (use well(3) Compound in \<open>auto simp: sized_cells_def\<close>)
    moreover have "list_all (\<lambda>c. 0 < cell_bytes st c) (compound_cells st (cells_upto fuel st) ?sz 0 fs)"
      by (rule compound_cells_all) (use each in \<open>simp_all add: sized_cells_def\<close>)
    moreover have "laid_out z (compound_cells st (cells_upto fuel st) ?sz 0 fs) l l'"
      unfolding l' by (rule visit_fields_laid_out[OF _ fold well(3)[OF Compound] well(5)]) (use ih in blast)
    ultimately show ?thesis using Compound by (simp add: Let_def sized_cells_def)
  next
    case (Enum vs lastv)
    then show ?thesis using Suc.prems(2) enum_init_bytes laid_out_pushMemcpy
      by (auto simp: Let_def visit_Enum_def sized_cells_def split: if_splits)
  qed (use Suc.prems(2) laid_out_pushMemcpy laid_out_pushSkip in
      \<open>auto simp: Let_def visit_Numeric_def visit_Pointer_def visit_Opaque_def sized_cells_def split: if_splits\<close>)
qed simp

lemma raw_laid_out:
  assumes "well_laid st" and "z \<longrightarrow> no_empty_arrays st" and "t \<in> dom (objects st)" and "raw_layout_of st t ap ao = Inr l"
  shows "laid_out z (type_cells st t) empty_layout l" and "cells_bytes st (type_cells st t) = ty_size (type_at st t)"
    and "length (type_cells st t) < 2 ^ 64"
  using visit_laid_out[OF assms(1-3)] assms(4) sized_cells_few well_laidD(5)[OF assms(1,3)]
  unfolding raw_layout_of_def type_cells_def sized_cells_def by blast+

text \<open>
  What the simplifier makes of a raw layout: operations for the cells of the type but
  trailing padding, and initialization operations for the same places.
\<close>

lemma simplify_raw_layout:
  assumes "well_laid st" and "z \<longrightarrow> no_empty_arrays st" and "t \<in> dom (objects st)"
    and "raw_layout_of st t ap ao = Inr raw" and "length (ops raw) < 2 ^ 60" and "length (init_ops raw) < 2 ^ 60"
  obtains ts us B k j where "layout_of st t ap ao m trim = Inr \<lparr>ops = encode ts, init_ops = encode_init us\<rparr>"
    and "type_cells st t = B @ replicate k Pad" and "cells_le m B (flat ts)" and "list_all (tidy_op z m) ts"
    and "list_all2 same_place (type_cells st t) (flat_init us @ replicate j ILeave)" and "list_all (tidy_iop z) us"
proof -
  obtain ts us where raw: "ops raw = encode ts" "init_ops raw = encode_init us"
    "list_all (solid_op z) ts" "list_all (solid_iop z) us" "flat ts = type_cells st t"
    "list_all2 same_place (type_cells st t) (flat_init us)"
    using raw_laid_out(1)[OF assms(1-4)] unfolding laid_out_def by (auto simp: empty_layout_def)
  have few: "length (flat ts) < 2 ^ 64" "length (flat_init us) < 2 ^ 64"
    using raw_laid_out(3)[OF assms(1-4)] raw(5) list_all2_lengthD[OF raw(6)] by simp_all
  obtain ts' B k where ts': "simplify_ops m trim (encode ts) = Inr (encode ts')"
    "flat ts = B @ replicate k Pad" "cells_le m B (flat ts')" "list_all (tidy_op z m) ts'"
    using simplify_ops_covers[OF raw(3) _ few(1), of m trim] assms(5) raw(1) by auto
  obtain us' j where us': "simplifyInit (encode_init us) = Inr (encode_init us')"
    "flat_init us = flat_init us' @ replicate j ILeave" "list_all (tidy_iop z) us'"
    using simplifyInit_covers[OF raw(4) _ few(2)] assms(6) raw(2) by auto
  have "layout_of st t ap ao m trim = Inr \<lparr>ops = encode ts', init_ops = encode_init us'\<rparr>"
    using assms(4) raw(1,2) ts'(1) us'(1) by (simp add: layout_of_def simplify_def)
  then show ?thesis using that ts'(2-) us'(2,3) raw(5,6) by metis
qed

section \<open>The visitor terminates\<close>

text \<open>The types whose layout is part of the layout of a type.\<close>

fun layout_refs :: "kind \<Rightarrow> tid list" where
  "layout_refs (Pointer _) = []"
| "layout_refs k = kind_refs k"

definition contains :: "store \<Rightarrow> tid rel" where
  "contains st = {(t, u). t \<in> dom (objects st) \<and> u \<in> set (layout_refs (ty_kind (type_at st t)))}"

lemma layout_refs_subset: "set (layout_refs k) \<subseteq> set (kind_refs k)"
  by (cases k) auto

definition nested_in :: "store \<Rightarrow> tid \<Rightarrow> tid set" where
  "nested_in st t = (contains st)\<^sup>+ `` {t}"

lemma nested_in_subset:
  assumes "wf_store st"
  shows "nested_in st t \<subseteq> dom (objects st)"
proof
  fix u assume "u \<in> nested_in st t"
  then have "(t, u) \<in> (contains st)\<^sup>+" by (simp add: nested_in_def)
  then obtain s where "(s, u) \<in> contains st" by (meson tranclE)
  then show "u \<in> dom (objects st)"
    using wf_store_refs[OF assms, of s u] layout_refs_subset by (fastforce simp: contains_def)
qed

lemma nested_in_psubset:
  assumes "wf_store st" and "acyclic (contains st)" and "(t, u) \<in> contains st"
  shows "card (nested_in st u) < card (nested_in st t)"
proof (rule psubset_card_mono)
  show "finite (nested_in st t)"
    using finite_subset[OF nested_in_subset[OF assms(1)]] finite_subset[OF wf_store_finite[OF assms(1)]] by blast
  have "nested_in st u \<subseteq> nested_in st t"
    using assms(3) by (auto simp: nested_in_def intro: trancl_into_trancl2)
  moreover have "u \<in> nested_in st t" using assms(3) by (auto simp: nested_in_def)
  moreover have "u \<notin> nested_in st u" using assms(2) by (auto simp: nested_in_def acyclic_def)
  ultimately show "nested_in st u \<subset> nested_in st t" by blast
qed

lemma visit_fields_fuel:
  assumes "\<And>f l. f \<in> set fs \<Longrightarrow> v (fld_type f) l \<noteq> Inl OutOfFuel"
  shows "fold_result (visit_field st v) s fs \<noteq> Inl OutOfFuel"
  using assms
proof (induction fs arbitrary: s)
  case (Cons f fs)
  obtain offset l where s: "s = (offset, l)" by fastforce
  show ?case
    using Cons.prems[of f] Cons.IH Cons.prems
    by (cases "v (fld_type f) (pushSkip l (sub_size_t (fld_offset f) offset))") (auto simp: s visit_field_step)
qed simp

lemma visit_enough_fuel:
  assumes "wf_store st" and "acyclic (contains st)" and "t \<in> dom (objects st)"
    and "card (nested_in st t) < fuel"
  shows "visit fuel st ap ao t l \<noteq> Inl OutOfFuel"
  using assms(3,4)
proof (induction fuel arbitrary: t ap ao l)
  case (Suc fuel)
  let ?k = "ty_kind (type_at st t)"
  have ih: "visit fuel st ap' ao' u l' \<noteq> Inl OutOfFuel" if "u \<in> set (layout_refs ?k)" for u ap' ao' l'
  proof (rule Suc.IH)
    show "u \<in> dom (objects st)"
      using that layout_refs_subset[of ?k] wf_store_refs[OF assms(1) Suc.prems(1)] by blast
    show "card (nested_in st u) < fuel"
      using nested_in_psubset[OF assms(1,2), of t u] that Suc.prems by (simp add: contains_def)
  qed
  show ?case
  proof (cases ?k)
    case (Array dim on)
    then show ?thesis using ih[of on False False empty_layout]
      by (cases "visit fuel st False False on empty_layout") (auto simp: Let_def visit_Array_def)
  next
    case (Container c fac on)
    then show ?thesis using ih[of on False False empty_layout]
      by (cases "visit fuel st False False on empty_layout") (auto simp: Let_def visit_Container_def)
  next
    case (Compound fs)
    have "fold_result (visit_field st (visit fuel st ap ao)) (0, l) fs \<noteq> Inl OutOfFuel"
      by (rule visit_fields_fuel) (use ih Compound in simp)
    then show ?thesis using Compound
      by (cases "fold_result (visit_field st (visit fuel st ap ao)) (0, l) fs") (auto simp: Let_def visit_Compound_def)
  qed (auto simp: Let_def visit_Numeric_def visit_Enum_def visit_Pointer_def visit_Opaque_def pushMemcpy_def
      split: if_splits)
qed simp

section \<open>Properties\<close>

text \<open>
  A structure with padding, an array of structures, a vector and an enumeration, in a
  store that is used to instantiate the theorems.
\<close>

definition mk_field :: "string \<Rightarrow> tid \<Rightarrow> nat \<Rightarrow> Field" where
  "mk_field name t offset = \<lparr>fld_name = name, fld_type = t, fld_offset = offset, fld_metadata = []\<rparr>"

definition layout_store :: store where
  "layout_store = \<lparr>objects =
     [10 \<mapsto> Numeric_ctor ''/char'' 1 SInt, 11 \<mapsto> Numeric_ctor ''/int'' 4 SInt,
      12 \<mapsto> Type_ctor ''/P'' 8 (Compound [mk_field ''c'' 10 0, mk_field ''i'' 11 4]),
      13 \<mapsto> Type_ctor ''/P[3]'' 24 (Array 3 12),
      14 \<mapsto> Type_ctor ''/std/vector</int>'' 24 (Container ''/std/vector'' VectorFactory 11),
      15 \<mapsto> Type_ctor ''/E'' 4 (Enum [(''A'', 258)] 258),
      16 \<mapsto> Type_ctor ''/S'' 64 (Compound [mk_field ''a'' 13 0, mk_field ''v'' 14 24, mk_field ''e'' 15 48,
         mk_field ''c'' 10 52])], next_id = 17\<rparr>"

lemmas layout_store_simps = layout_store_def mk_field_def Numeric_ctor_def Type_ctor_def type_at_def

lemma layout_store_wf: "wf_store layout_store"
  by (simp add: wf_store_def layout_store_simps)

lemma layout_store_well_laid: "well_laid layout_store"
  by (simp add: well_laid_def layout_store_simps)

lemma layout_store_acyclic: "acyclic (contains layout_store)"
proof -
  have "(t, u) \<in> contains layout_store \<Longrightarrow> u < t" for t u
    by (auto simp: contains_def layout_store_simps split: if_splits)
  then have "(contains layout_store)\<inverse> \<subseteq> less_than" by auto
  then have "acyclic ((contains layout_store)\<inverse>)" using wf_acyclic[OF wf_less_than] acyclic_subset by blast
  then show ?thesis by simp
qed

lemma layout_store_types:
  "type_at layout_store 10 = Numeric_ctor ''/char'' 1 SInt"
  "type_at layout_store 11 = Numeric_ctor ''/int'' 4 SInt"
  "type_at layout_store 12 = Type_ctor ''/P'' 8 (Compound [mk_field ''c'' 10 0, mk_field ''i'' 11 4])"
  "type_at layout_store 13 = Type_ctor ''/P[3]'' 24 (Array 3 12)"
  "type_at layout_store 14 = Type_ctor ''/std/vector</int>'' 24 (Container ''/std/vector'' VectorFactory 11)"
  "type_at layout_store 15 = Type_ctor ''/E'' 4 (Enum [(''A'', 258)] 258)"
  "type_at layout_store 16 = Type_ctor ''/S'' 64 (Compound [mk_field ''a'' 13 0, mk_field ''v'' 14 24,
     mk_field ''e'' 15 48, mk_field ''c'' 10 52])"
  by (simp_all add: layout_store_def type_at_def)

lemmas visit_numeral = visit.simps(2)[of "pred_numeral k" for k, folded numeral_eq_Suc]

lemma layout_store_raw:
  "\<exists>l. raw_layout_of layout_store 16 False False = Inr l \<and> length (ops l) < 100 \<and> length (init_ops l) < 100"
proof -
  have "next_id layout_store = 17" by (simp add: layout_store_def)
  then show ?thesis
    by (simp add: raw_layout_of_def layout_store_types visit_numeral visit_Array_def visit_Compound_def visit_Enum_def
        visit_Container_def visit_Numeric_def enum_init_data_def visit_field_def push_defs Let_def empty_layout_def
        upt_rec_numeral Type_ctor_def Numeric_ctor_def mk_field_def)
qed

text \<open>
  C35: The visitor that computes a layout terminates on every type that does not contain
  itself through fields, arrays and containers (pointers are not followed).
\<close>

theorem raw_layout_terminates:
  assumes "wf_store st" and "acyclic (contains st)" and "t \<in> dom (objects st)"
  shows "raw_layout_of st t accept_pointers accept_opaques \<noteq> Inl OutOfFuel"
proof -
  have "card (nested_in st t) \<le> card {..< next_id st}"
    using nested_in_subset[OF assms(1), of t] wf_store_finite[OF assms(1)] by (intro card_mono) auto
  then show ?thesis unfolding raw_layout_of_def by (intro visit_enough_fuel[OF assms]) simp
qed

theorem raw_layout_terminates_witness: "raw_layout_of layout_store 16 False False \<noteq> Inl OutOfFuel"
  by (rule raw_layout_terminates[OF layout_store_wf layout_store_acyclic]) (simp add: layout_store_def)

text \<open>
  C11: On a consistent store, a raw layout describes its type exactly: it is the encoding of
  operations that denote the cells of the type (data, padding, containers), which add up to
  the size of the type, its initialization bytecode covers the same cells, and \<open>validate\<close>
  accepts both. The cells of an accepted pointer are data, those of an accepted opaque type
  are padding: the comment of \<open>layout_of\<close> says that accepted pointers are skipped, the
  visitor emits a \<open>FLAG_MEMCPY\<close> for them.
\<close>

theorem raw_layout_exact:
  assumes "well_laid st" and "t \<in> dom (objects st)"
    and "raw_layout_of st t accept_pointers accept_opaques = Inr l"
  shows "\<exists>ts us. ops l = encode ts \<and> init_ops l = encode_init us \<and> flat ts = type_cells st t \<and>
    list_all2 same_place (flat ts) (flat_init us) \<and> cells_bytes st (flat ts) = ty_size (type_at st t) \<and>
    validate l = Inr ()"
  using raw_laid_out[of st False, OF assms(1) _ assms(2,3)] validate_encoded unfolding laid_out_def by (fastforce simp: empty_layout_def)

theorem raw_layout_exact_witness:
  "\<exists>ts us l. raw_layout_of layout_store 16 False False = Inr l \<and> ops l = encode ts \<and> init_ops l = encode_init us \<and>
    flat ts = type_cells layout_store 16 \<and> cells_bytes layout_store (flat ts) = 64 \<and> validate l = Inr ()"
proof -
  obtain l where l: "raw_layout_of layout_store 16 False False = Inr l" using layout_store_raw by blast
  have "ty_size (type_at layout_store 16) = 64" by (simp add: layout_store_simps)
  then show ?thesis using raw_layout_exact[OF layout_store_well_laid _ l] l by (auto simp: layout_store_def)
qed

text \<open>
  C10: Simplification keeps the meaning of a layout. On the encoding of operations where
  every array has an element that occupies memory and where the number of cells, in total
  and of every block, is a \<open>size_t\<close>, it succeeds, and the result describes the same cells
  in the same order, except that trailing padding may be dropped (also when
  \<open>remove_trailing_skips\<close> is not set, against its comment) and that, with
  \<open>merge_skip_copy\<close>, padding may be copied along with data.
\<close>

theorem simplify_keeps_cells:
  assumes "list_all (solid_op False) ts" and "length (encode ts) < 2 ^ 60" and "length (flat ts) < 2 ^ 64"
  shows "\<exists>ts' B k. simplify_ops merge_skip_copy remove_trailing_skips (encode ts) = Inr (encode ts') \<and>
    flat ts = B @ replicate k Pad \<and> cells_le merge_skip_copy B (flat ts')"
  using simplify_ops_covers[OF assms] by blast

theorem simplify_keeps_cells_witness:
  "\<exists>ts' B k. simplify_ops False True (encode [Memcpy 1, Skip 3, ArrayOp 2 [Memcpy 4], Skip 4]) = Inr (encode ts') \<and>
    flat [Memcpy 1, Skip 3, ArrayOp 2 [Memcpy 4], Skip 4] = B @ replicate k Pad \<and> cells_le False B (flat ts')"
  by (rule simplify_keeps_cells) (simp_all add: length_concat sum_list_replicate)

text \<open>
  C34: The same for the initialization bytecode, where the number of cells, in total and of
  every repeated block, is a \<open>size_t\<close>: \<open>simplifyInit\<close> keeps every byte to write and every
  container to construct at its position; only trailing bytes that are left alone may be
  dropped.
\<close>

theorem simplifyInit_keeps_cells:
  assumes "list_all (solid_iop False) us" and "length (encode_init us) < 2 ^ 60" and "length (flat_init us) < 2 ^ 64"
  shows "\<exists>us' k. simplifyInit (encode_init us) = Inr (encode_init us') \<and>
    flat_init us = flat_init us' @ replicate k ILeave"
  using simplifyInit_covers[OF assms] by blast

theorem simplifyInit_keeps_cells_witness:
  "\<exists>us' k. simplifyInit (encode_init [IInit [1, 0], IInit [7], ISkip 3]) = Inr (encode_init us') \<and>
    flat_init [IInit [1, 0], IInit [7], ISkip 3] = flat_init us' @ replicate k ILeave"
  by (rule simplifyInit_keeps_cells) simp_all

text \<open>
  C3: The layout of a type is right. On a consistent store, \<open>layout_of\<close> succeeds whenever the
  raw layout exists and fits into a vector, and its result passes \<open>validate\<close>. Its bytecode
  describes the cells of the type in their order (with \<open>merge_skip_copy\<close>, padding possibly
  as data): all of them but padding at the end, so that every data byte and every container
  is covered, and the bytes of both add up to the size of the type. Its initialization
  bytecode has a byte to write or to leave where the type has a byte and a container to
  construct where the type has that container, up to bytes at the end that are left alone.
\<close>

theorem layout_of_correct:
  assumes "well_laid st" and "t \<in> dom (objects st)"
    and "raw_layout_of st t accept_pointers accept_opaques = Inr raw"
    and "length (ops raw) < 2 ^ 60" and "length (init_ops raw) < 2 ^ 60"
  shows "\<exists>l ts us B k j.
    layout_of st t accept_pointers accept_opaques merge_skip_copy remove_trailing_skips = Inr l \<and> validate l = Inr () \<and>
    ops l = encode ts \<and> type_cells st t = B @ replicate k Pad \<and> cells_le merge_skip_copy B (flat ts) \<and>
    cells_bytes st (flat ts) + k = ty_size (type_at st t) \<and>
    init_ops l = encode_init us \<and> list_all2 same_place (type_cells st t) (flat_init us @ replicate j ILeave)"
proof -
  obtain ts us B k j where l: "layout_of st t accept_pointers accept_opaques merge_skip_copy remove_trailing_skips =
      Inr \<lparr>ops = encode ts, init_ops = encode_init us\<rparr>"
    and cells: "type_cells st t = B @ replicate k Pad" "cells_le merge_skip_copy B (flat ts)"
      "list_all2 same_place (type_cells st t) (flat_init us @ replicate j ILeave)"
    using simplify_raw_layout[of st False, OF assms(1) _ assms(2-)] by (metis (full_types))
  have "cells_bytes st (flat ts) + k = ty_size (type_at st t)"
    using raw_laid_out(2)[of st False, OF assms(1) _ assms(2,3)] cells_le_bytes[OF cells(2), of st] cells(1) by simp
  moreover have "validate \<lparr>ops = encode ts, init_ops = encode_init us\<rparr> = Inr ()" by (rule validate_encoded) simp_all
  ultimately show ?thesis using l cells by (intro exI conjI) auto
qed

theorem layout_of_correct_witness:
  "\<exists>l ts B k. layout_of layout_store 16 False False True True = Inr l \<and> validate l = Inr () \<and> ops l = encode ts \<and>
    type_cells layout_store 16 = B @ replicate k Pad \<and> cells_le True B (flat ts) \<and>
    cells_bytes layout_store (flat ts) + k = 64"
proof -
  obtain raw where raw: "raw_layout_of layout_store 16 False False = Inr raw"
    "length (ops raw) < 100" "length (init_ops raw) < 100" using layout_store_raw by blast
  have "ty_size (type_at layout_store 16) = 64" by (simp add: layout_store_simps)
  then show ?thesis using layout_of_correct[OF layout_store_well_laid _ raw(1), of True True] raw(2,3)
    by (fastforce simp: layout_store_def)
qed

text \<open>
  \<open>skipBlock\<close> returns the \<open>FLAG_END\<close> of the block it is started in, whatever blocks are
  nested in it.
\<close>

theorem skipBlock_finds_end: "skipBlock 0 (encode ts @ FLAG_END # rest) = Inr (FLAG_END # rest)"
  unfolding skip_reader.read_encode by (simp add: flag_defs)

text \<open>
  Empty arrays break the simplifier. When the content of an array simplifies to nothing
  and no operation is pending, the output is cut by the array header and by the two words
  before it: at the beginning of the bytecode that is an underflow and the vector throws
  \<open>std::length_error\<close>; elsewhere the end of the previous block is lost.
\<close>

theorem simplify_empty_array:
  "simplify_ops True True (encode [ArrayOp 5 [ArrayOp 0 [Memcpy 4]]]) = Inl LengthError \<and>
   simplify_ops True True (encode [ContainerOp 99 [Memcpy 4], ArrayOp 5 [ArrayOp 0 [Memcpy 4]]]) =
     Inr [FLAG_CONTAINER, 99, FLAG_MEMCPY]"
  by (simp add: simplify_ops_def simplify_loop.simps(2) push_pending_def expect_end_def resize_ops_def
      sub_size_t_def size_t_modulus_def flag_defs Let_def nth_append)

text \<open>
  The counts are \<open>size_t\<close>: when an array has \<open>2 ^ 64\<close> bytes, its size wraps to 0 and the
  simplifier drops it.
\<close>

theorem simplify_wraps: "simplify_ops True True (encode [ArrayOp (2 ^ 32) [Memcpy (2 ^ 32)]]) = Inr []"
proof -
  have "mul_size_t (2 ^ 32) (2 ^ 32) = 0" by (simp add: mul_size_t_def size_t_modulus_def)
  then have "mul_size_t n n = 0" if "n = 2 ^ 32" for n unfolding that .
  then have "simplify_ops True True (encode [ArrayOp n [Memcpy n]]) = Inr []" if "n = 2 ^ 32" "0 < n" "n < 2 ^ 64" for n
    using that by (simp add: simplify_ops_def simplify_loop.simps(2) push_pending_def expect_end_def resize_ops_def
        flag_defs Let_def nth_append del: mul_size_t_no_wrap)
  then show ?thesis by simp
qed

text \<open>
  \<open>remove_trailing_skips = false\<close> does not keep trailing padding: the trailing skip is
  subtracted from the merged copy in any case.
\<close>

theorem simplify_always_trims:
  "simplify_ops True False (encode [Memcpy 4, Skip 4]) = Inr (encode [Memcpy 4])"
  by (simp add: simplify_ops_def simplify_loop.simps(2) push_pending_def flag_defs Let_def)

text \<open>
  \<open>accept_pointers\<close> does not reach into arrays: an array of pointers has no layout even
  when pointers are accepted, while a structure with the same pointer has one.
\<close>

definition pointer_store :: store where
  "pointer_store = \<lparr>objects =
     [10 \<mapsto> Numeric_ctor ''/int'' 4 SInt, 11 \<mapsto> Type_ctor ''/int*'' 8 (Pointer 10),
      12 \<mapsto> Type_ctor ''/int*[2]'' 16 (Array 2 11),
      13 \<mapsto> Type_ctor ''/S'' 8 (Compound [mk_field ''p'' 11 0])], next_id = 14\<rparr>"

theorem accept_pointers_not_in_arrays:
  "raw_layout_of pointer_store 12 True True = Inl (NoLayout ''/int*'') \<and>
   \<not> isl (raw_layout_of pointer_store 13 True True)"
proof -
  have types: "next_id pointer_store = 14" "type_at pointer_store 11 = Type_ctor ''/int*'' 8 (Pointer 10)"
    "type_at pointer_store 12 = Type_ctor ''/int*[2]'' 16 (Array 2 11)"
    "type_at pointer_store 13 = Type_ctor ''/S'' 8 (Compound [mk_field ''p'' 11 0])"
    by (simp_all add: pointer_store_def type_at_def)
  then show ?thesis
    by (simp add: raw_layout_of_def types visit_numeral mk_field_def Type_ctor_def visit_Array_def visit_Pointer_def
        visit_Compound_def visit_field_def push_defs Let_def)
qed

end
