(* ===== verification/TypeCells.thy ===== *)
theory TypeCells
  imports LayoutOf
begin

text \<open>
  Facts on the cells of types that the operations on values rest on: the fuel of the
  specification does not matter, containers in the cells of a type come with the cells of
  their elements, and the layouts of element types exist.
\<close>

section \<open>Fuel\<close>

lemma visit_fields_mono:
  assumes "\<And>f l l'. f \<in> set fs \<Longrightarrow> v (fld_type f) l = Inr l' \<Longrightarrow> w (fld_type f) l = Inr l'"
    and "fold_result (visit_field st v) s fs = Inr s'"
  shows "fold_result (visit_field st w) s fs = Inr s'"
  using assms
proof (induction fs arbitrary: s)
  case (Cons f fs)
  obtain offset l where s: "s = (offset, l)" by fastforce
  obtain l1 where l1: "v (fld_type f) (pushSkip l (sub_size_t (fld_offset f) offset)) = Inr l1"
    "fold_result (visit_field st v) (add_size_t (fld_offset f) (ty_size (type_at st (fld_type f))), l1) fs = Inr s'"
    using Cons.prems(2) by (auto simp: s visit_field_step)
  have "w (fld_type f) (pushSkip l (sub_size_t (fld_offset f) offset)) = Inr l1" using Cons.prems(1) l1(1) by simp
  moreover have "fold_result (visit_field st w) (add_size_t (fld_offset f) (ty_size (type_at st (fld_type f))), l1) fs = Inr s'"
    by (rule Cons.IH[OF _ l1(2)]) (use Cons.prems(1) in simp)
  ultimately show ?case by (simp add: s visit_field_step)
qed simp

lemma compound_cells_cong:
  "(\<And>f. f \<in> set fs \<Longrightarrow> c (fld_type f) = d (fld_type f)) \<Longrightarrow>
   compound_cells st c sz offset fs = compound_cells st d sz offset fs"
  by (induction fs arbitrary: offset) simp_all

text \<open>More fuel gives the same layout, and so does accepting pointers and opaque types.\<close>

lemma visit_mono:
  assumes "visit fuel st ap ao t l = Inr l'" and "fuel \<le> fuel'" and "ap \<longrightarrow> ap'" and "ao \<longrightarrow> ao'"
  shows "visit fuel' st ap' ao' t l = Inr l' \<and> cells_upto fuel' st t = cells_upto fuel st t"
  using assms
proof (induction fuel arbitrary: fuel' t ap ao ap' ao' l l')
  case (Suc fuel)
  then obtain f' where f': "fuel' = Suc f'" "fuel \<le> f'" by (cases fuel') auto
  show ?case
  proof (cases "ty_kind (type_at st t)")
    case (Array dim on)
    then show ?thesis using Suc.prems(1) Suc.IH[of False False on empty_layout _ f' False False] f'
      by (auto simp: Let_def visit_Array_def)
  next
    case (Container c fac on)
    then show ?thesis using Suc.prems(1) Suc.IH[of False False on empty_layout _ f' False False] f'
      by (auto simp: Let_def visit_Container_def)
  next
    case (Compound fs)
    obtain s where fold: "fold_result (visit_field st (visit fuel st ap ao)) (0, l) fs = Inr s"
      and l': "l' = pushSkip (snd s) (sub_size_t (ty_size (type_at st t)) (fst s))"
      using Suc.prems(1) Compound by (auto simp: Let_def visit_Compound_def)
    note ih = Suc.IH[OF _ f'(2) Suc.prems(3,4)]
    have "fold_result (visit_field st (visit f' st ap' ao')) (0, l) fs = Inr s"
      by (rule visit_fields_mono[OF _ fold]) (use ih in blast)
    moreover have "compound_cells st (cells_upto f' st) sz 0 fs = compound_cells st (cells_upto fuel st) sz 0 fs" for sz
      by (rule compound_cells_cong) (use visit_fields_each[OF fold] ih in blast)
    ultimately show ?thesis using Compound f' l' by (simp add: Let_def visit_Compound_def split_beta)
  qed (use Suc.prems f' in \<open>auto simp: Let_def visit_Pointer_def visit_Opaque_def split: if_splits\<close>)
qed simp

lemma raw_layout_accepts:
  assumes "raw_layout_of st t False False = Inr l"
  shows "raw_layout_of st t ap ao = Inr l"
  using visit_mono[of "Suc (next_id st)" st False False t empty_layout l "Suc (next_id st)" ap ao] assms
  by (simp add: raw_layout_of_def)

section \<open>Order on cells\<close>

lemma cells_le_refl_if: "(\<And>c. c \<in> set cs \<Longrightarrow> cell_le m c c) \<Longrightarrow> cells_le m cs cs"
  by (induction cs) simp_all

lemma cell_le_refl [simp]: "cell_le m c c"
  by (induction c) (auto intro: cells_le_refl_if)

lemma cells_le_refl [simp]: "cells_le m cs cs"
  by (rule cells_le_refl_if) simp

lemma cell_le_trans: "cell_le m a b \<Longrightarrow> cell_le m b c \<Longrightarrow> cell_le m a c"
proof (induction a arbitrary: b c)
  case (Cont t xs)
  from Cont.prems(1) obtain ys where b: "b = Cont t ys" "cells_le m xs ys" by (cases b) auto
  from Cont.prems(2) obtain zs where c: "c = Cont t zs" "cells_le m ys zs" unfolding b by (cases c) auto
  have "cells_le m xs zs"
    by (rule list_all2_trans[of "\<lambda>x y. x \<in> set xs \<and> cell_le m x y" "cell_le m" "\<lambda>x z. x \<in> set xs \<and> cell_le m x z",
          THEN list_all2_mono])
      (use Cont.IH b(2) c(2) in \<open>auto simp: list_all2_conv_all_nth\<close>)
  then show ?case by (simp add: b c)
qed (cases b; auto)+

lemma cells_le_trans: "cells_le m as bs \<Longrightarrow> cells_le m bs cs \<Longrightarrow> cells_le m as cs"
  by (rule list_all2_trans) (rule cell_le_trans)

lemma cell_le_merge: "cell_le m a b \<Longrightarrow> cell_le True a b"
proof (induction a arbitrary: b)
  case (Cont t xs)
  then show ?case by (cases b) (auto simp: list_all2_conv_all_nth)
qed auto

lemma cells_le_to_merge: "cells_le m as bs \<Longrightarrow> cells_le True as bs"
  by (erule list_all2_mono) (rule cell_le_merge)

fun cell_depth :: "cell \<Rightarrow> nat" where
  "cell_depth (Cont t cs) = Suc (fold max (map cell_depth cs) 0)"
| "cell_depth _ = 0"

definition depth_le :: "nat \<Rightarrow> cell list \<Rightarrow> bool" where
  "depth_le n cs = list_all (\<lambda>c. cell_depth c \<le> n) cs"

lemma fold_max_le: "fold max (xs :: nat list) a \<le> n \<longleftrightarrow> a \<le> n \<and> list_all (\<lambda>x. x \<le> n) xs"
  by (induction xs arbitrary: a) auto

lemma cell_depth_Cont: "cell_depth (Cont t cs) \<le> n \<longleftrightarrow> (\<exists>m. n = Suc m \<and> depth_le m cs)"
  by (cases n) (simp_all add: fold_max_le depth_le_def list_all_iff)

lemma depth_le_simps [simp]:
  "depth_le n []" "depth_le n (c # cs) \<longleftrightarrow> cell_depth c \<le> n \<and> depth_le n cs"
  "depth_le n (cs @ ds) \<longleftrightarrow> depth_le n cs \<and> depth_le n ds"
  "depth_le n (replicate k Data)" "depth_le n (replicate k Pad)"
  "depth_le n cs \<Longrightarrow> depth_le n (concat (replicate k cs))"
  by (auto simp: depth_le_def list_all_iff)

lemma depth_le_mono: "depth_le n cs \<Longrightarrow> n \<le> m \<Longrightarrow> depth_le m cs"
  by (auto simp: depth_le_def list_all_iff)

lemma cell_le_depth: "cell_le m a b \<Longrightarrow> cell_depth a = cell_depth b"
proof (induction a arbitrary: b)
  case (Cont t xs)
  then obtain ys where b: "b = Cont t ys" "cells_le m xs ys" by (cases b) auto
  have "map cell_depth xs = map cell_depth ys"
    by (rule nth_equalityI) (use Cont.IH b(2) in \<open>auto simp: list_all2_conv_all_nth\<close>)
  then show ?case by (simp add: b)
qed auto

lemma cells_le_depth: "cells_le m as bs \<Longrightarrow> depth_le n bs \<longleftrightarrow> depth_le n as"
  by (induction as bs rule: list_all2_induct) (simp_all add: cell_le_depth)

lemma cells_upto_depth: "depth_le fuel (cells_upto fuel st t)"
proof (induction fuel arbitrary: t)
  case (Suc fuel)
  have "depth_le (Suc fuel) (compound_cells st (cells_upto fuel st) sz 0 fs)" for sz fs
    unfolding depth_le_def
    by (rule compound_cells_all) (use depth_le_mono[OF Suc] in \<open>simp_all add: depth_le_def\<close>)
  moreover have "depth_le (Suc fuel) (concat (replicate k (cells_upto fuel st u)))" for k u
    using depth_le_mono[OF Suc, of "Suc fuel"] by simp
  ultimately show ?case using Suc
    by (auto simp: Let_def cell_depth_Cont simp del: cell_depth.simps split: kind.split)
qed simp

lemma cell_le_exact: "cell_le False a b \<Longrightarrow> a = b"
proof (induction a arbitrary: b)
  case (Cont t xs)
  then show ?case by (cases b) (auto simp: list_all2_conv_all_nth intro!: nth_equalityI)
qed auto

lemma cells_le_exact: "cells_le False as bs \<Longrightarrow> as = bs"
  by (induction as bs rule: list_all2_induct) (auto dest: cell_le_exact)

section \<open>Containers\<close>

text \<open>
  The assumptions on the platform and the store: container types have the size of the
  objects of the C++ library, elements of vectors are not mere padding and the elements of
  strings are bytes, arrays are not empty, layouts fit into a vector, and the address of a container type is not one of
  the five operation codes.
\<close>

definition native_container :: "store \<Rightarrow> tid \<Rightarrow> bool" where
  "native_container st t =
     (case ty_kind (type_at st t) of
        Container _ VectorFactory on \<Rightarrow> ty_size (type_at st t) = 24 \<and> 0 < ty_size (type_at st on) \<and> 4 < t \<and>
          \<not> set (type_cells st on) \<subseteq> {Pad}
      | Container _ StringFactory on \<Rightarrow> ty_size (type_at st t) = 32 \<and> 4 < t \<and>
          ty_size (type_at st on) = 1 \<and> getCategory (type_at st on) = CatNumeric
      | _ \<Rightarrow> True)"

definition small_layout :: "store \<Rightarrow> tid \<Rightarrow> bool" where
  "small_layout st t = (case raw_layout_of st t False False of
     Inl _ \<Rightarrow> True | Inr l \<Rightarrow> length (ops l) < 2 ^ 60 \<and> length (init_ops l) < 2 ^ 60)"

definition native_store :: "store \<Rightarrow> bool" where
  "native_store st \<longleftrightarrow> well_laid st \<and> no_empty_arrays st \<and> (\<forall>t \<in> dom (objects st). native_container st t \<and> small_layout st t)"

text \<open>A container in a layout: its elements have a layout, which the block describes.\<close>

fun native :: "store \<Rightarrow> cell \<Rightarrow> bool" where
  "native st (Cont t inner) \<longleftrightarrow> list_all (native st) inner \<and> t \<in> dom (objects st) \<and>
     (\<exists>c fac on l. ty_kind (type_at st t) = Container c fac on \<and> on \<in> dom (objects st) \<and>
        raw_layout_of st on False False = Inr l \<and> cells_le True (type_cells st on) inner)"
| "native st _ = True"

abbreviation natives :: "store \<Rightarrow> cell list \<Rightarrow> bool" where
  "natives st \<equiv> list_all (native st)"

lemma native_le: "cell_le True a b \<Longrightarrow> native st a \<Longrightarrow> native st b"
proof (induction a arbitrary: b)
  case (Cont t xs)
  then obtain ys where b: "b = Cont t ys" "cells_le True xs ys" by (cases b) auto
  have "native st (ys ! i)" if "i < length ys" for i
    using Cont.IH[of "xs ! i" "ys ! i"] Cont.prems(2) b(2) that by (auto simp: list_all_length list_all2_conv_all_nth)
  then have "natives st ys" by (simp add: list_all_length)
  then show ?case using Cont.prems(2) b(2) cells_le_trans by (auto simp: b(1))
next
  case Pad
  then show ?case by (cases b) auto
qed auto

lemma natives_le: "cells_le True as bs \<Longrightarrow> natives st as \<Longrightarrow> natives st bs"
  by (induction as bs rule: list_all2_induct) (auto dest: native_le)

lemma natives_replicate [simp]: "natives st (replicate n Data)" "natives st (replicate n Pad)"
  "natives st cs \<Longrightarrow> natives st (concat (replicate n cs))"
  by (auto simp: list_all_iff)

text \<open>In the cells of a type, a container comes with the cells of its elements.\<close>

fun exact :: "store \<Rightarrow> cell \<Rightarrow> bool" where
  "exact st (Cont t inner) \<longleftrightarrow> list_all (exact st) inner \<and> t \<in> dom (objects st) \<and>
     (\<exists>c fac on l. ty_kind (type_at st t) = Container c fac on \<and> on \<in> dom (objects st) \<and>
        raw_layout_of st on False False = Inr l \<and> inner = type_cells st on)"
| "exact st _ = True"

lemma exact_native: "exact st c \<Longrightarrow> native st c"
  by (induction c) (auto simp: list_all_iff)

lemma exact_replicate [simp]: "list_all (exact st) (replicate n Data)" "list_all (exact st) (replicate n Pad)"
  "list_all (exact st) cs \<Longrightarrow> list_all (exact st) (concat (replicate n cs))"
  by (auto simp: list_all_iff)

lemma visit_exact:
  assumes "well_laid st" and "t \<in> dom (objects st)" and "visit fuel st False False t l = Inr l'"
    and "fuel \<le> Suc (next_id st)"
  shows "list_all (exact st) (cells_upto fuel st t)"
  using assms(2-)
proof (induction fuel arbitrary: t l l')
  case (Suc fuel)
  note refs = well_laidD(1)[OF assms(1) Suc.prems(1)]
  have le: "fuel \<le> Suc (next_id st)" using Suc.prems(3) by simp
  show ?case
  proof (cases "ty_kind (type_at st t)")
    case (Array dim on)
    then show ?thesis using Suc.IH[OF _ _ le, of on] Suc.prems(2) refs by (auto simp: Let_def visit_Array_def)
  next
    case (Container c fac on)
    then obtain sub where sub: "visit fuel st False False on empty_layout = Inr sub"
      using Suc.prems(2) by (auto simp: Let_def visit_Container_def)
    have "raw_layout_of st on False False = Inr sub" "type_cells st on = cells_upto fuel st on"
      using visit_mono[OF sub le] by (simp_all add: raw_layout_of_def type_cells_def del: visit.simps cells_upto.simps)
    then show ?thesis using Suc.IH[OF _ sub le] Suc.prems(1) refs Container by (auto simp: Let_def)
  next
    case (Compound fs)
    then obtain s where fold: "fold_result (visit_field st (visit fuel st False False)) (0, l) fs = Inr s"
      using Suc.prems(2) by (auto simp: Let_def visit_Compound_def)
    have "list_all (exact st) (cells_upto fuel st (fld_type f))" if "f \<in> set fs" for f
      using visit_fields_each[OF fold that] Suc.IH[OF _ _ le] refs Compound that by force
    then have "list_all (exact st) (compound_cells st (cells_upto fuel st) sz 0 fs)" for sz
      by (intro compound_cells_all) simp_all
    then show ?thesis using Compound by (simp add: Let_def)
  qed (auto simp: Let_def)
qed simp

lemma type_cells_exact:
  assumes "well_laid st" and "t \<in> dom (objects st)" and "raw_layout_of st t False False = Inr l"
  shows "list_all (exact st) (type_cells st t)"
  using visit_exact[OF assms(1,2)] assms(3) unfolding raw_layout_of_def type_cells_def by blast

lemma type_cells_natives:
  assumes "well_laid st" and "t \<in> dom (objects st)" and "raw_layout_of st t False False = Inr l"
  shows "natives st (type_cells st t)"
  using type_cells_exact[OF assms] by (auto simp: list_all_iff intro: exact_native)

lemma type_cells_depth: "depth_le (Suc (next_id st)) (type_cells st t)"
  unfolding type_cells_def by (rule cells_upto_depth)

text \<open>What \<open>layout_of\<close> returns for a type with a raw layout.\<close>

definition trimmed :: "bool \<Rightarrow> cell list \<Rightarrow> cell list \<Rightarrow> bool" where
  "trimmed m cs cs' \<longleftrightarrow> (\<exists>B k. cs = B @ replicate k Pad \<and> cells_le m B cs')"

lemma layout_of_cells:
  assumes "native_store st" and "t \<in> dom (objects st)" and "raw_layout_of st t False False = Inr raw"
  shows "\<exists>ts us k. layout_of st t ap ao m trim = Inr \<lparr>ops = encode ts, init_ops = encode_init us\<rparr> \<and>
    trimmed m (type_cells st t) (flat ts) \<and> list_all (tidy_op True m) ts \<and>
    list_all2 same_place (type_cells st t) (flat_init us @ replicate k ILeave) \<and> list_all (tidy_iop True) us"
proof -
  have well: "well_laid st" "True \<longrightarrow> no_empty_arrays st" and small: "length (ops raw) < 2 ^ 60" "length (init_ops raw) < 2 ^ 60"
    using assms unfolding native_store_def small_layout_def by (auto dest!: bspec)
  show ?thesis unfolding trimmed_def
    by (rule simplify_raw_layout[OF well assms(2) raw_layout_accepts[OF assms(3)] small, of ap ao m trim]) blast
qed

end
