(* ===== verification/ValueMemory.thy ===== *)
theory ValueMemory
  imports LayoutOf "HOL-Library.Word"
begin

text \<open>
  Memory and streams. A buffer is a list of cells, a pointer into it an offset. A cell is a
  byte, a byte without a value, or belongs to an object of the C++ library: the object sits
  at its first cell and the rest of its cells are \<open>Inside\<close>. A \<open>std::vector<uint8_t>\<close> has a
  capacity and its own buffer, which again may contain objects; a \<open>std::string\<close> has
  characters. Accesses out of range, and raw accesses to objects, are undefined behaviour.
  The streams are those of \<open>typelib/value_ops.cc\<close> over memory; the interface that the
  marshalling code relies on is the locale \<open>output_stream\<close>, resp. \<open>input_stream\<close>.
\<close>

section \<open>Memory\<close>

type_synonym byte = "8 word"

datatype mcell = Byte byte | Dead | Inside | VectorObj nat "mcell list" | StringObj "byte list"

type_synonym memory = "mcell list"

fun is_Byte :: "mcell \<Rightarrow> bool" where
  "is_Byte (Byte _) = True"
| "is_Byte _ = False"

fun byte_of :: "mcell \<Rightarrow> byte" where
  "byte_of (Byte b) = b"
| "byte_of _ = 0"

fun is_raw :: "mcell \<Rightarrow> bool" where
  "is_raw (Byte _) = True"
| "is_raw Dead = True"
| "is_raw _ = False"

definition slice :: "memory \<Rightarrow> nat \<Rightarrow> nat \<Rightarrow> memory" where
  "slice mem offset n = take n (drop offset mem)"

definition splice :: "memory \<Rightarrow> nat \<Rightarrow> memory \<Rightarrow> memory" where
  "splice mem offset cs = take offset mem @ cs @ drop (offset + length cs) mem"

definition read_bytes :: "memory \<Rightarrow> nat \<Rightarrow> nat \<Rightarrow> byte list result" where
  "read_bytes mem offset n =
     (if offset + n \<le> length mem \<and> list_all is_Byte (slice mem offset n)
      then Inr (map byte_of (slice mem offset n)) else Inl UndefinedBehaviour)"

definition write_bytes :: "memory \<Rightarrow> nat \<Rightarrow> byte list \<Rightarrow> memory result" where
  "write_bytes mem offset bs =
     (if offset + length bs \<le> length mem \<and> list_all is_raw (slice mem offset (length bs))
      then Inr (splice mem offset (map Byte bs)) else Inl UndefinedBehaviour)"

definition get_object :: "memory \<Rightarrow> nat \<Rightarrow> mcell result" where
  "get_object mem offset = (if offset < length mem then Inr (mem ! offset) else Inl UndefinedBehaviour)"

definition put_object :: "memory \<Rightarrow> nat \<Rightarrow> mcell \<Rightarrow> memory" where
  "put_object mem offset obj = mem[offset := obj]"

text \<open>Placement \<open>new\<close> of an object of \<open>n\<close> bytes, and the end of its life.\<close>

definition construct :: "memory \<Rightarrow> nat \<Rightarrow> nat \<Rightarrow> mcell \<Rightarrow> memory result" where
  "construct mem offset n obj =
     (if offset + n \<le> length mem then Inr (splice mem offset (obj # replicate (n - 1) Inside))
      else Inl UndefinedBehaviour)"

definition destruct :: "memory \<Rightarrow> nat \<Rightarrow> nat \<Rightarrow> memory result" where
  "destruct mem offset n =
     (if offset + n \<le> length mem then Inr (splice mem offset (replicate n Dead)) else Inl UndefinedBehaviour)"

text \<open>
  \<open>std::vector<uint8_t>::resize\<close>, with the growth policy of libstdc++: the capacity is at
  least doubled. New bytes are zero; the largest size is \<open>2 ^ 63 - 1\<close>.
\<close>

definition vector_resize :: "nat \<times> memory \<Rightarrow> nat \<Rightarrow> (nat \<times> memory) result" where
  "vector_resize v n =
     (case v of (cap, storage) \<Rightarrow>
      if 2 ^ 63 \<le> n then Inl LengthError
      else Inr (if n \<le> cap then cap else length storage + max (length storage) (n - length storage),
                take n storage @ replicate (n - length storage) (Byte 0)))"

text \<open>A \<open>uint64_t\<close> in memory, little end first.\<close>

fun bytes_of :: "nat \<Rightarrow> nat \<Rightarrow> byte list" where
  "bytes_of 0 n = []"
| "bytes_of (Suc k) n = of_nat n # bytes_of k (n div 256)"

fun nat_of_bytes :: "byte list \<Rightarrow> nat" where
  "nat_of_bytes [] = 0"
| "nat_of_bytes (b # bs) = unat b + 256 * nat_of_bytes bs"

lemma length_bytes_of [simp]: "length (bytes_of k n) = k"
  by (induction k arbitrary: n) simp_all

lemma nat_of_bytes_of: "nat_of_bytes (bytes_of k n) = n mod 256 ^ k"
proof (induction k arbitrary: n)
  case (Suc k)
  have "n mod (256 * 256 ^ k) = 256 * (n div 256 mod 256 ^ k) + n mod 256"
    by (rule mod_mult2_eq)
  then show ?case using Suc[of "n div 256"] by (simp add: unat_of_nat take_bit_eq_mod)
qed simp

lemma nat_of_bytes_of_8: "n < 2 ^ 64 \<Longrightarrow> nat_of_bytes (bytes_of 8 n) = n"
  by (simp add: nat_of_bytes_of)

section \<open>Output streams\<close>

text \<open>\<open>VectorOutputStream\<close> appends to a vector.\<close>

definition VectorOutputStream_write :: "byte list \<Rightarrow> byte list \<Rightarrow> byte list result" where
  "VectorOutputStream_write buffer data = Inr (buffer @ data)"

text \<open>\<open>ByteArrayOutputStream\<close> writes into an array of fixed size.\<close>

record ByteArrayOutputStream =
  out_buffer :: "byte list"
  out_buffer_size :: nat
  out_current :: nat

definition ByteArrayOutputStream_write :: "ByteArrayOutputStream \<Rightarrow> byte list \<Rightarrow> ByteArrayOutputStream result" where
  "ByteArrayOutputStream_write s data =
     (if out_current s + length data > out_buffer_size s then Inl RuntimeError
      else Inr (s\<lparr>out_buffer := take (out_current s) (out_buffer s) @ data @
                    drop (out_current s + length data) (out_buffer s),
                  out_current := out_current s + length data\<rparr>))"

definition ByteCounterStream_write :: "nat \<Rightarrow> byte list \<Rightarrow> nat result" where
  "ByteCounterStream_write n data = Inr (n + length data)"

text \<open>
  What marshalling relies on: a write of nothing does nothing, and it does not matter
  whether data are written in one piece or in several.
\<close>

locale output_stream =
  fixes emit :: "'s \<Rightarrow> byte list \<Rightarrow> 's result" and stream_ok :: "'s \<Rightarrow> bool"
  assumes write_nothing: "stream_ok s \<Longrightarrow> emit s [] = Inr s"
    and write_append: "stream_ok s \<Longrightarrow> emit s (xs @ ys) = bind_result (emit s xs) (\<lambda>s'. emit s' ys)"
    and write_ok: "stream_ok s \<Longrightarrow> emit s xs = Inr s' \<Longrightarrow> stream_ok s'"

definition ByteArrayOutputStream_ok :: "ByteArrayOutputStream \<Rightarrow> bool" where
  "ByteArrayOutputStream_ok s \<longleftrightarrow> out_current s \<le> out_buffer_size s \<and> out_buffer_size s = length (out_buffer s)"

interpretation vector_out: output_stream VectorOutputStream_write "\<lambda>_. True"
  by unfold_locales (simp_all add: VectorOutputStream_write_def)

interpretation counter_out: output_stream ByteCounterStream_write "\<lambda>_. True"
  by unfold_locales (simp_all add: ByteCounterStream_write_def)

interpretation array_out: output_stream ByteArrayOutputStream_write ByteArrayOutputStream_ok
  by unfold_locales (auto simp: ByteArrayOutputStream_write_def ByteArrayOutputStream_ok_def ac_simps
      min_absorb1 min_absorb2 split: if_splits)

section \<open>Input streams\<close>

text \<open>
  \<open>VectorInputStream\<close> and \<open>ByteArrayInputStream\<close> keep a position in a buffer. The sum in
  their bounds check is a \<open>size_t\<close> and may wrap around.
\<close>

record BufferInputStream =
  in_buffer :: "byte list"
  in_index :: nat

definition VectorInputStream_read :: "BufferInputStream \<Rightarrow> nat \<Rightarrow> (byte list \<times> BufferInputStream) result" where
  "VectorInputStream_read s n =
     (if (n + in_index s) mod size_t_modulus > length (in_buffer s) then Inl RuntimeError
      else if n + in_index s > length (in_buffer s) then Inl UndefinedBehaviour
      else Inr (take n (drop (in_index s) (in_buffer s)), s\<lparr>in_index := in_index s + n\<rparr>))"

record ByteArrayInputStream = BufferInputStream +
  in_buffer_size :: nat

definition ByteArrayInputStream_read :: "ByteArrayInputStream \<Rightarrow> nat \<Rightarrow> (byte list \<times> ByteArrayInputStream) result" where
  "ByteArrayInputStream_read s n =
     (if (n + in_index s) mod size_t_modulus > in_buffer_size s then Inl RuntimeError
      else if n + in_index s > length (in_buffer s) then Inl UndefinedBehaviour
      else Inr (take n (drop (in_index s) (in_buffer s)), s\<lparr>in_index := (in_index s + n) mod 2 ^ 32\<rparr>))"

text \<open>
  What unmarshalling relies on: a read returns the next bytes if there are enough of them,
  and otherwise throws.
\<close>

locale input_stream =
  fixes read :: "'s \<Rightarrow> nat \<Rightarrow> (byte list \<times> 's) result" and pending :: "'s \<Rightarrow> byte list"
    and stream_ok :: "'s \<Rightarrow> bool"
  assumes read_enough: "stream_ok s \<Longrightarrow> n \<le> length (pending s) \<Longrightarrow>
      \<exists>s'. read s n = Inr (take n (pending s), s') \<and> pending s' = drop n (pending s) \<and> stream_ok s'"
    and read_short: "stream_ok s \<Longrightarrow> length (pending s) < n \<Longrightarrow> n < 2 ^ 63 \<Longrightarrow> read s n = Inl RuntimeError"

definition buffer_pending :: "('a) BufferInputStream_scheme \<Rightarrow> byte list" where
  "buffer_pending s = drop (in_index s) (in_buffer s)"

definition VectorInputStream_ok :: "byte list \<Rightarrow> BufferInputStream \<Rightarrow> bool" where
  "VectorInputStream_ok buffer s \<longleftrightarrow> in_buffer s = buffer \<and> in_index s \<le> length buffer \<and> length buffer < 2 ^ 63"

definition ByteArrayInputStream_ok :: "byte list \<Rightarrow> ByteArrayInputStream \<Rightarrow> bool" where
  "ByteArrayInputStream_ok buffer s \<longleftrightarrow> in_buffer s = buffer \<and> in_index s \<le> length buffer \<and>
     in_buffer_size s = length buffer \<and> length buffer < 2 ^ 32"

interpretation vector_in: input_stream VectorInputStream_read buffer_pending "VectorInputStream_ok buffer" for buffer
  by unfold_locales (auto simp: VectorInputStream_read_def buffer_pending_def VectorInputStream_ok_def
      size_t_modulus_def add.commute)

interpretation array_in: input_stream ByteArrayInputStream_read buffer_pending "ByteArrayInputStream_ok buffer" for buffer
  by unfold_locales (auto simp: ByteArrayInputStream_read_def buffer_pending_def ByteArrayInputStream_ok_def
      size_t_modulus_def add.commute)

end
