(* ===== verification/ValueSemantics.thy ===== *)
theory ValueSemantics
  imports TypeCells ValueMemory
begin

text \<open>
  What it means that memory holds a value: \<open>holds st cells mem bs\<close> says that \<open>mem\<close> contains
  the cells of a layout, with live container objects whose elements hold values again, and
  that \<open>bs\<close> is its serialized form (data bytes, element counts, elements; no padding).
\<close>

inductive holds :: "store \<Rightarrow> cell list \<Rightarrow> memory \<Rightarrow> byte list \<Rightarrow> bool"
  and holds_object :: "store \<Rightarrow> tid \<Rightarrow> cell list \<Rightarrow> mcell \<Rightarrow> byte list \<Rightarrow> bool" for st where
  holds_Nil: "holds st [] [] []"
| holds_Data: "holds st cs mem bs \<Longrightarrow> holds st (Data # cs) (Byte b # mem) (b # bs)"
| holds_Pad: "holds st cs mem bs \<Longrightarrow> holds st (Pad # cs) (Byte b # mem) bs"
| holds_Cont: "holds_object st t inner obj b1 \<Longrightarrow> holds st cs mem b2 \<Longrightarrow>
    holds st (Cont t inner # cs) (obj # replicate (ty_size (type_at st t) - 1) Inside @ mem) (b1 @ b2)"
| holds_vector: "ty_kind (type_at st t) = Container c VectorFactory on \<Longrightarrow> ty_size (type_at st t) = 24 \<Longrightarrow>
    0 < ty_size (type_at st on) \<Longrightarrow> \<forall>e \<in> set es. length e = ty_size (type_at st on) \<Longrightarrow>
    length (concat es) < 2 ^ 63 \<Longrightarrow> list_all2 (holds st inner) es ebs \<Longrightarrow>
    holds_object st t inner (VectorObj cap (concat es)) (bytes_of 8 (length es) @ concat ebs)"
| holds_string: "ty_kind (type_at st t) = Container c StringFactory on \<Longrightarrow> ty_size (type_at st t) = 32 \<Longrightarrow>
    ty_size (type_at st on) = 1 \<Longrightarrow> length s < 2 ^ 63 \<Longrightarrow>
    holds_object st t inner (StringObj s) (bytes_of 8 (length s) @ s)"

inductive_cases holds_NilE: "holds st [] mem bs"
inductive_cases holds_DataE: "holds st (Data # cs) mem bs"
inductive_cases holds_PadE: "holds st (Pad # cs) mem bs"
inductive_cases holds_ContE: "holds st (Cont t inner # cs) mem bs"
inductive_cases holds_objectE: "holds_object st t inner obj bs"

lemma holds_Nil_iff [simp]: "holds st [] mem bs \<longleftrightarrow> mem = [] \<and> bs = []"
  by (auto elim: holds_NilE intro: holds_Nil)

lemma holds_Data_iff: "holds st (Data # cs) mem bs \<longleftrightarrow>
    (\<exists>b mem' bs'. mem = Byte b # mem' \<and> bs = b # bs' \<and> holds st cs mem' bs')"
  by (auto elim: holds_DataE intro: holds_Data)

lemma holds_Pad_iff: "holds st (Pad # cs) mem bs \<longleftrightarrow> (\<exists>b mem'. mem = Byte b # mem' \<and> holds st cs mem' bs)"
  by (auto elim: holds_PadE intro: holds_Pad)

lemma holds_Cont_iff: "holds st (Cont t inner # cs) mem bs \<longleftrightarrow>
    (\<exists>obj mem' b1 b2. mem = obj # replicate (ty_size (type_at st t) - 1) Inside @ mem' \<and> bs = b1 @ b2 \<and>
       holds_object st t inner obj b1 \<and> holds st cs mem' b2)" (is "?l = ?r")
proof
  show "?l \<Longrightarrow> ?r" by (erule holds_ContE) force
  show "?r \<Longrightarrow> ?l" using holds_Cont by blast
qed

text \<open>The two kinds of container objects, by the type of the container.\<close>

lemma holds_object_Vector:
  assumes "holds_object st t inner obj bs" and "ty_kind (type_at st t) = Container c VectorFactory on"
  obtains cap es ebs where "obj = VectorObj cap (concat es)" and "bs = bytes_of 8 (length es) @ concat ebs"
    and "ty_size (type_at st t) = 24" and "0 < ty_size (type_at st on)"
    and "\<forall>e \<in> set es. length e = ty_size (type_at st on)" and "length (concat es) < 2 ^ 63"
    and "list_all2 (holds st inner) es ebs"
  using assms(1) by (rule holds_objectE) (use assms(2) that in auto)

lemma holds_object_String:
  assumes "holds_object st t inner obj bs" and "ty_kind (type_at st t) = Container c StringFactory on"
  obtains s where "obj = StringObj s" and "bs = bytes_of 8 (length s) @ s" and "length s < 2 ^ 63"
    and "ty_size (type_at st t) = 32" and "ty_size (type_at st on) = 1"
  using assms(1) by (rule holds_objectE) (use assms(2) that in auto)

lemma holds_object_size: "holds_object st t inner obj bs \<Longrightarrow> 0 < ty_size (type_at st t)"
  by (elim holds_objectE) auto

lemma holds_appendI: "holds st xs m1 b1 \<Longrightarrow> holds st ys m2 b2 \<Longrightarrow> holds st (xs @ ys) (m1 @ m2) (b1 @ b2)"
proof (induction rule: holds_holds_object.inducts(1)[where ?P2.0 = "\<lambda>_ _ _ _. True"])
  case (holds_Cont t inner obj b1 cs mem b2')
  then show ?case using holds_holds_object.holds_Cont[of st t inner obj b1 "cs @ ys" "mem @ m2"] by simp
qed (simp_all add: holds_Data holds_Pad)

lemma holds_appendD:
  assumes "holds st (xs @ ys) mem bs"
  shows "\<exists>m1 m2 b1 b2. mem = m1 @ m2 \<and> bs = b1 @ b2 \<and> holds st xs m1 b1 \<and> holds st ys m2 b2"
  using assms
proof (induction xs arbitrary: mem bs)
  case (Cons x xs)
  show ?case
  proof (cases x)
    case (Cont t inner)
    from Cons.prems[unfolded Cont append_Cons] obtain obj b1 mem' b2 where
      o: "holds_object st t inner obj b1" "holds st (xs @ ys) mem' b2" "bs = b1 @ b2"
      "mem = obj # replicate (ty_size (type_at st t) - 1) Inside @ mem'" unfolding holds_Cont_iff by blast
    from Cons.IH[OF o(2)] obtain m1 m2 c1 c2 where
      "mem' = m1 @ m2" "b2 = c1 @ c2" "holds st xs m1 c1" "holds st ys m2 c2" by blast
    then show ?thesis using holds_Cont[OF o(1), of xs m1 c1] o(3,4)
      by (intro exI[of _ "obj # replicate (ty_size (type_at st t) - 1) Inside @ m1"] exI[of _ m2]
          exI[of _ "b1 @ c1"] exI[of _ c2]) (simp add: Cont)
  next
    case Data
    then obtain b mem' bs' where "mem = Byte b # mem'" "bs = b # bs'" "holds st (xs @ ys) mem' bs'"
      using Cons.prems by (auto simp: holds_Data_iff)
    then show ?thesis using Cons.IH[of mem' bs'] holds_Data by (metis Data append_Cons)
  next
    case Pad
    then obtain b mem' where "mem = Byte b # mem'" "holds st (xs @ ys) mem' bs"
      using Cons.prems by (auto simp: holds_Pad_iff)
    then show ?thesis using Cons.IH[of mem' bs] holds_Pad by (metis Pad append_Cons)
  qed
qed simp

lemma holds_Data_run: "holds st (replicate n Data) mem bs \<longleftrightarrow> length bs = n \<and> mem = map Byte bs"
  by (induction n arbitrary: mem bs) (auto simp: holds_Data_iff length_Suc_conv)

lemma holds_Pad_run: "holds st (replicate n Pad) mem bs \<longleftrightarrow> bs = [] \<and> length mem = n \<and> list_all is_Byte mem"
proof (induction n arbitrary: mem bs)
  case (Suc n)
  have "list_all is_Byte (x # xs) \<longleftrightarrow> (\<exists>b. x = Byte b) \<and> list_all is_Byte xs" for x xs by (cases x) auto
  then show ?case by (auto simp: holds_Pad_iff Suc.IH length_Suc_conv)
qed auto

lemma holds_length: "holds st cs mem bs \<Longrightarrow> length mem = cells_bytes st cs"
  by (induction rule: holds_holds_object.inducts(1)[where ?P2.0 = "\<lambda>t _ _ _. 0 < ty_size (type_at st t)"]) simp_all

section \<open>The serialized form can be parsed in one way only\<close>

lemma concat_prefix_unique:
  assumes "list_all2 (\<lambda>e b. \<forall>m b' r r'. H m b' \<longrightarrow> b @ r = b' @ r' \<longrightarrow> b = b' \<and> r = r') es ebs"
    and "list_all2 H es' ebs'" and "length es = length es'" and "concat ebs @ r = concat ebs' @ r'"
  shows "ebs = ebs' \<and> r = r'"
  using assms
proof (induction es ebs arbitrary: es' ebs' rule: list_all2_induct)
  case (Cons e es b ebs)
  then obtain e' es'' b' ebs'' where s: "es' = e' # es''" "ebs' = b' # ebs''" "H e' b'" "list_all2 H es'' ebs''"
    by (cases es'; cases ebs') auto
  have "b @ concat ebs @ r = b' @ concat ebs'' @ r'" using Cons.prems(3) s by simp
  then have "b = b'" "concat ebs @ r = concat ebs'' @ r'" using Cons.hyps(1) s(3) by blast+
  then show ?case using Cons.IH[OF s(4)] Cons.prems(2) s by simp
qed (auto simp: list_all2_conv_all_nth)

lemma bytes_of_inject: "n < 2 ^ 64 \<Longrightarrow> m < 2 ^ 64 \<Longrightarrow> bytes_of 8 n = bytes_of 8 m \<longleftrightarrow> n = m"
  using nat_of_bytes_of_8 by metis

lemma length_elements:
  assumes "\<forall>e \<in> set es. length e = k" and "0 < k" and "length (concat es) < 2 ^ 63"
  shows "length (concat es) = length es * k" and "length es < 2 ^ 63"
proof -
  show eq: "length (concat es) = length es * k" using assms(1) by (induction es) auto
  have "length es * 1 \<le> length es * k" using assms(2) by (intro mult_le_mono2) simp
  then show "length es < 2 ^ 63" using assms(3) eq by linarith
qed

lemma holds_prefix_unique:
  assumes "holds st cs mem bs" and "holds st cs mem' bs'" and "bs @ r = bs' @ r'"
  shows "bs = bs' \<and> r = r'"
proof -
  have "\<forall>mem' bs' r r'. holds st cs mem' bs' \<longrightarrow> bs @ r = bs' @ r' \<longrightarrow> bs = bs' \<and> r = r'"
    using assms(1)
  proof (induction rule: holds_holds_object.inducts(1)[where ?P2.0 = "\<lambda>t inner obj bs.
      \<forall>obj' bs' r r'. holds_object st t inner obj' bs' \<longrightarrow> bs @ r = bs' @ r' \<longrightarrow> bs = bs' \<and> r = r'"])
    case (holds_Cont t inner obj b1 cs mem b2)
    show ?case
    proof (intro allI impI)
      fix mem' bs' r r' assume h: "holds st (Cont t inner # cs) mem' bs'" "(b1 @ b2) @ r = bs' @ r'"
      from h(1) obtain obj' c1 mem'' c2 where
        o: "holds_object st t inner obj' c1" "holds st cs mem'' c2" "bs' = c1 @ c2" unfolding holds_Cont_iff by blast
      have "b1 @ (b2 @ r) = c1 @ (c2 @ r')" using h(2) o(3) by simp
      then have "b1 = c1" "b2 @ r = c2 @ r'" using holds_Cont(2) o(1) by blast+
      then show "b1 @ b2 = bs' \<and> r = r'" using holds_Cont(4) o(2,3) by blast
    qed
  next
    case (holds_vector t c on es inner ebs cap)
    show ?case
    proof (intro allI impI)
      fix obj' bs' r r' assume h: "holds_object st t inner obj' bs'"
        "(bytes_of 8 (length es) @ concat ebs) @ r = bs' @ r'"
      from h(1) holds_vector(1) obtain cap' es' ebs' where
        o: "bs' = bytes_of 8 (length es') @ concat ebs'" "\<forall>e \<in> set es'. length e = ty_size (type_at st on)"
        "length (concat es') < 2 ^ 63" "list_all2 (holds st inner) es' ebs'"
        by (rule holds_object_Vector)
      have eq: "bytes_of 8 (length es) = bytes_of 8 (length es')" "concat ebs @ r = concat ebs' @ r'"
        using h(2) o(1) by simp_all
      have "length es = length es'"
        using eq(1) length_elements(2)[OF holds_vector(4,3,5)] length_elements(2)[OF o(2) holds_vector(3) o(3)]
          bytes_of_inject by simp
      moreover have "list_all2 (\<lambda>e b. \<forall>m b' r r'. holds st inner m b' \<longrightarrow> b @ r = b' @ r' \<longrightarrow> b = b' \<and> r = r') es ebs"
        using holds_vector(6) by (rule list_all2_mono) blast
      ultimately have "ebs = ebs'" "r = r'" using concat_prefix_unique o(4) eq(2) by blast+
      then show "bytes_of 8 (length es) @ concat ebs = bs' \<and> r = r'" using o(1) eq(1) by simp
    qed
  next
    case (holds_string t c on s inner)
    show ?case
    proof (intro allI impI)
      fix obj' bs' r r' assume h: "holds_object st t inner obj' bs'" "(bytes_of 8 (length s) @ s) @ r = bs' @ r'"
      from h(1) holds_string(1) obtain s' where o: "bs' = bytes_of 8 (length s') @ s'" "length s' < 2 ^ 63"
        by (rule holds_object_String)
      have eq: "bytes_of 8 (length s) = bytes_of 8 (length s')" "s @ r = s' @ r'" using h(2) o(1) by simp_all
      then have "length s = length s'" using bytes_of_inject holds_string(4) o(2) by simp
      then show "bytes_of 8 (length s) @ s = bs' \<and> r = r'" using eq o(1) by simp
    qed
  next
    case (holds_Data cs mem bs b)
    show ?case
    proof (intro allI impI)
      fix mem' bs' r r' assume h: "holds st (Data # cs) mem' bs'" "(b # bs) @ r = bs' @ r'"
      then obtain mem'' bs'' where o: "holds st cs mem'' bs''" "bs' = b # bs''" "bs @ r = bs'' @ r'"
        by (auto simp: holds_Data_iff)
      then show "b # bs = bs' \<and> r = r'" using holds_Data(2) by blast
    qed
  next
    case (holds_Pad cs mem bs b)
    then show ?case unfolding holds_Pad_iff by blast
  qed simp_all
  then show ?thesis using assms(2,3) by blast
qed

lemma elements_prefix_unique:
  assumes "list_all2 (holds st inner) es ebs" and "list_all2 (holds st inner) es' ebs'"
    and "length es = length es'" and "concat ebs @ r = concat ebs' @ r'"
  shows "ebs = ebs' \<and> r = r'"
  by (rule concat_prefix_unique[OF list_all2_mono[OF assms(1)] assms(2-4)]) (use holds_prefix_unique in blast)

text \<open>Two vectors with the same serialized form have elements with the same serialized forms.\<close>

lemma vector_same_elements:
  assumes "\<forall>e \<in> set es. length e = k" and "0 < k" and "length (concat es) < 2 ^ 63" and "list_all2 (holds st inner) es ebs"
    and "\<forall>e \<in> set es'. length e = k" and "length (concat es') < 2 ^ 63" and "list_all2 (holds st inner) es' ebs'"
    and "bytes_of 8 (length es) @ concat ebs = bytes_of 8 (length es') @ concat ebs'"
  shows "ebs = ebs' \<and> length es = length es'"
proof -
  have eq: "bytes_of 8 (length es) = bytes_of 8 (length es')" "concat ebs @ [] = concat ebs' @ []"
    using assms(8) by simp_all
  then have "length es = length es'"
    using length_elements(2)[OF assms(1,2,3)] length_elements(2)[OF assms(5,2,6)] bytes_of_inject by simp
  then show ?thesis using elements_prefix_unique[OF assms(4,7) _ eq(2)] by simp
qed

lemma elements_unique:
  assumes "\<forall>e \<in> set es. length e = k" and "\<forall>e \<in> set es'. length e = k" and "0 < k" and "concat es = concat es'"
  shows "es = es'"
  using assms
proof (induction es arbitrary: es')
  case (Cons e es)
  from Cons.prems have "es' \<noteq> []" by auto
  then obtain e' es'' where "es' = e' # es''" by (cases es') auto
  then show ?case using Cons.prems Cons.IH[of es''] by simp
next
  case Nil
  then show ?case by (cases es') auto
qed

lemma holds_det:
  assumes "holds st cs mem bs" and "holds st cs mem bs'"
  shows "bs = bs'"
proof -
  have "\<forall>bs'. holds st cs mem bs' \<longrightarrow> bs = bs'"
    using assms(1)
  proof (induction rule: holds_holds_object.inducts(1)[where ?P2.0 = "\<lambda>t inner obj bs.
      \<forall>bs'. holds_object st t inner obj bs' \<longrightarrow> bs = bs'"])
    case (holds_Cont t inner obj b1 cs mem b2)
    show ?case
    proof (intro allI impI)
      fix bs' assume "holds st (Cont t inner # cs) (obj # replicate (ty_size (type_at st t) - 1) Inside @ mem) bs'"
      then obtain c1 c2 where "holds_object st t inner obj c1" "holds st cs mem c2" "bs' = c1 @ c2"
        unfolding holds_Cont_iff by auto
      then show "b1 @ b2 = bs'" using holds_Cont(2,4) by blast
    qed
  next
    case (holds_vector t c on es inner ebs cap)
    show ?case
    proof (intro allI impI)
      fix bs' assume "holds_object st t inner (VectorObj cap (concat es)) bs'"
      then obtain cap' es' ebs' where
        o: "VectorObj cap (concat es) = VectorObj cap' (concat es')" "bs' = bytes_of 8 (length es') @ concat ebs'"
        "\<forall>e \<in> set es'. length e = ty_size (type_at st on)" "list_all2 (holds st inner) es' ebs'"
        using holds_vector(1) by (rule holds_object_Vector)
      have "es = es'" using elements_unique[OF holds_vector(4) o(3) holds_vector(3)] o(1) by simp
      moreover have "ebs = ebs'" using holds_vector(6) o(4) unfolding \<open>es = es'\<close>
        by (auto simp: list_all2_conv_all_nth intro: nth_equalityI)
      ultimately show "bytes_of 8 (length es) @ concat ebs = bs'" using o(2) by simp
    qed
  next
    case (holds_string t c on s inner)
    show ?case
    proof (intro allI impI)
      fix bs' assume "holds_object st t inner (StringObj s) bs'"
      then obtain s' where "StringObj s = StringObj s'" "bs' = bytes_of 8 (length s') @ s'"
        using holds_string(1) by (rule holds_object_String)
      then show "bytes_of 8 (length s) @ s = bs'" by simp
    qed
  next
    case (holds_Data cs mem bs b)
    then show ?case unfolding holds_Data_iff by blast
  next
    case (holds_Pad cs mem bs b)
    then show ?case unfolding holds_Pad_iff by blast
  qed simp
  then show ?thesis using assms(2) by blast
qed

section \<open>Values under coarser layouts\<close>

text \<open>A layout that copies padding along with data still describes the same memory.\<close>

lemma holds_le:
  assumes "holds st cs mem bs" and "cells_le True cs cs'"
  shows "\<exists>bs'. holds st cs' mem bs'"
proof -
  have "\<forall>cs'. cells_le True cs cs' \<longrightarrow> (\<exists>bs'. holds st cs' mem bs')"
    using assms(1)
  proof (induction rule: holds_holds_object.inducts(1)[where ?P2.0 = "\<lambda>t inner obj bs.
      \<forall>inner'. cells_le True inner inner' \<longrightarrow> (\<exists>bs'. holds_object st t inner' obj bs')"])
    case (holds_Cont t inner obj b1 cs mem b2)
    show ?case
    proof (intro allI impI)
      fix cs' assume "cells_le True (Cont t inner # cs) cs'"
      then obtain c inner' cs'' where "cs' = c # cs''" "c = Cont t inner'" "cells_le True inner inner'" "cells_le True cs cs''"
        by (auto simp: list_all2_Cons1 elim: cell_le.elims)
      then show "\<exists>bs'. holds st cs' (obj # replicate (ty_size (type_at st t) - 1) Inside @ mem) bs'"
        using holds_Cont(2,4) holds_holds_object.holds_Cont by metis
    qed
  next
    case (holds_vector t c on es inner ebs cap)
    show ?case
    proof (intro allI impI)
      fix inner' assume le: "cells_le True inner inner'"
      have "\<forall>i < length es. \<exists>b. holds st inner' (es ! i) b"
        using holds_vector(6) le by (simp add: list_all2_conv_all_nth)
      then obtain f where "\<forall>i < length es. holds st inner' (es ! i) (f i)" by metis
      then have "list_all2 (holds st inner') es (map f [0..<length es])" by (simp add: list_all2_conv_all_nth)
      from holds_holds_object.holds_vector[OF holds_vector(1-5) this]
      show "\<exists>bs'. holds_object st t inner' (VectorObj cap (concat es)) bs'" by blast
    qed
  next
    case (holds_string t c on s inner)
    then show ?case using holds_holds_object.holds_string by blast
  next
    case (holds_Pad cs mem bs b)
    show ?case
    proof (intro allI impI)
      fix cs' assume "cells_le True (Pad # cs) cs'"
      then obtain c cs'' where "cs' = c # cs''" "c = Pad \<or> c = Data" "cells_le True cs cs''"
        by (auto simp: list_all2_Cons1)
      then show "\<exists>bs'. holds st cs' (Byte b # mem) bs'"
        using holds_Pad(2) holds_holds_object.holds_Pad holds_holds_object.holds_Data by metis
    qed
  next
    case (holds_Data cs mem bs b)
    then show ?case by (auto simp: list_all2_Cons1 holds_Data_iff)
  qed simp
  then show ?thesis using assms(2) by blast
qed

text \<open>The serialized form under the coarser layout determines the one under the finer layout.\<close>

lemma holds_refine:
  assumes "holds st cs' mem bs'" and "cells_le True cs cs'"
  shows "\<exists>bs. holds st cs mem bs \<and> (\<forall>mem2. holds st cs' mem2 bs' \<longrightarrow> holds st cs mem2 bs)"
proof -
  have "\<forall>cs. cells_le True cs cs' \<longrightarrow>
      (\<exists>bs. holds st cs mem bs \<and> (\<forall>mem2. holds st cs' mem2 bs' \<longrightarrow> holds st cs mem2 bs))"
    using assms(1)
  proof (induction rule: holds_holds_object.inducts(1)[where ?P2.0 = "\<lambda>t inner' obj bs'.
      \<forall>inner. cells_le True inner inner' \<longrightarrow> (\<exists>bs. holds_object st t inner obj bs \<and>
        (\<forall>obj2. holds_object st t inner' obj2 bs' \<longrightarrow> holds_object st t inner obj2 bs))"])
    case (holds_Cont t inner' obj b1 cs' mem b2)
    show ?case
    proof (intro allI impI)
      fix cs assume "cells_le True cs (Cont t inner' # cs')"
      then obtain inner cs0 where cs: "cs = Cont t inner # cs0" "cells_le True inner inner'" "cells_le True cs0 cs'"
        by (auto simp: list_all2_Cons2 elim: cell_le.elims)
      obtain c1 where c1: "holds_object st t inner obj c1"
        "\<And>obj2. holds_object st t inner' obj2 b1 \<Longrightarrow> holds_object st t inner obj2 c1"
        using holds_Cont(2) cs(2) by blast
      obtain c2 where c2: "holds st cs0 mem c2" "\<And>mem2. holds st cs' mem2 b2 \<Longrightarrow> holds st cs0 mem2 c2"
        using holds_Cont(4) cs(3) by blast
      have "holds st cs mem2 (c1 @ c2)" if h: "holds st (Cont t inner' # cs') mem2 (b1 @ b2)" for mem2
      proof -
        obtain obj2 mem' d1 d2 where m: "mem2 = obj2 # replicate (ty_size (type_at st t) - 1) Inside @ mem'"
          "b1 @ b2 = d1 @ d2" "holds_object st t inner' obj2 d1" "holds st cs' mem' d2"
          using h unfolding holds_Cont_iff by blast
        have "holds st [Cont t inner'] (obj # replicate (ty_size (type_at st t) - 1) Inside) b1"
          "holds st [Cont t inner'] (obj2 # replicate (ty_size (type_at st t) - 1) Inside) d1"
          using holds_holds_object.holds_Cont[OF holds_Cont(1) holds_Nil] holds_holds_object.holds_Cont[OF m(3) holds_Nil]
          by simp_all
        then have "b1 = d1 \<and> b2 = d2" using m(2) by (rule holds_prefix_unique)
        then show ?thesis using c1(2) c2(2) m cs(1) holds_holds_object.holds_Cont by blast
      qed
      then show "\<exists>bs. holds st cs (obj # replicate (ty_size (type_at st t) - 1) Inside @ mem) bs \<and>
          (\<forall>mem2. holds st (Cont t inner' # cs') mem2 (b1 @ b2) \<longrightarrow> holds st cs mem2 bs)"
        using c1(1) c2(1) cs(1) holds_holds_object.holds_Cont by blast
    qed
  next
    case (holds_vector t c on es inner' ebs cap)
    show ?case
    proof (intro allI impI)
      fix inner assume le: "cells_le True inner inner'"
      have "\<forall>i < length es. \<exists>b. holds st inner (es ! i) b \<and> (\<forall>m2. holds st inner' m2 (ebs ! i) \<longrightarrow> holds st inner m2 b)"
        using holds_vector(6) le by (simp add: list_all2_conv_all_nth)
      then obtain f where f: "\<forall>i < length es. holds st inner (es ! i) (f i) \<and>
          (\<forall>m2. holds st inner' m2 (ebs ! i) \<longrightarrow> holds st inner m2 (f i))" by metis
      let ?fbs = "map f [0..<length es]"
      have es: "list_all2 (holds st inner') es ebs" using holds_vector(6) by (rule list_all2_mono) blast
      have "list_all2 (holds st inner) es ?fbs" using f by (simp add: list_all2_conv_all_nth)
      note ho = holds_holds_object.holds_vector[OF holds_vector(1-5) this, of cap]
      have "holds_object st t inner obj2 (bytes_of 8 (length es) @ concat ?fbs)"
        if obj2: "holds_object st t inner' obj2 (bytes_of 8 (length es) @ concat ebs)" for obj2
      proof -
        obtain cap' es' ebs' where o: "obj2 = VectorObj cap' (concat es')"
          "bytes_of 8 (length es) @ concat ebs = bytes_of 8 (length es') @ concat ebs'"
          "\<forall>e \<in> set es'. length e = ty_size (type_at st on)" "length (concat es') < 2 ^ 63"
          "list_all2 (holds st inner') es' ebs'"
          using holds_object_Vector[OF obj2 holds_vector(1)] by metis
        have same: "ebs = ebs' \<and> length es = length es'"
          by (rule vector_same_elements[OF holds_vector(4,3,5) es o(3,4,5,2)])
        then have "list_all2 (holds st inner) es' ?fbs" using o(5) f by (simp add: list_all2_conv_all_nth)
        from holds_holds_object.holds_vector[OF holds_vector(1-3) o(3,4) this, of cap'] show ?thesis
          using same o(1) by simp
      qed
      then show "\<exists>bs. holds_object st t inner (VectorObj cap (concat es)) bs \<and>
          (\<forall>obj2. holds_object st t inner' obj2 (bytes_of 8 (length es) @ concat ebs) \<longrightarrow> holds_object st t inner obj2 bs)"
        using ho by blast
    qed
  next
    case (holds_string t c on s inner')
    show ?case
    proof (intro allI impI exI conjI)
      fix inner obj2
      show "holds_object st t inner (StringObj s) (bytes_of 8 (length s) @ s)"
        using holds_string by (rule holds_holds_object.holds_string)
      assume "holds_object st t inner' obj2 (bytes_of 8 (length s) @ s)"
      then show "holds_object st t inner obj2 (bytes_of 8 (length s) @ s)"
        using holds_string(1) holds_holds_object.holds_string by (metis holds_object_String)
    qed
  next
    case (holds_Data cs' mem bs' b)
    show ?case
    proof (intro allI impI)
      fix cs assume "cells_le True cs (Data # cs')"
      then obtain x cs0 where cs: "cs = x # cs0" "x = Data \<or> x = Pad" "cells_le True cs0 cs'"
        by (auto simp: list_all2_Cons2 elim: cell_le.elims)
      obtain bs where bs: "holds st cs0 mem bs" "\<And>mem2. holds st cs' mem2 bs' \<Longrightarrow> holds st cs0 mem2 bs"
        using holds_Data(2) cs(3) by blast
      then show "\<exists>bs. holds st cs (Byte b # mem) bs \<and> (\<forall>mem2. holds st (Data # cs') mem2 (b # bs') \<longrightarrow> holds st cs mem2 bs)"
        using cs(1,2) by (intro exI[of _ "if x = Data then b # bs else bs"]) (auto simp: holds_Data_iff holds_Pad_iff)
    qed
  next
    case (holds_Pad cs' mem bs' b)
    show ?case
    proof (intro allI impI)
      fix cs assume "cells_le True cs (Pad # cs')"
      then obtain cs0 where cs: "cs = Pad # cs0" "cells_le True cs0 cs'"
        by (auto simp: list_all2_Cons2 elim: cell_le.elims)
      obtain bs where bs: "holds st cs0 mem bs" "\<And>mem2. holds st cs' mem2 bs' \<Longrightarrow> holds st cs0 mem2 bs"
        using holds_Pad(2) cs(2) by blast
      then show "\<exists>bs. holds st cs (Byte b # mem) bs \<and> (\<forall>mem2. holds st (Pad # cs') mem2 bs' \<longrightarrow> holds st cs mem2 bs)"
        using cs(1) by (intro exI[of _ bs]) (auto simp: holds_Pad_iff)
    qed
  qed simp
  then show ?thesis using assms(2) by blast
qed

end
