(* ===== verification/ValueOps.thy ===== *)
theory ValueOps
  imports ValueMemory
begin

text \<open>
  Operations on typed memory: the interpreters of layout bytecode in \<open>typelib/value_ops.cc\<close>
  and the containers of \<open>lang/csupport/containers.cc\<close>. An interpreter takes the container
  operation it calls as an argument; the recursion through containers (a vector of vectors)
  is tied at \<open>Container_destroy\<close>, \<open>Container_copy\<close>, \<open>Container_clear\<close> and \<open>Container_compare\<close>
  with fuel for the nesting of containers. The fuel of an interpreter exceeds the length of
  the bytecode.
\<close>

section \<open>Reading bytecode\<close>

text \<open>The operand at \<open>++it\<close>, the position behind a block, and the check that a block ended.\<close>

definition with_operand :: "nat list \<Rightarrow> (nat \<Rightarrow> nat list \<Rightarrow> 'a result) \<Rightarrow> 'a result" where
  "with_operand it k = (case it of [] \<Rightarrow> Inl UndefinedBehaviour | x # it' \<Rightarrow> k x it')"

definition step_over :: "nat list \<Rightarrow> (nat list \<Rightarrow> 'a result) \<Rightarrow> 'a result" where
  "step_over it k = (case it of [] \<Rightarrow> Inl UndefinedBehaviour | _ # it' \<Rightarrow> k it')"

definition at_block_end :: "nat list \<Rightarrow> (nat list \<Rightarrow> 'a result) \<Rightarrow> 'a result" where
  "at_block_end it k = (case it of [] \<Rightarrow> Inl RuntimeError
     | op # it' \<Rightarrow> if op \<noteq> FLAG_END then Inl RuntimeError else k it')"

text \<open>\<open>for (i = 0; i < n; ++i) tie(state, it) = f(state)\<close>, started with \<open>it\<close> at the first element.\<close>

fun repeat_block :: "('a \<Rightarrow> ('a \<times> nat list) result) \<Rightarrow> nat \<Rightarrow> 'a \<times> nat list \<Rightarrow> ('a \<times> nat list) result" where
  "repeat_block f 0 r = Inr r"
| "repeat_block f (Suc n) r = bind_result (f (fst r)) (repeat_block f n)"

section \<open>Containers\<close>

definition container_case :: "store \<Rightarrow> tid \<Rightarrow> (tid \<Rightarrow> 'a result) \<Rightarrow> (tid \<Rightarrow> 'a result) \<Rightarrow> 'a result" where
  "container_case st t vec str =
     (case ty_kind (type_at st t) of
        Container _ VectorFactory on \<Rightarrow> vec on
      | Container _ StringFactory on \<Rightarrow> str on
      | _ \<Rightarrow> Inl UndefinedBehaviour)"

definition get_vector :: "memory \<Rightarrow> nat \<Rightarrow> (nat \<times> memory) result" where
  "get_vector mem offset = bind_result (get_object mem offset)
     (\<lambda>obj. case obj of VectorObj cap storage \<Rightarrow> Inr (cap, storage) | _ \<Rightarrow> Inl UndefinedBehaviour)"

definition get_string :: "memory \<Rightarrow> nat \<Rightarrow> byte list result" where
  "get_string mem offset = bind_result (get_object mem offset)
     (\<lambda>obj. case obj of StringObj s \<Rightarrow> Inr s | _ \<Rightarrow> Inl UndefinedBehaviour)"

text \<open>\<open>sizeof(std::vector<void*>)\<close> and \<open>sizeof(std::string)\<close>.\<close>

definition Vector_getNaturalSize :: nat where "Vector_getNaturalSize = 24"

definition String_getNaturalSize :: nat where "String_getNaturalSize = 32"

definition Vector_getElementLayout :: "store \<Rightarrow> tid \<Rightarrow> MemoryLayout" where
  "Vector_getElementLayout st element_t =
     (case layout_of st element_t False False True True of Inr l \<Rightarrow> l | Inl _ \<Rightarrow> empty_layout)"

definition hasElementLayout :: "store \<Rightarrow> tid \<Rightarrow> bool" where
  "hasElementLayout st on = (ops (Vector_getElementLayout st on) \<noteq> [])"

definition isElementMemcpy :: "store \<Rightarrow> tid \<Rightarrow> bool" where
  "isElementMemcpy st on = isMemcpy (Vector_getElementLayout st on)"

definition Vector_getElementCount :: "store \<Rightarrow> tid \<Rightarrow> memory \<Rightarrow> nat result" where
  "Vector_getElementCount st on storage =
     (if ty_size (type_at st on) = 0 then Inl UndefinedBehaviour
      else Inr (length storage div ty_size (type_at st on)))"

definition String_getElementCount :: "store \<Rightarrow> tid \<Rightarrow> byte list \<Rightarrow> nat result" where
  "String_getElementCount st on s =
     (if ty_size (type_at st on) = 0 then Inl UndefinedBehaviour
      else Inr (length s div ty_size (type_at st on)))"

definition Container_getElementCount :: "store \<Rightarrow> tid \<Rightarrow> memory \<Rightarrow> nat \<Rightarrow> nat result" where
  "Container_getElementCount st t mem offset =
     container_case st t
       (\<lambda>on. bind_result (get_vector mem offset) (\<lambda>(cap, storage). Vector_getElementCount st on storage))
       (\<lambda>on. bind_result (get_string mem offset) (String_getElementCount st on))"

definition Vector_init :: "memory \<Rightarrow> nat \<Rightarrow> memory result" where
  "Vector_init mem offset = construct mem offset Vector_getNaturalSize (VectorObj 0 [])"

definition String_init :: "memory \<Rightarrow> nat \<Rightarrow> memory result" where
  "String_init mem offset = construct mem offset String_getNaturalSize (StringObj [])"

definition Container_init :: "store \<Rightarrow> tid \<Rightarrow> memory \<Rightarrow> nat \<Rightarrow> memory result" where
  "Container_init st t mem offset =
     container_case st t (\<lambda>_. Vector_init mem offset) (\<lambda>_. String_init mem offset)"

section \<open>Initialization\<close>

fun init_loop :: "nat \<Rightarrow> store \<Rightarrow> memory \<Rightarrow> nat \<Rightarrow> nat list \<Rightarrow> ((memory \<times> nat) \<times> nat list) result" where
  "init_loop 0 st buffer offset it = Inl OutOfFuel"
| "init_loop (Suc fuel) st buffer offset it =
     (case it of
        [] \<Rightarrow> Inr ((buffer, offset), [])
      | op # rest \<Rightarrow>
        if op = FLAG_END then Inr ((buffer, offset), it)
        else if op = FLAG_INIT then with_operand rest (\<lambda>sz it'.
          if length it' < sz then Inl UndefinedBehaviour
          else bind_result (write_bytes buffer offset (map of_nat (take sz it')))
            (\<lambda>buffer'. init_loop fuel st buffer' (offset + sz) (drop sz it')))
        else if op = FLAG_INIT_SKIP then with_operand rest (\<lambda>sz it'.
          init_loop fuel st buffer (offset + sz) it')
        else if op = FLAG_INIT_REPEAT then with_operand rest (\<lambda>element_count element_it.
          bind_result (repeat_block (\<lambda>(b, off). init_loop fuel st b off element_it) element_count
              ((buffer, offset), element_it))
            (\<lambda>((buffer', offset'), it'). at_block_end it' (init_loop fuel st buffer' offset')))
        else if op = FLAG_INIT_CONTAINER then with_operand rest (\<lambda>t it'.
          bind_result (Container_init st t buffer offset)
            (\<lambda>buffer'. init_loop fuel st buffer' (offset + ty_size (type_at st t)) it'))
        else Inl RuntimeError)"

declare init_loop.simps(2) [simp del]

text \<open>\<open>Typelib::init(uint8_t*, MemoryLayout const&)\<close> and \<open>Typelib::init(Value)\<close>.\<close>

definition init_layout :: "store \<Rightarrow> memory \<Rightarrow> nat \<Rightarrow> MemoryLayout \<Rightarrow> memory result" where
  "init_layout st buffer offset l =
     bind_result (init_loop (Suc (length (init_ops l))) st buffer offset (init_ops l))
       (\<lambda>((buffer', _), _). Inr buffer')"

definition init_value :: "store \<Rightarrow> memory \<Rightarrow> nat \<Rightarrow> tid \<Rightarrow> memory result" where
  "init_value st buffer offset t =
     bind_result (layout_of st t False False True True) (init_layout st buffer offset)"

section \<open>Destruction\<close>

type_synonym destroy_fun = "tid \<Rightarrow> memory \<Rightarrow> nat \<Rightarrow> memory result"

fun destroy_loop :: "nat \<Rightarrow> store \<Rightarrow> destroy_fun \<Rightarrow> memory \<Rightarrow> nat \<Rightarrow> nat list \<Rightarrow> ((memory \<times> nat) \<times> nat list) result" where
  "destroy_loop 0 st cdestroy buffer offset it = Inl OutOfFuel"
| "destroy_loop (Suc fuel) st cdestroy buffer offset it =
     (case it of
        [] \<Rightarrow> Inr ((buffer, offset), [])
      | op # rest \<Rightarrow>
        if op = FLAG_END then Inr ((buffer, offset), it)
        else if op = FLAG_MEMCPY \<or> op = FLAG_SKIP then with_operand rest (\<lambda>sz it'.
          destroy_loop fuel st cdestroy buffer (offset + sz) it')
        else if op = FLAG_ARRAY then with_operand rest (\<lambda>element_count element_it.
          bind_result (repeat_block (\<lambda>(b, off). destroy_loop fuel st cdestroy b off element_it) element_count
              ((buffer, offset), element_it))
            (\<lambda>((buffer', offset'), it'). at_block_end it' (destroy_loop fuel st cdestroy buffer' offset')))
        else if op = FLAG_CONTAINER then with_operand rest (\<lambda>t _.
          bind_result (cdestroy t buffer offset) (\<lambda>buffer'.
          bind_result (skipBlock 0 rest) (\<lambda>it'.
            step_over it' (destroy_loop fuel st cdestroy buffer' (offset + ty_size (type_at st t))))))
        else Inl RuntimeError)"

declare destroy_loop.simps(2) [simp del]

definition destroy_with :: "destroy_fun \<Rightarrow> store \<Rightarrow> memory \<Rightarrow> nat \<Rightarrow> MemoryLayout \<Rightarrow> memory result" where
  "destroy_with cdestroy st buffer offset l =
     bind_result (destroy_loop (Suc (length (ops l))) st cdestroy buffer offset (ops l))
       (\<lambda>((buffer', _), _). Inr buffer')"

section \<open>Copying\<close>

type_synonym copy_fun = "tid \<Rightarrow> memory \<Rightarrow> nat \<Rightarrow> memory \<Rightarrow> nat \<Rightarrow> memory result"

definition memcpy :: "memory \<Rightarrow> nat \<Rightarrow> memory \<Rightarrow> nat \<Rightarrow> nat \<Rightarrow> memory result" where
  "memcpy out out_offset src src_offset n =
     (if out_offset + n \<le> length out \<and> src_offset + n \<le> length src \<and>
         list_all is_raw (slice out out_offset n) \<and> list_all is_raw (slice src src_offset n)
      then Inr (splice out out_offset (slice src src_offset n)) else Inl UndefinedBehaviour)"

text \<open>The source buffer is not the destination, or the two ranges do not overlap.\<close>

fun copy_loop :: "nat \<Rightarrow> store \<Rightarrow> copy_fun \<Rightarrow> memory \<Rightarrow> nat \<Rightarrow> memory \<Rightarrow> nat \<Rightarrow> nat list
    \<Rightarrow> ((memory \<times> nat \<times> nat) \<times> nat list) result" where
  "copy_loop 0 st ccopy out out_offset src src_offset it = Inl OutOfFuel"
| "copy_loop (Suc fuel) st ccopy out out_offset src src_offset it =
     (case it of
        [] \<Rightarrow> Inr ((out, out_offset, src_offset), [])
      | op # rest \<Rightarrow>
        if op = FLAG_END then Inr ((out, out_offset, src_offset), it)
        else if op = FLAG_MEMCPY then with_operand rest (\<lambda>sz it'.
          bind_result (memcpy out out_offset src src_offset sz)
            (\<lambda>out'. copy_loop fuel st ccopy out' (out_offset + sz) src (src_offset + sz) it'))
        else if op = FLAG_SKIP then with_operand rest (\<lambda>sz it'.
          copy_loop fuel st ccopy out (out_offset + sz) src (src_offset + sz) it')
        else if op = FLAG_ARRAY then with_operand rest (\<lambda>element_count element_it.
          bind_result (repeat_block (\<lambda>(b, off, src_off). copy_loop fuel st ccopy b off src src_off element_it)
              element_count ((out, out_offset, src_offset), element_it))
            (\<lambda>((out', out_offset', src_offset'), it').
               at_block_end it' (copy_loop fuel st ccopy out' out_offset' src src_offset')))
        else if op = FLAG_CONTAINER then with_operand rest (\<lambda>t _.
          bind_result (ccopy t out out_offset src src_offset) (\<lambda>out'.
          bind_result (skipBlock 0 rest) (\<lambda>it'.
            step_over it' (copy_loop fuel st ccopy out' (out_offset + ty_size (type_at st t)) src
              (src_offset + ty_size (type_at st t))))))
        else Inl RuntimeError)"

declare copy_loop.simps(2) [simp del]

text \<open>\<open>Typelib::copy(void*, void*, MemoryLayout const&)\<close> and \<open>Typelib::copy(void*, void*, Type const&)\<close>.\<close>

definition copy_with :: "copy_fun \<Rightarrow> store \<Rightarrow> memory \<Rightarrow> nat \<Rightarrow> memory \<Rightarrow> nat \<Rightarrow> MemoryLayout \<Rightarrow> memory result" where
  "copy_with ccopy st out out_offset src src_offset l =
     bind_result (copy_loop (Suc (length (ops l))) st ccopy out out_offset src src_offset (ops l))
       (\<lambda>((out', _), _). Inr out')"

definition copy_type_with :: "copy_fun \<Rightarrow> store \<Rightarrow> tid \<Rightarrow> memory \<Rightarrow> nat \<Rightarrow> memory \<Rightarrow> nat \<Rightarrow> memory result" where
  "copy_type_with ccopy st t out out_offset src src_offset =
     bind_result (layout_of st t False False True True) (copy_with ccopy st out out_offset src src_offset)"

section \<open>Resizing, destroying and copying containers\<close>

text \<open>\<open>for (i = a; i < b; i += step)\<close>\<close>

definition steps :: "nat \<Rightarrow> nat \<Rightarrow> nat \<Rightarrow> nat list" where
  "steps a b step = map (\<lambda>k. a + k * step) [0..<(b - a + step - 1) div step]"

definition move_elements :: "destroy_fun \<Rightarrow> copy_fun \<Rightarrow> store \<Rightarrow> MemoryLayout \<Rightarrow> memory \<Rightarrow> memory \<Rightarrow> nat list
    \<Rightarrow> (memory \<times> memory) result" where
  "move_elements cdestroy ccopy st l new_buffer storage idx =
     fold_result (\<lambda>(new_buffer, storage) i.
       bind_result (init_layout st new_buffer i l) (\<lambda>new_buffer1.
       bind_result (copy_with ccopy st new_buffer1 i storage i l) (\<lambda>new_buffer2.
       bind_result (destroy_with cdestroy st storage i l) (\<lambda>storage'.
       Inr (new_buffer2, storage'))))) (new_buffer, storage) idx"

definition Vector_resize :: "destroy_fun \<Rightarrow> copy_fun \<Rightarrow> store \<Rightarrow> tid \<Rightarrow> nat \<times> memory \<Rightarrow> nat \<Rightarrow> (nat \<times> memory) result" where
  "Vector_resize cdestroy ccopy st on v new_size =
     (case v of (cap, storage) \<Rightarrow>
      let element_size = ty_size (type_at st on);
          old_raw_size = length storage;
          new_raw_size = mul_size_t new_size element_size;
          element_layout = Vector_getElementLayout st on
      in bind_result (Vector_getElementCount st on storage) (\<lambda>old_size.
         if \<not> hasElementLayout st on then Inl RuntimeError
         else if isElementMemcpy st on then vector_resize (cap, storage) new_raw_size
         else bind_result
           (if old_size > new_size then
              fold_result (\<lambda>s i. destroy_with cdestroy st s i element_layout) storage
                (steps new_raw_size old_raw_size element_size)
            else Inr storage) (\<lambda>storage1.
         bind_result
           (if new_raw_size \<le> cap then vector_resize (cap, storage1) new_raw_size
            else bind_result (vector_resize (0, []) new_raw_size) (\<lambda>(cap', new_buffer).
              bind_result (move_elements cdestroy ccopy st element_layout new_buffer storage1
                  (steps 0 (min old_raw_size new_raw_size) element_size))
                (\<lambda>(new_buffer', _). Inr (cap', new_buffer')))) (\<lambda>(cap2, storage2).
         if old_size < new_size then
           bind_result (fold_result (\<lambda>s i. init_layout st s i element_layout) storage2
               (steps old_raw_size new_raw_size element_size)) (\<lambda>storage3. Inr (cap2, storage3))
         else Inr (cap2, storage2)))))"

text \<open>
  \<open>Vector::copy\<close> of a range of elements. \<open>source\<close> yields the source buffer: another vector,
  or the destination itself when elements are moved inside one vector.
\<close>

definition Vector_copy_range :: "copy_fun \<Rightarrow> store \<Rightarrow> tid \<Rightarrow> (memory \<Rightarrow> memory) \<Rightarrow> memory \<Rightarrow> nat \<Rightarrow> nat \<Rightarrow> nat
    \<Rightarrow> memory result" where
  "Vector_copy_range ccopy st on source dst dst_idx src_idx count =
     (let element_size = ty_size (type_at st on) in
      if isElementMemcpy st on then
        memcpy dst (dst_idx * element_size) (source dst) (src_idx * element_size) (element_size * count)
      else fold_result (\<lambda>dst' i. copy_type_with ccopy st on dst' (dst_idx * element_size + i * element_size)
          (source dst') (src_idx * element_size + i * element_size)) dst [0..<count])"

definition Vector_destroy :: "destroy_fun \<Rightarrow> copy_fun \<Rightarrow> store \<Rightarrow> tid \<Rightarrow> memory \<Rightarrow> nat \<Rightarrow> memory result" where
  "Vector_destroy cdestroy ccopy st on mem offset =
     bind_result (get_vector mem offset) (\<lambda>v.
     bind_result (Vector_resize cdestroy ccopy st on v 0) (\<lambda>_.
     destruct mem offset Vector_getNaturalSize))"

definition Vector_clear :: "destroy_fun \<Rightarrow> copy_fun \<Rightarrow> store \<Rightarrow> tid \<Rightarrow> memory \<Rightarrow> nat \<Rightarrow> memory result" where
  "Vector_clear cdestroy ccopy st on mem offset =
     bind_result (get_vector mem offset) (\<lambda>v.
     bind_result (Vector_resize cdestroy ccopy st on v 0) (\<lambda>(cap, storage).
     Inr (put_object mem offset (VectorObj cap storage))))"

definition Vector_copy :: "destroy_fun \<Rightarrow> copy_fun \<Rightarrow> store \<Rightarrow> tid \<Rightarrow> memory \<Rightarrow> nat \<Rightarrow> memory \<Rightarrow> nat \<Rightarrow> memory result" where
  "Vector_copy cdestroy ccopy st on dst dst_offset src src_offset =
     bind_result (get_vector dst dst_offset) (\<lambda>dst_vector.
     bind_result (get_vector src src_offset) (\<lambda>(_, src_storage).
     bind_result (Vector_getElementCount st on src_storage) (\<lambda>element_count.
     bind_result (Vector_resize cdestroy ccopy st on dst_vector element_count) (\<lambda>(cap, dst_storage).
     bind_result (Vector_copy_range ccopy st on (\<lambda>_. src_storage) dst_storage 0 0 element_count) (\<lambda>storage'.
     Inr (put_object dst dst_offset (VectorObj cap storage')))))))"

definition String_destroy :: "memory \<Rightarrow> nat \<Rightarrow> memory result" where
  "String_destroy mem offset = bind_result (get_string mem offset) (\<lambda>_. destruct mem offset String_getNaturalSize)"

definition String_clear :: "memory \<Rightarrow> nat \<Rightarrow> memory result" where
  "String_clear mem offset = bind_result (get_string mem offset) (\<lambda>_. Inr (put_object mem offset (StringObj [])))"

definition String_copy :: "memory \<Rightarrow> nat \<Rightarrow> memory \<Rightarrow> nat \<Rightarrow> memory result" where
  "String_copy dst dst_offset src src_offset =
     bind_result (get_string dst dst_offset) (\<lambda>_.
     bind_result (get_string src src_offset) (\<lambda>s. Inr (put_object dst dst_offset (StringObj s))))"

fun Container_destroy :: "nat \<Rightarrow> store \<Rightarrow> destroy_fun"
and Container_copy :: "nat \<Rightarrow> store \<Rightarrow> copy_fun" where
  "Container_destroy 0 st t mem offset = Inl OutOfFuel"
| "Container_destroy (Suc fuel) st t mem offset =
     container_case st t
       (\<lambda>on. Vector_destroy (Container_destroy fuel st) (Container_copy fuel st) st on mem offset)
       (\<lambda>_. String_destroy mem offset)"
| "Container_copy 0 st t dst dst_offset src src_offset = Inl OutOfFuel"
| "Container_copy (Suc fuel) st t dst dst_offset src src_offset =
     container_case st t
       (\<lambda>on. Vector_copy (Container_destroy fuel st) (Container_copy fuel st) st on dst dst_offset src src_offset)
       (\<lambda>_. String_copy dst dst_offset src src_offset)"

fun Container_clear :: "nat \<Rightarrow> store \<Rightarrow> destroy_fun" where
  "Container_clear fuel st t mem offset =
     container_case st t
       (\<lambda>on. Vector_clear (Container_destroy fuel st) (Container_copy fuel st) st on mem offset)
       (\<lambda>_. String_clear mem offset)"

text \<open>The nesting of containers in a type that does not contain itself.\<close>

definition nesting :: "store \<Rightarrow> nat" where
  "nesting st = Suc (next_id st)"

text \<open>\<open>Typelib::destroy(Value)\<close> and \<open>Typelib::copy(Value, Value)\<close>.\<close>

definition destroy_value :: "store \<Rightarrow> memory \<Rightarrow> nat \<Rightarrow> tid \<Rightarrow> memory result" where
  "destroy_value st buffer offset t =
     bind_result (layout_of st t False False True True)
       (destroy_with (Container_destroy (nesting st) st) st buffer offset)"

definition copy_value :: "store \<Rightarrow> memory \<Rightarrow> nat \<Rightarrow> tid \<Rightarrow> memory \<Rightarrow> nat \<Rightarrow> tid \<Rightarrow> memory result" where
  "copy_value st dst dst_offset dst_t src src_offset src_t =
     (if dst_t \<noteq> src_t then Inl RuntimeError
      else copy_type_with (Container_copy (nesting st) st) st src_t dst dst_offset src src_offset)"

section \<open>Zeroing\<close>

fun zero_loop :: "nat \<Rightarrow> store \<Rightarrow> destroy_fun \<Rightarrow> memory \<Rightarrow> nat \<Rightarrow> nat list \<Rightarrow> ((memory \<times> nat) \<times> nat list) result" where
  "zero_loop 0 st cclear buffer offset it = Inl OutOfFuel"
| "zero_loop (Suc fuel) st cclear buffer offset it =
     (case it of
        [] \<Rightarrow> Inr ((buffer, offset), [])
      | op # rest \<Rightarrow>
        if op = FLAG_END then Inr ((buffer, offset), it)
        else if op = FLAG_MEMCPY \<or> op = FLAG_SKIP then with_operand rest (\<lambda>sz it'.
          bind_result (write_bytes buffer offset (replicate sz 0))
            (\<lambda>buffer'. zero_loop fuel st cclear buffer' (offset + sz) it'))
        else if op = FLAG_ARRAY then with_operand rest (\<lambda>element_count element_it.
          bind_result (repeat_block (\<lambda>(b, off). zero_loop fuel st cclear b off element_it) element_count
              ((buffer, offset), element_it))
            (\<lambda>((buffer', offset'), it'). at_block_end it' (zero_loop fuel st cclear buffer' offset')))
        else if op = FLAG_CONTAINER then with_operand rest (\<lambda>t it'.
          bind_result (cclear t buffer offset) (\<lambda>buffer'.
          bind_result (skipBlock 0 it') (\<lambda>it''.
            step_over it'' (zero_loop fuel st cclear buffer' (offset + ty_size (type_at st t))))))
        else Inl RuntimeError)"

declare zero_loop.simps(2) [simp del]

definition zero_layout :: "store \<Rightarrow> memory \<Rightarrow> nat \<Rightarrow> MemoryLayout \<Rightarrow> memory result" where
  "zero_layout st buffer offset l =
     bind_result (zero_loop (Suc (length (ops l))) st (Container_clear (nesting st) st) buffer offset (ops l))
       (\<lambda>((buffer', _), _). Inr buffer')"

definition zero_value :: "store \<Rightarrow> memory \<Rightarrow> nat \<Rightarrow> tid \<Rightarrow> memory result" where
  "zero_value st buffer offset t =
     bind_result (layout_of st t False False True True) (zero_layout st buffer offset)"

section \<open>Comparison\<close>

type_synonym compare_fun = "tid \<Rightarrow> memory \<Rightarrow> nat \<Rightarrow> memory \<Rightarrow> nat \<Rightarrow> bool result"

text \<open>\<open>None\<close> is the result \<open>(false, NULL, NULL, end)\<close>, with which every caller returns.\<close>

fun compare_repeat :: "('a \<Rightarrow> ('a \<times> nat list) option result) \<Rightarrow> nat \<Rightarrow> 'a \<times> nat list
    \<Rightarrow> ('a \<times> nat list) option result" where
  "compare_repeat f 0 r = Inr (Some r)"
| "compare_repeat f (Suc n) r = bind_result (f (fst r))
     (\<lambda>r'. case r' of None \<Rightarrow> Inr None | Some r'' \<Rightarrow> compare_repeat f n r'')"

fun compare_loop :: "nat \<Rightarrow> store \<Rightarrow> compare_fun \<Rightarrow> memory \<Rightarrow> nat \<Rightarrow> memory \<Rightarrow> nat \<Rightarrow> nat list
    \<Rightarrow> ((nat \<times> nat) \<times> nat list) option result" where
  "compare_loop 0 st ccompare out out_offset src src_offset it = Inl OutOfFuel"
| "compare_loop (Suc fuel) st ccompare out out_offset src src_offset it =
     (case it of
        [] \<Rightarrow> Inr (Some ((out_offset, src_offset), []))
      | op # rest \<Rightarrow>
        if op = FLAG_END then Inr (Some ((out_offset, src_offset), it))
        else if op = FLAG_MEMCPY then with_operand rest (\<lambda>sz it'.
          bind_result (read_bytes out out_offset sz) (\<lambda>xs.
          bind_result (read_bytes src src_offset sz) (\<lambda>ys.
          if xs \<noteq> ys then Inr None
          else compare_loop fuel st ccompare out (out_offset + sz) src (src_offset + sz) it')))
        else if op = FLAG_SKIP then with_operand rest (\<lambda>sz it'.
          compare_loop fuel st ccompare out (out_offset + sz) src (src_offset + sz) it')
        else if op = FLAG_ARRAY then with_operand rest (\<lambda>element_count element_it.
          bind_result (compare_repeat (\<lambda>(off, src_off). compare_loop fuel st ccompare out off src src_off element_it)
              element_count ((out_offset, src_offset), element_it))
            (\<lambda>r. case r of None \<Rightarrow> Inr None
             | Some ((out_offset', src_offset'), it') \<Rightarrow>
                 at_block_end it' (compare_loop fuel st ccompare out out_offset' src src_offset')))
        else if op = FLAG_CONTAINER then with_operand rest (\<lambda>t _.
          bind_result (ccompare t out out_offset src src_offset) (\<lambda>equal.
          if \<not> equal then Inr None
          else bind_result (skipBlock 0 rest) (\<lambda>it'.
            step_over it' (compare_loop fuel st ccompare out (out_offset + ty_size (type_at st t)) src
              (src_offset + ty_size (type_at st t))))))
        else Inl RuntimeError)"

declare compare_loop.simps(2) [simp del]

definition compare_with :: "compare_fun \<Rightarrow> store \<Rightarrow> tid \<Rightarrow> memory \<Rightarrow> nat \<Rightarrow> memory \<Rightarrow> nat \<Rightarrow> bool result" where
  "compare_with ccompare st t out out_offset src src_offset =
     bind_result (layout_of st t True False False True) (\<lambda>l.
     bind_result (compare_loop (Suc (length (ops l))) st ccompare out out_offset src src_offset (ops l))
       (\<lambda>r. Inr (r \<noteq> None)))"

fun all_result :: "('a \<Rightarrow> bool result) \<Rightarrow> 'a list \<Rightarrow> bool result" where
  "all_result f [] = Inr True"
| "all_result f (x # xs) = bind_result (f x) (\<lambda>b. if b then all_result f xs else Inr False)"

definition Vector_compare :: "compare_fun \<Rightarrow> store \<Rightarrow> tid \<Rightarrow> memory \<Rightarrow> nat \<Rightarrow> memory \<Rightarrow> nat \<Rightarrow> bool result" where
  "Vector_compare ccompare st on a a_offset b b_offset =
     bind_result (get_vector a a_offset) (\<lambda>(_, a_storage).
     bind_result (get_vector b b_offset) (\<lambda>(_, b_storage).
     bind_result (Vector_getElementCount st on a_storage) (\<lambda>element_count.
     bind_result (Vector_getElementCount st on b_storage) (\<lambda>other_count.
     if element_count \<noteq> other_count then Inr False
     else let element_size = ty_size (type_at st on)
       in all_result (\<lambda>i. compare_with ccompare st on a_storage (i * element_size) b_storage (i * element_size))
            [0..<element_count]))))"

definition String_compare :: "memory \<Rightarrow> nat \<Rightarrow> memory \<Rightarrow> nat \<Rightarrow> bool result" where
  "String_compare a a_offset b b_offset =
     bind_result (get_string a a_offset) (\<lambda>x. bind_result (get_string b b_offset) (\<lambda>y. Inr (x = y)))"

fun Container_compare :: "nat \<Rightarrow> store \<Rightarrow> compare_fun" where
  "Container_compare 0 st t a a_offset b b_offset = Inl OutOfFuel"
| "Container_compare (Suc fuel) st t a a_offset b b_offset =
     container_case st t
       (\<lambda>on. Vector_compare (Container_compare fuel st) st on a a_offset b b_offset)
       (\<lambda>_. String_compare a a_offset b b_offset)"

definition compare_type :: "store \<Rightarrow> tid \<Rightarrow> memory \<Rightarrow> nat \<Rightarrow> memory \<Rightarrow> nat \<Rightarrow> bool result" where
  "compare_type st = compare_with (Container_compare (nesting st) st) st"

definition compare_value :: "store \<Rightarrow> memory \<Rightarrow> nat \<Rightarrow> tid \<Rightarrow> memory \<Rightarrow> nat \<Rightarrow> tid \<Rightarrow> bool result" where
  "compare_value st dst dst_offset dst_t src src_offset src_t =
     (case canCastTo st dst_t src_t of
        None \<Rightarrow> Inl OutOfFuel
      | Some False \<Rightarrow> Inr False
      | Some True \<Rightarrow> compare_type st dst_t dst dst_offset src src_offset)"

section \<open>Elements of vectors\<close>

text \<open>A \<open>Value\<close> argument is a buffer, an offset and a type.\<close>

abbreviation cdestroy_of :: "store \<Rightarrow> destroy_fun" where
  "cdestroy_of st \<equiv> Container_destroy (nesting st) st"

abbreviation ccopy_of :: "store \<Rightarrow> copy_fun" where
  "ccopy_of st \<equiv> Container_copy (nesting st) st"

definition Vector_getElement :: "store \<Rightarrow> tid \<Rightarrow> memory \<Rightarrow> nat \<Rightarrow> nat \<Rightarrow> (memory \<times> nat \<times> tid) result" where
  "Vector_getElement st on mem offset idx =
     bind_result (get_vector mem offset) (\<lambda>(_, storage). Inr (storage, idx * ty_size (type_at st on), on))"

definition Vector_setElement :: "store \<Rightarrow> tid \<Rightarrow> memory \<Rightarrow> nat \<Rightarrow> nat \<Rightarrow> memory \<times> nat \<times> tid \<Rightarrow> memory result" where
  "Vector_setElement st on mem offset idx v =
     (case v of (v_mem, v_offset, v_type) \<Rightarrow>
      bind_result (get_vector mem offset) (\<lambda>(cap, storage).
      bind_result (copy_value st storage (idx * ty_size (type_at st on)) on v_mem v_offset v_type) (\<lambda>storage'.
      Inr (put_object mem offset (VectorObj cap storage')))))"

definition Vector_push :: "store \<Rightarrow> tid \<Rightarrow> memory \<Rightarrow> nat \<Rightarrow> memory \<times> nat \<times> tid \<Rightarrow> memory result" where
  "Vector_push st on mem offset v =
     (case v of (v_mem, v_offset, v_type) \<Rightarrow>
      if v_type \<noteq> on then Inl RuntimeError
      else bind_result (get_vector mem offset) (\<lambda>(cap, storage).
      bind_result (Vector_getElementCount st on storage) (\<lambda>size.
      bind_result (Vector_resize (cdestroy_of st) (ccopy_of st) st on (cap, storage) (size + 1)) (\<lambda>(cap', storage').
      bind_result (copy_value st storage' (size * ty_size (type_at st on)) on v_mem v_offset v_type) (\<lambda>storage''.
      Inr (put_object mem offset (VectorObj cap' storage'')))))))"

definition Vector_erase_at :: "store \<Rightarrow> tid \<Rightarrow> nat \<times> memory \<Rightarrow> nat \<Rightarrow> (nat \<times> memory) result" where
  "Vector_erase_at st on v idx =
     (case v of (cap, storage) \<Rightarrow>
      bind_result (Vector_getElementCount st on storage) (\<lambda>element_count.
      bind_result
        (if element_count > idx + 1 then
           Vector_copy_range (ccopy_of st) st on (\<lambda>s. s) storage idx (idx + 1) (element_count - idx - 1)
         else Inr storage) (\<lambda>storage'.
      Vector_resize (cdestroy_of st) (ccopy_of st) st on (cap, storage') (sub_size_t element_count 1))))"

fun Vector_erase_from :: "store \<Rightarrow> tid \<Rightarrow> nat \<times> memory \<Rightarrow> memory \<times> nat \<times> tid \<Rightarrow> nat list \<Rightarrow> (bool \<times> nat \<times> memory) result" where
  "Vector_erase_from st on vec v [] = Inr (False, vec)"
| "Vector_erase_from st on vec v (i # is) =
     (case v of (v_mem, v_offset, v_type) \<Rightarrow>
      bind_result (compare_value st (snd vec) (i * ty_size (type_at st on)) on v_mem v_offset v_type) (\<lambda>equal.
      if equal then bind_result (Vector_erase_at st on vec i) (\<lambda>vec'. Inr (True, vec'))
      else Vector_erase_from st on vec v is))"

definition Vector_erase :: "store \<Rightarrow> tid \<Rightarrow> memory \<Rightarrow> nat \<Rightarrow> memory \<times> nat \<times> tid \<Rightarrow> (bool \<times> memory) result" where
  "Vector_erase st on mem offset v =
     (if snd (snd v) \<noteq> on then Inl RuntimeError
      else bind_result (get_vector mem offset) (\<lambda>(cap, storage).
      bind_result (Vector_getElementCount st on storage) (\<lambda>element_count.
      bind_result (Vector_erase_from st on (cap, storage) v [0..<element_count]) (\<lambda>(found, cap', storage').
      Inr (found, put_object mem offset (VectorObj cap' storage'))))))"

text \<open>Every iteration of the loop decreases \<open>element_count - i\<close>, which is \<open>n\<close> here.\<close>

fun Vector_delete_loop :: "store \<Rightarrow> tid \<Rightarrow> (memory \<Rightarrow> nat \<Rightarrow> bool) \<Rightarrow> nat \<Rightarrow> nat \<Rightarrow> nat \<times> memory \<Rightarrow> (nat \<times> memory) result" where
  "Vector_delete_loop st on should_delete 0 i vec = Inr vec"
| "Vector_delete_loop st on should_delete (Suc n) i vec =
     (if should_delete (snd vec) (i * ty_size (type_at st on)) then
        bind_result (Vector_erase_at st on vec i) (Vector_delete_loop st on should_delete n i)
      else Vector_delete_loop st on should_delete n (i + 1) vec)"

definition Vector_delete_if_impl :: "store \<Rightarrow> tid \<Rightarrow> (memory \<Rightarrow> nat \<Rightarrow> bool) \<Rightarrow> memory \<Rightarrow> nat \<Rightarrow> memory result" where
  "Vector_delete_if_impl st on should_delete mem offset =
     bind_result (get_vector mem offset) (\<lambda>(cap, storage).
     bind_result (Vector_getElementCount st on storage) (\<lambda>element_count.
     bind_result (Vector_delete_loop st on should_delete element_count 0 (cap, storage)) (\<lambda>(cap', storage').
     Inr (put_object mem offset (VectorObj cap' storage')))))"

definition String_push :: "store \<Rightarrow> tid \<Rightarrow> memory \<Rightarrow> nat \<Rightarrow> memory \<times> nat \<times> tid \<Rightarrow> memory result" where
  "String_push st on mem offset v =
     (case v of (v_mem, v_offset, v_type) \<Rightarrow>
      if v_type \<noteq> on then Inl RuntimeError
      else bind_result (get_string mem offset) (\<lambda>s.
      bind_result (read_bytes v_mem v_offset 1) (\<lambda>bs. Inr (put_object mem offset (StringObj (s @ bs))))))"

definition String_erase :: "memory \<Rightarrow> (bool \<times> memory) result" where
  "String_erase mem = Inr (False, mem)"

end
