(* ===== verification/Interpreter.thy ===== *)
theory Interpreter
  imports ValueSemantics ValueOps
begin

text \<open>
  What the interpreters of layout bytecode have in common. \<open>dump\<close>, \<open>load\<close>, \<open>zero\<close>,
  \<open>destroy\<close>, \<open>copy\<close> and \<open>compare\<close> each loop over the operations of a layout; the locale
  \<open>bytecode_interpreter\<close> states how such a loop treats one operation, in terms of a
  precondition and a postcondition on cells, and proves once that it treats a whole layout
  like that. Each interpreter instantiates it.
\<close>

section \<open>Parts of memory\<close>

definition located :: "memory \<Rightarrow> nat \<Rightarrow> memory \<Rightarrow> bool" where
  "located data off mem \<longleftrightarrow> (\<exists>p q. data = p @ mem @ q \<and> length p = off)"

lemma located_append: "located data off (m1 @ m2) \<longleftrightarrow> located data off m1 \<and> located data (off + length m1) m2"
proof
  assume "located data off (m1 @ m2)"
  then obtain p q where pq: "data = p @ m1 @ m2 @ q" "length p = off" by (auto simp: located_def)
  then show "located data off m1 \<and> located data (off + length m1) m2" unfolding located_def
    by (intro conjI exI[of _ p] exI[of _ "m2 @ q"] exI[of _ "p @ m1"] exI[of _ q]) simp_all
next
  assume "located data off m1 \<and> located data (off + length m1) m2"
  then obtain p q p' q' where pq: "data = p @ m1 @ q" "length p = off"
    "data = p' @ m2 @ q'" "length p' = off + length m1" unfolding located_def by blast
  then have "q = m2 @ q'" using append_eq_append_conv[of "p @ m1" p' q "m2 @ q'"] by simp
  then show "located data off (m1 @ m2)" using pq by (auto simp: located_def)
qed

lemma located_slice: "located data off mem \<longleftrightarrow> off + length mem \<le> length data \<and> slice data off (length mem) = mem"
proof
  assume a: "off + length mem \<le> length data \<and> slice data off (length mem) = mem"
  then have "drop off data = mem @ drop (length mem) (drop off data)"
    unfolding slice_def by (metis append_take_drop_id)
  then have "data = take off data @ mem @ drop (length mem) (drop off data)" by (metis append_take_drop_id)
  moreover have "length (take off data) = off" using a by simp
  ultimately show "located data off mem" unfolding located_def by blast
qed (auto simp: located_def slice_def)

lemma located_unique: "located data off m \<Longrightarrow> located data off m' \<Longrightarrow> length m = length m' \<Longrightarrow> m = m'"
  unfolding located_slice by metis

lemma located_prefix: "located (m @ q) 0 m"
  by (auto simp: located_def)

lemma located_self [simp]: "located m 0 m"
  by (auto simp: located_def)

lemma located_nested: "located data off mem \<Longrightarrow> located mem i m \<Longrightarrow> located data (off + i) m"
  unfolding located_def by (metis append.assoc length_append)

lemma located_element: "i < length es \<Longrightarrow> \<forall>e \<in> set es. length e = k \<Longrightarrow> located (concat es) (i * k) (es ! i)"
proof (induction es arbitrary: i)
  case (Cons e es)
  show ?case
  proof (cases i)
    case (Suc j)
    then have "located (concat es) (j * k) (es ! j)" using Cons by simp
    moreover have "located (e @ concat es) k (concat es)"
      unfolding located_def using Cons.prems(2) by (intro exI[of _ e] exI[of _ "[]"]) simp
    ultimately show ?thesis using Suc located_nested by fastforce
  qed (use located_prefix in auto)
qed simp

lemma read_located: "located data off (map Byte bs) \<Longrightarrow> length bs = n \<Longrightarrow> read_bytes data off n = Inr bs"
  by (auto simp: read_bytes_def located_slice list_all_iff o_def)

lemma get_located: "located data off (obj # mem) \<Longrightarrow> get_object data off = Inr obj"
  by (auto simp: get_object_def located_def)

text \<open>Replacing a part of memory by one of the same length.\<close>

lemma located_splice:
  assumes "located data off mem" and "length mem' = length mem"
  shows "located (splice data off mem') off mem'" and "length (splice data off mem') = length data"
  using assms by (auto simp: located_def splice_def)

lemma splice_keeps:
  assumes "located data off' m" and "off + length mem \<le> off' \<or> off' + length m \<le> off" and "off + length mem \<le> length data"
  shows "located (splice data off mem) off' m"
proof -
  obtain p q where pq: "data = p @ m @ q" "length p = off'" using assms(1) unfolding located_def by blast
  show ?thesis
  proof (cases "off + length mem \<le> off'")
    case True
    then have "splice data off mem = splice p off mem @ m @ q" by (simp add: pq splice_def)
    moreover have "length (splice p off mem) = off'" using True pq(2) by (simp add: splice_def)
    ultimately show ?thesis unfolding located_def by blast
  next
    case False
    then have "off' + length m \<le> off" using assms(2) by simp
    then have "splice data off mem = p @ m @ take (off - (off' + length m)) q @ mem @ drop (off + length mem) data"
      by (simp add: pq splice_def)
    then show ?thesis using pq(2) unfolding located_def by blast
  qed
qed

lemma splice_splice_append:
  assumes "off + length m1 + length m2 \<le> length data"
  shows "splice (splice data off m1) (off + length m1) m2 = splice data off (m1 @ m2)"
  using assms by (simp add: splice_def ac_simps)

lemma splice_same: "located data off mem \<Longrightarrow> splice data off mem = data"
  by (auto simp: located_def splice_def)

lemma splice_overwrite: "off + length m1 \<le> length data \<Longrightarrow> length m1 = length m2 \<Longrightarrow>
  splice (splice data off m1) off m2 = splice data off m2"
  by (simp add: splice_def)

lemma put_object_splice: "located data off (obj # mem) \<Longrightarrow> put_object data off obj' = splice data off (obj' # mem)"
  by (auto simp: located_def put_object_def splice_def list_update_append)

lemma write_located:
  assumes "located data off mem" and "list_all is_raw mem" and "length bs = length mem"
  shows "write_bytes data off bs = Inr (splice data off (map Byte bs))"
  using assms by (simp add: write_bytes_def located_slice)

lemma bytes_raw: "list_all is_Byte mem \<Longrightarrow> list_all is_raw mem"
  by (auto simp: list_all_iff elim!: is_Byte.elims)

lemma map_Byte_raw [simp]: "list_all is_raw (map Byte bs)"
  by (simp add: list_all_iff)

lemma bytes_map: "list_all is_Byte mem \<Longrightarrow> \<exists>bs. mem = map Byte bs"
proof (induction mem)
  case (Cons m mem)
  then obtain b bs where "m = Byte b" "mem = map Byte bs" by (cases m) auto
  then show ?case by (intro exI[of _ "b # bs"]) simp
qed simp

section \<open>Loops over blocks\<close>

text \<open>The runs of a block that is repeated \<open>n\<close> times, every one of which stops at \<open>stop\<close>.\<close>

inductive repeats :: "('a \<Rightarrow> 'e + ('a \<times> nat list)) \<Rightarrow> nat list \<Rightarrow> nat \<Rightarrow> 'a \<Rightarrow> 'e + 'a \<Rightarrow> bool" for g stop where
  repeats_0: "repeats g stop 0 a (Inr a)"
| repeats_fail: "g a = Inl e \<Longrightarrow> repeats g stop (Suc n) a (Inl e)"
| repeats_Suc: "g a = Inr (a', stop) \<Longrightarrow> repeats g stop n a' r \<Longrightarrow> repeats g stop (Suc n) a r"

lemma repeat_block_repeats:
  assumes "repeats g stop n a r" and "0 < n"
  shows "repeat_block g n (a, it) = bind_result r (\<lambda>a'. Inr (a', stop))"
  using assms
proof (induction arbitrary: it rule: repeats.induct)
  case (repeats_Suc a a' n r)
  then show ?case by (cases n) (auto elim: repeats.cases)
qed simp_all

lemma repeats_map:
  assumes "repeats g stop n a r" and "\<And>a. g' (h a) = bind_result (g a) (\<lambda>(a', it). Inr (h a', it))"
  shows "repeats g' stop n (h a) (bind_result r (\<lambda>a'. Inr (h a')))"
  using assms by (induction rule: repeats.induct) (auto intro: repeats.intros)

fun every_op :: "(lop \<Rightarrow> bool) \<Rightarrow> lop \<Rightarrow> bool" where
  "every_op P (ArrayOp d b) = (P (ArrayOp d b) \<and> list_all (every_op P) b)"
| "every_op P (ContainerOp t b) = (P (ContainerOp t b) \<and> list_all (every_op P) b)"
| "every_op P t = P t"

locale bytecode_interpreter =
  fixes run :: "nat \<Rightarrow> 'a \<Rightarrow> nat list \<Rightarrow> 'e + ('a \<times> nat list)"
    and pre :: "cell list \<Rightarrow> 'a \<Rightarrow> bool" and post :: "cell list \<Rightarrow> 'a \<Rightarrow> 'e + 'a \<Rightarrow> bool"
    and op_ok :: "lop \<Rightarrow> bool"
  assumes run_stop: "it = [] \<or> hd it = FLAG_END \<Longrightarrow> run (Suc f) a it = Inr (a, it)"
    and post_nil: "pre [] a \<Longrightarrow> post [] a (Inr a)"
    and pre_left: "pre (xs @ ys) a \<Longrightarrow> pre xs a"
    and pre_right: "pre (xs @ ys) a \<Longrightarrow> post xs a (Inr a') \<Longrightarrow> pre ys a'"
    and post_append: "pre (xs @ ys) a \<Longrightarrow> post xs a (Inr a') \<Longrightarrow> post ys a' r \<Longrightarrow> post (xs @ ys) a r"
    and post_fail: "pre (xs @ ys) a \<Longrightarrow> post xs a (Inl e) \<Longrightarrow> post (xs @ ys) a (Inl e)"
    and run_data: "pre (replicate n Data) a \<Longrightarrow> \<exists>r. post (replicate n Data) a r \<and>
      (\<forall>f k. run (Suc f) a (FLAG_MEMCPY # n # k) = bind_result r (\<lambda>a'. run f a' k))"
    and run_pad: "pre (replicate n Pad) a \<Longrightarrow> \<exists>r. post (replicate n Pad) a r \<and>
      (\<forall>f k. run (Suc f) a (FLAG_SKIP # n # k) = bind_result r (\<lambda>a'. run f a' k))"
    and run_array: "op_ok (ArrayOp d b) \<Longrightarrow>
      repeats (\<lambda>a. run f a (encode b @ FLAG_END # k)) (FLAG_END # k) d a r \<Longrightarrow>
      run (Suc f) a (FLAG_ARRAY # d # encode b @ FLAG_END # k) = bind_result r (\<lambda>a'. run f a' k)"
    and run_container: "op_ok (ContainerOp t b) \<Longrightarrow> pre [Cont t (flat b)] a \<Longrightarrow>
      (\<And>a. pre (flat b) a \<Longrightarrow> \<exists>r. post (flat b) a r \<and>
         run f a (encode b @ FLAG_END # k) = bind_result r (\<lambda>a'. Inr (a', FLAG_END # k))) \<Longrightarrow>
      \<exists>r. post [Cont t (flat b)] a r \<and>
        run (Suc f) a (FLAG_CONTAINER # t # encode b @ FLAG_END # k) = bind_result r (\<lambda>a'. run f a' k)"
begin

lemma repeats_post:
  assumes "\<And>a. pre cs a \<Longrightarrow> \<exists>r. post cs a r \<and> g a = bind_result r (\<lambda>a'. Inr (a', stop))"
    and "pre (concat (replicate d cs)) a"
  shows "\<exists>r. post (concat (replicate d cs)) a r \<and> repeats g stop d a r"
  using assms(2)
proof (induction d arbitrary: a)
  case 0
  then show ?case using post_nil by (auto intro: repeats.intros)
next
  case (Suc d)
  let ?rest = "concat (replicate d cs)"
  have p: "pre (cs @ ?rest) a" using Suc.prems by simp
  obtain r where r: "post cs a r" "g a = bind_result r (\<lambda>a'. Inr (a', stop))" using assms(1) pre_left[OF p] by blast
  show ?case
  proof (cases r)
    case (Inl e)
    then show ?thesis using post_fail[OF p] r by (intro exI[of _ "Inl e"]) (simp add: repeats.intros)
  next
    case (Inr a')
    then have "pre ?rest a'" using pre_right[OF p] r(1) by simp
    then obtain r' where "post ?rest a' r'" "repeats g stop d a' r'" using Suc.IH by blast
    then show ?thesis using post_append[OF p, of a' r'] r Inr by (intro exI[of _ r']) (simp add: repeats.intros)
  qed
qed

theorem run_encode:
  assumes "list_all (every_op op_ok) ts" and "pre (flat ts) a" and "rest = [] \<or> hd rest = FLAG_END"
    and "length (encode ts @ rest) < fuel"
  shows "\<exists>r. post (flat ts) a r \<and> run fuel a (encode ts @ rest) = bind_result r (\<lambda>a'. Inr (a', rest))"
  using assms
proof (induction fuel arbitrary: ts a rest)
  case (Suc f)
  show ?case
  proof (cases ts)
    case Nil
    then show ?thesis using Suc.prems post_nil run_stop by (intro exI[of _ "Inr a"]) simp
  next
    case (Cons t us)
    have p: "pre (flat_op t @ flat us) a" using Suc.prems(2) Cons by simp
    have "\<exists>r. post (flat_op t) a r \<and>
        run (Suc f) a (encode_op t @ encode us @ rest) = bind_result r (\<lambda>a'. run f a' (encode us @ rest))"
    proof (cases t)
      case (Memcpy n)
      then show ?thesis using run_data[of n a] pre_left[OF p] by auto
    next
      case (Skip n)
      then show ?thesis using run_pad[of n a] pre_left[OF p] by auto
    next
      case (ArrayOp d b)
      let ?k = "encode us @ rest"
      have "\<exists>r. post (flat b) a r \<and> run f a (encode b @ FLAG_END # ?k) = bind_result r (\<lambda>a'. Inr (a', FLAG_END # ?k))"
        if "pre (flat b) a" for a
        by (rule Suc.IH) (use Suc.prems Cons ArrayOp that in auto)
      from repeats_post[OF this, of d a] obtain r where "post (concat (replicate d (flat b))) a r"
        "repeats (\<lambda>a. run f a (encode b @ FLAG_END # ?k)) (FLAG_END # ?k) d a r"
        using pre_left[OF p] ArrayOp by auto
      then show ?thesis using run_array[of d b f ?k a r] Suc.prems(1) Cons ArrayOp by auto
    next
      case (ContainerOp c b)
      let ?k = "encode us @ rest"
      have "\<exists>r. post (flat b) a r \<and> run f a (encode b @ FLAG_END # ?k) = bind_result r (\<lambda>a'. Inr (a', FLAG_END # ?k))"
        if "pre (flat b) a" for a
        by (rule Suc.IH) (use Suc.prems Cons ContainerOp that in auto)
      from run_container[OF _ _ this, of c] show ?thesis
        using pre_left[OF p] Suc.prems(1) Cons ContainerOp by auto
    qed
    then obtain r where r: "post (flat_op t) a r"
      "run (Suc f) a (encode_op t @ encode us @ rest) = bind_result r (\<lambda>a'. run f a' (encode us @ rest))" by blast
    show ?thesis
    proof (cases r)
      case (Inl e)
      then show ?thesis using post_fail[OF p] r Cons by (intro exI[of _ "Inl e"]) simp
    next
      case (Inr a')
      then have "pre (flat us) a'" using pre_right[OF p] r(1) by simp
      moreover have "0 < length (encode_op t)" by simp
      ultimately obtain r' where "post (flat us) a' r'" "run f a' (encode us @ rest) = bind_result r' (\<lambda>a'. Inr (a', rest))"
        using Suc.IH[of us a' rest] Suc.prems Cons by (auto simp del: encode_op_nonempty length_greater_0_conv)
      then show ?thesis using post_append[OF p, of a' r'] r Inr Cons by (intro exI[of _ r']) simp
    qed
  qed
qed simp

end

end
