(* ===== verification/LayoutBlocks.thy ===== *)
theory LayoutBlocks
  imports Interpreter
begin

text \<open>
  What \<open>layout_of\<close> guarantees about the bytecode of a type, in the form the interpreters need
  it: no array has dimension 0, and the blocks of containers have the shape the containers
  rely on.
\<close>

text \<open>
  What the containers expect of the block behind \<open>FLAG_CONTAINER\<close>: where the elements of a
  vector can be copied as they are, the block is a single \<open>FLAG_MEMCPY\<close>.
\<close>

definition block_ok :: "store \<Rightarrow> lop \<Rightarrow> bool" where
  "block_ok st op = (case op of
     ContainerOp t b \<Rightarrow> (case ty_kind (type_at st t) of
         Container _ VectorFactory on \<Rightarrow> isElementMemcpy st on \<longrightarrow> b = [Memcpy (ty_size (type_at st on))]
       | Container _ StringFactory on \<Rightarrow> b = [Memcpy 1]
       | _ \<Rightarrow> False)
   | _ \<Rightarrow> True)"

definition array_ok :: "lop \<Rightarrow> bool" where
  "array_ok op = (case op of ArrayOp d b \<Rightarrow> 0 < d | _ \<Rightarrow> True)"

lemma tidy_array_op: "tidy_op True m t \<Longrightarrow> every_op array_ok t"
  by (induction t) (auto simp: array_ok_def list_all_iff)

lemma tidy_array_ok: "list_all (tidy_op True m) ts \<Longrightarrow> list_all (every_op array_ok) ts"
  by (auto simp: list_all_iff intro: tidy_array_op)

lemma cells_le_byte_cells: "cells_le m xs ys \<Longrightarrow> byte_cells ys = byte_cells xs"
  unfolding byte_cells_def by (induction rule: list_all2_induct) (auto elim: cell_le.elims)

lemma byte_cells_replicate [simp]: "byte_cells (replicate n Data)" "byte_cells (replicate n Pad)"
  "byte_cells (xs @ ys) \<longleftrightarrow> byte_cells xs \<and> byte_cells ys"
  by (auto simp: byte_cells_def list_all_iff)

lemma byte_cells_bytes: "byte_cells cs \<Longrightarrow> cells_bytes st cs = length cs"
  unfolding byte_cells_def by (induction cs) auto

lemma element_layout:
  assumes "native_store st" and "on \<in> dom (objects st)" and "raw_layout_of st on False False = Inr raw"
  obtains ts us k where "Vector_getElementLayout st on = \<lparr>ops = encode ts, init_ops = encode_init us\<rparr>"
    and "layout_of st on False False True True = Inr \<lparr>ops = encode ts, init_ops = encode_init us\<rparr>"
    and "trimmed True (type_cells st on) (flat ts)" and "list_all (tidy_op True True) ts"
    and "list_all2 same_place (type_cells st on) (flat_init us @ replicate k ILeave)" and "list_all (tidy_iop True) us"
  using layout_of_cells[OF assms, of False False True True] unfolding Vector_getElementLayout_def by fastforce

lemma native_storeD:
  assumes "native_store st" and "t \<in> dom (objects st)"
  shows "well_laid st" and "no_empty_arrays st"
    and "ty_kind (type_at st t) = Container c VectorFactory on \<Longrightarrow>
      ty_size (type_at st t) = 24 \<and> 0 < ty_size (type_at st on) \<and> 4 < t \<and> \<not> set (type_cells st on) \<subseteq> {Pad}"
    and "ty_kind (type_at st t) = Container c StringFactory on \<Longrightarrow>
      ty_size (type_at st t) = 32 \<and> 4 < t \<and> ty_size (type_at st on) = 1 \<and> getCategory (type_at st on) = CatNumeric"
  using assms unfolding native_store_def native_container_def by (auto dest!: bspec)

lemma element_memcpy_cells:
  assumes "native_store st" and "on \<in> dom (objects st)" and "raw_layout_of st on False False = Inr raw"
    and "isElementMemcpy st on"
  shows "byte_cells (type_cells st on)"
proof -
  obtain ts us where l: "Vector_getElementLayout st on = \<lparr>ops = encode ts, init_ops = encode_init us\<rparr>"
    "trimmed True (type_cells st on) (flat ts)" using element_layout[OF assms(1-3)] by metis
  have "length (encode ts) = 2" "hd (encode ts) = FLAG_MEMCPY"
    using assms(4) l(1) by (simp_all add: isElementMemcpy_def isMemcpy_def)
  then obtain n where "ts = [Memcpy n]" using encode_two[of ts] by auto
  then show ?thesis using l(2) cells_le_byte_cells unfolding trimmed_def by fastforce
qed

lemma has_element_layout:
  assumes "native_store st" and "t \<in> dom (objects st)" and "ty_kind (type_at st t) = Container c VectorFactory on"
    and "on \<in> dom (objects st)" and "raw_layout_of st on False False = Inr raw"
  shows "hasElementLayout st on"
proof -
  obtain ts us where l: "Vector_getElementLayout st on = \<lparr>ops = encode ts, init_ops = encode_init us\<rparr>"
    "trimmed True (type_cells st on) (flat ts)" using element_layout[OF assms(1,4,5)] by metis
  have "ts \<noteq> []"
    using l(2) native_storeD(3)[OF assms(1-3)] unfolding trimmed_def by auto
  then show ?thesis using l(1) by (cases ts) (simp_all add: hasElementLayout_def)
qed

lemma numeric_cells:
  "getCategory (type_at st on) = CatNumeric \<Longrightarrow> type_cells st on = replicate (ty_size (type_at st on)) Data"
  by (cases "ty_kind (type_at st on)") (simp_all add: type_cells_def getCategory_def Let_def)

lemma tidy_block:
  assumes "native_store st" and "native st (Cont t (flat b))" and "merged_block True b"
  shows "block_ok st (ContainerOp t b)"
proof -
  obtain c fac on l where n: "t \<in> dom (objects st)" "ty_kind (type_at st t) = Container c fac on"
    "on \<in> dom (objects st)" "raw_layout_of st on False False = Inr l" "cells_le True (type_cells st on) (flat b)"
    using assms(2) unfolding native.simps by blast
  note store = native_storeD[OF assms(1) n(1)]
  have len: "length (flat b) = length (type_cells st on)" using list_all2_lengthD[OF n(5)] by simp
  have block: "b = [Memcpy (ty_size (type_at st on))]" if "byte_cells (type_cells st on)" "0 < ty_size (type_at st on)"
  proof -
    have "length (type_cells st on) = ty_size (type_at st on)"
      using raw_laid_out(2)[of st False, OF store(1) _ n(3,4)] byte_cells_bytes[OF that(1)] by simp
    then show ?thesis using assms(3) cells_le_byte_cells[OF n(5)] that len by (auto simp: merged_block_def)
  qed
  show ?thesis
  proof (cases fac)
    case VectorFactory
    then show ?thesis using n store(3) block element_memcpy_cells[OF assms(1) n(3,4)] by (auto simp: block_ok_def)
  next
    case StringFactory
    then show ?thesis using n store(4) block numeric_cells[of st on] byte_cells_replicate(1)[of 1]
      by (auto simp: block_ok_def simp del: byte_cells_replicate)
  qed
qed

lemma tidy_op_block_ok:
  assumes "native_store st"
  shows "tidy_op True True t \<Longrightarrow> natives st (flat_op t) \<Longrightarrow> every_op (block_ok st) t"
proof (induction t)
  case (ArrayOp d b)
  then obtain d' where "d = Suc d'" by (cases d) auto
  then have "natives st (flat b)" using ArrayOp.prems(2) by simp
  then have "natives st (flat_op x)" if "x \<in> set b" for x
    using that by (auto simp: flat_def list_all_iff)
  then have "list_all (every_op (block_ok st)) b" using ArrayOp.IH ArrayOp.prems(1) by (simp add: list_all_iff)
  moreover have "block_ok st (ArrayOp d b)" by (simp add: block_ok_def)
  ultimately show ?case by simp
next
  case (ContainerOp c b)
  then have "natives st (flat b)" by simp
  then have "natives st (flat_op x)" if "x \<in> set b" for x
    using that by (auto simp: flat_def list_all_iff)
  then have "list_all (every_op (block_ok st)) b" using ContainerOp.IH ContainerOp.prems(1) by (simp add: list_all_iff)
  moreover have "block_ok st (ContainerOp c b)"
    by (rule tidy_block[OF assms]) (use ContainerOp.prems in \<open>simp_all del: native.simps\<close>)
  ultimately show ?case by simp
qed (simp_all add: block_ok_def)

lemma tidy_block_ok:
  "native_store st \<Longrightarrow> list_all (tidy_op True True) ts \<Longrightarrow> natives st (flat ts) \<Longrightarrow> list_all (every_op (block_ok st)) ts"
  by (induction ts) (simp_all add: tidy_op_block_ok)

lemma trimmedE:
  assumes "trimmed m cs cs'"
  obtains B k where "cs = B @ replicate k Pad" and "cells_le m B cs'"
  using assms unfolding trimmed_def by blast

lemma trimmed_natives:
  assumes "trimmed m cs cs'" and "natives st cs"
  shows "natives st cs'"
proof -
  obtain B k where "cs = B @ replicate k Pad" "cells_le m B cs'" using assms(1) by (rule trimmedE)
  then show ?thesis using natives_le[OF cells_le_to_merge] assms(2) by simp
qed

lemma trimmed_depth:
  assumes "trimmed m cs cs'" and "depth_le n cs"
  shows "depth_le n cs'"
proof -
  obtain B k where "cs = B @ replicate k Pad" "cells_le m B cs'" using assms(1) by (rule trimmedE)
  then show ?thesis using cells_le_depth assms(2) by simp
qed

end
