(* ===== verification/InitCorrect.thy ===== *)
theory InitCorrect
  imports LayoutBlocks
begin

text \<open>
  \<open>ValueOps::init\<close> turns raw memory into a value whose containers are empty. The loops over
  the elements of a vector are handled once, by \<open>fold_elements\<close>.
\<close>

section \<open>Elements of a vector\<close>

lemma splice_element:
  assumes "i < length es" and "\<forall>e \<in> set es. length e = k" and "length e' = k"
  shows "splice (concat es) (i * k) e' = concat (es[i := e'])"
  using assms
proof (induction es arbitrary: i)
  case (Cons e es)
  show ?case
  proof (cases i)
    case 0
    then show ?thesis using Cons.prems by (simp add: splice_def)
  next
    case (Suc j)
    have "splice (e @ concat es) (k + j * k) e' = e @ splice (concat es) (j * k) e'"
      using Cons.prems by (simp add: splice_def add.commute)
    then show ?thesis using Cons.IH[of j] Cons.prems Suc by simp
  qed
qed simp

lemma length_chunks: "\<forall>e \<in> set es. length e = k \<Longrightarrow> length (concat es) = length es * k"
  by (induction es) auto

lemma steps_mult:
  assumes "0 < k"
  shows "steps (a * k) (n * k) k = map (\<lambda>i. i * k) [a..<n]"
proof -
  have "(n * k - a * k + k - 1) div k = n - a"
  proof (cases "a < n")
    case True
    have "n * k - a * k = k * (n - a)" by (simp only: diff_mult_distrib2 mult.commute)
    then have "n * k - a * k + k - 1 = (k - 1) + k * (n - a)" using assms by linarith
    moreover have "((k - 1) + k * (n - a)) div k = (n - a) + (k - 1) div k" using assms by (intro div_mult_self2) simp
    ultimately show ?thesis using assms by simp
  next
    case False
    then have "n * k \<le> a * k" by simp
    then show ?thesis using assms False by simp
  qed
  then have "steps (a * k) (n * k) k = map ((\<lambda>i. i * k) \<circ> (\<lambda>i. i + a)) [0..<n - a]"
    by (simp add: steps_def add_mult_distrib)
  also have "\<dots> = map (\<lambda>i. i * k) (map (\<lambda>i. i + a) [0..<n - a])" by simp
  also have "map (\<lambda>i. i + a) [0..<n - a] = [a..<n]"
    by (cases "a \<le> n") (simp_all add: map_add_upt)
  finally show ?thesis .
qed

text \<open>
  A loop over elements whose body replaces one element of the storage: \<open>Q\<close> relates the index
  and the state before the body to the new element and the new state.
\<close>

lemma fold_elements:
  assumes step: "\<And>i s storage. a \<le> i \<Longrightarrow> i < n \<Longrightarrow> P i s \<Longrightarrow> length storage = length es * k \<Longrightarrow>
      located storage (i * k) (es ! i) \<Longrightarrow>
      \<exists>e' s'. F (storage, s) (i * k) = Inr (splice storage (i * k) e', s') \<and> length e' = k \<and> Q i e' \<and> P (Suc i) s'"
    and "a \<le> n" and "n \<le> length es" and "\<forall>e \<in> set es. length e = k" and "P a s"
  shows "\<exists>es' s'. fold_result F (concat es, s) (map (\<lambda>i. i * k) [a..<n]) = Inr (concat es', s') \<and>
    length es' = length es \<and> (\<forall>e \<in> set es'. length e = k) \<and> P n s' \<and>
    (\<forall>i. a \<le> i \<and> i < n \<longrightarrow> Q i (es' ! i)) \<and> (\<forall>i. i < a \<or> n \<le> i \<longrightarrow> es' ! i = es ! i)"
  using assms(2,3) step
proof (induction n)
  case 0
  then show ?case using assms(4,5) by auto
next
  case (Suc n)
  show ?case
  proof (cases "a = Suc n")
    case True
    then show ?thesis using assms(4,5) by auto
  next
    case False
    then have le: "a \<le> n" "n < length es" using Suc.prems by simp_all
    obtain es' s' where ih: "fold_result F (concat es, s) (map (\<lambda>i. i * k) [a..<n]) = Inr (concat es', s')"
      "length es' = length es" "\<forall>e \<in> set es'. length e = k" "P n s'"
      "\<forall>i. a \<le> i \<and> i < n \<longrightarrow> Q i (es' ! i)" "\<forall>i. i < a \<or> n \<le> i \<longrightarrow> es' ! i = es ! i"
      using Suc.IH[OF le(1)] le(2) Suc.prems(3) by auto
    have loc: "located (concat es') (n * k) (es ! n)" using located_element[of n es' k] ih le by simp
    have len: "length (concat es') = length es * k" using length_chunks ih(2,3) by metis
    obtain e' s'' where e': "F (concat es', s') (n * k) = Inr (splice (concat es') (n * k) e', s'')" "length e' = k"
      "Q n e'" "P (Suc n) s''" using Suc.prems(3)[OF le(1) _ ih(4) len loc] by auto
    have "splice (concat es') (n * k) e' = concat (es'[n := e'])" using splice_element ih(2,3) le(2) e'(2) by simp
    moreover have "\<forall>e \<in> set (es'[n := e']). length e = k"
      using ih(3) e'(2) set_update_subset_insert[of es' n e'] by blast
    ultimately show ?thesis using ih e' le
      by (intro exI[of _ "es'[n := e']"] exI[of _ s''])
        (auto simp: fold_result_append nth_list_update less_Suc_eq)
  qed
qed

text \<open>Loops without a further state.\<close>

lemma fold_result_unit:
  "fold_result (\<lambda>(s, _ :: unit) i. bind_result (f s i) (\<lambda>s'. Inr (s', ()))) (s, ()) xs =
     bind_result (fold_result f s xs) (\<lambda>s'. Inr (s', ()))"
  by (induction xs arbitrary: s) (simp_all add: bind_result_assoc)

section \<open>Initialization\<close>

text \<open>What the initialization cells make of raw memory.\<close>

fun empty_object :: "factory \<Rightarrow> mcell" where
  "empty_object VectorFactory = VectorObj 0 []"
| "empty_object StringFactory = StringObj []"

fun natural_size :: "factory \<Rightarrow> nat" where
  "natural_size VectorFactory = 24"
| "natural_size StringFactory = 32"

inductive inits :: "store \<Rightarrow> icell list \<Rightarrow> memory \<Rightarrow> memory \<Rightarrow> bool" for st where
  inits_Nil: "inits st [] [] []"
| inits_Byte: "is_raw m \<Longrightarrow> inits st is mem mem' \<Longrightarrow> inits st (IByte b # is) (m # mem) (Byte (of_nat b) # mem')"
| inits_Leave: "inits st is mem mem' \<Longrightarrow> inits st (ILeave # is) (m # mem) (m # mem')"
| inits_Cont: "ty_kind (type_at st t) = Container c fac on \<Longrightarrow> ty_size (type_at st t) = natural_size fac \<Longrightarrow>
    length m = natural_size fac \<Longrightarrow> inits st is mem mem' \<Longrightarrow>
    inits st (ICont t # is) (m @ mem) (empty_object fac # replicate (natural_size fac - 1) Inside @ mem')"

inductive_cases inits_NilE: "inits st [] mem mem'"
inductive_cases inits_ByteE: "inits st (IByte b # is) mem mem'"
inductive_cases inits_LeaveE: "inits st (ILeave # is) mem mem'"
inductive_cases inits_ContE: "inits st (ICont t # is) mem mem'"

lemma natural_size_pos [simp]: "0 < natural_size fac"
  by (cases fac) simp_all

lemma inits_length: "inits st is mem mem' \<Longrightarrow> length mem' = length mem"
  by (induction rule: inits.induct) simp_all

lemma inits_appendD:
  assumes "inits st (xs @ ys) mem mem'"
  shows "\<exists>m1 m2 m1' m2'. mem = m1 @ m2 \<and> mem' = m1' @ m2' \<and> inits st xs m1 m1' \<and> inits st ys m2 m2'"
  using assms
proof (induction xs arbitrary: mem mem')
  case (Cons x xs)
  show ?case
  proof (cases x)
    case (IByte b)
    with Cons.prems obtain m n n' where "mem = m # n" "mem' = Byte (of_nat b) # n'" "is_raw m" "inits st (xs @ ys) n n'"
      by (auto elim: inits_ByteE)
    moreover from Cons.IH[OF this(4)] obtain m1 m2 m1' m2' where
      "n = m1 @ m2" "n' = m1' @ m2'" "inits st xs m1 m1'" "inits st ys m2 m2'" by blast
    ultimately show ?thesis using IByte
      by (intro exI[of _ "m # m1"] exI[of _ m2] exI[of _ "Byte (of_nat b) # m1'"] exI[of _ m2']) (simp add: inits.intros)
  next
    case ILeave
    with Cons.prems obtain m n n' where "mem = m # n" "mem' = m # n'" "inits st (xs @ ys) n n'"
      by (auto elim: inits_LeaveE)
    moreover from Cons.IH[OF this(3)] obtain m1 m2 m1' m2' where
      "n = m1 @ m2" "n' = m1' @ m2'" "inits st xs m1 m1'" "inits st ys m2 m2'" by blast
    ultimately show ?thesis using ILeave
      by (intro exI[of _ "m # m1"] exI[of _ m2] exI[of _ "m # m1'"] exI[of _ m2']) (simp add: inits.intros)
  next
    case (ICont t)
    from Cons.prems[unfolded ICont append_Cons] obtain c fac on m n n' where
      *: "ty_kind (type_at st t) = Container c fac on" "ty_size (type_at st t) = natural_size fac"
      "length m = natural_size fac" "inits st (xs @ ys) n n'" "mem = m @ n"
      "mem' = empty_object fac # replicate (natural_size fac - 1) Inside @ n'"
      by (elim inits_ContE) auto
    from Cons.IH[OF *(4)] obtain m1 m2 m1' m2' where
      **: "n = m1 @ m2" "n' = m1' @ m2'" "inits st xs m1 m1'" "inits st ys m2 m2'" by blast
    show ?thesis using inits_Cont[OF *(1,2,3) **(3)] * ** ICont
      by (intro exI[of _ "m @ m1"] exI[of _ m2] exI[of _ "empty_object fac # replicate (natural_size fac - 1) Inside @ m1'"]
          exI[of _ m2']) simp
  qed
next
  case Nil
  then show ?case using inits_Nil by fastforce
qed

lemma inits_bytes: "inits st (map IByte bs) mem mem' \<Longrightarrow> list_all is_raw mem \<and> mem' = map (Byte \<circ> of_nat) bs"
  by (induction bs arbitrary: mem mem') (auto elim!: inits_NilE inits_ByteE)

lemma inits_leave: "inits st (replicate n ILeave) mem mem' \<Longrightarrow> mem' = mem \<and> length mem = n"
  by (induction n arbitrary: mem mem') (auto elim!: inits_NilE inits_LeaveE)

text \<open>The interpreter does what the cells say.\<close>

lemma init_run_op:
  assumes "inits st (flat_iop t) mem mem'" and "located data off mem" and "tidy_iop True t"
    and works: "\<And>d b data off mem mem'. t = IRepeat d b \<Longrightarrow> inits st (flat_init b) mem mem' \<Longrightarrow> located data off mem \<Longrightarrow>
      init_loop f st data off (encode_init b @ FLAG_INIT_END # k) = Inr ((splice data off mem', off + length mem), FLAG_INIT_END # k)"
  shows "init_loop (Suc f) st data off (encode_iop t @ k) = init_loop f st (splice data off mem') (off + length mem) k"
proof (cases t)
  case (IInit bs)
  then have "list_all is_raw mem" "mem' = map Byte (map of_nat bs)" "length mem = length bs"
    using inits_bytes[of st bs mem mem'] inits_length[OF assms(1)] assms(1) by auto
  then show ?thesis using IInit write_located[OF assms(2), of "map of_nat bs"]
    by (simp add: init_loop.simps(2) with_operand_def flag_defs)
next
  case (ISkip n)
  then have "mem' = mem" "length mem = n" using inits_leave assms(1) by auto
  then show ?thesis using ISkip splice_same[OF assms(2)]
    by (simp add: init_loop.simps(2) with_operand_def flag_defs)
next
  case (IContainer c)
  then obtain k' fac on where *: "ty_kind (type_at st c) = Container k' fac on"
    "ty_size (type_at st c) = natural_size fac" "length mem = natural_size fac"
    "mem' = empty_object fac # replicate (natural_size fac - 1) Inside"
    using assms(1) by (auto elim!: inits_ContE inits_NilE)
  have "Container_init st c data off = Inr (splice data off mem')"
    using * assms(2) by (cases fac) (simp_all add: Container_init_def container_case_def Vector_init_def String_init_def
        construct_def Vector_getNaturalSize_def String_getNaturalSize_def located_slice)
  then show ?thesis using IContainer * by (simp add: init_loop.simps(2) with_operand_def flag_defs)
next
  case (IRepeat d b)
  let ?it = "encode_init b @ FLAG_INIT_END # k"
  let ?g = "\<lambda>(b', off). init_loop f st b' off ?it"
  have "repeats ?g (FLAG_INIT_END # k) d (data, off) (Inr (splice data off mem', off + length mem))"
    if "inits st (concat (replicate d (flat_init b))) mem mem'" "located data off mem" for data off mem mem'
    using that
  proof (induction d arbitrary: data off mem mem')
    case 0
    then show ?case using repeats_0[of ?g _ "(data, off)"] by (auto elim!: inits_NilE simp: splice_same)
  next
    case (Suc d)
    from inits_appendD[of st "flat_init b" "concat (replicate d (flat_init b))" mem mem'] Suc.prems(1)
    obtain m1 m2 m1' m2' where m: "mem = m1 @ m2" "mem' = m1' @ m2'" "inits st (flat_init b) m1 m1'"
      "inits st (concat (replicate d (flat_init b))) m2 m2'" by auto
    have loc: "located data off m1" "located data (off + length m1) m2" using Suc.prems(2) m(1) by (simp_all add: located_append)
    have len: "length m1' = length m1" "length m2' = length m2" using inits_length m(3,4) by auto
    have one: "?g (data, off) = Inr ((splice data off m1', off + length m1), FLAG_INIT_END # k)"
      using works[OF IRepeat m(3) loc(1)] by simp
    have "located (splice data off m1') (off + length m1) m2"
      using splice_keeps[OF loc(2), of off m1'] len(1) loc(1) by (simp add: located_slice)
    from Suc.IH[OF m(4) this]
    have "repeats ?g (FLAG_INIT_END # k) d (splice data off m1', off + length m1)
        (Inr (splice data off mem', off + length mem))"
      using splice_splice_append[of off m1' m2' data] len loc m by (simp add: located_slice add.assoc)
    then show ?case by (rule repeats_Suc[of ?g, OF one])
  qed
  then have "repeats ?g (FLAG_INIT_END # k) d (data, off) (Inr (splice data off mem', off + length mem))"
    using assms(1,2) IRepeat by simp
  moreover have "0 < d" using assms(3) IRepeat by simp
  ultimately have "repeat_block ?g d ((data, off), ?it) = Inr ((splice data off mem', off + length mem), FLAG_INIT_END # k)"
    using repeat_block_repeats by fastforce
  then show ?thesis using IRepeat
    by (simp add: init_loop.simps(2) with_operand_def at_block_end_def flag_defs)
qed

lemma init_run:
  assumes "list_all (tidy_iop True) us" and "inits st (flat_init us) mem mem'" and "located data off mem"
    and "rest = [] \<or> hd rest = FLAG_INIT_END" and "length (encode_init us @ rest) < fuel"
  shows "init_loop fuel st data off (encode_init us @ rest) = Inr ((splice data off mem', off + length mem), rest)"
  using assms
proof (induction fuel arbitrary: us data off mem mem' rest)
  case (Suc f)
  show ?case
  proof (cases us)
    case Nil
    then show ?thesis using Suc.prems
      by (cases rest) (auto elim!: inits_NilE simp: init_loop.simps(2) splice_same FLAG_INIT_END_def)
  next
    case (Cons t ts)
    from inits_appendD[of st "flat_iop t" "flat_init ts" mem mem'] Suc.prems(2) Cons
    obtain m1 m2 m1' m2' where m: "mem = m1 @ m2" "mem' = m1' @ m2'" "inits st (flat_iop t) m1 m1'"
      "inits st (flat_init ts) m2 m2'" by auto
    have loc: "located data off m1" "located data (off + length m1) m2" using Suc.prems(3) m(1) by (simp_all add: located_append)
    have len: "length m1' = length m1" "length m2' = length m2" using inits_length m(3,4) by auto
    let ?k = "encode_init ts @ rest"
    have "init_loop (Suc f) st data off (encode_iop t @ ?k) = init_loop f st (splice data off m1') (off + length m1) ?k"
    proof (rule init_run_op[OF m(3) loc(1)])
      show "tidy_iop True t" using Suc.prems(1) Cons by simp
      fix d b data off mem mem'
      assume "t = IRepeat d b" "inits st (flat_init b) mem mem'" "located data off mem"
      then show "init_loop f st data off (encode_init b @ FLAG_INIT_END # ?k) =
          Inr ((splice data off mem', off + length mem), FLAG_INIT_END # ?k)"
        using Suc.prems Cons by (intro Suc.IH) auto
    qed
    moreover have "located (splice data off m1') (off + length m1) m2"
      using splice_keeps[OF loc(2), of off m1'] len(1) loc(1) by (simp add: located_slice)
    then have "init_loop f st (splice data off m1') (off + length m1) ?k =
        Inr ((splice (splice data off m1') (off + length m1) m2', off + length m1 + length m2), rest)"
      using Suc.prems Cons encode_iop_length[of t] by (intro Suc.IH[OF _ m(4)]) auto
    moreover have "splice (splice data off m1') (off + length m1) m2' = splice data off mem'"
      using splice_splice_append[of off m1' m2' data] len loc m(2) by (simp add: located_slice)
    ultimately show ?thesis using Cons m(1) by (simp add: add.assoc)
  qed
qed simp

text \<open>Initialized memory holds a value, and its containers are empty.\<close>

fun empty_cell :: "mcell \<Rightarrow> bool" where
  "empty_cell (VectorObj _ storage) = (storage = [])"
| "empty_cell (StringObj s) = (s = [])"
| "empty_cell _ = True"

definition fresh :: "memory \<Rightarrow> bool" where
  "fresh mem = list_all empty_cell mem"

lemma fresh_simps [simp]: "fresh []" "fresh (m # mem) \<longleftrightarrow> empty_cell m \<and> fresh mem"
  "fresh (xs @ ys) \<longleftrightarrow> fresh xs \<and> fresh ys" "fresh (replicate n Inside)"
  by (auto simp: fresh_def list_all_iff)

lemma holds_empty_object:
  assumes "native_store st" and "t \<in> dom (objects st)" and "ty_kind (type_at st t) = Container c fac on"
  shows "\<exists>bs. holds_object st t inner (empty_object fac) bs" and "ty_size (type_at st t) = natural_size fac"
proof -
  note store = native_storeD[OF assms(1,2)]
  show "ty_size (type_at st t) = natural_size fac" using store(3,4) assms(3) by (cases fac) auto
  show "\<exists>bs. holds_object st t inner (empty_object fac) bs"
  proof (cases fac)
    case VectorFactory
    then show ?thesis using holds_vector[of st t c on "[]" inner "[]" 0] store(3) assms(3) by auto
  next
    case StringFactory
    then show ?thesis using holds_string[of st t c on "[]" inner] store(4) assms(3) by auto
  qed
qed

lemma inits_holds:
  assumes "native_store st" and "list_all2 same_place cs is" and "natives st cs"
    and "list_all is_Byte mem" and "length mem = cells_bytes st cs"
  shows "\<exists>mem' bs. inits st is mem mem' \<and> holds st cs mem' bs \<and> fresh mem'"
  using assms(2-)
proof (induction cs "is" arbitrary: mem rule: list_all2_induct)
  case Nil
  then show ?case using inits_Nil holds_Nil by fastforce
next
  case (Cons c cs i "is")
  show ?case
  proof (cases c)
    case (Cont t inner)
    then obtain c' fac on where t: "t \<in> dom (objects st)" "ty_kind (type_at st t) = Container c' fac on"
      using Cons.prems(1) by auto
    obtain bs where bs: "holds_object st t inner (empty_object fac) bs" and sz: "ty_size (type_at st t) = natural_size fac"
      using holds_empty_object[OF assms(1) t] by blast
    let ?n = "natural_size fac"
    have len: "length (drop ?n mem) = cells_bytes st cs" "length (take ?n mem) = ?n"
      using Cons.prems(3) Cont sz by simp_all
    have "list_all is_Byte (drop ?n mem)" using Cons.prems(2) by (auto simp: list_all_iff dest: in_set_dropD)
    then obtain mem' bs' where ih: "inits st is (drop ?n mem) mem'" "holds st cs mem' bs'" "fresh mem'"
      using Cons.IH[of "drop ?n mem"] Cons.prems(1) len(1) by auto
    have "inits st (ICont t # is) (take ?n mem @ drop ?n mem) (empty_object fac # replicate (?n - 1) Inside @ mem')"
      using inits_Cont[OF t(2) sz len(2) ih(1)] .
    moreover have "i = ICont t" using Cons.hyps Cont by simp
    moreover have "holds st (c # cs) (empty_object fac # replicate (?n - 1) Inside @ mem') (bs @ bs')"
      using holds_Cont[OF bs ih(2)] sz Cont by simp
    moreover have "fresh (empty_object fac # replicate (?n - 1) Inside @ mem')" using ih(3) by (cases fac) simp_all
    ultimately show ?thesis by auto
  next
    case Data
    then obtain b mem0 where mem: "mem = Byte b # mem0" "list_all is_Byte mem0" "length mem0 = cells_bytes st cs"
      using Cons.prems(2,3) by (cases mem; cases "hd mem") auto
    then obtain mem' bs' where ih: "inits st is mem0 mem'" "holds st cs mem' bs'" "fresh mem'"
      using Cons.IH[of mem0] Cons.prems(1) by auto
    then have "inits st (i # is) mem ((case i of IByte x \<Rightarrow> Byte (of_nat x) | _ \<Rightarrow> Byte b) # mem')"
      using Cons.hyps Data mem(1) by (cases i) (auto intro: inits.intros)
    then show ?thesis using ih Data holds_Data by (cases i) (fastforce split: icell.splits)+
  next
    case Pad
    then obtain b mem0 where mem: "mem = Byte b # mem0" "list_all is_Byte mem0" "length mem0 = cells_bytes st cs"
      using Cons.prems(2,3) by (cases mem; cases "hd mem") auto
    then obtain mem' bs' where ih: "inits st is mem0 mem'" "holds st cs mem' bs'" "fresh mem'"
      using Cons.IH[of mem0] Cons.prems(1) by auto
    then have "inits st (i # is) mem ((case i of IByte x \<Rightarrow> Byte (of_nat x) | _ \<Rightarrow> Byte b) # mem')"
      using Cons.hyps Pad mem(1) by (cases i) (auto intro: inits.intros)
    then show ?thesis using ih Pad holds_Pad by (cases i) (fastforce split: icell.splits)+
  qed
qed

lemma init_element:
  assumes "native_store st" and "on \<in> dom (objects st)" and "raw_layout_of st on False False = Inr raw"
    and "located data off mem" and "list_all is_Byte mem" and "length mem = ty_size (type_at st on)"
  shows "\<exists>mem' bs. init_layout st data off (Vector_getElementLayout st on) = Inr (splice data off mem') \<and>
    holds st (type_cells st on) mem' bs \<and> fresh mem' \<and> length mem' = length mem"
proof -
  obtain ts us k where l: "Vector_getElementLayout st on = \<lparr>ops = encode ts, init_ops = encode_init us\<rparr>"
    "list_all2 same_place (type_cells st on) (flat_init us @ replicate k ILeave)" "list_all (tidy_iop True) us"
    using element_layout[OF assms(1-3)] by metis
  have well: "well_laid st" using native_storeD(1)[OF assms(1,2)] .
  have nat: "natives st (type_cells st on)" by (rule type_cells_natives[OF well assms(2,3)])
  have "cells_bytes st (type_cells st on) = ty_size (type_at st on)"
    using raw_laid_out(2)[of st False, OF well _ assms(2,3)] by simp
  then obtain mem' bs where i: "inits st (flat_init us @ replicate k ILeave) mem mem'"
    "holds st (type_cells st on) mem' bs" "fresh mem'"
    using inits_holds[OF assms(1) l(2) nat assms(5)] assms(6) by auto
  obtain m1 m2 m1' m2' where m: "mem = m1 @ m2" "mem' = m1' @ m2'" "inits st (flat_init us) m1 m1'"
    "inits st (replicate k ILeave) m2 m2'" using inits_appendD[OF i(1)] by blast
  have "m2' = m2" using inits_leave[OF m(4)] by simp
  have loc: "located data off m1" "located data (off + length m1) m2" using assms(4) m(1) by (simp_all add: located_append)
  have len: "length m1' = length m1" using inits_length[OF m(3)] .
  have "init_layout st data off (Vector_getElementLayout st on) = Inr (splice data off m1')"
    using init_run[OF l(3) m(3) loc(1), of "[]" "Suc (length (encode_init us))"] by (simp add: init_layout_def l(1))
  moreover have "located (splice data off m1') (off + length m1') m2"
    using splice_keeps[OF loc(2), of off m1'] len loc(1) by (simp add: located_slice)
  from splice_same[OF this] have "splice data off m1' = splice data off mem'"
    using splice_splice_append[of off m1' m2 data] len loc(1,2) m(2) \<open>m2' = m2\<close> by (simp add: located_slice)
  ultimately show ?thesis using i(2,3) inits_length[OF i(1)] by auto
qed

lemma holds_bytes:
  "byte_cells cs \<Longrightarrow> list_all is_Byte mem \<Longrightarrow> length mem = length cs \<Longrightarrow> \<exists>bs. holds st cs mem bs"
proof (induction cs arbitrary: mem)
  case (Cons c cs)
  then obtain b mem' where mem: "mem = Byte b # mem'" "list_all is_Byte mem'" "length mem' = length cs"
    by (cases mem; cases "hd mem") auto
  obtain bs where "holds st cs mem' bs" using Cons.IH[OF _ mem(2,3)] Cons.prems(1) by (auto simp: byte_cells_def)
  then show ?case using Cons.prems(1) mem(1) by (auto simp: byte_cells_def holds_Data_iff holds_Pad_iff)
qed (use holds_Nil in auto)

section \<open>Growing an empty vector\<close>

lemma concat_replicate_bytes: "concat (replicate n (replicate k x)) = replicate (n * k) x"
  by (induction n) (simp_all add: replicate_add)

lemma vector_resize_small: "n < 2 ^ 63 \<Longrightarrow> \<exists>cap'. vector_resize (cap, storage) n =
    Inr (cap', take n storage @ replicate (n - length storage) (Byte 0))"
  by (auto simp: vector_resize_def)

lemma resize_empty:
  assumes "native_store st" and "t \<in> dom (objects st)" and "ty_kind (type_at st t) = Container c VectorFactory on"
    and "on \<in> dom (objects st)" and "raw_layout_of st on False False = Inr raw"
    and "n * ty_size (type_at st on) < 2 ^ 63"
  shows "\<exists>cap' es. Vector_resize cd cc st on (cap, []) n = Inr (cap', concat es) \<and> length es = n \<and>
    (\<forall>e \<in> set es. length e = ty_size (type_at st on) \<and> fresh e \<and> (\<exists>bs. holds st (type_cells st on) e bs))"
proof -
  let ?k = "ty_size (type_at st on)" and ?l = "Vector_getElementLayout st on"
  let ?zs = "replicate n (replicate ?k (Byte (0 :: byte)))"
  have k: "0 < ?k" using native_storeD(3)[OF assms(1-3)] by simp
  have raw: "mul_size_t n ?k = n * ?k" using assms(6) by (simp add: mul_size_t_def size_t_modulus_def)
  obtain cap1 where r1: "vector_resize (cap, []) (n * ?k) = Inr (cap1, concat ?zs)"
    using vector_resize_small[OF assms(6), of cap "[]"] by (auto simp: concat_replicate_bytes)
  obtain cap2 where r2: "vector_resize (0, []) (n * ?k) = Inr (cap2, concat ?zs)"
    using vector_resize_small[OF assms(6), of 0 "[]"] by (auto simp: concat_replicate_bytes)
  have count: "Vector_getElementCount st on [] = Inr 0" using k by (simp add: Vector_getElementCount_def)
  show ?thesis
  proof (cases "isElementMemcpy st on")
    case True
    have bytes: "byte_cells (type_cells st on)" by (rule element_memcpy_cells[OF assms(1,4,5) True])
    then have "length (type_cells st on) = ?k"
      using raw_laid_out(2)[of st False, OF native_storeD(1)[OF assms(1,2)] _ assms(4,5)] byte_cells_bytes by simp
    then have "\<exists>bs. holds st (type_cells st on) (replicate ?k (Byte 0)) bs"
      by (intro holds_bytes[OF bytes]) (simp_all add: list_all_iff)
    moreover have "fresh (replicate ?k (Byte 0))" by (simp add: fresh_def list_all_iff)
    ultimately show ?thesis using True has_element_layout[OF assms(1-5)] count r1 raw
      by (intro exI[of _ cap1] exI[of _ ?zs]) (auto simp: Vector_resize_def Let_def)
  next
    case False
    let ?F = "\<lambda>(s, _ :: unit) i. bind_result (init_layout st s i ?l) (\<lambda>s'. Inr (s', ()))"
    have "\<exists>es' u. fold_result ?F (concat ?zs, ()) (map (\<lambda>i. i * ?k) [0..<n]) = Inr (concat es', u) \<and>
        length es' = length ?zs \<and> (\<forall>e \<in> set es'. length e = ?k) \<and> True \<and>
        (\<forall>i. 0 \<le> i \<and> i < n \<longrightarrow> fresh (es' ! i) \<and> (\<exists>bs. holds st (type_cells st on) (es' ! i) bs)) \<and>
        (\<forall>i. i < 0 \<or> n \<le> i \<longrightarrow> es' ! i = ?zs ! i)"
    proof (rule fold_elements)
      fix i s storage assume "i < n" "located storage (i * ?k) (?zs ! i)"
      then show "\<exists>e' s'. ?F (storage, s) (i * ?k) = Inr (splice storage (i * ?k) e', s') \<and> length e' = ?k \<and>
          (fresh e' \<and> (\<exists>bs. holds st (type_cells st on) e' bs)) \<and> True"
        using init_element[OF assms(1,4,5), of storage "i * ?k" "replicate ?k (Byte 0)"] by (auto simp: list_all_iff)
    qed simp_all
    then obtain es' where es': "fold_result ?F (concat ?zs, ()) (map (\<lambda>i. i * ?k) [0..<n]) = Inr (concat es', ())"
      "length es' = n" "\<forall>e \<in> set es'. length e = ?k"
      "\<forall>i < n. fresh (es' ! i) \<and> (\<exists>bs. holds st (type_cells st on) (es' ! i) bs)" by auto
    have "fold_result (\<lambda>s i. init_layout st s i ?l) (concat ?zs) (map (\<lambda>i. i * ?k) [0..<n]) = Inr (concat es')"
      using es'(1) by (simp add: fold_result_unit)
    then have init: "fold_result (\<lambda>s i. init_layout st s i ?l) (concat ?zs) (steps 0 (n * ?k) ?k) = Inr (concat es')"
      using steps_mult[OF k, of 0 n] by simp
    have none: "move_elements cd cc st ?l nb [] (steps 0 0 ?k) = Inr (nb, [])" for nb
      using steps_mult[OF k, of 0 0] by (simp add: move_elements_def)
    have "\<exists>cap'. Vector_resize cd cc st on (cap, []) n = Inr (cap', concat es')"
    proof (cases "n = 0")
      case True
      then show ?thesis using False has_element_layout[OF assms(1-5)] count r1 raw es'(2)
        by (auto simp: Vector_resize_def Let_def)
    next
      case n: False
      then show ?thesis using False has_element_layout[OF assms(1-5)] count r1 r2 raw none init
        by (cases "n * ?k \<le> cap") (simp_all add: Vector_resize_def Let_def)
    qed
    then obtain cap' where "Vector_resize cd cc st on (cap, []) n = Inr (cap', concat es')" by blast
    moreover have "\<forall>e \<in> set es'. length e = ?k \<and> fresh e \<and> (\<exists>bs. holds st (type_cells st on) e bs)"
      using es'(2-4) by (auto simp: in_set_conv_nth)
    ultimately show ?thesis using es'(2) by blast
  qed
qed

end
