(* ===== verification/Marshalling.thy ===== *)
theory Marshalling
  imports ValueOps
begin

text \<open>
  Marshalling: \<open>ValueOps::dump\<close> and \<open>ValueOps::load\<close> of \<open>typelib/value_ops.cc\<close>, the dump and
  load operations of the containers of \<open>lang/csupport/containers.cc\<close>, and the entry points
  over the streams of \<open>ValueMemory\<close>. The streams are arguments: \<open>emit\<close> writes bytes to a
  stream state, \<open>read\<close> takes bytes from one.
\<close>

section \<open>Dump\<close>

text \<open>
  The dump of the elements of a container; \<open>rec\<close> is \<open>ValueOps::dump\<close> at an offset of the
  storage. The code returns \<open>begin + 2\<close> where it took the copy of the block as one.
\<close>

definition Vector_dump :: "store \<Rightarrow> ('s \<Rightarrow> byte list \<Rightarrow> 's result) \<Rightarrow>
    (memory \<Rightarrow> nat \<Rightarrow> 's \<Rightarrow> nat list \<Rightarrow> ((nat \<times> 's) \<times> nat list) result) \<Rightarrow>
    tid \<Rightarrow> memory \<Rightarrow> nat \<Rightarrow> nat \<Rightarrow> 's \<Rightarrow> nat list \<Rightarrow> ('s \<times> nat list) result" where
  "Vector_dump st emit rec on mem offset element_count s begin_it =
     bind_result (get_vector mem offset) (\<lambda>(_, storage).
     if isElementMemcpy st on then
       with_operand (tl begin_it) (\<lambda>n _.
         bind_result (read_bytes storage 0 (mul_size_t n element_count)) (\<lambda>bs.
         bind_result (emit s bs) (\<lambda>s'. Inr (s', drop 2 begin_it))))
     else
       fold_result (\<lambda>(s', _) i.
         bind_result (rec storage (i * ty_size (type_at st on)) s' begin_it) (\<lambda>((_, s''), it_end). Inr (s'', it_end)))
         (s, begin_it) [0..<element_count])"

definition String_dump :: "('s \<Rightarrow> byte list \<Rightarrow> 's result) \<Rightarrow> memory \<Rightarrow> nat \<Rightarrow> nat \<Rightarrow> 's \<Rightarrow> nat list
    \<Rightarrow> ('s \<times> nat list) result" where
  "String_dump emit mem offset element_count s begin_it =
     bind_result (get_string mem offset) (\<lambda>str.
     if length str + 1 < element_count then Inl UndefinedBehaviour
     else bind_result (emit s (take element_count (str @ [0]))) (\<lambda>s'. Inr (s', drop 2 begin_it)))"

fun dump_loop :: "nat \<Rightarrow> store \<Rightarrow> ('s \<Rightarrow> byte list \<Rightarrow> 's result) \<Rightarrow> memory \<Rightarrow> nat \<Rightarrow> 's \<Rightarrow> nat list
    \<Rightarrow> ((nat \<times> 's) \<times> nat list) result" where
  "dump_loop 0 st emit data in_offset s it = Inl OutOfFuel"
| "dump_loop (Suc fuel) st emit data in_offset s it =
     (case it of
        [] \<Rightarrow> Inr ((in_offset, s), [])
      | op # rest \<Rightarrow>
        if op = FLAG_END then Inr ((in_offset, s), it)
        else if op = FLAG_MEMCPY then with_operand rest (\<lambda>sz it'.
          bind_result (read_bytes data in_offset sz) (\<lambda>bs.
          bind_result (emit s bs) (\<lambda>s'. dump_loop fuel st emit data (in_offset + sz) s' it')))
        else if op = FLAG_ARRAY then with_operand rest (\<lambda>element_count element_it.
          bind_result
            (if element_count = 0 then bind_result (skipBlock 0 element_it) (\<lambda>it'. Inr ((in_offset, s), it'))
             else repeat_block (\<lambda>(off, s'). dump_loop fuel st emit data off s' element_it) element_count
               ((in_offset, s), element_it))
            (\<lambda>((in_offset', s'), it'). at_block_end it' (dump_loop fuel st emit data in_offset' s')))
        else if op = FLAG_SKIP then with_operand rest (\<lambda>sz it'.
          dump_loop fuel st emit data (in_offset + sz) s it')
        else if op = FLAG_CONTAINER then with_operand rest (\<lambda>t it'.
          bind_result (Container_getElementCount st t data in_offset) (\<lambda>element_count.
          bind_result (emit s (bytes_of 8 element_count)) (\<lambda>s1.
          bind_result
            (if element_count = 0 then bind_result (skipBlock 0 it') (\<lambda>it''. Inr (s1, it''))
             else container_case st t
               (\<lambda>on. Vector_dump st emit (dump_loop fuel st emit) on data in_offset element_count s1 it')
               (\<lambda>_. String_dump emit data in_offset element_count s1 it'))
            (\<lambda>(s2, it''). at_block_end it'' (dump_loop fuel st emit data (in_offset + ty_size (type_at st t)) s2)))))
        else Inl UnknownLayoutBytecode)"

declare dump_loop.simps(2) [simp del]

text \<open>\<open>Typelib::dump(uint8_t const*, OutputStream&, MemoryLayout const&)\<close>\<close>

definition dump_stream :: "store \<Rightarrow> ('s \<Rightarrow> byte list \<Rightarrow> 's result) \<Rightarrow> memory \<Rightarrow> 's \<Rightarrow> MemoryLayout \<Rightarrow> 's result" where
  "dump_stream st emit v s l =
     bind_result (dump_loop (Suc (length (ops l))) st emit v 0 s (ops l))
       (\<lambda>((_, s'), it). if it \<noteq> [] then Inl RuntimeError else Inr s')"

definition dump_vector :: "store \<Rightarrow> memory \<Rightarrow> byte list \<Rightarrow> MemoryLayout \<Rightarrow> byte list result" where
  "dump_vector st v buffer l = dump_stream st VectorOutputStream_write v buffer l"

definition dump_value :: "store \<Rightarrow> memory \<Rightarrow> tid \<Rightarrow> byte list result" where
  "dump_value st v t = bind_result (layout_of st t False False True True) (dump_vector st v [])"

text \<open>
  The dump into an array catches every exception and returns 0; the content of the array
  is then not specified. The number of bytes is returned as an \<open>int\<close>.
\<close>

definition dump_array :: "store \<Rightarrow> memory \<Rightarrow> byte list \<Rightarrow> MemoryLayout \<Rightarrow> (byte list option \<times> int) result" where
  "dump_array st v buffer l =
     (case dump_loop (Suc (length (ops l))) st ByteArrayOutputStream_write v 0
         \<lparr>out_buffer = buffer, out_buffer_size = length buffer, out_current = 0\<rparr> (ops l) of
        Inl UndefinedBehaviour \<Rightarrow> Inl UndefinedBehaviour
      | Inl OutOfFuel \<Rightarrow> Inl OutOfFuel
      | Inl _ \<Rightarrow> Inr (None, 0)
      | Inr ((_, s), it) \<Rightarrow> if it \<noteq> [] then Inl RuntimeError
          else Inr (Some (out_buffer s), to_int32 (out_current s)))"

definition getDumpSize :: "store \<Rightarrow> memory \<Rightarrow> MemoryLayout \<Rightarrow> nat result" where
  "getDumpSize st v l =
     bind_result (dump_loop (Suc (length (ops l))) st ByteCounterStream_write v 0 0 (ops l))
       (\<lambda>((_, n), _). Inr n)"

definition getDumpSize_value :: "store \<Rightarrow> memory \<Rightarrow> tid \<Rightarrow> nat result" where
  "getDumpSize_value st v t = bind_result (layout_of st t False False True True) (getDumpSize st v)"

section \<open>Load\<close>

definition Vector_load :: "store \<Rightarrow> ('s \<Rightarrow> nat \<Rightarrow> (byte list \<times> 's) result) \<Rightarrow>
    (memory \<Rightarrow> nat \<Rightarrow> 's \<Rightarrow> nat list \<Rightarrow> ((memory \<times> nat \<times> 's) \<times> nat list) result) \<Rightarrow>
    tid \<Rightarrow> memory \<Rightarrow> nat \<Rightarrow> nat \<Rightarrow> 's \<Rightarrow> nat list \<Rightarrow> ((memory \<times> 's) \<times> nat list) result" where
  "Vector_load st read rec on mem offset element_count s begin_it =
     bind_result (get_vector mem offset) (\<lambda>v.
     bind_result (Vector_resize (cdestroy_of st) (ccopy_of st) st on v element_count) (\<lambda>(cap, storage).
     bind_result
       (if isElementMemcpy st on then
          with_operand (tl begin_it) (\<lambda>n _.
            bind_result (read s (mul_size_t n element_count)) (\<lambda>(bs, s').
            bind_result (write_bytes storage 0 bs) (\<lambda>storage'. Inr (storage', s', drop 2 begin_it))))
        else
          fold_result (\<lambda>(storage', s', _) i.
            bind_result (rec storage' (i * ty_size (type_at st on)) s' begin_it)
              (\<lambda>((storage'', _, s''), it_end). Inr (storage'', s'', it_end)))
            (storage, s, begin_it) [0..<element_count])
       (\<lambda>(storage', s', it'). Inr ((put_object mem offset (VectorObj cap storage'), s'), it'))))"

definition String_load :: "('s \<Rightarrow> nat \<Rightarrow> (byte list \<times> 's) result) \<Rightarrow> memory \<Rightarrow> nat \<Rightarrow> nat \<Rightarrow> 's \<Rightarrow> nat list
    \<Rightarrow> ((memory \<times> 's) \<times> nat list) result" where
  "String_load read mem offset element_count s begin_it =
     bind_result (get_string mem offset) (\<lambda>_.
     if 2 ^ 63 \<le> element_count then Inl LengthError
     else bind_result (read s element_count) (\<lambda>(bs, s').
       Inr ((put_object mem offset (StringObj bs), s'), drop 2 begin_it)))"

text \<open>The check behind an array does not test for the end of the bytecode.\<close>

definition at_array_end :: "nat list \<Rightarrow> (nat list \<Rightarrow> 'a result) \<Rightarrow> 'a result" where
  "at_array_end it k = (case it of [] \<Rightarrow> Inl UndefinedBehaviour
     | op # it' \<Rightarrow> if op \<noteq> FLAG_END then Inl RuntimeError else k it')"

fun load_loop :: "nat \<Rightarrow> store \<Rightarrow> ('s \<Rightarrow> nat \<Rightarrow> (byte list \<times> 's) result) \<Rightarrow> memory \<Rightarrow> nat \<Rightarrow> 's \<Rightarrow> nat list
    \<Rightarrow> ((memory \<times> nat \<times> 's) \<times> nat list) result" where
  "load_loop 0 st read data out_offset s it = Inl OutOfFuel"
| "load_loop (Suc fuel) st read data out_offset s it =
     (case it of
        [] \<Rightarrow> Inr ((data, out_offset, s), [])
      | op # rest \<Rightarrow>
        if op = FLAG_END then Inr ((data, out_offset, s), it)
        else if op = FLAG_MEMCPY then with_operand rest (\<lambda>sz it'.
          bind_result (read s sz) (\<lambda>(bs, s').
          bind_result (write_bytes data out_offset bs) (\<lambda>data'.
          load_loop fuel st read data' (out_offset + sz) s' it')))
        else if op = FLAG_ARRAY then with_operand rest (\<lambda>element_count element_it.
          bind_result
            (if element_count = 0 then bind_result (skipBlock 0 element_it) (\<lambda>it'. Inr ((data, out_offset, s), it'))
             else repeat_block (\<lambda>(d, off, s'). load_loop fuel st read d off s' element_it) element_count
               ((data, out_offset, s), element_it))
            (\<lambda>((data', out_offset', s'), it'). at_array_end it' (load_loop fuel st read data' out_offset' s')))
        else if op = FLAG_SKIP then with_operand rest (\<lambda>sz it'.
          load_loop fuel st read data (out_offset + sz) s it')
        else if op = FLAG_CONTAINER then with_operand rest (\<lambda>t it'.
          bind_result (read s 8) (\<lambda>(count_bytes, s1).
          let element_count = nat_of_bytes count_bytes in
          bind_result
            (if element_count = 0 then bind_result (skipBlock 0 it') (\<lambda>it''. Inr ((data, s1), it''))
             else container_case st t
               (\<lambda>on. Vector_load st read (load_loop fuel st read) on data out_offset element_count s1 it')
               (\<lambda>_. String_load read data out_offset element_count s1 it'))
            (\<lambda>((data', s2), it''). at_block_end it''
               (load_loop fuel st read data' (out_offset + ty_size (type_at st t)) s2))))
        else Inl UnknownLayoutBytecode)"

declare load_loop.simps(2) [simp del]

definition load_stream :: "store \<Rightarrow> ('s \<Rightarrow> nat \<Rightarrow> (byte list \<times> 's) result) \<Rightarrow> memory \<Rightarrow> 's \<Rightarrow> MemoryLayout
    \<Rightarrow> (memory \<times> 's) result" where
  "load_stream st read v s l =
     bind_result (load_loop (Suc (length (ops l))) st read v 0 s (ops l))
       (\<lambda>((v', _, s'), it). if it \<noteq> [] then Inl RuntimeError else Inr (v', s'))"

text \<open>The buffer must be used up, but for the trailing padding of the type.\<close>

definition load_vector :: "store \<Rightarrow> memory \<Rightarrow> tid \<Rightarrow> byte list \<Rightarrow> MemoryLayout \<Rightarrow> memory result" where
  "load_vector st v t buffer l =
     bind_result (load_stream st VectorInputStream_read v \<lparr>in_buffer = buffer, in_index = 0\<rparr> l) (\<lambda>(v', s).
       if in_index s \<noteq> length buffer \<and> in_index s + getTrailingPadding st (type_at st t) \<noteq> length buffer
       then Inl RuntimeError else Inr v')"

definition load_value :: "store \<Rightarrow> memory \<Rightarrow> tid \<Rightarrow> byte list \<Rightarrow> memory result" where
  "load_value st v t buffer =
     bind_result (layout_of st t False False True True) (load_vector st v t buffer)"

definition load_array :: "store \<Rightarrow> memory \<Rightarrow> tid \<Rightarrow> byte list \<Rightarrow> MemoryLayout \<Rightarrow> memory result" where
  "load_array st v t buffer l =
     bind_result (load_stream st ByteArrayInputStream_read v
         \<lparr>in_buffer = buffer, in_index = 0, in_buffer_size = length buffer\<rparr> l) (\<lambda>(v', s).
       if in_index s \<noteq> in_buffer_size s \<and>
          (in_index s + getTrailingPadding st (type_at st t)) mod 2 ^ 32 \<noteq> in_buffer_size s
       then Inl RuntimeError else Inr v')"

end
