(* ===== verification/DumpCorrect.thy ===== *)
theory DumpCorrect
  imports LayoutBlocks Marshalling
begin

text \<open>
  \<open>ValueOps::dump\<close> writes the serialized form of the value that memory holds, over any
  output stream that satisfies the contract \<open>output_stream\<close>.
\<close>

lemmas loop_steps = with_operand_def at_block_end_def step_over_def

lemma skip_block: "skipBlock 0 (encode b @ FLAG_END # k) = Inr (FLAG_END # k)"
  unfolding skip_reader.read_encode by (simp add: flag_defs)

lemma element_count:
  assumes "\<forall>e \<in> set es. length e = ty_size (type_at st on)" and "0 < ty_size (type_at st on)"
  shows "Vector_getElementCount st on (concat es) = Inr (length es)"
proof -
  have "length (concat es) = length es * ty_size (type_at st on)" using assms(1) by (induction es) auto
  then show ?thesis using assms(2) by (simp add: Vector_getElementCount_def)
qed

lemma string_count: "ty_size (type_at st on) = 1 \<Longrightarrow> String_getElementCount st on s = Inr (length s)"
  by (simp add: String_getElementCount_def)

lemma get_vector_located: "located data off (VectorObj cap storage # mem) \<Longrightarrow> get_vector data off = Inr (cap, storage)"
  by (simp add: get_vector_def get_located)

lemma get_string_located: "located data off (StringObj s # mem) \<Longrightarrow> get_string data off = Inr s"
  by (simp add: get_string_def get_located)

lemma mul_size_t_small: "a * b < 2 ^ 63 \<Longrightarrow> mul_size_t a b = a * b"
  by (simp add: mul_size_t_def size_t_modulus_def)

lemma elements_Data:
  "list_all2 (holds st (replicate n Data)) es ebs \<Longrightarrow> concat es = map Byte (concat ebs) \<and> length (concat ebs) = n * length es"
  by (induction es ebs rule: list_all2_induct) (simp_all add: holds_Data_run)

lemma concat_take_Suc: "n < length xs \<Longrightarrow> concat (take (Suc n) xs) = concat (take n xs) @ xs ! n"
  by (simp add: take_Suc_conv_app_nth)

section \<open>The dump as an interpreter\<close>

definition dump_run :: "store \<Rightarrow> ('s \<Rightarrow> byte list \<Rightarrow> 's result) \<Rightarrow> nat \<Rightarrow> memory \<times> nat \<times> 's \<Rightarrow> nat list
    \<Rightarrow> error + ((memory \<times> nat \<times> 's) \<times> nat list)" where
  "dump_run st emit f a it = (case a of (data, off, s) \<Rightarrow>
     bind_result (dump_loop f st emit data off s it) (\<lambda>((off', s'), it'). Inr ((data, off', s'), it')))"

definition dump_pre :: "store \<Rightarrow> ('s \<Rightarrow> bool) \<Rightarrow> cell list \<Rightarrow> memory \<times> nat \<times> 's \<Rightarrow> bool" where
  "dump_pre st ok cs a \<longleftrightarrow> (case a of (data, off, s) \<Rightarrow> ok s \<and> (\<exists>mem bs. located data off mem \<and> holds st cs mem bs))"

definition dump_post :: "store \<Rightarrow> ('s \<Rightarrow> byte list \<Rightarrow> 's result) \<Rightarrow> cell list \<Rightarrow> memory \<times> nat \<times> 's
    \<Rightarrow> error + (memory \<times> nat \<times> 's) \<Rightarrow> bool" where
  "dump_post st emit cs a r \<longleftrightarrow> (case a of (data, off, s) \<Rightarrow> \<exists>mem bs. located data off mem \<and> holds st cs mem bs \<and>
     r = bind_result (emit s bs) (\<lambda>s'. Inr (data, off + length mem, s')))"

lemma dump_run_eq:
  "dump_run st emit (Suc f) (data, off, s) [] = Inr ((data, off, s), [])"
  "dump_run st emit (Suc f) (data, off, s) (FLAG_END # k) = Inr ((data, off, s), FLAG_END # k)"
  "dump_run st emit (Suc f) (data, off, s) (FLAG_MEMCPY # n # k) =
     bind_result (read_bytes data off n) (\<lambda>bs. bind_result (emit s bs) (\<lambda>s'. dump_run st emit f (data, off + n, s') k))"
  "dump_run st emit (Suc f) (data, off, s) (FLAG_SKIP # n # k) = dump_run st emit f (data, off + n, s) k"
  by (simp_all add: dump_run_def dump_loop.simps(2) loop_steps bind_result_assoc)

lemma dump_run_array:
  assumes "repeats (\<lambda>a. dump_run st emit f a (encode b @ FLAG_END # k)) (FLAG_END # k) d a r"
  shows "dump_run st emit (Suc f) a (FLAG_ARRAY # d # encode b @ FLAG_END # k) = bind_result r (\<lambda>a'. dump_run st emit f a' k)"
proof -
  obtain data off s where a: "a = (data, off, s)" by (cases a)
  let ?g = "\<lambda>(off, s). dump_loop f st emit data off s (encode b @ FLAG_END # k)"
  have "\<exists>r'. repeats ?g (FLAG_END # k) d (off, s) r' \<and> r = bind_result r' (\<lambda>(off', s'). Inr (data, off', s'))"
    using assms unfolding a
  proof (induction d "(data, off, s)" r arbitrary: off s rule: repeats.induct)
    case (repeats_fail e n off s)
    then have "?g (off, s) = Inl e" by (cases "?g (off, s)") (auto simp: dump_run_def)
    then show ?case by (intro exI[of _ "Inl e"]) (simp add: repeats.repeats_fail)
  next
    case (repeats_Suc a' n r off s)
    then obtain off' s' where g: "?g (off, s) = Inr ((off', s'), FLAG_END # k)" "a' = (data, off', s')"
      by (cases "?g (off, s)") (auto simp: dump_run_def)
    then show ?case using repeats_Suc(3)[OF g(2)] repeats.repeats_Suc[of ?g "(off, s)" "(off', s')"] by blast
  qed (auto intro: repeats.repeats_0)
  then obtain r' where r': "repeats ?g (FLAG_END # k) d (off, s) r'" "r = bind_result r' (\<lambda>(off', s'). Inr (data, off', s'))"
    by blast
  show ?thesis
  proof (cases "d = 0")
    case True
    then have "r' = Inr (off, s)" using r'(1) by (auto elim: repeats.cases)
    then show ?thesis using True r'(2)
      by (simp add: a dump_run_def dump_loop.simps(2) loop_steps skip_block)
  next
    case False
    then show ?thesis using r' repeat_block_repeats[OF r'(1)]
      by (simp add: a dump_run_def dump_loop.simps(2) loop_steps bind_result_assoc split_beta)
  qed
qed

context output_stream begin

lemma emit_elements:
  assumes "\<And>i s'. i < n \<Longrightarrow> stream_ok s' \<Longrightarrow>
      rec (i * k) s' = bind_result (emit s' (ebs ! i)) (\<lambda>s''. Inr ((off i, s''), stop))"
    and "stream_ok s" and "n \<le> length ebs"
  shows "fold_result (\<lambda>(s', _) i. bind_result (rec (i * k) s') (\<lambda>((_, s''), it). Inr (s'', it))) (s, x) [0..<n] =
    bind_result (emit s (concat (take n ebs))) (\<lambda>s'. Inr (s', if n = 0 then x else stop))"
  using assms
proof (induction n)
  case 0
  then show ?case using write_nothing by simp
next
  case (Suc n)
  let ?body = "\<lambda>(s', _) i. bind_result (rec (i * k) s') (\<lambda>((_, s''), it). Inr (s'', it))"
  have "fold_result ?body (s, x) [0..<n] =
      bind_result (emit s (concat (take n ebs))) (\<lambda>s'. Inr (s', if n = 0 then x else stop))"
    by (rule Suc.IH) (use Suc.prems in auto)
  moreover have "bind_result (rec (n * k) s') (\<lambda>((_, s''), it). Inr (s'', it)) =
      bind_result (emit s' (ebs ! n)) (\<lambda>s''. Inr (s'', stop))" if "emit s (concat (take n ebs)) = Inr s'" for s'
    using Suc.prems(1)[of n s'] write_ok[OF Suc.prems(2) that] by (simp add: bind_result_assoc split_beta)
  moreover have "emit s (concat (take (Suc n) ebs)) =
      bind_result (emit s (concat (take n ebs))) (\<lambda>s'. emit s' (ebs ! n))"
    using Suc.prems(3) write_append[OF Suc.prems(2)] by (simp add: concat_take_Suc)
  ultimately show ?case
    by (cases "emit s (concat (take n ebs))") (simp_all add: fold_result_append bind_result_assoc)
qed

text \<open>The dump of one container.\<close>

lemma dump_container:
  assumes "block_ok st (ContainerOp t b)" and "stream_ok s"
    and "located data off (obj # replicate (ty_size (type_at st t) - 1) Inside)" and "holds_object st t (flat b) obj bs"
    and works: "\<And>a. dump_pre st stream_ok (flat b) a \<Longrightarrow> \<exists>r. dump_post st emit (flat b) a r \<and>
         dump_run st emit f a (encode b @ FLAG_END # k) = bind_result r (\<lambda>a'. Inr (a', FLAG_END # k))"
  shows "dump_run st emit (Suc f) (data, off, s) (FLAG_CONTAINER # t # encode b @ FLAG_END # k) =
    bind_result (emit s bs) (\<lambda>s'. dump_run st emit f (data, off + ty_size (type_at st t), s') k)"
proof -
  note step = dump_run_def dump_loop.simps(2) loop_steps Container_getElementCount_def container_case_def
  let ?fin = "\<lambda>s'. Inr (s', FLAG_END # k)"
  have split: "emit s (xs @ ys) = bind_result (emit s xs) (\<lambda>s'. emit s' ys)" for xs ys
    by (rule write_append[OF assms(2)])
  obtain c fac on where kind: "ty_kind (type_at st t) = Container c fac on"
    using assms(1) by (auto simp: block_ok_def split: kind.splits)
  show ?thesis
  proof (cases fac)
    case VectorFactory
    note kind = kind[unfolded VectorFactory]
    from assms(4) kind obtain cap es ebs where 1: "obj = VectorObj cap (concat es)"
      "bs = bytes_of 8 (length es) @ concat ebs" "ty_kind (type_at st t) = Container c VectorFactory on"
      "ty_size (type_at st t) = 24" "0 < ty_size (type_at st on)"
      "\<forall>e \<in> set es. length e = ty_size (type_at st on)" "length (concat es) < 2 ^ 63"
      "list_all2 (holds st (flat b)) es ebs" by (auto elim: holds_object_Vector)
    note obj = get_vector_located[OF assms(3)[unfolded 1(1)]] and count = element_count[OF 1(6,5)]
    have dump: "Vector_dump st emit (dump_loop f st emit) on data off (length es) s1 (encode b @ FLAG_END # k) =
        bind_result (emit s1 (concat ebs)) ?fin" if "es \<noteq> []" "stream_ok s1" for s1
    proof (cases "isElementMemcpy st on")
      case True
      then have b: "b = [Memcpy (ty_size (type_at st on))]" using assms(1) 1(3) by (simp add: block_ok_def)
      let ?k = "ty_size (type_at st on)"
      have d: "concat es = map Byte (concat ebs)" "length (concat ebs) = ?k * length es"
        using elements_Data[of st ?k es ebs] 1(8) by (simp_all add: b)
      have "length (concat ebs) < 2 ^ 63" using 1(7) by (simp add: d(1) length_concat)
      then have m: "mul_size_t ?k (length es) = ?k * length es" using d(2) by (intro mul_size_t_small) simp
      then have "read_bytes (concat es) 0 (mul_size_t ?k (length es)) = Inr (concat ebs)"
        using d by (intro read_located) simp_all
      then show ?thesis using True obj by (simp add: Vector_dump_def with_operand_def b)
    next
      case False
      have el: "dump_loop f st emit (concat es) (i * ty_size (type_at st on)) s' (encode b @ FLAG_END # k) =
          bind_result (emit s' (ebs ! i)) (\<lambda>s''. Inr ((i * ty_size (type_at st on) + length (es ! i), s''), FLAG_END # k))"
        if i: "i < length es" and ok: "stream_ok s'" for i s'
      proof -
        let ?o = "i * ty_size (type_at st on)"
        have loc: "located (concat es) ?o (es ! i)" using located_element 1(6) i by blast
        have h: "holds st (flat b) (es ! i) (ebs ! i)" using 1(8) i by (simp add: list_all2_conv_all_nth)
        have "dump_pre st stream_ok (flat b) (concat es, ?o, s')" using loc h ok by (auto simp: dump_pre_def)
        from works[OF this] obtain mem ebs' where w: "located (concat es) ?o mem" "holds st (flat b) mem ebs'"
          "dump_run st emit f (concat es, ?o, s') (encode b @ FLAG_END # k) =
             bind_result (bind_result (emit s' ebs') (\<lambda>s''. Inr (concat es, ?o + length mem, s'')))
               (\<lambda>a'. Inr (a', FLAG_END # k))"
          by (auto simp: dump_post_def)
        have "mem = es ! i" using located_unique[OF w(1) loc] holds_length[OF w(2)] holds_length[OF h] by simp
        moreover from this have "ebs' = ebs ! i" using holds_det w(2) h by blast
        ultimately show ?thesis using w(3)
          by (cases "dump_loop f st emit (concat es) ?o s' (encode b @ FLAG_END # k)"; cases "emit s' (ebs ! i)")
            (auto simp: dump_run_def)
      qed
      have "length ebs = length es" using 1(8) by (simp add: list_all2_conv_all_nth)
      then have "fold_result (\<lambda>(s', _) i. bind_result (dump_loop f st emit (concat es) (i * ty_size (type_at st on)) s'
            (encode b @ FLAG_END # k)) (\<lambda>((_, s''), it). Inr (s'', it))) (s1, encode b @ FLAG_END # k) [0..<length es] =
          bind_result (emit s1 (concat (take (length es) ebs)))
            (\<lambda>s'. Inr (s', if length es = 0 then encode b @ FLAG_END # k else FLAG_END # k))"
        by (intro emit_elements) (use el that(2) in auto)
      then show ?thesis using False obj that(1) \<open>length ebs = length es\<close> by (simp add: Vector_dump_def)
    qed
    have "es = [] \<Longrightarrow> ebs = []" using 1(8) by auto
    then show ?thesis using 1(1,2,3) obj count dump write_ok[OF assms(2)] write_nothing
      by (cases "emit s (bytes_of 8 (length es))")
        (auto simp: step split skip_block bind_result_assoc split_beta)
  next
    case StringFactory
    note kind = kind[unfolded StringFactory]
    from assms(4) kind obtain str where 2: "obj = StringObj str" "bs = bytes_of 8 (length str) @ str"
      "ty_kind (type_at st t) = Container c StringFactory on" "ty_size (type_at st t) = 32"
      "ty_size (type_at st on) = 1" by (auto elim: holds_object_String)
    note obj = get_string_located[OF assms(3)[unfolded 2(1)]] and count = string_count[OF 2(5)]
    have "b = [Memcpy 1]" using assms(1) 2(3) by (simp add: block_ok_def)
    then show ?thesis using 2(1,2,3) obj count write_ok[OF assms(2)] write_nothing
      by (cases "emit s (bytes_of 8 (length str))")
        (auto simp: step split skip_block bind_result_assoc split_beta String_dump_def)
  qed
qed

end

sublocale output_stream \<subseteq> dumper: bytecode_interpreter "dump_run st emit" "dump_pre st stream_ok"
  "dump_post st emit" "block_ok st" for st
proof
  fix f it and a :: "memory \<times> nat \<times> 's" assume "it = [] \<or> hd it = FLAG_END"
  then show "dump_run st emit (Suc f) a it = Inr (a, it)"
    by (cases a; cases it) (auto simp: dump_run_eq)
next
  fix a :: "memory \<times> nat \<times> 's" assume "dump_pre st stream_ok [] a"
  then show "dump_post st emit [] a (Inr a)"
    using write_nothing by (auto simp: dump_pre_def dump_post_def)
next
  fix xs ys and a :: "memory \<times> nat \<times> 's" assume "dump_pre st stream_ok (xs @ ys) a"
  then show "dump_pre st stream_ok xs a"
    by (fastforce simp: dump_pre_def located_append dest: holds_appendD)
next
  fix xs ys and a a' :: "memory \<times> nat \<times> 's"
  assume pre: "dump_pre st stream_ok (xs @ ys) a" and post: "dump_post st emit xs a (Inr a')"
  obtain data off s where a: "a = (data, off, s)" by (cases a)
  obtain m1 m2 b1 b2 where m: "stream_ok s" "located data off m1" "located data (off + length m1) m2"
    "holds st xs m1 b1" "holds st ys m2 b2"
    using pre unfolding a dump_pre_def by (auto simp: located_append dest!: holds_appendD)
  obtain mem bs s' where m': "holds st xs mem bs" "emit s bs = Inr s'" "a' = (data, off + length mem, s')"
    using post unfolding a dump_post_def by auto
  have "length mem = length m1" using holds_length m(4) m'(1) by metis
  then show "dump_pre st stream_ok ys a'" using m m' write_ok[OF m(1) m'(2)] by (auto simp: dump_pre_def)
next
  fix xs ys r and a a' :: "memory \<times> nat \<times> 's"
  assume pre: "dump_pre st stream_ok (xs @ ys) a" and post: "dump_post st emit xs a (Inr a')" "dump_post st emit ys a' r"
  obtain data off s where a: "a = (data, off, s)" by (cases a)
  obtain m1 b1 s' where m1: "located data off m1" "holds st xs m1 b1" "emit s b1 = Inr s'" "a' = (data, off + length m1, s')"
    using post(1) unfolding a dump_post_def by auto
  obtain m2 b2 where m2: "located data (off + length m1) m2" "holds st ys m2 b2"
    "r = bind_result (emit s' b2) (\<lambda>s''. Inr (data, off + length m1 + length m2, s''))"
    using post(2) unfolding m1(4) dump_post_def by auto
  have "located data off (m1 @ m2)" using m1(1) m2(1) by (simp add: located_append)
  moreover have "emit s (b1 @ b2) = emit s' b2" using write_append[of s b1 b2] pre m1(3) by (simp add: a dump_pre_def)
  ultimately show "dump_post st emit (xs @ ys) a r"
    unfolding a dump_post_def using holds_appendI[OF m1(2) m2(2)] m2(3)
    by (auto intro!: exI[of _ "m1 @ m2"] exI[of _ "b1 @ b2"] simp: add.assoc)
next
  fix xs ys e and a :: "memory \<times> nat \<times> 's"
  assume pre: "dump_pre st stream_ok (xs @ ys) a" and post: "dump_post st emit xs a (Inl e)"
  obtain data off s where a: "a = (data, off, s)" by (cases a)
  obtain m1 m2 b1 b2 where m: "stream_ok s" "located data off m1" "located data (off + length m1) m2"
    "holds st xs m1 b1" "holds st ys m2 b2"
    using pre unfolding a dump_pre_def by (auto simp: located_append dest!: holds_appendD)
  obtain mem bs where m': "located data off mem" "holds st xs mem bs" "emit s bs = Inl e"
    using post unfolding a dump_post_def by (auto simp: Inl_eq_bind_Inr)
  have "mem = m1" using located_unique[OF m'(1) m(2)] holds_length m(4) m'(2) by metis
  then have "b1 = bs" using holds_det m'(2) m(4) by blast
  then have "emit s (b1 @ b2) = Inl e" using write_append[OF m(1)] m'(3) by simp
  moreover have "located data off (m1 @ m2)" using m by (simp add: located_append)
  ultimately show "dump_post st emit (xs @ ys) a (Inl e)"
    unfolding a dump_post_def using holds_appendI[OF m(4,5)]
    by (auto intro!: exI[of _ "m1 @ m2"] exI[of _ "b1 @ b2"])
next
  fix n and a :: "memory \<times> nat \<times> 's" assume pre: "dump_pre st stream_ok (replicate n Data) a"
  obtain data off s where a: "a = (data, off, s)" by (cases a)
  obtain bs where bs: "located data off (map Byte bs)" "length bs = n"
    using pre unfolding a dump_pre_def by (auto simp: holds_Data_run)
  let ?r = "bind_result (emit s bs) (\<lambda>s'. Inr (data, off + n, s'))"
  have "dump_post st emit (replicate n Data) a ?r" unfolding a dump_post_def using bs
    by (auto intro!: exI[of _ "map Byte bs"] exI[of _ bs] simp: holds_Data_run)
  moreover have "dump_run st emit (Suc f) a (FLAG_MEMCPY # n # k) = bind_result ?r (\<lambda>a'. dump_run st emit f a' k)" for f k
    using read_located[OF bs] by (simp add: a dump_run_eq bind_result_assoc)
  ultimately show "\<exists>r. dump_post st emit (replicate n Data) a r \<and>
      (\<forall>f k. dump_run st emit (Suc f) a (FLAG_MEMCPY # n # k) = bind_result r (\<lambda>a'. dump_run st emit f a' k))" by blast
next
  fix n and a :: "memory \<times> nat \<times> 's" assume pre: "dump_pre st stream_ok (replicate n Pad) a"
  obtain data off s where a: "a = (data, off, s)" by (cases a)
  then have "dump_post st emit (replicate n Pad) a (Inr (data, off + n, s))"
    using pre write_nothing unfolding a dump_post_def dump_pre_def by (auto simp: holds_Pad_run)
  then show "\<exists>r. dump_post st emit (replicate n Pad) a r \<and>
      (\<forall>f k. dump_run st emit (Suc f) a (FLAG_SKIP # n # k) = bind_result r (\<lambda>a'. dump_run st emit f a' k))"
    by (intro exI[of _ "Inr (data, off + n, s)"]) (simp add: a dump_run_eq)
next
  fix d b f k r and a :: "memory \<times> nat \<times> 's"
  assume "repeats (\<lambda>a. dump_run st emit f a (encode b @ FLAG_END # k)) (FLAG_END # k) d a r"
  then show "dump_run st emit (Suc f) a (FLAG_ARRAY # d # encode b @ FLAG_END # k) =
      bind_result r (\<lambda>a'. dump_run st emit f a' k)" by (rule dump_run_array)
next
  fix t b f k and a :: "memory \<times> nat \<times> 's"
  assume ok: "block_ok st (ContainerOp t b)" and pre: "dump_pre st stream_ok [Cont t (flat b)] a"
    and works: "\<And>a. dump_pre st stream_ok (flat b) a \<Longrightarrow> \<exists>r. dump_post st emit (flat b) a r \<and>
         dump_run st emit f a (encode b @ FLAG_END # k) = bind_result r (\<lambda>a'. Inr (a', FLAG_END # k))"
  obtain data off s where a: "a = (data, off, s)" by (cases a)
  let ?m = "\<lambda>obj. obj # replicate (ty_size (type_at st t) - 1) Inside"
  obtain obj bs where obj: "stream_ok s" "located data off (?m obj)" "holds_object st t (flat b) obj bs"
    using pre unfolding a dump_pre_def by (auto simp: holds_Cont_iff)
  have len: "length (?m obj) = ty_size (type_at st t)" using holds_object_size[OF obj(3)] by simp
  let ?r = "bind_result (emit s bs) (\<lambda>s'. Inr (data, off + ty_size (type_at st t), s'))"
  have "holds st [Cont t (flat b)] (?m obj) bs" using holds_Cont[OF obj(3) holds_Nil] by simp
  then have "dump_post st emit [Cont t (flat b)] a ?r" unfolding a dump_post_def using obj(2) len by force
  moreover have "dump_run st emit (Suc f) a (FLAG_CONTAINER # t # encode b @ FLAG_END # k) =
      bind_result ?r (\<lambda>a'. dump_run st emit f a' k)"
    using dump_container[OF ok obj works] by (simp add: a bind_result_assoc)
  ultimately show "\<exists>r. dump_post st emit [Cont t (flat b)] a r \<and>
      dump_run st emit (Suc f) a (FLAG_CONTAINER # t # encode b @ FLAG_END # k) =
        bind_result r (\<lambda>a'. dump_run st emit f a' k)" by blast
qed

context output_stream begin

text \<open>A dump of memory that holds a value writes the serialized form of the value.\<close>

lemma dump_loop_correct:
  assumes "list_all (every_op (block_ok st)) ts" and "holds st (flat ts) mem bs" and "stream_ok s"
    and "length (encode ts) < fuel"
  shows "dump_loop fuel st emit (mem @ q) 0 s (encode ts) =
    bind_result (emit s bs) (\<lambda>s'. Inr ((length mem, s'), []))"
proof -
  have "dump_pre st stream_ok (flat ts) (mem @ q, 0, s)"
    using assms(2,3) located_prefix[of mem q] by (auto simp: dump_pre_def)
  from dumper.run_encode[OF assms(1) this, of "[]" fuel] obtain mem' bs' where
    r: "located (mem @ q) 0 mem'" "holds st (flat ts) mem' bs'"
    "dump_run st emit fuel (mem @ q, 0, s) (encode ts) =
       bind_result (bind_result (emit s bs') (\<lambda>s'. Inr (mem @ q, length mem', s'))) (\<lambda>a'. Inr (a', []))"
    using assms(4) by (auto simp: dump_post_def)
  have "mem' = mem" using located_unique[OF r(1) located_prefix] holds_length[OF r(2)] holds_length[OF assms(2)] by simp
  moreover from this have "bs' = bs" using holds_det r(2) assms(2) by blast
  ultimately show ?thesis using r(3)
    by (cases "dump_loop fuel st emit (mem @ q) 0 s (encode ts)"; cases "emit s bs") (auto simp: dump_run_def)
qed

end

end
