(* ===== verification/LoadCorrect.thy ===== *)
theory LoadCorrect
  imports InitCorrect DumpCorrect
begin

text \<open>
  \<open>ValueOps::load\<close> reads back what \<open>ValueOps::dump\<close> wrote, over any input stream that satisfies
  the contract \<open>input_stream\<close>, into memory whose containers are empty. (With a container
  that is not empty this fails: \<open>load\<close> does not clear a container whose element count is 0.)
\<close>

definition load_run :: "store \<Rightarrow> ('s \<Rightarrow> nat \<Rightarrow> (byte list \<times> 's) result) \<Rightarrow> nat \<Rightarrow> memory \<times> nat \<times> 's \<Rightarrow> nat list
    \<Rightarrow> error + ((memory \<times> nat \<times> 's) \<times> nat list)" where
  "load_run st read f a it = (case a of (data, off, s) \<Rightarrow> load_loop f st read data off s it)"

definition load_pre :: "store \<Rightarrow> ('s \<Rightarrow> byte list) \<Rightarrow> ('s \<Rightarrow> bool) \<Rightarrow> cell list \<Rightarrow> memory \<times> nat \<times> 's \<Rightarrow> bool" where
  "load_pre st pend ok cs a \<longleftrightarrow> (case a of (data, off, s) \<Rightarrow> ok s \<and> native_store st \<and> natives st cs \<and>
     (\<exists>mem bs0 src bs rest. located data off mem \<and> holds st cs mem bs0 \<and> fresh mem \<and>
        holds st cs src bs \<and> pend s = bs @ rest))"

definition load_post :: "store \<Rightarrow> ('s \<Rightarrow> byte list) \<Rightarrow> ('s \<Rightarrow> bool) \<Rightarrow> cell list \<Rightarrow> memory \<times> nat \<times> 's
    \<Rightarrow> error + (memory \<times> nat \<times> 's) \<Rightarrow> bool" where
  "load_post st pend ok cs a r \<longleftrightarrow> (case a of (data, off, s) \<Rightarrow> \<exists>mem mem' bs s'. located data off mem \<and>
     length mem' = length mem \<and> holds st cs mem' bs \<and> pend s = bs @ pend s' \<and> ok s' \<and>
     r = Inr (splice data off mem', off + length mem, s'))"

lemma load_postI:
  assumes "located data off mem" and "length mem' = length mem" and "holds st cs mem' bs"
    and "pend s = bs @ pend s'" and "ok s'"
  shows "load_post st pend ok cs (data, off, s) (Inr (splice data off mem', off + length mem, s'))"
  unfolding load_post_def using assms by auto

lemma load_run_eq:
  "load_run st read (Suc f) (data, off, s) [] = Inr ((data, off, s), [])"
  "load_run st read (Suc f) (data, off, s) (FLAG_END # k) = Inr ((data, off, s), FLAG_END # k)"
  "load_run st read (Suc f) (data, off, s) (FLAG_MEMCPY # n # k) =
     bind_result (read s n) (\<lambda>(bs, s'). bind_result (write_bytes data off bs) (\<lambda>data'. load_run st read f (data', off + n, s') k))"
  "load_run st read (Suc f) (data, off, s) (FLAG_SKIP # n # k) = load_run st read f (data, off + n, s) k"
  by (simp_all add: load_run_def load_loop.simps(2) loop_steps)

lemma load_run_array:
  assumes "repeats (\<lambda>a. load_run st read f a (encode b @ FLAG_END # k)) (FLAG_END # k) d a r"
  shows "load_run st read (Suc f) a (FLAG_ARRAY # d # encode b @ FLAG_END # k) = bind_result r (\<lambda>a'. load_run st read f a' k)"
proof -
  obtain data off s where a: "a = (data, off, s)" by (cases a)
  have g: "(\<lambda>a. load_run st read f a (encode b @ FLAG_END # k)) =
      (\<lambda>(d, off, s'). load_loop f st read d off s' (encode b @ FLAG_END # k))"
    by (auto simp: load_run_def)
  show ?thesis
  proof (cases "d = 0")
    case True
    then have "r = Inr a" using assms by (auto elim: repeats.cases)
    then show ?thesis using True by (simp add: a load_run_def load_loop.simps(2) loop_steps at_array_end_def skip_block)
  next
    case False
    then show ?thesis using repeat_block_repeats[OF assms] unfolding g
      by (simp add: a load_run_def load_loop.simps(2) loop_steps at_array_end_def bind_result_assoc split_beta)
  qed
qed

lemma fold_result_map: "fold_result f s (map g xs) = fold_result (\<lambda>s x. f s (g x)) s xs"
  by (induction xs arbitrary: s) simp_all

context input_stream begin

text \<open>The elements of a vector.\<close>

lemma load_elements:
  assumes store: "native_store st" and nat: "natives st (flat b)"
    and chunks: "\<forall>e \<in> set es0. length e = k" and len: "length es0 = length ebs" and pos: "ebs \<noteq> []"
    and fresh: "\<forall>e \<in> set es0. fresh e \<and> (\<exists>bs. holds st (flat b) e bs)"
    and src: "list_all2 (holds st (flat b)) es ebs" and s: "stream_ok s" "pending s = concat ebs @ rest"
    and works: "\<And>a. load_pre st pending stream_ok (flat b) a \<Longrightarrow> \<exists>r. load_post st pending stream_ok (flat b) a r \<and>
         load_run st read f a (encode b @ FLAG_END # j) = bind_result r (\<lambda>a'. Inr (a', FLAG_END # j))"
  shows "\<exists>es' s'. fold_result (\<lambda>(storage', s', _) i.
            bind_result (load_loop f st read storage' (i * k) s' (encode b @ FLAG_END # j))
              (\<lambda>((storage'', _, s''), it_end). Inr (storage'', s'', it_end)))
            (concat es0, s, encode b @ FLAG_END # j) [0..<length ebs] = Inr (concat es', s', FLAG_END # j) \<and>
    (\<forall>e \<in> set es'. length e = k) \<and> list_all2 (holds st (flat b)) es' ebs \<and> stream_ok s' \<and> pending s' = rest"
proof -
  let ?it = "encode b @ FLAG_END # j"
  let ?F = "\<lambda>(storage', s', _) p. bind_result (load_loop f st read storage' p s' ?it)
      (\<lambda>((storage'', _, s''), it_end). Inr (storage'', s'', it_end))"
  let ?P = "\<lambda>i (s, it). stream_ok s \<and> pending s = concat (drop i ebs) @ rest \<and> (0 < i \<longrightarrow> it = FLAG_END # j)"
  let ?Q = "\<lambda>i e. holds st (flat b) e (ebs ! i)"
  have "\<exists>es' x. fold_result ?F (concat es0, (s, ?it)) (map (\<lambda>i. i * k) [0..<length ebs]) = Inr (concat es', x) \<and>
      length es' = length es0 \<and> (\<forall>e \<in> set es'. length e = k) \<and> ?P (length ebs) x \<and>
      (\<forall>i. 0 \<le> i \<and> i < length ebs \<longrightarrow> ?Q i (es' ! i)) \<and> (\<forall>i. i < 0 \<or> length ebs \<le> i \<longrightarrow> es' ! i = es0 ! i)"
  proof (rule fold_elements)
    fix i x storage assume i: "i < length ebs" and P: "?P i x" and loc: "located storage (i * k) (es0 ! i)"
    obtain s' it where x: "x = (s', it)" by (cases x)
    have e0: "fresh (es0 ! i)" "length (es0 ! i) = k" using fresh chunks i len by simp_all
    have "es0 ! i \<in> set es0" using i len by simp
    then obtain bs0 where bs0: "holds st (flat b) (es0 ! i) bs0" using fresh by blast
    have h: "holds st (flat b) (es ! i) (ebs ! i)" using src i by (simp add: list_all2_conv_all_nth)
    have pend: "pending s' = ebs ! i @ concat (drop (Suc i) ebs) @ rest" using P i by (simp add: x Cons_nth_drop_Suc[symmetric])
    have "load_pre st pending stream_ok (flat b) (storage, i * k, s')"
      using P x e0(1) bs0 h pend loc store nat unfolding load_pre_def by auto
    from works[OF this] obtain mem mem' bs s'' where w: "located storage (i * k) mem" "length mem' = length mem"
      "holds st (flat b) mem' bs" "pending s' = bs @ pending s''" "stream_ok s''"
      "load_loop f st read storage (i * k) s' ?it = Inr ((splice storage (i * k) mem', i * k + length mem, s''), FLAG_END # j)"
      unfolding load_post_def load_run_def by auto
    have "bs = ebs ! i \<and> pending s'' = concat (drop (Suc i) ebs) @ rest"
      by (rule holds_prefix_unique[OF w(3) h]) (use w(4) pend in simp)
    moreover have "length mem' = k" using holds_length[OF w(3)] holds_length[OF bs0] e0(2) by simp
    ultimately show "\<exists>e' s'. ?F (storage, x) (i * k) = Inr (splice storage (i * k) e', s') \<and> length e' = k \<and>
        ?Q i e' \<and> ?P (Suc i) s'"
      using w(3,5,6) by (intro exI[of _ mem'] exI[of _ "(s'', FLAG_END # j)"]) (simp add: x)
  qed (use len chunks s in auto)
  then obtain es' s' it where r: "fold_result ?F (concat es0, (s, ?it)) (map (\<lambda>i. i * k) [0..<length ebs]) =
      Inr (concat es', (s', it))" "length es' = length ebs" "\<forall>e \<in> set es'. length e = k" "stream_ok s'"
      "pending s' = rest" "it = FLAG_END # j" "\<forall>i < length ebs. ?Q i (es' ! i)"
    using len pos by auto
  then show ?thesis unfolding fold_result_map
    by (intro exI[of _ es'] exI[of _ s']) (simp add: list_all2_conv_all_nth split_def)
qed

text \<open>One container.\<close>

lemma load_vector_object:
  assumes store: "native_store st" "t \<in> dom (objects st)" and kind: "ty_kind (type_at st t) = Container c VectorFactory on"
    and on: "on \<in> dom (objects st)" "raw_layout_of st on False False = Inr raw"
    and nat: "natives st (flat b)" "cells_le True (type_cells st on) (flat b)" and ok: "block_ok st (ContainerOp t b)"
    and loc: "located data off (VectorObj cap [] # replicate 23 Inside)"
    and src: "\<forall>e \<in> set es. length e = ty_size (type_at st on)" "length (concat es) < 2 ^ 63"
      "list_all2 (holds st (flat b)) es ebs" "es \<noteq> []"
    and s: "stream_ok s" "pending s = concat ebs @ rest"
    and works: "\<And>a. load_pre st pending stream_ok (flat b) a \<Longrightarrow> \<exists>r. load_post st pending stream_ok (flat b) a r \<and>
         load_run st read f a (encode b @ FLAG_END # j) = bind_result r (\<lambda>a'. Inr (a', FLAG_END # j))"
  shows "\<exists>cap' es' s'. Vector_load st read (load_loop f st read) on data off (length es) s (encode b @ FLAG_END # j) =
      Inr ((splice data off (VectorObj cap' (concat es') # replicate 23 Inside), s'), FLAG_END # j) \<and>
    (\<forall>e \<in> set es'. length e = ty_size (type_at st on)) \<and> list_all2 (holds st (flat b)) es' ebs \<and>
    stream_ok s' \<and> pending s' = rest"
proof -
  let ?k = "ty_size (type_at st on)" and ?n = "length es"
  have n: "length ebs = ?n" "length (concat es) = ?n * ?k"
    using list_all2_lengthD[OF src(3)] length_chunks[OF src(1)] by simp_all
  obtain cap' es0 where r: "Vector_resize (cdestroy_of st) (ccopy_of st) st on (cap, []) ?n = Inr (cap', concat es0)"
    "length es0 = ?n" "\<forall>e \<in> set es0. length e = ?k \<and> fresh e \<and> (\<exists>bs. holds st (type_cells st on) e bs)"
    using resize_empty[OF store kind on] src(2) n(2) by metis
  have es0: "\<forall>e \<in> set es0. fresh e \<and> (\<exists>bs. holds st (flat b) e bs)" using r(3) holds_le nat(2) by blast
  note obj = get_vector_located[OF loc] and put = put_object_splice[OF loc]
  show ?thesis
  proof (cases "isElementMemcpy st on")
    case True
    then have b: "b = [Memcpy ?k]" using ok kind by (simp add: block_ok_def)
    have ebs: "length (concat ebs) = ?k * ?n" using elements_Data[of st ?k es ebs] src(3) by (simp add: b)
    have small: "?k * ?n < 2 ^ 63" using src(2) n(2) by (simp add: mult.commute)
    obtain s' where s': "read s (?k * ?n) = Inr (concat ebs, s')" "pending s' = rest" "stream_ok s'"
      using read_enough[OF s(1), of "?k * ?n"] s(2) ebs by auto
    have "list_all is_raw (concat es0)"
    proof -
      have "list_all is_raw e" if "e \<in> set es0" for e using es0 that by (auto simp: b holds_Data_run)
      then show ?thesis by (auto simp: list_all_iff)
    qed
    moreover have len: "length (concat es0) = length (concat ebs)"
      using length_chunks[of es0 ?k] r(2,3) ebs by simp
    ultimately have "write_bytes (concat es0) 0 (concat ebs) = Inr (splice (concat es0) 0 (map Byte (concat ebs)))"
      by (intro write_located[OF located_self]) simp_all
    moreover have "splice (concat es0) 0 (map Byte (concat ebs)) = concat (map (map Byte) ebs)"
      using len by (simp add: splice_def flip: map_concat)
    moreover have "list_all2 (holds st (flat b)) (map (map Byte) ebs) ebs" "\<forall>e \<in> set (map (map Byte) ebs). length e = ?k"
      using src(3) by (auto simp: b list_all2_conv_all_nth holds_Data_run in_set_conv_nth)
    ultimately show ?thesis using True obj r(1) put s' mul_size_t_small[OF small]
      by (intro exI[of _ cap'] exI[of _ "map (map Byte) ebs"] exI[of _ s'])
        (simp add: Vector_load_def with_operand_def b)
  next
    case False
    have "\<forall>e \<in> set es0. length e = ?k" "ebs \<noteq> []" using r(3) src(4) n(1) by auto
    from load_elements[OF store(1) nat(1) this(1) _ this(2) es0 src(3) s works] r(2) n(1)
    obtain es' s' where "fold_result (\<lambda>(storage', s', _) i.
            bind_result (load_loop f st read storage' (i * ?k) s' (encode b @ FLAG_END # j))
              (\<lambda>((storage'', _, s''), it_end). Inr (storage'', s'', it_end)))
            (concat es0, s, encode b @ FLAG_END # j) [0..<?n] = Inr (concat es', s', FLAG_END # j)"
      "\<forall>e \<in> set es'. length e = ?k" "list_all2 (holds st (flat b)) es' ebs" "stream_ok s'" "pending s' = rest" by auto
    then show ?thesis using False obj r(1) put
      by (intro exI[of _ cap'] exI[of _ es'] exI[of _ s']) (simp add: Vector_load_def)
  qed
qed

lemma load_container:
  assumes ok: "block_ok st (ContainerOp t b)" and store: "native_store st" and nat: "native st (Cont t (flat b))"
    and loc: "located data off (obj # replicate (ty_size (type_at st t) - 1) Inside)" and obj: "empty_cell obj"
      "holds_object st t (flat b) obj bs0"
    and src: "holds_object st t (flat b) obj' bs" and s: "stream_ok s" "pending s = bs @ rest"
    and works: "\<And>a. load_pre st pending stream_ok (flat b) a \<Longrightarrow> \<exists>r. load_post st pending stream_ok (flat b) a r \<and>
         load_run st read f a (encode b @ FLAG_END # j) = bind_result r (\<lambda>a'. Inr (a', FLAG_END # j))"
  shows "\<exists>obj'' s'. load_run st read (Suc f) (data, off, s) (FLAG_CONTAINER # t # encode b @ FLAG_END # j) =
      load_run st read f (splice data off (obj'' # replicate (ty_size (type_at st t) - 1) Inside),
        off + ty_size (type_at st t), s') j \<and>
    holds_object st t (flat b) obj'' bs \<and> stream_ok s' \<and> pending s' = rest"
proof -
  note step = load_run_def load_loop.simps(2) loop_steps container_case_def
  obtain c fac on raw where t: "t \<in> dom (objects st)" "ty_kind (type_at st t) = Container c fac on"
    "on \<in> dom (objects st)" "raw_layout_of st on False False = Inr raw" "cells_le True (type_cells st on) (flat b)"
    "natives st (flat b)" using nat unfolding native.simps by blast
  let ?m = "replicate (ty_size (type_at st t) - 1) Inside"
  have read8: "\<exists>s1. read s 8 = Inr (bytes_of 8 n, s1) \<and> pending s1 = xs @ rest \<and> stream_ok s1"
    if "bs = bytes_of 8 n @ xs" for n xs using read_enough[OF s(1), of 8] s(2) that by auto
  show ?thesis
  proof (cases fac)
    case VectorFactory
    note kind = t(2)[unfolded VectorFactory]
    from obj(2) kind obtain cap es0 where "obj = VectorObj cap (concat es0)" by (rule holds_object_Vector)
    then have o: "obj = VectorObj cap []" using obj(1) by simp
    from src kind obtain es ebs where e: "bs = bytes_of 8 (length es) @ concat ebs" "ty_size (type_at st t) = 24"
      "0 < ty_size (type_at st on)" "\<forall>e \<in> set es. length e = ty_size (type_at st on)" "length (concat es) < 2 ^ 63"
      "list_all2 (holds st (flat b)) es ebs" by (rule holds_object_Vector)
    obtain s1 where s1: "read s 8 = Inr (bytes_of 8 (length es), s1)" "pending s1 = concat ebs @ rest" "stream_ok s1"
      using read8 e(1) by blast
    have count: "nat_of_bytes (bytes_of 8 (length es)) = length es"
      using length_elements(2)[OF e(4,3,5)] by (intro nat_of_bytes_of_8) simp
    show ?thesis
    proof (cases "es = []")
      case True
      then have "ebs = []" using e(6) by simp
      moreover have "holds_object st t (flat b) obj bs"
        using holds_vector[OF kind e(2,3), of "[]" "flat b" "[]" cap] True e(1) o \<open>ebs = []\<close> by simp
      ultimately show ?thesis using s1 True count splice_same[OF loc]
        by (intro exI[of _ obj] exI[of _ s1]) (simp add: step skip_block Let_def)
    next
      case False
      have "located data off (VectorObj cap [] # replicate 23 Inside)" using loc o e(2) by simp
      from load_vector_object[OF store t(1) kind t(3,4,6,5) ok this e(4,5,6) False s1(3,2) works]
      obtain cap' es' s' where r:
        "Vector_load st read (load_loop f st read) on data off (length es) s1 (encode b @ FLAG_END # j) =
          Inr ((splice data off (VectorObj cap' (concat es') # replicate 23 Inside), s'), FLAG_END # j)"
        "\<forall>e \<in> set es'. length e = ty_size (type_at st on)" "list_all2 (holds st (flat b)) es' ebs"
        "stream_ok s'" "pending s' = rest" by blast
      have "length es' = length es" using list_all2_lengthD r(3) e(6) by metis
      then have "holds_object st t (flat b) (VectorObj cap' (concat es')) bs"
        using holds_vector[OF kind e(2,3) r(2) _ r(3), of cap'] length_chunks[OF r(2)] length_chunks[OF e(4)] e(1,5) by simp
      then show ?thesis using r s1(1) count False kind e(2)
        by (intro exI[of _ "VectorObj cap' (concat es')"] exI[of _ s']) (simp add: step Let_def)
    qed
  next
    case StringFactory
    note kind = t(2)[unfolded StringFactory]
    from obj(2) kind obtain str0 where "obj = StringObj str0" by (rule holds_object_String)
    then have o: "obj = StringObj []" using obj(1) by simp
    from src kind obtain str where e: "bs = bytes_of 8 (length str) @ str" "length str < 2 ^ 63"
      "ty_size (type_at st t) = 32" "ty_size (type_at st on) = 1" by (rule holds_object_String)
    obtain s1 where s1: "read s 8 = Inr (bytes_of 8 (length str), s1)" "pending s1 = str @ rest" "stream_ok s1"
      using read8 e(1) by blast
    have count: "nat_of_bytes (bytes_of 8 (length str)) = length str" using e(2) by (intro nat_of_bytes_of_8) simp
    have b: "b = [Memcpy 1]" using ok kind by (simp add: block_ok_def)
    have ho: "holds_object st t (flat b) (StringObj str) bs" using holds_string[OF kind e(3,4,2)] e(1) by simp
    show ?thesis
    proof (cases "str = []")
      case True
      then show ?thesis using s1 count splice_same[OF loc] ho o
        by (intro exI[of _ obj] exI[of _ s1]) (simp add: step skip_block Let_def)
    next
      case False
      obtain s' where s': "read s1 (length str) = Inr (str, s')" "pending s' = rest" "stream_ok s'"
        using read_enough[OF s1(3), of "length str"] s1(2) by auto
      then have "String_load read data off (length str) s1 (encode b @ FLAG_END # j) =
          Inr ((splice data off (StringObj str # ?m), s'), FLAG_END # j)"
        using get_string_located[OF loc[unfolded o]] put_object_splice[OF loc] e(2) by (simp add: String_load_def b)
      then show ?thesis using s1 s' count False kind ho
        by (intro exI[of _ "StringObj str"] exI[of _ s']) (simp add: step Let_def)
    qed
  qed
qed

end

sublocale input_stream \<subseteq> loader: bytecode_interpreter "load_run st read" "load_pre st pending stream_ok"
  "load_post st pending stream_ok" "block_ok st" for st
proof
  fix f it and a :: "memory \<times> nat \<times> 's" assume "it = [] \<or> hd it = FLAG_END"
  then show "load_run st read (Suc f) a it = Inr (a, it)" by (cases a; cases it) (auto simp: load_run_eq)
next
  fix a :: "memory \<times> nat \<times> 's" assume "load_pre st pending stream_ok [] a"
  then show "load_post st pending stream_ok [] a (Inr a)"
    using located_unique by (auto simp: load_pre_def load_post_def splice_same)
next
  fix xs ys and a :: "memory \<times> nat \<times> 's" assume "load_pre st pending stream_ok (xs @ ys) a"
  then show "load_pre st pending stream_ok xs a"
    by (fastforce simp: load_pre_def located_append dest!: holds_appendD)
next
  fix xs ys and a a' :: "memory \<times> nat \<times> 's"
  assume pre: "load_pre st pending stream_ok (xs @ ys) a" and post: "load_post st pending stream_ok xs a (Inr a')"
  obtain data off s where a: "a = (data, off, s)" by (cases a)
  obtain m1 m2 c1 c2 n1 n2 b1 b2 rest where m: "native_store st" "natives st ys" "located data off m1"
    "located data (off + length m1) m2" "holds st xs m1 c1" "holds st ys m2 c2" "fresh m2"
    "holds st xs n1 b1" "holds st ys n2 b2" "pending s = b1 @ b2 @ rest"
    using pre unfolding a load_pre_def by (auto simp: located_append dest!: holds_appendD)
  obtain mem mem' bs s' where p: "length mem' = length mem" "holds st xs mem' bs" "pending s = bs @ pending s'"
    "stream_ok s'" "a' = (splice data off mem', off + length mem, s')" "located data off mem"
    using post unfolding a load_post_def by auto
  have len: "length mem = length m1" using holds_length[OF p(2)] holds_length[OF m(5)] p(1) by simp
  have "pending s' = b2 @ rest"
    using holds_prefix_unique[OF p(2) m(8), of "pending s'" "b2 @ rest"] p(3) m(10) by simp
  moreover have "located (splice data off mem') (off + length mem) m2"
    using splice_keeps[of data "off + length mem" m2 off mem'] m(4) len p(1,6) by (simp add: located_slice)
  ultimately show "load_pre st pending stream_ok ys a'" using m p unfolding load_pre_def by auto
next
  fix xs ys r and a a' :: "memory \<times> nat \<times> 's"
  assume pre: "load_pre st pending stream_ok (xs @ ys) a"
    and post: "load_post st pending stream_ok xs a (Inr a')" "load_post st pending stream_ok ys a' r"
  obtain data off s where a: "a = (data, off, s)" by (cases a)
  obtain m1 m1' b1 s1 where p: "located data off m1" "length m1' = length m1" "holds st xs m1' b1"
    "pending s = b1 @ pending s1" "a' = (splice data off m1', off + length m1, s1)"
    using post(1) unfolding a load_post_def by auto
  obtain m2 m2' b2 s2 where q: "located (splice data off m1') (off + length m1) m2" "length m2' = length m2"
    "holds st ys m2' b2" "pending s1 = b2 @ pending s2" "stream_ok s2"
    "r = Inr (splice (splice data off m1') (off + length m1) m2', off + length m1 + length m2, s2)"
    using post(2) unfolding p(5) load_post_def by auto
  have size: "length (splice data off m1') = length data" by (rule located_splice(2)[OF p(1,2)])
  obtain n1 n2 c1 c2 where n: "located data off n1" "located data (off + length n1) n2" "holds st xs n1 c1" "holds st ys n2 c2"
    using pre unfolding a load_pre_def by (auto simp: located_append dest!: holds_appendD)
  have "length n1 = length m1" "length n2 = length m2"
    using holds_length n(3,4) p(2,3) q(2,3) by metis+
  then have loc: "located data off (m1 @ n2)"
    using n(1,2) p(1) by (simp add: located_append)
  have "splice (splice data off m1') (off + length m1) m2' = splice data off (m1' @ m2')"
    using splice_splice_append[of off m1' m2' data] p(2) q(2) loc \<open>length n2 = length m2\<close> by (simp add: located_slice)
  then show "load_post st pending stream_ok (xs @ ys) a r"
    using load_postI[where ok = stream_ok and pend = pending, OF loc _ holds_appendI[OF p(3) q(3)], of s s2] p(2,4) q(2,4,5,6)
      \<open>length n2 = length m2\<close> by (simp add: a add.assoc)
next
  fix xs ys e and a :: "memory \<times> nat \<times> 's"
  assume "load_post st pending stream_ok xs a (Inl e)"
  then show "load_post st pending stream_ok (xs @ ys) a (Inl e)" by (auto simp: load_post_def)
next
  fix n and a :: "memory \<times> nat \<times> 's" assume pre: "load_pre st pending stream_ok (replicate n Data) a"
  obtain data off s where a: "a = (data, off, s)" by (cases a)
  obtain bs0 bs rest where m: "stream_ok s" "located data off (map Byte bs0)" "length bs0 = n" "length bs = n"
    "pending s = bs @ rest" using pre unfolding a load_pre_def by (auto simp: holds_Data_run)
  obtain s' where s': "read s n = Inr (bs, s')" "pending s' = rest" "stream_ok s'"
    using read_enough[OF m(1), of n] m(4,5) by auto
  have "write_bytes data off bs = Inr (splice data off (map Byte bs))"
    using m by (intro write_located[OF m(2)]) simp_all
  then show "\<exists>r. load_post st pending stream_ok (replicate n Data) a r \<and>
      (\<forall>f k. load_run st read (Suc f) a (FLAG_MEMCPY # n # k) = bind_result r (\<lambda>a'. load_run st read f a' k))"
    using load_postI[where ok = stream_ok and pend = pending, OF m(2), of "map Byte bs" st "replicate n Data" bs s s'] m s'
    by (intro exI[of _ "Inr (splice data off (map Byte bs), off + n, s')"]) (simp add: a load_run_eq holds_Data_run)
next
  fix n and a :: "memory \<times> nat \<times> 's" assume pre: "load_pre st pending stream_ok (replicate n Pad) a"
  obtain data off s where a: "a = (data, off, s)" by (cases a)
  obtain mem where m: "stream_ok s" "located data off mem" "holds st (replicate n Pad) mem []" "length mem = n"
    using pre unfolding a load_pre_def by (auto simp: holds_Pad_run)
  show "\<exists>r. load_post st pending stream_ok (replicate n Pad) a r \<and>
      (\<forall>f k. load_run st read (Suc f) a (FLAG_SKIP # n # k) = bind_result r (\<lambda>a'. load_run st read f a' k))"
    using load_postI[where ok = stream_ok and pend = pending, OF m(2) _ m(3), of s s] m(1,4) splice_same[OF m(2)]
    by (intro exI[of _ "Inr (data, off + n, s)"]) (simp add: a load_run_eq)
next
  fix d b f k r and a :: "memory \<times> nat \<times> 's"
  assume "repeats (\<lambda>a. load_run st read f a (encode b @ FLAG_END # k)) (FLAG_END # k) d a r"
  then show "load_run st read (Suc f) a (FLAG_ARRAY # d # encode b @ FLAG_END # k) =
      bind_result r (\<lambda>a'. load_run st read f a' k)" by (rule load_run_array)
next
  fix t b f k and a :: "memory \<times> nat \<times> 's"
  assume ok: "block_ok st (ContainerOp t b)" and pre: "load_pre st pending stream_ok [Cont t (flat b)] a"
    and works: "\<And>a. load_pre st pending stream_ok (flat b) a \<Longrightarrow> \<exists>r. load_post st pending stream_ok (flat b) a r \<and>
         load_run st read f a (encode b @ FLAG_END # k) = bind_result r (\<lambda>a'. Inr (a', FLAG_END # k))"
  obtain data off s where a: "a = (data, off, s)" by (cases a)
  let ?m = "\<lambda>obj. obj # replicate (ty_size (type_at st t) - 1) Inside"
  obtain obj bs0 obj' bs rest where o: "native_store st" "native st (Cont t (flat b))" "located data off (?m obj)"
    "empty_cell obj" "holds_object st t (flat b) obj bs0" "holds_object st t (flat b) obj' bs" "stream_ok s"
    "pending s = bs @ rest"
    using pre unfolding a load_pre_def by (auto simp: holds_Cont_iff simp del: native.simps)
  from load_container[OF ok o works] obtain obj'' s' where
    r: "load_run st read (Suc f) (data, off, s) (FLAG_CONTAINER # t # encode b @ FLAG_END # k) =
      load_run st read f (splice data off (?m obj''), off + ty_size (type_at st t), s') k"
    "holds_object st t (flat b) obj'' bs" "stream_ok s'" "pending s' = rest" by blast
  have "holds st [Cont t (flat b)] (?m obj'') bs" using holds_Cont[OF r(2) holds_Nil] by simp
  from load_postI[where ok = stream_ok and pend = pending, OF o(3) _ this, of s s']
  show "\<exists>r. load_post st pending stream_ok [Cont t (flat b)] a r \<and>
      load_run st read (Suc f) a (FLAG_CONTAINER # t # encode b @ FLAG_END # k) =
        bind_result r (\<lambda>a'. load_run st read f a' k)"
    using r o(8) holds_object_size[OF r(2)]
    by (intro exI[of _ "Inr (splice data off (?m obj''), off + ty_size (type_at st t), s')"]) (simp add: a)
qed

context input_stream begin

text \<open>A load of the serialized form of a value into memory with empty containers.\<close>

lemma load_loop_correct:
  assumes "native_store st" and "natives st (flat ts)" and "list_all (every_op (block_ok st)) ts"
    and "holds st (flat ts) mem bs0" and "fresh mem" and "holds st (flat ts) src bs"
    and "stream_ok s" and "pending s = bs @ rest" and "length (encode ts) < fuel"
  shows "\<exists>mem' s'. load_loop fuel st read (mem @ q) 0 s (encode ts) = Inr ((mem' @ q, length mem, s'), []) \<and>
    length mem' = length mem \<and> holds st (flat ts) mem' bs \<and> pending s' = rest \<and> stream_ok s'"
proof -
  have "load_pre st pending stream_ok (flat ts) (mem @ q, 0, s)"
    using assms located_prefix[of mem q] by (auto simp: load_pre_def)
  from loader.run_encode[OF assms(3) this, of "[]" fuel] obtain m mem' bs' s' where
    r: "located (mem @ q) 0 m" "length mem' = length m" "holds st (flat ts) mem' bs'" "pending s = bs' @ pending s'"
    "stream_ok s'" "load_loop fuel st read (mem @ q) 0 s (encode ts) = Inr ((splice (mem @ q) 0 mem', length m, s'), [])"
    using assms(9) by (auto simp: load_post_def load_run_def)
  have "length m = length mem" using holds_length[OF r(3)] holds_length[OF assms(4)] r(2) by simp
  moreover have "bs' = bs \<and> pending s' = rest"
    by (rule holds_prefix_unique[OF r(3) assms(6)]) (use r(4) assms(8) in simp)
  ultimately show ?thesis using r by (intro exI[of _ mem'] exI[of _ s']) (simp add: splice_def)
qed

end

end
