(* ===== verification/Roundtrip.thy ===== *)
theory Roundtrip
  imports LoadCorrect
begin

text \<open>
  Marshalling at the level of types: the entry points of \<open>typelib/value_ops.cc\<close> applied to
  values of a type. The composition of layouts, containers, streams and the two
  interpreters.
\<close>

text \<open>\<open>mem\<close> is a value of type \<open>t\<close>, and \<open>v\<close> its content without padding.\<close>

definition is_value :: "store \<Rightarrow> tid \<Rightarrow> memory \<Rightarrow> byte list \<Rightarrow> bool" where
  "is_value st t mem v \<longleftrightarrow> holds st (type_cells st t) mem v"

text \<open>What a layout says about a value: the layout stops before the trailing padding.\<close>

lemma layout_value:
  assumes "native_store st" and "t \<in> dom (objects st)" and "raw_layout_of st t False False = Inr raw"
  obtains ts us B k where "layout_of st t False False True True = Inr \<lparr>ops = encode ts, init_ops = encode_init us\<rparr>"
    and "Vector_getElementLayout st t = \<lparr>ops = encode ts, init_ops = encode_init us\<rparr>"
    and "type_cells st t = B @ replicate k Pad" and "cells_le True B (flat ts)" and "natives st (flat ts)"
    and "list_all (every_op (block_ok st)) ts" and "list_all (every_op array_ok) ts" and "depth_le (nesting st) (flat ts)"
proof -
  obtain ts us k where l: "Vector_getElementLayout st t = \<lparr>ops = encode ts, init_ops = encode_init us\<rparr>"
    "layout_of st t False False True True = Inr \<lparr>ops = encode ts, init_ops = encode_init us\<rparr>"
    "trimmed True (type_cells st t) (flat ts)" "list_all (tidy_op True True) ts"
    using element_layout[OF assms] by metis
  have nat: "natives st (flat ts)"
    by (rule trimmed_natives[OF l(3) type_cells_natives[OF native_storeD(1)[OF assms(1,2)] assms(2,3)]])
  have depth: "depth_le (nesting st) (flat ts)"
    using trimmed_depth[OF l(3) type_cells_depth] by (simp add: nesting_def)
  obtain B k where B: "type_cells st t = B @ replicate k Pad" "cells_le True B (flat ts)" using l(3) by (rule trimmedE)
  show thesis
    by (rule that[OF l(2,1) B nat tidy_block_ok[OF assms(1) l(4) nat] tidy_array_ok[OF l(4)] depth])
qed

text \<open>The part of a value that a layout covers, and the value back from that part.\<close>

lemma value_covered:
  assumes "is_value st t mem v" and "type_cells st t = B @ replicate k Pad" and "cells_le True B cs"
  obtains m p bs where "mem = m @ p" and "holds st B m v" and "holds st cs m bs" and "length p = k" and "list_all is_Byte p"
    and "\<And>m'. holds st cs m' bs \<Longrightarrow> holds st B m' v"
    and "\<And>m' v'. holds st B m' v' \<Longrightarrow> is_value st t (m' @ p) v'"
proof -
  obtain m p v1 v2 where m: "mem = m @ p" "v = v1 @ v2" "holds st B m v1" "holds st (replicate k Pad) p v2"
    using assms(1,2) holds_appendD unfolding is_value_def by metis
  have p: "v2 = []" "length p = k" "list_all is_Byte p" using m(4) by (simp_all add: holds_Pad_run)
  have v: "holds st B m v" using m(2,3) p(1) by simp
  obtain bs where bs: "holds st cs m bs" using holds_le[OF m(3) assms(3)] by blast
  obtain v' where v': "holds st B m v'" "\<And>m'. holds st cs m' bs \<Longrightarrow> holds st B m' v'"
    using holds_refine[OF bs assms(3)] by blast
  have "v' = v" using holds_det v'(1) v by blast
  moreover have "is_value st t (m' @ p) v'" if "holds st B m' v'" for m' v'
    using holds_appendI[OF that m(4)] p(1) assms(2) by (simp add: is_value_def)
  ultimately show thesis using that[OF m(1) v bs p(2,3)] v'(2) by blast
qed

lemma value_length:
  assumes "native_store st" and "t \<in> dom (objects st)" and "raw_layout_of st t False False = Inr raw" and "is_value st t mem v"
  shows "length mem = ty_size (type_at st t)"
  using holds_length assms(4) raw_laid_out(2)[of st False, OF native_storeD(1)[OF assms(1,2)] _ assms(2,3)]
  unfolding is_value_def by metis

lemma init_value_fresh:
  assumes "native_store st" and "t \<in> dom (objects st)" and "raw_layout_of st t False False = Inr raw"
    and "list_all is_Byte buffer" and "length buffer = ty_size (type_at st t)"
  shows "\<exists>mem v. init_value st buffer 0 t = Inr mem \<and> is_value st t mem v \<and> fresh mem"
proof -
  obtain ts us where l: "layout_of st t False False True True = Inr \<lparr>ops = encode ts, init_ops = encode_init us\<rparr>"
    "Vector_getElementLayout st t = \<lparr>ops = encode ts, init_ops = encode_init us\<rparr>" using layout_value[OF assms(1-3)] by metis
  obtain mem v where "init_layout st buffer 0 (Vector_getElementLayout st t) = Inr (splice buffer 0 mem)"
    "holds st (type_cells st t) mem v" "fresh mem" "length mem = length buffer"
    using init_element[OF assms(1-3) located_self assms(4,5)] by blast
  then show ?thesis by (auto simp: init_value_def l is_value_def splice_def)
qed

text \<open>What \<open>load\<close> reads back into a fresh value.\<close>

lemma load_value_dumped:
  assumes "native_store st" and "t \<in> dom (objects st)" and "raw_layout_of st t False False = Inr raw"
    and "is_value st t src v" and "is_value st t dst w" and "fresh dst"
    and "dump_value st src t = Inr bytes" and "length bytes < 2 ^ 63"
  shows "\<exists>dst'. load_value st dst t bytes = Inr dst' \<and> is_value st t dst' v"
proof -
  obtain ts us B k where l: "layout_of st t False False True True = Inr \<lparr>ops = encode ts, init_ops = encode_init us\<rparr>"
    "type_cells st t = B @ replicate k Pad" "cells_le True B (flat ts)" "natives st (flat ts)"
    "list_all (every_op (block_ok st)) ts"
    using layout_value[OF assms(1-3)] by metis
  obtain m p bs where m: "src = m @ p" "holds st (flat ts) m bs" "\<And>m'. holds st (flat ts) m' bs \<Longrightarrow> holds st B m' v"
    using value_covered[OF assms(4) l(2,3)] by metis
  obtain d q bs0 where d: "dst = d @ q" "holds st (flat ts) d bs0" "\<And>m' v'. holds st B m' v' \<Longrightarrow> is_value st t (m' @ q) v'"
    using value_covered[OF assms(5) l(2,3)] by metis
  have fd: "fresh d" using assms(6) d(1) by (simp add: fresh_def)
  have len: "length (encode ts) < Suc (length (encode ts))" by simp
  have "dump_value st src t = Inr bs"
    using vector_out.dump_loop_correct[where s = "[]" and q = p, OF l(5) m(2) _ len] m(1)
    by (simp add: dump_value_def l(1) dump_vector_def dump_stream_def VectorOutputStream_write_def)
  then have bs: "bytes = bs" using assms(7) by simp
  obtain d' s' where r: "load_loop (Suc (length (encode ts))) st VectorInputStream_read (d @ q) 0
      \<lparr>in_buffer = bytes, in_index = 0\<rparr> (encode ts) = Inr ((d' @ q, length d, s'), [])"
    "holds st (flat ts) d' bs" "buffer_pending s' = []" "VectorInputStream_ok bytes s'"
    using vector_in.load_loop_correct[where buffer = bytes and q = q and rest = "[]" and s = "\<lparr>in_buffer = bytes, in_index = 0\<rparr>",
        OF assms(1) l(4,5) d(2) fd m(2) _ _ len] assms(8) bs
    by (auto simp: VectorInputStream_ok_def buffer_pending_def)
  then have "in_index s' = length bytes" by (simp add: buffer_pending_def VectorInputStream_ok_def)
  then have "load_value st dst t bytes = Inr (d' @ q)"
    using r(1) d(1) by (simp add: load_value_def l(1) load_vector_def load_stream_def)
  then show ?thesis using d(3)[OF m(3)[OF r(2)]] by blast
qed

text \<open>The dump of a value, over each of the streams.\<close>

lemma dump_value_bytes:
  assumes "native_store st" and "t \<in> dom (objects st)" and "raw_layout_of st t False False = Inr raw" and "is_value st t mem v"
  obtains ts us bytes where "layout_of st t False False True True = Inr \<lparr>ops = encode ts, init_ops = encode_init us\<rparr>"
    and "dump_value st mem t = Inr bytes" and "getDumpSize_value st mem t = Inr (length bytes)"
    and "\<And>buffer. dump_loop (Suc (length (encode ts))) st ByteArrayOutputStream_write mem 0
        \<lparr>out_buffer = buffer, out_buffer_size = length buffer, out_current = 0\<rparr> (encode ts) =
      bind_result (ByteArrayOutputStream_write \<lparr>out_buffer = buffer, out_buffer_size = length buffer, out_current = 0\<rparr> bytes)
        (\<lambda>s. Inr ((cells_bytes st (flat ts), s), []))"
proof -
  obtain ts us B k where l: "layout_of st t False False True True = Inr \<lparr>ops = encode ts, init_ops = encode_init us\<rparr>"
    "type_cells st t = B @ replicate k Pad" "cells_le True B (flat ts)" "list_all (every_op (block_ok st)) ts"
    using layout_value[OF assms(1-3)] by metis
  obtain m p bs where m: "mem = m @ p" "holds st (flat ts) m bs" using value_covered[OF assms(4) l(2,3)] by metis
  have len: "length (encode ts) < Suc (length (encode ts))" "length m = cells_bytes st (flat ts)"
    using holds_length[OF m(2)] by simp_all
  show thesis
  proof (rule that[OF l(1), of bs])
    show "dump_value st mem t = Inr bs"
      using vector_out.dump_loop_correct[where s = "[]" and q = p, OF l(4) m(2) _ len(1)] m(1)
      by (simp add: dump_value_def l(1) dump_vector_def dump_stream_def VectorOutputStream_write_def)
    show "getDumpSize_value st mem t = Inr (length bs)"
      using counter_out.dump_loop_correct[where s = 0 and q = p, OF l(4) m(2) _ len(1)] m(1)
      by (simp add: getDumpSize_value_def l(1) getDumpSize_def ByteCounterStream_write_def)
    show "dump_loop (Suc (length (encode ts))) st ByteArrayOutputStream_write mem 0
        \<lparr>out_buffer = buffer, out_buffer_size = length buffer, out_current = 0\<rparr> (encode ts) =
      bind_result (ByteArrayOutputStream_write \<lparr>out_buffer = buffer, out_buffer_size = length buffer, out_current = 0\<rparr> bs)
        (\<lambda>s. Inr ((cells_bytes st (flat ts), s), []))" for buffer
      using array_out.dump_loop_correct[where s = "\<lparr>out_buffer = buffer, out_buffer_size = length buffer, out_current = 0\<rparr>"
          and q = p, OF l(4) m(2) _ len(1)]
        m(1) len(2) by (simp add: ByteArrayOutputStream_ok_def)
  qed
qed

section \<open>An example\<close>

text \<open>A vector of two integers.\<close>

definition int_vector :: memory where
  "int_vector = VectorObj 8 (map Byte [1, 0, 0, 0, 2, 1, 0, 0]) # replicate 23 Inside"

lemma layout_store_raw_all:
  assumes "t \<in> dom (objects layout_store)"
  shows "\<exists>l. raw_layout_of layout_store t False False = Inr l \<and> length (ops l) < 100 \<and> length (init_ops l) < 100"
proof -
  have "next_id layout_store = 17" by (simp add: layout_store_def)
  moreover have "t = 10 \<or> t = 11 \<or> t = 12 \<or> t = 13 \<or> t = 14 \<or> t = 15 \<or> t = 16"
    using assms by (auto simp: layout_store_def split: if_splits)
  ultimately show ?thesis
    by (elim disjE) (simp_all add: raw_layout_of_def layout_store_types visit_numeral visit_Array_def visit_Compound_def
        visit_Enum_def visit_Container_def visit_Numeric_def enum_init_data_def visit_field_def push_defs Let_def
        empty_layout_def upt_rec_numeral Type_ctor_def Numeric_ctor_def mk_field_def)
qed

lemma layout_store_native: "native_store layout_store"
proof -
  have "small_layout layout_store t" if "t \<in> dom (objects layout_store)" for t
    using layout_store_raw_all[OF that] by (auto simp: small_layout_def)
  moreover have "type_cells layout_store 11 = replicate 4 Data"
    using layout_store_types by (simp add: numeric_cells getCategory_def Numeric_ctor_def Type_ctor_def)
  then have "native_container layout_store t" if "t \<in> dom (objects layout_store)" for t
    using that by (auto simp: native_container_def layout_store_simps split: if_splits)
  moreover have "no_empty_arrays layout_store" by (simp add: no_empty_arrays_def layout_store_simps)
  ultimately show ?thesis using layout_store_well_laid by (simp add: native_store_def)
qed

lemma two_ints_value:
  assumes "length x = 4" and "length y = 4"
  shows "is_value layout_store 14 (VectorObj cap (map Byte (x @ y)) # replicate 23 Inside) (bytes_of 8 2 @ x @ y)"
proof -
  have kinds: "ty_kind (type_at layout_store 14) = Container ''/std/vector'' VectorFactory 11"
    "ty_size (type_at layout_store 14) = 24" "ty_size (type_at layout_store 11) = 4"
    using layout_store_types by (simp_all add: Type_ctor_def Numeric_ctor_def)
  have cells: "type_cells layout_store 14 = [Cont 14 (replicate 4 Data)]"
    by (simp add: type_cells_def layout_store_def type_at_def Type_ctor_def Numeric_ctor_def eval_nat_numeral)
  have "list_all2 (holds layout_store (replicate 4 Data)) [map Byte x, map Byte y] [x, y]"
    unfolding holds_Data_run using assms by simp
  from holds_vector[OF kinds(1,2) _ _ _ this, of cap]
  have "holds_object layout_store 14 (replicate 4 Data) (VectorObj cap (map Byte x @ map Byte y)) (bytes_of 8 (Suc (Suc 0)) @ x @ y)"
    using kinds(3) assms by simp
  from holds_Cont[OF this holds_Nil] show ?thesis
    by (simp add: is_value_def cells kinds(2) numeral_2_eq_2)
qed

lemma int_vector_value: "is_value layout_store 14 int_vector (bytes_of 8 2 @ [1, 0, 0, 0, 2, 1, 0, 0])"
  using two_ints_value[of "[1, 0, 0, 0]" "[2, 1, 0, 0]" 8] by (simp add: int_vector_def)

lemma int_vector_raw: "\<exists>l. raw_layout_of layout_store 14 False False = Inr l"
  using layout_store_raw_all[of 14] by (auto simp: layout_store_def)

lemma layout_store_dom: "14 \<in> dom (objects layout_store)"
  by (simp add: layout_store_def)

lemma int_vector_layout: "layout_of layout_store 14 False False True True =
    Inr \<lparr>ops = [FLAG_CONTAINER, 14, FLAG_MEMCPY, 4, FLAG_END], init_ops = [FLAG_INIT_CONTAINER, 14]\<rparr>"
proof -
  have n: "next_id layout_store = 17" by (simp add: layout_store_def)
  have "raw_layout_of layout_store 14 False False =
    Inr \<lparr>ops = [FLAG_CONTAINER, 14, FLAG_MEMCPY, 4, FLAG_END], init_ops = [FLAG_INIT_CONTAINER, 14]\<rparr>"
    using n by (simp add: raw_layout_of_def layout_store_types visit_numeral visit_Container_def visit_Numeric_def
        push_defs Let_def empty_layout_def Type_ctor_def Numeric_ctor_def)
  then show ?thesis
    by (simp add: layout_of_def simplify_def simplify_ops_def simplify_loop.simps(2) simplifyInit_def
        simplifyInit_loop.simps(2) push_pending_def push_init_data_def expect_end_def flag_defs Let_def)
qed

lemma int_element: "Vector_getElementLayout layout_store 11 =
    \<lparr>ops = [FLAG_MEMCPY, 4], init_ops = []\<rparr>" (is ?layout)
  "isElementMemcpy layout_store 11" "hasElementLayout layout_store 11"
proof -
  have n: "next_id layout_store = 17" by (simp add: layout_store_def)
  have "raw_layout_of layout_store 11 False False =
    Inr \<lparr>ops = [FLAG_MEMCPY, 4], init_ops = [FLAG_INIT_SKIP, 4]\<rparr>"
    using n by (simp add: raw_layout_of_def layout_store_types visit_numeral visit_Numeric_def
        push_defs Let_def empty_layout_def Type_ctor_def Numeric_ctor_def)
  then show ?layout
    by (simp add: layout_of_def simplify_def simplify_ops_def simplify_loop.simps(2) simplifyInit_def
        simplifyInit_loop.simps(2) push_pending_def push_init_data_def expect_end_def flag_defs Let_def
       Vector_getElementLayout_def)
  then show  "isElementMemcpy layout_store 11" "hasElementLayout layout_store 11"
    by (simp_all add: isElementMemcpy_def isMemcpy_def hasElementLayout_def)
qed


lemmas bytes_of_numeral = bytes_of.simps(2)[of "pred_numeral k" for k, folded numeral_eq_Suc]

lemmas int_vector_run = int_vector_layout int_element layout_store_types Type_ctor_def Numeric_ctor_def Let_def flag_defs
  with_operand_def at_block_end_def container_case_def get_vector_def get_object_def put_object_def Vector_getElementCount_def

lemma int_vector_dump: "dump_value layout_store int_vector 14 = Inr [2, 0, 0, 0, 0, 0, 0, 0, 1, 0, 0, 0, 2, 1, 0, 0]"
  by (simp add: dump_value_def dump_vector_def dump_stream_def dump_loop.simps(2) int_vector_run int_vector_def
      Container_getElementCount_def VectorOutputStream_write_def Vector_dump_def read_bytes_def bytes_of_numeral
      mul_size_t_def size_t_modulus_def slice_def)

section \<open>Properties of marshalling\<close>

text \<open>
  C13: Every value of a type whose layout can be computed is dumped without error, and
  \<open>getDumpSize\<close> returns the number of bytes that \<open>dump\<close> produces.
\<close>

theorem dump_size:
  assumes "native_store st" and "t \<in> dom (objects st)" and "raw_layout_of st t False False = Inr raw" and "is_value st t mem v"
  shows "\<exists>bytes. dump_value st mem t = Inr bytes \<and> getDumpSize_value st mem t = Inr (length bytes)"
  using dump_value_bytes[OF assms] by metis

theorem dump_size_witness:
  "\<exists>bytes. dump_value layout_store int_vector 14 = Inr bytes \<and> getDumpSize_value layout_store int_vector 14 = Inr (length bytes)"
proof -
  obtain l where "raw_layout_of layout_store 14 False False = Inr l" using int_vector_raw by blast
  then show ?thesis by (rule dump_size[OF layout_store_native layout_store_dom _ int_vector_value])
qed

text \<open>
  C18: Type soundness of \<open>init\<close>: on every raw buffer of the size of a type it ends with a value of the
  type, with a live object at the place of every container.
\<close>

theorem init_typed:
  assumes "native_store st" and "t \<in> dom (objects st)" and "raw_layout_of st t False False = Inr raw"
    and "list_all is_Byte buffer" and "length buffer = ty_size (type_at st t)"
  shows "\<exists>mem v. init_value st buffer 0 t = Inr mem \<and> is_value st t mem v"
  using init_value_fresh[OF assms] by blast

theorem init_typed_witness: "\<exists>mem v. init_value layout_store (replicate 24 (Byte 7)) 0 14 = Inr mem \<and> is_value layout_store 14 mem v"
proof -
  obtain l where "raw_layout_of layout_store 14 False False = Inr l" using int_vector_raw by blast
  from init_typed[OF layout_store_native layout_store_dom this, of "replicate 24 (Byte 7)"]
  show ?thesis by (simp add: layout_store_types Type_ctor_def list_all_iff)
qed

text \<open>
  C1: Loading a dump restores the value: a value that \<open>init\<close> made in a raw buffer of the
  size of the type holds, after \<open>load\<close> of the bytes that \<open>dump\<close> produced, the same value,
  nested containers included.
\<close>

theorem dump_load_roundtrip:
  assumes "native_store st" and "t \<in> dom (objects st)" and "raw_layout_of st t False False = Inr raw"
    and "is_value st t src v" and "dump_value st src t = Inr bytes" and "length bytes < 2 ^ 63"
    and "list_all is_Byte buffer" and "length buffer = ty_size (type_at st t)"
  shows "\<exists>dst dst'. init_value st buffer 0 t = Inr dst \<and> load_value st dst t bytes = Inr dst' \<and> is_value st t dst' v"
proof -
  obtain dst w where i: "init_value st buffer 0 t = Inr dst" "is_value st t dst w" "fresh dst"
    using init_value_fresh[OF assms(1-3,7,8)] by blast
  then show ?thesis using load_value_dumped[OF assms(1-4) i(2,3) assms(5,6)] by blast
qed

theorem dump_load_roundtrip_witness:
  "\<exists>dst dst'. init_value layout_store (replicate 24 (Byte 7)) 0 14 = Inr dst \<and>
     load_value layout_store dst 14 [2, 0, 0, 0, 0, 0, 0, 0, 1, 0, 0, 0, 2, 1, 0, 0] = Inr dst' \<and>
     is_value layout_store 14 dst' (bytes_of 8 2 @ [1, 0, 0, 0, 2, 1, 0, 0])"
proof -
  obtain l where "raw_layout_of layout_store 14 False False = Inr l" using int_vector_raw by blast
  from dump_load_roundtrip[OF layout_store_native layout_store_dom this int_vector_value int_vector_dump, of "replicate 24 (Byte 7)"]
  show ?thesis by (simp add: layout_store_types Type_ctor_def list_all_iff)
qed

text \<open>
  C12: Bounds of the dump into an array of fixed size: a dump that fits is written at the
  start of the array and its size returned, the rest of the array is left alone; a dump
  that does not fit returns 0 and writes nothing behind the array.
\<close>

theorem dump_array_bounds:
  assumes "native_store st" and "t \<in> dom (objects st)" and "raw_layout_of st t False False = Inr raw"
    and "is_value st t mem v" and "dump_value st mem t = Inr bytes" and "layout_of st t False False True True = Inr l"
    and "length buffer < 2 ^ 31"
  shows "dump_array st mem buffer l =
    Inr (if length bytes \<le> length buffer then (Some (bytes @ drop (length bytes) buffer), int (length bytes)) else (None, 0))"
proof -
  obtain ts us bytes' where d: "layout_of st t False False True True = Inr \<lparr>ops = encode ts, init_ops = encode_init us\<rparr>"
    "dump_value st mem t = Inr bytes'"
    "dump_loop (Suc (length (encode ts))) st ByteArrayOutputStream_write mem 0
        \<lparr>out_buffer = buffer, out_buffer_size = length buffer, out_current = 0\<rparr> (encode ts) =
      bind_result (ByteArrayOutputStream_write \<lparr>out_buffer = buffer, out_buffer_size = length buffer, out_current = 0\<rparr> bytes')
        (\<lambda>s. Inr ((cells_bytes st (flat ts), s), []))"
    by (rule dump_value_bytes[OF assms(1-4)]) blast
  then have "bytes' = bytes" "ops l = encode ts" using assms(5,6) by simp_all
  then show ?thesis using d(3) assms(7)
    by (auto simp: dump_array_def ByteArrayOutputStream_write_def to_int32_def Let_def)
qed

theorem dump_array_bounds_witness:
  "\<exists>l. layout_of layout_store 14 False False True True = Inr l \<and>
     dump_array layout_store int_vector (replicate 17 9) l = Inr (Some [2, 0, 0, 0, 0, 0, 0, 0, 1, 0, 0, 0, 2, 1, 0, 0, 9], 16)"
proof -
  obtain l where "raw_layout_of layout_store 14 False False = Inr l" using int_vector_raw by blast
  from dump_array_bounds[OF layout_store_native layout_store_dom this int_vector_value int_vector_dump int_vector_layout,
      of "replicate 17 9"]
  show ?thesis using int_vector_layout by simp
qed

text \<open>
  \<open>load\<close> of an empty container does not clear the container: the elements it held before
  stay.
\<close>

theorem load_empty_keeps: "load_value layout_store mem 14 (bytes_of 8 0) = Inr mem"
  by (simp add: load_value_def load_vector_def load_stream_def load_loop.simps(2) int_vector_run skipBlock.simps
      VectorInputStream_read_def size_t_modulus_def nat_of_bytes_of)

end
