(* ===== verification/CompareCorrect.thy ===== *)
theory CompareCorrect
  imports Roundtrip
begin

text \<open>
  \<open>ValueOps::compare\<close> decides whether two values are equal: it ignores padding and compares the
  elements of containers. The interpreter relies on the comparison of the containers in its
  cells, and the containers on the interpreter for their elements; the locale
  \<open>container_comparison\<close> is the interface between the two, by the nesting of containers.
\<close>

definition compare_run :: "store \<Rightarrow> compare_fun \<Rightarrow> nat \<Rightarrow> memory \<times> nat \<times> memory \<times> nat \<Rightarrow> nat list
    \<Rightarrow> error option + ((memory \<times> nat \<times> memory \<times> nat) \<times> nat list)" where
  "compare_run st ccompare f a it = (case a of (x, i, y, j) \<Rightarrow>
     case compare_loop f st ccompare x i y j it of
       Inl e \<Rightarrow> Inl (Some e)
     | Inr None \<Rightarrow> Inl None
     | Inr (Some ((i', j'), it')) \<Rightarrow> Inr ((x, i', y, j'), it'))"

definition two_values :: "store \<Rightarrow> cell list \<Rightarrow> memory \<times> nat \<times> memory \<times> nat \<Rightarrow> memory \<Rightarrow> byte list \<Rightarrow> memory \<Rightarrow> byte list \<Rightarrow> bool" where
  "two_values st cs a m v m' v' \<longleftrightarrow> (case a of (x, i, y, j) \<Rightarrow>
     located x i m \<and> holds st cs m v \<and> located y j m' \<and> holds st cs m' v')"

definition compare_pre :: "store \<Rightarrow> nat \<Rightarrow> cell list \<Rightarrow> memory \<times> nat \<times> memory \<times> nat \<Rightarrow> bool" where
  "compare_pre st n cs a \<longleftrightarrow> native_store st \<and> list_all (exact st) cs \<and> depth_le n cs \<and> (\<exists>m v m' v'. two_values st cs a m v m' v')"

definition compare_post :: "store \<Rightarrow> cell list \<Rightarrow> memory \<times> nat \<times> memory \<times> nat \<Rightarrow> error option + (memory \<times> nat \<times> memory \<times> nat) \<Rightarrow> bool" where
  "compare_post st cs a r \<longleftrightarrow> (case a of (x, i, y, j) \<Rightarrow> \<exists>m v m' v'. two_values st cs a m v m' v' \<and>
     r = (if v = v' then Inr (x, i + length m, y, j + length m') else Inl None))"

lemma compare_postI:
  "two_values st cs (x, i, y, j) m v m' v' \<Longrightarrow> r = (if v = v' then Inr (x, i + length m, y, j + length m') else Inl None) \<Longrightarrow>
   compare_post st cs (x, i, y, j) r"
  unfolding compare_post_def by blast

lemma compare_run_eq:
  "compare_run st cc (Suc f) (x, i, y, j) [] = Inr ((x, i, y, j), [])"
  "compare_run st cc (Suc f) (x, i, y, j) (FLAG_END # k) = Inr ((x, i, y, j), FLAG_END # k)"
  "compare_run st cc (Suc f) (x, i, y, j) (FLAG_SKIP # n # k) = compare_run st cc f (x, i + n, y, j + n) k"
  "read_bytes x i n = Inr xs \<Longrightarrow> read_bytes y j n = Inr ys \<Longrightarrow>
   compare_run st cc (Suc f) (x, i, y, j) (FLAG_MEMCPY # n # k) =
     (if xs = ys then compare_run st cc f (x, i + n, y, j + n) k else Inl None)"
  by (simp_all add: compare_run_def compare_loop.simps(2) loop_steps flag_defs)

lemma two_values_append:
  assumes "two_values st (xs @ ys) (x, i, y, j) m v m' v'"
  obtains m1 m2 v1 v2 m1' m2' v1' v2' where "m = m1 @ m2" "v = v1 @ v2" "m' = m1' @ m2'" "v' = v1' @ v2'"
    "two_values st xs (x, i, y, j) m1 v1 m1' v1'" "two_values st ys (x, i + length m1, y, j + length m1') m2 v2 m2' v2'"
  using assms holds_appendD[of st xs ys m v] holds_appendD[of st xs ys m' v'] unfolding two_values_def
  by (auto simp: located_append)

lemma two_values_unique:
  assumes "two_values st cs a m v m' v'" and "two_values st cs a n w n' w'"
  shows "m = n \<and> v = w \<and> m' = n' \<and> v' = w'"
proof -
  obtain x i y j where a: "a = (x, i, y, j)" by (cases a)
  have "m = n" "m' = n'" using assms holds_length unfolding a two_values_def by (auto dest: located_unique)
  then show ?thesis using assms holds_det unfolding a two_values_def by blast
qed

lemma two_values_split:
  assumes "two_values st xs (x, i, y, j) m1 v1 m1' v1'" and "two_values st ys (x, i + length m1, y, j + length m1') m2 v2 m2' v2'"
  shows "two_values st (xs @ ys) (x, i, y, j) (m1 @ m2) (v1 @ v2) (m1' @ m2') (v1' @ v2')"
    and "v1 @ v2 = v1' @ v2' \<longleftrightarrow> v1 = v1' \<and> v2 = v2'"
  using assms holds_appendI holds_prefix_unique[of st xs m1 v1 m1' v1' v2 v2'] unfolding two_values_def
  by (auto simp: located_append)

lemma compare_repeats:
  assumes "repeats (\<lambda>a. compare_run st cc f a it0) stop d (x, i, y, j) r" and "0 < d"
  shows "compare_repeat (\<lambda>(i, j). compare_loop f st cc x i y j it0) d ((i, j), it) =
    (case r of Inl (Some e) \<Rightarrow> Inl e | Inl None \<Rightarrow> Inr None | Inr (_, i', _, j') \<Rightarrow> Inr (Some ((i', j'), stop))) \<and>
    (\<forall>a. r = Inr a \<longrightarrow> (\<exists>i' j'. a = (x, i', y, j')))"
  using assms
proof (induction d "(x, i, y, j)" r arbitrary: i j it rule: repeats.induct)
  case (repeats_fail e n i j)
  then show ?case by (auto simp: compare_run_def split: sum.splits option.splits)
next
  case (repeats_Suc a' n r i j)
  then obtain i' j' where step: "compare_loop f st cc x i y j it0 = Inr (Some ((i', j'), stop))" "a' = (x, i', y, j')"
    by (auto simp: compare_run_def split: sum.splits option.splits)
  show ?case
  proof (cases n)
    case 0
    then have "r = Inr a'" using repeats_Suc(2) by (auto elim: repeats.cases)
    then show ?thesis using 0 step by simp
  next
    case (Suc m)
    then show ?thesis using repeats_Suc(3)[OF step(2), of stop] step(1) by simp
  qed
qed simp

lemma compare_run_array:
  assumes "repeats (\<lambda>a. compare_run st cc f a (encode b @ FLAG_END # k)) (FLAG_END # k) d a r" and "0 < d"
  shows "compare_run st cc (Suc f) a (FLAG_ARRAY # d # encode b @ FLAG_END # k) = bind_result r (\<lambda>a'. compare_run st cc f a' k)"
proof -
  obtain x i y j where a: "a = (x, i, y, j)" by (cases a)
  note rep = compare_repeats[OF assms(1)[unfolded a] assms(2), of "encode b @ FLAG_END # k"]
  show ?thesis
    using rep unfolding a by (auto simp: compare_run_def compare_loop.simps(2) loop_steps flag_defs split: sum.splits option.splits)
qed

lemma skip_container: "4 < t \<Longrightarrow> skipBlock 0 (t # encode b @ FLAG_END # k) = Inr (FLAG_END # k)"
  using skip_block[of b k] by (simp add: flag_defs)

locale container_comparison =
  fixes st :: store and ccompare :: compare_fun and n :: nat
  assumes compares: "native_store st \<Longrightarrow> exact st (Cont t inner) \<Longrightarrow> cell_depth (Cont t inner) \<le> n \<Longrightarrow>
    located x i (obj # replicate (ty_size (type_at st t) - 1) Inside) \<Longrightarrow> holds_object st t inner obj v \<Longrightarrow>
    located y j (obj' # replicate (ty_size (type_at st t) - 1) Inside) \<Longrightarrow> holds_object st t inner obj' v' \<Longrightarrow>
    ccompare t x i y j = Inr (v = v')"
begin

lemma compare_container:
  assumes pre: "compare_pre st n [Cont t (flat b)] a"
  shows "\<exists>r. compare_post st [Cont t (flat b)] a r \<and>
    compare_run st ccompare (Suc f) a (FLAG_CONTAINER # t # encode b @ FLAG_END # k) = bind_result r (\<lambda>a'. compare_run st ccompare f a' k)"
proof -
  obtain x i y j where a: "a = (x, i, y, j)" by (cases a)
  let ?m = "\<lambda>obj. obj # replicate (ty_size (type_at st t) - 1) Inside"
  obtain obj v obj' v' where obj: "located x i (?m obj)" "holds_object st t (flat b) obj v" "located y j (?m obj')" "holds_object st t (flat b) obj' v'"
    using pre unfolding a compare_pre_def two_values_def by (auto simp: holds_Cont_iff)
  have ok: "native_store st" "exact st (Cont t (flat b))" "cell_depth (Cont t (flat b)) \<le> n"
    using pre unfolding a compare_pre_def by (simp_all del: exact.simps)
  have t: "4 < t" using ok(2) native_storeD(3,4)[OF ok(1), of t] by (auto, metis factory.exhaust)
  have len: "length (?m o') = ty_size (type_at st t)" for o' using holds_object_size[OF obj(2)] by simp
  have two: "two_values st [Cont t (flat b)] a (?m obj) v (?m obj') v'"
    using obj holds_Cont[OF obj(2) holds_Nil] holds_Cont[OF obj(4) holds_Nil] by (simp add: a two_values_def)
  let ?r = "if v = v' then Inr (x, i + ty_size (type_at st t), y, j + ty_size (type_at st t)) else Inl None"
  have "compare_post st [Cont t (flat b)] a ?r" unfolding a by (rule compare_postI[OF two[unfolded a]]) (use len[of obj] in simp)
  moreover have "compare_run st ccompare (Suc f) a (FLAG_CONTAINER # t # encode b @ FLAG_END # k) = bind_result ?r (\<lambda>a'. compare_run st ccompare f a' k)"
    using compares[OF ok obj] skip_container[OF t, of b k]
    by (simp add: a compare_run_def compare_loop.simps(2) loop_steps flag_defs)
  ultimately show ?thesis by blast
qed

end

sublocale container_comparison \<subseteq> comparer: bytecode_interpreter "compare_run st ccompare" "compare_pre st n" "compare_post st" array_ok
proof
  fix f it and a :: "memory \<times> nat \<times> memory \<times> nat" assume "it = [] \<or> hd it = FLAG_END"
  then show "compare_run st ccompare (Suc f) a it = Inr (a, it)" by (cases a; cases it) (auto simp: compare_run_eq)
next
  fix a :: "memory \<times> nat \<times> memory \<times> nat" assume "compare_pre st n [] a"
  then show "compare_post st [] a (Inr a)" by (cases a) (auto simp: compare_pre_def compare_post_def two_values_def)
next
  fix xs ys and a :: "memory \<times> nat \<times> memory \<times> nat" assume pre: "compare_pre st n (xs @ ys) a"
  obtain x i y j where a: "a = (x, i, y, j)" by (cases a)
  obtain m v m' v' where "two_values st (xs @ ys) (x, i, y, j) m v m' v'" using pre by (auto simp: a compare_pre_def)
  then obtain m1 v1 m1' v1' where "two_values st xs a m1 v1 m1' v1'" unfolding a by (rule two_values_append)
  then show "compare_pre st n xs a" using pre by (auto simp: compare_pre_def)
next
  fix xs ys and a a' :: "memory \<times> nat \<times> memory \<times> nat"
  assume pre: "compare_pre st n (xs @ ys) a" and post: "compare_post st xs a (Inr a')"
  obtain x i y j where a: "a = (x, i, y, j)" by (cases a)
  obtain m v m' v' where "two_values st (xs @ ys) (x, i, y, j) m v m' v'" using pre by (auto simp: a compare_pre_def)
  then obtain m1 m2 v2 m1' m2' v2' v1 v1' where two: "two_values st xs (x, i, y, j) m1 v1 m1' v1'"
    "two_values st ys (x, i + length m1, y, j + length m1') m2 v2 m2' v2'" by (rule two_values_append)
  obtain n1 w1 n1' w1' where "two_values st xs (x, i, y, j) n1 w1 n1' w1'" "a' = (x, i + length n1, y, j + length n1')"
    using post by (auto simp: a compare_post_def split: if_splits)
  then have "a' = (x, i + length m1, y, j + length m1')" using two_values_unique[OF two(1)] by blast
  then show "compare_pre st n ys a'" using pre two(2) by (auto simp: a compare_pre_def)
next
  fix xs ys r and a a' :: "memory \<times> nat \<times> memory \<times> nat"
  assume "compare_pre st n (xs @ ys) a" and post: "compare_post st xs a (Inr a')" "compare_post st ys a' r"
  obtain x i y j where a: "a = (x, i, y, j)" by (cases a)
  obtain m1 v1 m1' where one: "two_values st xs (x, i, y, j) m1 v1 m1' v1" "a' = (x, i + length m1, y, j + length m1')"
    using post(1) by (auto simp: a compare_post_def split: if_splits)
  obtain m2 v2 m2' v2' where two: "two_values st ys (x, i + length m1, y, j + length m1') m2 v2 m2' v2'"
    "r = (if v2 = v2' then Inr (x, i + length m1 + length m2, y, j + length m1' + length m2') else Inl None)"
    using post(2) by (auto simp: one(2) compare_post_def)
  show "compare_post st (xs @ ys) a r"
    unfolding a by (rule compare_postI[OF two_values_split(1)[OF one(1) two(1)]]) (use two(2) in \<open>simp add: add.assoc\<close>)
next
  fix xs ys e and a :: "memory \<times> nat \<times> memory \<times> nat"
  assume pre: "compare_pre st n (xs @ ys) a" and post: "compare_post st xs a (Inl e)"
  obtain x i y j where a: "a = (x, i, y, j)" by (cases a)
  obtain m v m' v' where all: "two_values st (xs @ ys) (x, i, y, j) m v m' v'" using pre by (auto simp: a compare_pre_def)
  then obtain m1 m2 v1 v2 m1' m2' v1' v2' where two: "v = v1 @ v2" "v' = v1' @ v2'" "two_values st xs (x, i, y, j) m1 v1 m1' v1'"
    "two_values st ys (x, i + length m1, y, j + length m1') m2 v2 m2' v2'" by (rule two_values_append)
  have "e = None" "v1 \<noteq> v1'" using post two_values_unique[OF two(3)] by (auto simp: a compare_post_def split: if_splits)
  then have "v \<noteq> v'" using two_values_split(2)[OF two(3,4)] two(1,2) by simp
  show "compare_post st (xs @ ys) a (Inl e)" unfolding a by (rule compare_postI[OF all]) (use \<open>e = None\<close> \<open>v \<noteq> v'\<close> in simp)
next
  fix d and a :: "memory \<times> nat \<times> memory \<times> nat" assume pre: "compare_pre st n (replicate d Data) a"
  obtain x i y j where a: "a = (x, i, y, j)" by (cases a)
  obtain m v m' v' where two: "two_values st (replicate d Data) a m v m' v'" using pre by (auto simp: compare_pre_def)
  then have bytes: "read_bytes x i d = Inr v" "read_bytes y j d = Inr v'" "length m = d" "length m' = d"
    unfolding a two_values_def by (auto simp: holds_Data_run intro: read_located)
  let ?r = "if v = v' then Inr (x, i + d, y, j + d) else Inl None"
  have "compare_post st (replicate d Data) a ?r" unfolding a by (rule compare_postI[OF two[unfolded a]]) (use bytes(3,4) in simp)
  moreover have "compare_run st ccompare (Suc f) a (FLAG_MEMCPY # d # k) = bind_result ?r (\<lambda>a'. compare_run st ccompare f a' k)" for f k
    by (simp add: a compare_run_eq(4)[OF bytes(1,2)])
  ultimately show "\<exists>r. compare_post st (replicate d Data) a r \<and>
      (\<forall>f k. compare_run st ccompare (Suc f) a (FLAG_MEMCPY # d # k) = bind_result r (\<lambda>a'. compare_run st ccompare f a' k))" by blast
next
  fix d and a :: "memory \<times> nat \<times> memory \<times> nat" assume pre: "compare_pre st n (replicate d Pad) a"
  obtain x i y j where a: "a = (x, i, y, j)" by (cases a)
  obtain m v m' v' where two: "two_values st (replicate d Pad) a m v m' v'" using pre by (auto simp: compare_pre_def)
  have "compare_post st (replicate d Pad) a (Inr (x, i + d, y, j + d))"
    unfolding a by (rule compare_postI[OF two[unfolded a]]) (use two in \<open>simp add: a two_values_def holds_Pad_run\<close>)
  then show "\<exists>r. compare_post st (replicate d Pad) a r \<and>
      (\<forall>f k. compare_run st ccompare (Suc f) a (FLAG_SKIP # d # k) = bind_result r (\<lambda>a'. compare_run st ccompare f a' k))"
    by (intro exI[of _ "Inr (x, i + d, y, j + d)"]) (simp add: a compare_run_eq)
next
  fix d b f k r and a :: "memory \<times> nat \<times> memory \<times> nat"
  assume "array_ok (ArrayOp d b)" "repeats (\<lambda>a. compare_run st ccompare f a (encode b @ FLAG_END # k)) (FLAG_END # k) d a r"
  then show "compare_run st ccompare (Suc f) a (FLAG_ARRAY # d # encode b @ FLAG_END # k) = bind_result r (\<lambda>a'. compare_run st ccompare f a' k)"
    by (intro compare_run_array) (simp_all add: array_ok_def)
next
  fix t b f k and a :: "memory \<times> nat \<times> memory \<times> nat"
  assume "compare_pre st n [Cont t (flat b)] a"
  then show "\<exists>r. compare_post st [Cont t (flat b)] a r \<and>
      compare_run st ccompare (Suc f) a (FLAG_CONTAINER # t # encode b @ FLAG_END # k) = bind_result r (\<lambda>a'. compare_run st ccompare f a' k)"
    by (rule compare_container)
qed


text \<open>The layout that \<open>compare\<close> uses describes the cells of the type without their trailing padding.\<close>

lemma compare_layout:
  assumes "native_store st" and "t \<in> dom (objects st)" and "raw_layout_of st t False False = Inr raw"
  obtains ts us k where "layout_of st t True False False True = Inr \<lparr>ops = encode ts, init_ops = us\<rparr>"
    and "type_cells st t = flat ts @ replicate k Pad" and "list_all (every_op array_ok) ts"
proof -
  obtain ts us where l: "layout_of st t True False False True = Inr \<lparr>ops = encode ts, init_ops = encode_init us\<rparr>"
    "trimmed False (type_cells st t) (flat ts)" "list_all (tidy_op True False) ts"
    using layout_of_cells[OF assms, of True False False True] by blast
  obtain B k where "type_cells st t = B @ replicate k Pad" "cells_le False B (flat ts)" using l(2) by (rule trimmedE)
  then show thesis using that[OF l(1) _ tidy_array_ok[OF l(3)]] cells_le_exact by blast
qed

context container_comparison begin

lemma compare_with_correct:
  assumes st: "native_store st" and t: "t \<in> dom (objects st)" "raw_layout_of st t False False = Inr raw" and depth: "depth_le n (type_cells st t)"
    and x: "located x i mem" "holds st (type_cells st t) mem v" and y: "located y j mem'" "holds st (type_cells st t) mem' v'"
  shows "compare_with ccompare st t x i y j = Inr (v = v')"
proof -
  obtain ts us k where l: "layout_of st t True False False True = Inr \<lparr>ops = encode ts, init_ops = us\<rparr>"
    "type_cells st t = flat ts @ replicate k Pad" "list_all (every_op array_ok) ts" by (rule compare_layout[OF st t])
  have exact: "list_all (exact st) (flat ts)" "depth_le n (flat ts)"
    using type_cells_exact[OF native_storeD(1)[OF st t(1)] t] depth l(2) by simp_all
  obtain m p where m: "mem = m @ p" "holds st (flat ts) m v" using x(2) l(2) holds_appendD[of st "flat ts" "replicate k Pad" mem v]
    by (auto simp: holds_Pad_run)
  obtain m' p' where m': "mem' = m' @ p'" "holds st (flat ts) m' v'" using y(2) l(2) holds_appendD[of st "flat ts" "replicate k Pad" mem' v']
    by (auto simp: holds_Pad_run)
  have two: "two_values st (flat ts) (x, i, y, j) m v m' v'" using x(1) y(1) m m' by (simp add: two_values_def located_append)
  then have "compare_pre st n (flat ts) (x, i, y, j)" using st exact by (auto simp: compare_pre_def)
  from comparer.run_encode[OF l(3) this, of "[]" "Suc (length (encode ts))"] obtain r where r: "compare_post st (flat ts) (x, i, y, j) r"
    "compare_run st ccompare (Suc (length (encode ts))) (x, i, y, j) (encode ts) = bind_result r (\<lambda>a'. Inr (a', []))" by auto
  have "isl r \<longleftrightarrow> v \<noteq> v'" "r \<noteq> Inl (Some e)" for e using r(1) two_values_unique[OF two] by (auto simp: compare_post_def split: if_splits)
  then show ?thesis using r(2) l(1)
    by (cases r) (auto simp: compare_with_def compare_run_def split: sum.splits option.splits)
qed

end

lemma all_result_all: "(\<And>i. i \<in> set xs \<Longrightarrow> f i = Inr (P i)) \<Longrightarrow> all_result f xs = Inr (list_all P xs)"
  by (induction xs) auto

lemma container_comparison_step:
  assumes "container_comparison st (Container_compare n st) n"
  shows "container_comparison st (Container_compare (Suc n) st) (Suc n)"
proof
  fix t inner x i obj v y j obj' v'
  assume st: "native_store st" and ex: "exact st (Cont t inner)" and depth: "cell_depth (Cont t inner) \<le> Suc n"
    and x: "located x i (obj # replicate (ty_size (type_at st t) - 1) Inside)" "holds_object st t inner obj v"
    and y: "located y j (obj' # replicate (ty_size (type_at st t) - 1) Inside)" "holds_object st t inner obj' v'"
  obtain c fac on l where t: "t \<in> dom (objects st)" "ty_kind (type_at st t) = Container c fac on" "on \<in> dom (objects st)"
    "raw_layout_of st on False False = Inr l" "inner = type_cells st on" using ex unfolding exact.simps by blast
  have inner: "depth_le n (type_cells st on)" using depth t(5) by (simp only: cell_depth_Cont) auto
  show "Container_compare (Suc n) st t x i y j = Inr (v = v')"
  proof (cases fac)
    case StringFactory
    note kind = t(2)[unfolded StringFactory]
    obtain s where s: "obj = StringObj s" "v = bytes_of 8 (length s) @ s" "length s < 2 ^ 63" using x(2) kind by (rule holds_object_String)
    obtain s' where s': "obj' = StringObj s'" "v' = bytes_of 8 (length s') @ s'" "length s' < 2 ^ 63" using y(2) kind by (rule holds_object_String)
    have "v = v' \<longleftrightarrow> s = s'" using s(2) s'(2) by (metis append_eq_append_conv length_bytes_of)
    then show ?thesis using get_string_located x(1) y(1) s(1) s'(1) kind by (simp add: container_case_def String_compare_def)
  next
    case VectorFactory
    note kind = t(2)[unfolded VectorFactory]
    let ?sz = "ty_size (type_at st on)"
    obtain cap es ebs where e: "obj = VectorObj cap (concat es)" "v = bytes_of 8 (length es) @ concat ebs" "0 < ?sz"
      "\<forall>e \<in> set es. length e = ?sz" "length (concat es) < 2 ^ 63" "list_all2 (holds st inner) es ebs"
      using x(2) kind by (rule holds_object_Vector)
    obtain cap' es' ebs' where e': "obj' = VectorObj cap' (concat es')" "v' = bytes_of 8 (length es') @ concat ebs'"
      "\<forall>e \<in> set es'. length e = ?sz" "length (concat es') < 2 ^ 63" "list_all2 (holds st inner) es' ebs'"
      using y(2) kind by (rule holds_object_Vector)
    have same: "v = v' \<longleftrightarrow> length es = length es' \<and> ebs = ebs'"
      using vector_same_elements[OF e(4,3,5,6) e'(3,4,5)] e(2) e'(2) by auto
    have el: "compare_with (Container_compare n st) st on (concat es) (k * ?sz) (concat es') (k * ?sz) = Inr (ebs ! k = ebs' ! k)"
      if "k < length es" "length es = length es'" for k
      by (rule container_comparison.compare_with_correct[OF assms st t(3,4) inner])
        (use located_element[of k es ?sz] located_element[of k es' ?sz] e(4,6) e'(3,5) t(5) that in \<open>auto simp: list_all2_conv_all_nth\<close>)
    have "all_result (\<lambda>k. compare_with (Container_compare n st) st on (concat es) (k * ?sz) (concat es') (k * ?sz)) [0..<length es] =
        Inr (list_all (\<lambda>k. ebs ! k = ebs' ! k) [0..<length es])" if "length es = length es'"
      by (rule all_result_all) (use el that in auto)
    moreover have "length ebs = length es" "length ebs' = length es'" using e(6) e'(5) by (simp_all add: list_all2_conv_all_nth)
    then have "list_all (\<lambda>k. ebs ! k = ebs' ! k) [0..<length es] \<longleftrightarrow> ebs = ebs'" if "length es = length es'"
      unfolding list_eq_iff_nth_eq[of ebs ebs'] using that by (auto simp: list_all_iff)
    moreover have "get_vector x i = Inr (cap, concat es)" "get_vector y j = Inr (cap', concat es')"
      using get_vector_located[OF x(1)[unfolded e(1)]] get_vector_located[OF y(1)[unfolded e'(1)]] by simp_all
    then have "Container_compare (Suc n) st t x i y j = (if length es \<noteq> length es' then Inr False
        else all_result (\<lambda>k. compare_with (Container_compare n st) st on (concat es) (k * ?sz) (concat es') (k * ?sz)) [0..<length es])"
      using kind element_count[OF e(4,3)] element_count[OF e'(3) e(3)] by (simp add: container_case_def Vector_compare_def Let_def)
    ultimately show ?thesis using same by (cases "length es = length es'") simp_all
  qed
qed

interpretation container_compare: container_comparison st "Container_compare n st" n for st n
proof (induction n)
  case 0
  show ?case by unfold_locales simp
next
  case (Suc n)
  then show ?case by (rule container_comparison_step)
qed

section \<open>Properties\<close>

text \<open>
  C5: \<open>compare\<close> on two values of a type returns whether their contents are equal, whatever the
  padding bytes and the capacities of the containers are.
\<close>

theorem compare_decides_equality:
  assumes "native_store st" and "t \<in> dom (objects st)" and "raw_layout_of st t False False = Inr raw"
    and "is_value st t x v" and "is_value st t y w"
  shows "compare_type st t x 0 y 0 = Inr (v = w)"
  unfolding compare_type_def
  by (rule container_compare.compare_with_correct[OF assms(1-3), where mem = x and mem' = y])
    (use assms(4,5) type_cells_depth[of st t] in \<open>simp_all add: is_value_def nesting_def\<close>)

theorem compare_decides_equality_witness:
  "compare_type layout_store 14 int_vector 0 (VectorObj 100 (map Byte [1, 0, 0, 0, 2, 1, 0, 0]) # replicate 23 Inside) 0 = Inr True \<and>
   compare_type layout_store 14 int_vector 0 (VectorObj 8 (map Byte [1, 0, 0, 0, 2, 1, 3, 0]) # replicate 23 Inside) 0 = Inr False"
proof -
  obtain l where l: "raw_layout_of layout_store 14 False False = Inr l" using int_vector_raw by blast
  note compare = compare_decides_equality[OF layout_store_native layout_store_dom l int_vector_value]
  show ?thesis
    using compare[OF two_ints_value[of "[1, 0, 0, 0]" "[2, 1, 0, 0]" 100]] compare[OF two_ints_value[of "[1, 0, 0, 0]" "[2, 1, 3, 0]" 8]]
    by simp
qed

end
