(* ===== verification/Visitors.thy ===== *)
theory Visitors
  imports ValueOps
begin

text \<open>
  Values and value visitors (\<open>value.cc\<close>, \<open>value.hh\<close>): a visitor walks over the memory of a
  value, guided by its type. \<open>ValueVisitor\<close> has one entry per virtual method that a visitor of
  the sources overrides; \<open>dispatch_value\<close> is \<open>TypeDispatch\<close> with the default methods. The
  visitor state and the memory are threaded through the visit.

  \<open>ValueVisitor::visit_\<close> and \<open>ValueVisitor::dispatch\<close> call \<open>TypeVisitor::visit_\<close> on a
  \<open>Type const&\<close>. The only overload that accepts it is the one for pointers, through the
  converting constructor of \<open>Pointer\<close>, and it dispatches on the indirection of this pointer: the
  call dispatches on the type itself.
\<close>

type_synonym 's visit_result = "(bool \<times> memory \<times> 's) result"

type_synonym 's dispatch = "tid \<Rightarrow> memory \<Rightarrow> nat \<Rightarrow> 's \<Rightarrow> 's visit_result"

record 's ValueVisitor =
  on_numeric :: "NumericCategory \<Rightarrow> nat \<Rightarrow> memory \<Rightarrow> nat \<Rightarrow> 's \<Rightarrow> 's visit_result"
  on_enum :: "tid \<Rightarrow> memory \<Rightarrow> nat \<Rightarrow> 's \<Rightarrow> 's visit_result"
  on_pointer :: "'s dispatch \<Rightarrow> tid \<Rightarrow> memory \<Rightarrow> nat \<Rightarrow> 's \<Rightarrow> 's visit_result"
  on_container :: "'s visit_result \<Rightarrow> tid \<Rightarrow> memory \<Rightarrow> nat \<Rightarrow> 's \<Rightarrow> 's visit_result"
  on_field :: "'s dispatch \<Rightarrow> Field \<Rightarrow> memory \<Rightarrow> nat \<Rightarrow> 's \<Rightarrow> 's visit_result"

section \<open>Dispatch on the type\<close>

text \<open>
  The casts to the C types of the sizes 1, 2, 4 and 8, and of \<open>float\<close> and \<open>double\<close>. Other
  sizes of floating point types fall through to the default case.
\<close>

definition dispatch_Numeric :: "'s ValueVisitor \<Rightarrow> Type \<Rightarrow> NumericCategory \<Rightarrow> memory \<Rightarrow> nat \<Rightarrow> 's \<Rightarrow> 's visit_result" where
  "dispatch_Numeric vis obj cat mem offset s =
     (if ty_size obj \<in> (case cat of Float \<Rightarrow> {4, 8} | _ \<Rightarrow> {1, 2, 4, 8})
      then on_numeric vis cat (ty_size obj) mem offset s else Inl (UnsupportedType (ty_name obj)))"

text \<open>A loop over visits that stops at the first one that returns false.\<close>

fun visit_while :: "('a \<Rightarrow> memory \<Rightarrow> 's \<Rightarrow> 's visit_result) \<Rightarrow> 'a list \<Rightarrow> memory \<Rightarrow> 's \<Rightarrow> 's visit_result" where
  "visit_while f [] mem s = Inr (True, mem, s)"
| "visit_while f (x # xs) mem s = bind_result (f x mem s) (\<lambda>(continue, mem', s').
     if continue then visit_while f xs mem' s' else Inr (False, mem', s'))"

definition visit_value_Array :: "store \<Rightarrow> 's dispatch \<Rightarrow> nat \<Rightarrow> 's dispatch" where
  "visit_value_Array st dispatch dim on mem base s =
     bind_result (visit_while (\<lambda>i mem' s'. dispatch on mem' (base + ty_size (type_at st on) * i) s') [0..<dim] mem s)
       (\<lambda>(_, r). Inr (True, r))"

definition visit_value_Compound :: "'s ValueVisitor \<Rightarrow> 's dispatch \<Rightarrow> Field list \<Rightarrow> memory \<Rightarrow> nat \<Rightarrow> 's \<Rightarrow> 's visit_result" where
  "visit_value_Compound vis dispatch flds mem base s =
     visit_while (\<lambda>f mem' s'. on_field vis dispatch f mem' (base + fld_offset f) s') flds mem s"

text \<open>
  The containers call \<open>ValueVisitor::dispatch\<close> on each element, in their own storage, and
  ignore what it returns.
\<close>

definition Vector_visit :: "store \<Rightarrow> 's dispatch \<Rightarrow> tid \<Rightarrow> memory \<Rightarrow> nat \<Rightarrow> 's \<Rightarrow> 's visit_result" where
  "Vector_visit st dispatch on mem offset s =
     bind_result (get_vector mem offset) (\<lambda>(cap, storage).
     bind_result (Vector_getElementCount st on storage) (\<lambda>element_count.
     bind_result (fold_result (\<lambda>(mem', s') i. bind_result (dispatch on mem' (i * ty_size (type_at st on)) s')
         (\<lambda>(_, r). Inr r)) (storage, s) [0..<element_count]) (\<lambda>(storage', s').
     Inr (True, put_object mem offset (VectorObj cap storage'), s'))))"

definition String_visit :: "'s dispatch \<Rightarrow> tid \<Rightarrow> memory \<Rightarrow> nat \<Rightarrow> 's \<Rightarrow> 's visit_result" where
  "String_visit dispatch on mem offset s =
     bind_result (get_string mem offset) (\<lambda>str.
     bind_result (fold_result (\<lambda>(mem', s') i. bind_result (dispatch on mem' i s') (\<lambda>(_, r). Inr r))
       (map Byte str, s) [0..<length str]) (\<lambda>(storage', s').
     Inr (True, put_object mem offset (StringObj (map byte_of storage')), s')))"

text \<open>The fuel bounds the nesting of types.\<close>

fun dispatch_value :: "nat \<Rightarrow> store \<Rightarrow> 's ValueVisitor \<Rightarrow> 's dispatch" where
  "dispatch_value 0 st vis t mem offset s = Inl OutOfFuel"
| "dispatch_value (Suc fuel) st vis t mem offset s =
    (let obj = type_at st t; dispatch = dispatch_value fuel st vis in
     case ty_kind obj of
       NullType \<Rightarrow> Inl (NullTypeFound (ty_name obj))
     | Numeric cat \<Rightarrow> dispatch_Numeric vis obj cat mem offset s
     | Enum _ _ \<Rightarrow> on_enum vis t mem offset s
     | Array dim on \<Rightarrow> visit_value_Array st dispatch dim on mem offset s
     | Pointer on \<Rightarrow> on_pointer vis dispatch on mem offset s
     | Opaque \<Rightarrow> Inr (True, mem, s)
     | Compound flds \<Rightarrow> visit_value_Compound vis dispatch flds mem offset s
     | Container _ _ _ \<Rightarrow> on_container vis (container_case st t (\<lambda>on. Vector_visit st dispatch on mem offset s)
         (\<lambda>on. String_visit dispatch on mem offset s)) t mem offset s)"

text \<open>\<open>ValueVisitor::apply\<close>.\<close>

definition apply_value :: "store \<Rightarrow> 's ValueVisitor \<Rightarrow> tid \<Rightarrow> memory \<Rightarrow> nat \<Rightarrow> 's \<Rightarrow> (memory \<times> 's) result" where
  "apply_value st vis t mem offset s =
     bind_result (dispatch_value (Suc (next_id st)) st vis t mem offset s) (\<lambda>(_, r). Inr r)"

section \<open>The methods of \<open>ValueVisitor\<close>\<close>

text \<open>
  The default methods. A pointer is followed: \<open>deref\<close> is the memory behind the pointer at an
  offset, and the visit goes on there.
\<close>

definition default_field :: "'s dispatch \<Rightarrow> Field \<Rightarrow> memory \<Rightarrow> nat \<Rightarrow> 's \<Rightarrow> 's visit_result" where
  "default_field dispatch f mem offset s = dispatch (fld_type f) mem offset s"

definition follow_pointer :: "(memory \<Rightarrow> nat \<Rightarrow> (memory \<times> nat) result) \<Rightarrow> 's dispatch \<Rightarrow> tid \<Rightarrow> memory \<Rightarrow> nat \<Rightarrow> 's \<Rightarrow> 's visit_result" where
  "follow_pointer deref dispatch on mem offset s =
     bind_result (deref mem offset) (\<lambda>(target, target_offset).
     bind_result (dispatch on target target_offset s) (\<lambda>(continue, _, s'). Inr (continue, mem, s')))"

text \<open>The method for containers gets the result of the visit of the elements.\<close>

definition default_container :: "'s visit_result \<Rightarrow> tid \<Rightarrow> memory \<Rightarrow> nat \<Rightarrow> 's \<Rightarrow> 's visit_result" where
  "default_container visited t mem offset s = visited"

section \<open>Access to the fields of a value\<close>

text \<open>
  \<open>FieldGetter\<close> keeps the value of the field it looks for: where it starts in the memory that
  holds it, and its type.
\<close>

definition FieldGetter :: "(memory \<Rightarrow> nat \<Rightarrow> (memory \<times> nat) result) \<Rightarrow> string \<Rightarrow> (nat \<times> tid) option ValueVisitor" where
  "FieldGetter deref name =
     \<lparr>on_numeric = (\<lambda>_ _ mem _ s. Inr (True, mem, s)),
      on_enum = (\<lambda>_ mem _ s. Inr (True, mem, s)),
      on_pointer = follow_pointer deref,
      on_container = default_container,
      on_field = (\<lambda>_ f mem offset s. if fld_name f = name then Inr (False, mem, Some (offset, fld_type f))
        else Inr (True, mem, s))\<rparr>"

definition value_get_field :: "(memory \<Rightarrow> nat \<Rightarrow> (memory \<times> nat) result) \<Rightarrow> store \<Rightarrow> memory \<Rightarrow> nat \<Rightarrow> tid \<Rightarrow> string \<Rightarrow> (nat \<times> tid) result" where
  "value_get_field deref st mem offset t name =
     bind_result (apply_value st (FieldGetter deref name) t mem offset None) (\<lambda>(_, m_field).
     case m_field of None \<Rightarrow> Inl (FieldNotFound name) | Some v \<Rightarrow> Inr v)"

lemma FieldGetter_fields:
  "visit_while (\<lambda>f mem' s'. on_field (FieldGetter deref name) d f mem' (base + fld_offset f) s') flds mem s =
     Inr (case find (\<lambda>f. fld_name f = name) flds of
        None \<Rightarrow> (True, mem, s) | Some f \<Rightarrow> (False, mem, Some (base + fld_offset f, fld_type f)))"
  by (induction flds) (auto simp: FieldGetter_def)

section \<open>Properties\<close>

text \<open>
  C32: \<open>value_get_field\<close> on a compound returns the place and the type of its first field of that
  name, and throws \<open>FieldNotFound\<close> when there is none. The value is an object in memory: the
  model has no null data pointer, for which the code also throws \<open>FieldNotFound\<close>.
\<close>

theorem value_get_field_compound:
  assumes "ty_kind (type_at st t) = Compound flds"
  shows "value_get_field deref st mem offset t name =
    (case find (\<lambda>f. fld_name f = name) flds of
       None \<Rightarrow> Inl (FieldNotFound name) | Some f \<Rightarrow> Inr (offset + fld_offset f, fld_type f))"
  using assms
  by (simp add: value_get_field_def apply_value_def visit_value_Compound_def FieldGetter_fields split: option.splits)

text \<open>A compound with two fields, to instantiate the theorem.\<close>

definition pair_store :: store where
  "pair_store = \<lparr>objects = [2 \<mapsto> Numeric_ctor ''/int'' 4 SInt,
     3 \<mapsto> Type_ctor ''/Pair'' 8 (Compound [\<lparr>fld_name = ''a'', fld_type = 2, fld_offset = 0, fld_metadata = []\<rparr>,
       \<lparr>fld_name = ''b'', fld_type = 2, fld_offset = 4, fld_metadata = []\<rparr>])], next_id = 4\<rparr>"

theorem value_get_field_compound_witness:
  "value_get_field (\<lambda>_ _. Inl UndefinedBehaviour) pair_store [] 16 3 ''b'' = Inr (20, 2)"
  using value_get_field_compound[of pair_store 3 "[\<lparr>fld_name = ''a'', fld_type = 2, fld_offset = 0, fld_metadata = []\<rparr>,
      \<lparr>fld_name = ''b'', fld_type = 2, fld_offset = 4, fld_metadata = []\<rparr>]" "\<lambda>_ _. Inl UndefinedBehaviour" "[]" 16 "''b''"]
  by (simp add: pair_store_def type_at_def Type_ctor_def)

end
