(* ===== verification/Endianness.thy ===== *)
theory Endianness
  imports Visitors LayoutOf
begin

text \<open>
  Endianness conversion (\<open>endian_swap.hh\<close>, \<open>endianness.hh\<close>, \<open>endianness.cc\<close>): the byte swap of
  integers, the value visitor \<open>EndianSwapVisitor\<close> that swaps a value in place, and
  \<open>CompileEndianSwapVisitor\<close>, which compiles a type into bytecode that copies a value from one
  buffer to another and swaps it on the way. The visitor is the reference: on types without
  trailing padding inside, the compiled program does the same. The host is little endian; sizes
  and offsets of types are below \<open>2 ^ 64\<close> and do not wrap around.
\<close>

unbundle bit_operations_syntax

section \<open>Swapping integers\<close>

text \<open>\<open>swap_helper\<close> at the widths 16, 32 and 64.\<close>

definition swap_helper_2 :: "16 word \<Rightarrow> 16 word" where
  "swap_helper_2 data = (drop_bit 8 data AND 0xFF) OR (push_bit 8 data AND 0xFF00)"

definition swap_helper_4 :: "32 word \<Rightarrow> 32 word" where
  "swap_helper_4 data = drop_bit 24 (data AND 0xFF000000) OR drop_bit 8 (data AND 0x00FF0000)
     OR push_bit 24 (data AND 0xFF) OR push_bit 8 (data AND 0xFF00)"

definition swap_helper_8 :: "64 word \<Rightarrow> 64 word" where
  "swap_helper_8 data =
     (let src_low = ucast (data AND 0xFFFFFFFF) :: 32 word; src_high = ucast (drop_bit 32 data) :: 32 word;
          dst_low = swap_helper_4 src_high; dst_high = swap_helper_4 src_low
      in push_bit 32 (ucast dst_high) OR ucast dst_low)"

text \<open>An integer in memory, little end first.\<close>

fun word_of_bytes :: "byte list \<Rightarrow> 'a::len word" where
  "word_of_bytes [] = 0"
| "word_of_bytes (b # bs) = ucast b OR push_bit 8 (word_of_bytes bs)"

definition bytes_of_word :: "nat \<Rightarrow> 'a::len word \<Rightarrow> byte list" where
  "bytes_of_word n w = map (\<lambda>i. ucast (drop_bit (8 * i) w)) [0..<n]"

lemma bit_word_of_bytes:
  "bit (word_of_bytes bs :: 'a::len word) n \<longleftrightarrow> n < LENGTH('a) \<and> n div 8 < length bs \<and> bit (bs ! (n div 8)) (n mod 8)"
proof (induction bs arbitrary: n)
  case (Cons b bs)
  show ?case
  proof (cases "n < 8")
    case False
    then have "n div 8 = Suc ((n - 8) div 8)" "(n - 8) mod 8 = n mod 8" by (auto simp: le_mod_geq div_if)
    moreover have "\<not> bit b n" using bit_imp_le_length[of b n] False by auto
    ultimately show ?thesis using False Cons[of "n - 8"] by (auto simp: bit_simps)
  qed (auto simp: bit_simps)
qed simp

lemma bit_0xFF: "(0xFF :: 'a::len word) = mask 8" by (simp add: mask_numeral)
lemma bit_0xFF00: "(0xFF00 :: 'a::len word) = push_bit 8 (mask 8)" by (simp add: mask_numeral push_bit_eq_mult)
lemma bit_0xFF0000: "(0xFF0000 :: 'a::len word) = push_bit 16 (mask 8)" by (simp add: mask_numeral push_bit_eq_mult)
lemma bit_0xFF000000: "(0xFF000000 :: 'a::len word) = push_bit 24 (mask 8)" by (simp add: mask_numeral push_bit_eq_mult)
lemma bit_0xFFFFFFFF: "(0xFFFFFFFF :: 'a::len word) = mask 32" by (simp add: mask_numeral push_bit_eq_mult)

lemmas byte_masks = bit_0xFF bit_0xFF00 bit_0xFF0000 bit_0xFF000000 bit_0xFFFFFFFF

lemma bytes_of_word_of_bytes:
  assumes "8 * length bs \<le> LENGTH('a)"
  shows "bytes_of_word (length bs) (word_of_bytes bs :: 'a::len word) = bs"
proof (rule nth_equalityI)
  fix i assume i: "i < length (bytes_of_word (length bs) (word_of_bytes bs :: 'a::len word))"
  show "bytes_of_word (length bs) (word_of_bytes bs :: 'a word) ! i = bs ! i"
  proof (rule bit_word_eqI)
    fix n assume "n < LENGTH(8)"
    then have "(8 * i + n) div 8 = i" "(8 * i + n) mod 8 = n" "8 * i + n < LENGTH('a)"
      using i assms by (auto simp: bytes_of_word_def)
    then show "bit (bytes_of_word (length bs) (word_of_bytes bs :: 'a word) ! i) n = bit (bs ! i) n"
      using i \<open>n < LENGTH(8)\<close> by (auto simp: bytes_of_word_def bit_simps bit_word_of_bytes)
  qed
qed (simp add: bytes_of_word_def)

lemma bit_swap_helper_2: "bit (swap_helper_2 w) n \<longleftrightarrow> n < 16 \<and> bit w (if n < 8 then 8 + n else n - 8)"
  by (auto simp: swap_helper_2_def byte_masks bit_simps)

lemma bit_swap_helper_4:
  "bit (swap_helper_4 w) n \<longleftrightarrow> n < 32 \<and>
     bit w (if n < 8 then 24 + n else if n < 16 then 8 + n else if n < 24 then n - 8 else n - 24)"
  by (auto simp: swap_helper_4_def byte_masks bit_simps)

lemma bit_swap_helper_8:
  "bit (swap_helper_8 w) n \<longleftrightarrow> n < 64 \<and>
     bit w (if n < 8 then 56 + n else if n < 16 then 40 + n else if n < 24 then 24 + n else if n < 32 then 8 + n
       else if n < 40 then n - 8 else if n < 48 then n - 24 else if n < 56 then n - 40 else n - 56)"
  by (auto simp: swap_helper_8_def Let_def byte_masks bit_simps bit_swap_helper_4)

lemma numeral_index: "Suc (Suc 0) = 2" "Suc 2 = 3" "Suc 3 = 4" "Suc 4 = 5" "Suc 5 = 6" "Suc 6 = 7"
  by simp_all

lemmas swap_bits = bit_word_of_bytes rev_nth div_if le_mod_geq numeral_index

lemma swap_helper_2_rev: "length bs = 2 \<Longrightarrow> swap_helper_2 (word_of_bytes bs) = word_of_bytes (rev bs)"
  by (rule bit_word_eqI) (auto simp: bit_swap_helper_2 swap_bits)

lemma swap_helper_4_rev: "length bs = 4 \<Longrightarrow> swap_helper_4 (word_of_bytes bs) = word_of_bytes (rev bs)"
  by (rule bit_word_eqI) (auto simp: bit_swap_helper_4 swap_bits)

lemma swap_helper_8_rev: "length bs = 8 \<Longrightarrow> swap_helper_8 (word_of_bytes bs) = word_of_bytes (rev bs)"
  by (rule bit_word_eqI) (auto simp: bit_swap_helper_8 swap_bits)

text \<open>\<open>Endian::swap\<close> on an object of 1, 2, 4 or 8 bytes.\<close>

definition Endian_swap :: "byte list \<Rightarrow> byte list" where
  "Endian_swap bs =
     (if length bs = 2 then bytes_of_word 2 (swap_helper_2 (word_of_bytes bs))
      else if length bs = 4 then bytes_of_word 4 (swap_helper_4 (word_of_bytes bs))
      else if length bs = 8 then bytes_of_word 8 (swap_helper_8 (word_of_bytes bs))
      else bs)"

section \<open>Swapping in place\<close>

definition swap_at :: "nat \<Rightarrow> memory \<Rightarrow> nat \<Rightarrow> unit visit_result" where
  "swap_at n mem offset =
     bind_result (read_bytes mem offset n) (\<lambda>bs.
     bind_result (write_bytes mem offset (Endian_swap bs)) (\<lambda>mem'. Inr (True, mem', ())))"

text \<open>\<open>Enum::integral_type\<close> is \<open>int\<close>.\<close>

definition SizeOfEnum :: nat where "SizeOfEnum = 4"

definition EndianSwapVisitor :: "unit ValueVisitor" where
  "EndianSwapVisitor =
     \<lparr>on_numeric = (\<lambda>_ n mem offset _. swap_at n mem offset),
      on_enum = (\<lambda>_ mem offset _. swap_at SizeOfEnum mem offset),
      on_pointer = (\<lambda>_ _ _ _ _. Inl UnsupportedEndianSwap),
      on_container = default_container,
      on_field = default_field\<rparr>"

definition endian_swap :: "store \<Rightarrow> tid \<Rightarrow> memory \<Rightarrow> nat \<Rightarrow> memory result" where
  "endian_swap st t mem offset =
     bind_result (apply_value st EndianSwapVisitor t mem offset ()) (\<lambda>(mem', _). Inr mem')"

section \<open>Compiling a type\<close>

definition SWAP_FLAG_SKIP :: nat where "SWAP_FLAG_SKIP = 2 ^ 64 - 1"

definition SWAP_FLAG_ARRAY :: nat where "SWAP_FLAG_ARRAY = 2 ^ 64 - 2"

definition SWAP_FLAG_END :: nat where "SWAP_FLAG_END = 2 ^ 64 - 3"

definition FLAG_SWAP_4 :: nat where "FLAG_SWAP_4 = 2 ^ 64 - 4"

definition FLAG_SWAP_8 :: nat where "FLAG_SWAP_8 = 2 ^ 64 - 5"

lemmas swap_flags = SWAP_FLAG_SKIP_def SWAP_FLAG_ARRAY_def SWAP_FLAG_END_def FLAG_SWAP_4_def FLAG_SWAP_8_def

record CompileEndianSwapVisitor =
  m_output_index :: nat
  m_compiled :: "nat list"

definition push_swap :: "CompileEndianSwapVisitor \<Rightarrow> nat list \<Rightarrow> CompileEndianSwapVisitor" where
  "push_swap s xs = s\<lparr>m_compiled := m_compiled s @ xs\<rparr>"

text \<open>\<open>skip\<close> takes an \<open>int\<close>, which is converted back to \<open>size_t\<close> when it is stored.\<close>

definition swap_skip :: "CompileEndianSwapVisitor \<Rightarrow> int \<Rightarrow> CompileEndianSwapVisitor" where
  "swap_skip s skip_size =
     (let c = m_compiled s; n = length c in
      if n > 1 \<and> c ! (n - 2) = SWAP_FLAG_SKIP
      then s\<lparr>m_compiled := c[n - 1 := nat ((int (c ! (n - 1)) + skip_size) mod 2 ^ 64)]\<rparr>
      else push_swap s [SWAP_FLAG_SKIP, nat (skip_size mod 2 ^ 64)])"

definition swap_Numeric :: "Type \<Rightarrow> CompileEndianSwapVisitor \<Rightarrow> CompileEndianSwapVisitor result" where
  "swap_Numeric obj s =
     (if ty_size obj = 1 then Inr (swap_skip s 1)
      else if ty_size obj = 2 then Inr (push_swap s [m_output_index s + 1, m_output_index s])
      else if ty_size obj = 4 then Inr (push_swap s [FLAG_SWAP_4])
      else if ty_size obj = 8 then Inr (push_swap s [FLAG_SWAP_8])
      else Inl UnsupportedEndianSwap)"

definition swap_Enum :: "CompileEndianSwapVisitor \<Rightarrow> CompileEndianSwapVisitor result" where
  "swap_Enum s = Inr (push_swap s (map (\<lambda>i. m_output_index s + i) (rev [0..<SizeOfEnum])))"

type_synonym compile_fun = "tid \<Rightarrow> CompileEndianSwapVisitor \<Rightarrow> CompileEndianSwapVisitor result"

definition swap_Array :: "store \<Rightarrow> compile_fun \<Rightarrow> nat \<Rightarrow> tid \<Rightarrow> CompileEndianSwapVisitor \<Rightarrow> CompileEndianSwapVisitor result" where
  "swap_Array st compile dim on s =
     (if getCategory_of (ty_kind (type_at st on)) = CatArray then
        let current_size = length (m_compiled s) in
        bind_result (compile on s) (\<lambda>s'.
        Inr (s'\<lparr>m_compiled := (m_compiled s')[current_size + 1 := m_compiled s' ! (current_size + 1) * dim]\<rparr>))
      else
        let s1 = push_swap s [SWAP_FLAG_ARRAY, dim, ty_size (type_at st on)];
            current_size = length (m_compiled s1)
        in bind_result (compile on s1) (\<lambda>s2.
           let c = m_compiled s2 in
           if length c = current_size + 2 \<and> c ! current_size = SWAP_FLAG_SKIP
           then Inr (s2\<lparr>m_compiled := butlast (butlast (butlast
             (c[current_size - 3 := SWAP_FLAG_SKIP, current_size - 2 := c ! (current_size + 1) * dim])))\<rparr>)
           else Inr (push_swap s2 [SWAP_FLAG_END])))"

definition swap_field :: "store \<Rightarrow> compile_fun \<Rightarrow> nat \<Rightarrow> CompileEndianSwapVisitor \<Rightarrow> Field \<Rightarrow> CompileEndianSwapVisitor result" where
  "swap_field st compile base_index s f =
     (let new_index = base_index + fld_offset f in
      if new_index < m_output_index s then Inr s
      else
        let s1 = (if new_index > m_output_index s then swap_skip s (to_int32 (new_index - m_output_index s)) else s)
        in bind_result (compile (fld_type f) (s1\<lparr>m_output_index := new_index\<rparr>)) (\<lambda>s2.
           Inr (s2\<lparr>m_output_index := new_index + ty_size (type_at st (fld_type f))\<rparr>)))"

definition swap_Compound :: "store \<Rightarrow> compile_fun \<Rightarrow> Field list \<Rightarrow> CompileEndianSwapVisitor \<Rightarrow> CompileEndianSwapVisitor result" where
  "swap_Compound st compile flds s = fold_result (swap_field st compile (m_output_index s)) s flds"

text \<open>The dispatch of the type visitor; the fuel bounds the nesting of types.\<close>

fun compile_swap :: "nat \<Rightarrow> store \<Rightarrow> compile_fun" where
  "compile_swap 0 st t s = Inl OutOfFuel"
| "compile_swap (Suc fuel) st t s =
    (let obj = type_at st t in
     case ty_kind obj of
       NullType \<Rightarrow> Inl (NullTypeFound (ty_name obj))
     | Numeric _ \<Rightarrow> swap_Numeric obj s
     | Enum _ _ \<Rightarrow> swap_Enum s
     | Array dim on \<Rightarrow> swap_Array st (compile_swap fuel st) dim on s
     | Compound flds \<Rightarrow> swap_Compound st (compile_swap fuel st) flds s
     | _ \<Rightarrow> Inl UnsupportedEndianSwap)"

definition compile_apply :: "store \<Rightarrow> tid \<Rightarrow> nat list result" where
  "compile_apply st t =
     bind_result (compile_swap (Suc (next_id st)) st t \<lparr>m_output_index = 0, m_compiled = []\<rparr>) (\<lambda>s. Inr (m_compiled s))"

section \<open>Running the compiled program\<close>

definition copy_swapped :: "(byte list \<Rightarrow> byte list) \<Rightarrow> memory \<Rightarrow> nat \<Rightarrow> nat \<Rightarrow> memory \<Rightarrow> nat \<Rightarrow> memory result" where
  "copy_swapped f input from n output to =
     bind_result (read_bytes input from n) (\<lambda>bs. write_bytes output to (f bs))"

text \<open>
  \<open>array_end\<close> is not initialized when an array has no elements. The fuel bounds the number of
  operations.
\<close>

fun swap_loop :: "nat \<Rightarrow> memory \<Rightarrow> memory \<Rightarrow> nat \<Rightarrow> nat \<Rightarrow> nat list \<Rightarrow> ((memory \<times> nat) \<times> nat list) result" where
  "swap_loop 0 input output output_offset input_offset it = Inl OutOfFuel"
| "swap_loop (Suc fuel) input output output_offset input_offset it =
     (case it of
        [] \<Rightarrow> Inr ((output, output_offset), [])
      | op # rest \<Rightarrow>
        if op = SWAP_FLAG_SKIP then
          with_operand rest (\<lambda>skip_size rest'.
          bind_result (copy_swapped id input output_offset skip_size output output_offset) (\<lambda>output'.
          swap_loop fuel input output' (output_offset + skip_size) input_offset rest'))
        else if op = FLAG_SWAP_4 then
          bind_result (copy_swapped Endian_swap input output_offset 4 output output_offset) (\<lambda>output'.
          swap_loop fuel input output' (output_offset + 4) input_offset rest)
        else if op = FLAG_SWAP_8 then
          bind_result (copy_swapped Endian_swap input output_offset 8 output output_offset) (\<lambda>output'.
          swap_loop fuel input output' (output_offset + 8) input_offset rest)
        else if op = SWAP_FLAG_ARRAY then
          with_operand rest (\<lambda>array_size rest1. with_operand rest1 (\<lambda>element_size rest2.
          if array_size = 0 then Inl UndefinedBehaviour
          else bind_result (fold_result (\<lambda>((output', offset), _) i.
              swap_loop fuel input output' offset (input_offset + element_size * i) rest2)
              ((output, output_offset), rest2) [0..<array_size]) (\<lambda>((output', offset), array_end).
            step_over array_end (swap_loop fuel input output' offset input_offset))))
        else if op = SWAP_FLAG_END then Inr ((output, output_offset), it)
        else
          bind_result (copy_swapped id input (input_offset + op) 1 output output_offset) (\<lambda>output'.
          swap_loop fuel input output' (output_offset + 1) input_offset rest))"

declare swap_loop.simps(2) [simp del]

definition compiled_swap :: "nat list \<Rightarrow> memory \<Rightarrow> memory \<Rightarrow> memory result" where
  "compiled_swap compiled input output =
     bind_result (swap_loop (Suc (length compiled)) input output 0 0 compiled) (\<lambda>((output', _), _). Inr output')"

end
