(* ===== verification/EndianCorrect.thy ===== *)
theory EndianCorrect
  imports Endianness
begin

text \<open>
  The correctness of endianness conversion. Both the visitor and the compiled program permute
  the bytes of a value; \<open>swap_source\<close> is this permutation, as the list of the positions the
  bytes are taken from, straight from the definition of the type. The compiled program is read
  as a list of operations \<open>eop\<close> with the same kind of meaning.
\<close>

section \<open>Byte buffers\<close>

definition overwrite :: "'a list \<Rightarrow> nat \<Rightarrow> 'a list \<Rightarrow> 'a list" where
  "overwrite bs offset xs = take offset bs @ xs @ drop (offset + length xs) bs"

lemma length_overwrite [simp]: "offset + length xs \<le> length bs \<Longrightarrow> length (overwrite bs offset xs) = length bs"
  by (simp add: overwrite_def)

lemma overwrite_Nil [simp]: "overwrite bs offset [] = bs"
  by (simp add: overwrite_def)

lemma overwrite_append:
  "offset + length xs + length ys \<le> length bs \<Longrightarrow>
   overwrite (overwrite bs offset xs) (offset + length xs) ys = overwrite bs offset (xs @ ys)"
  by (simp add: overwrite_def ac_simps)

lemma nth_overwrite:
  "offset + length xs \<le> length bs \<Longrightarrow> i < length bs \<Longrightarrow>
   overwrite bs offset xs ! i = (if offset \<le> i \<and> i < offset + length xs then xs ! (i - offset) else bs ! i)"
  by (auto simp: overwrite_def nth_append min_def)

lemma read_bytes_Byte: "offset + n \<le> length bs \<Longrightarrow> read_bytes (map Byte bs) offset n = Inr (map ((!) bs) [offset..<offset + n])"
  by (auto simp: read_bytes_def slice_def list_all_iff take_map drop_map intro!: nth_equalityI)

lemma write_bytes_Byte:
  "offset + length xs \<le> length bs \<Longrightarrow> write_bytes (map Byte bs) offset xs = Inr (map Byte (overwrite bs offset xs))"
  by (auto simp: write_bytes_def slice_def splice_def overwrite_def list_all_iff take_map drop_map dest!: in_set_takeD in_set_dropD)

lemma Endian_swap_rev: "length bs \<in> {1, 2, 4, 8} \<Longrightarrow> Endian_swap bs = rev bs"
  using bytes_of_word_of_bytes[of "rev bs", where 'a=16] bytes_of_word_of_bytes[of "rev bs", where 'a=32]
    bytes_of_word_of_bytes[of "rev bs", where 'a=64]
  by (auto simp: Endian_swap_def swap_helper_2_rev swap_helper_4_rev swap_helper_8_rev length_Suc_conv)

section \<open>The permutation of a type\<close>

fun source_fields :: "store \<Rightarrow> (tid \<Rightarrow> nat \<Rightarrow> nat list) \<Rightarrow> nat \<Rightarrow> nat \<Rightarrow> Field list \<Rightarrow> nat list" where
  "source_fields st source base offset [] = []"
| "source_fields st source base offset (f # fs) =
     [base + offset..<base + fld_offset f] @ source (fld_type f) (base + fld_offset f) @
     source_fields st source base (fld_offset f + ty_size (type_at st (fld_type f))) fs"

fun source_upto :: "nat \<Rightarrow> store \<Rightarrow> tid \<Rightarrow> nat \<Rightarrow> nat list" where
  "source_upto 0 st t base = []"
| "source_upto (Suc fuel) st t base =
    (let obj = type_at st t in
     case ty_kind obj of
       Numeric _ \<Rightarrow> rev [base..<base + ty_size obj]
     | Enum _ _ \<Rightarrow> rev [base..<base + ty_size obj]
     | Array dim on \<Rightarrow> concat (map (\<lambda>j. source_upto fuel st on (base + j * ty_size (type_at st on))) [0..<dim])
     | Compound flds \<Rightarrow> source_fields st (source_upto fuel st) base 0 flds
     | _ \<Rightarrow> [])"

definition swap_source :: "store \<Rightarrow> tid \<Rightarrow> nat \<Rightarrow> nat list" where
  "swap_source st t base = source_upto (Suc (next_id st)) st t base"

text \<open>Where the last field of a type ends: its size without trailing padding.\<close>

definition extent :: "store \<Rightarrow> tid \<Rightarrow> nat" where
  "extent st t = (case ty_kind (type_at st t) of
     Compound flds \<Rightarrow> (if flds = [] then 0 else fld_offset (last flds) + ty_size (type_at st (fld_type (last flds))))
   | _ \<Rightarrow> ty_size (type_at st t))"

text \<open>
  The types that both conversions support and where no array element and no field has trailing
  padding.
\<close>

fun swappable_upto :: "nat \<Rightarrow> store \<Rightarrow> tid \<Rightarrow> bool" where
  "swappable_upto 0 st t = False"
| "swappable_upto (Suc fuel) st t =
    (let obj = type_at st t in
     case ty_kind obj of
       Numeric cat \<Rightarrow> ty_size obj \<in> (case cat of Float \<Rightarrow> {4, 8} | _ \<Rightarrow> {1, 2, 4, 8})
     | Enum _ _ \<Rightarrow> ty_size obj = SizeOfEnum
     | Array dim on \<Rightarrow> 0 < dim \<and> swappable_upto fuel st on \<and> extent st on = ty_size (type_at st on)
     | Compound flds \<Rightarrow> list_all (\<lambda>f. swappable_upto fuel st (fld_type f) \<and>
         extent st (fld_type f) = ty_size (type_at st (fld_type f))) flds
     | _ \<Rightarrow> False)"

definition swappable :: "store \<Rightarrow> tid \<Rightarrow> bool" where
  "swappable st t = swappable_upto (Suc (next_id st)) st t"

text \<open>A list of positions that takes the bytes of an interval to their place and back.\<close>

definition swaps :: "nat \<Rightarrow> nat list \<Rightarrow> bool" where
  "swaps base ks \<longleftrightarrow> (\<forall>i < length ks. base \<le> ks ! i \<and> ks ! i < base + length ks \<and> ks ! (ks ! i - base) = base + i)"

lemma swaps_Nil [simp]: "swaps base []"
  by (simp add: swaps_def)

lemma swaps_upt [simp]: "swaps base [base..<n]"
  by (auto simp: swaps_def)

lemma swaps_rev_upt [simp]: "swaps base (rev [base..<n])"
  by (auto simp: swaps_def rev_nth)

lemma swaps_append:
  assumes "swaps base xs" and "swaps (base + length xs) ys"
  shows "swaps base (xs @ ys)"
  unfolding swaps_def
proof (intro allI impI)
  fix i assume i: "i < length (xs @ ys)"
  show "base \<le> (xs @ ys) ! i \<and> (xs @ ys) ! i < base + length (xs @ ys) \<and> (xs @ ys) ! ((xs @ ys) ! i - base) = base + i"
  proof (cases "i < length xs")
    case True
    then have "base \<le> xs ! i" "xs ! i < base + length xs" "xs ! (xs ! i - base) = base + i"
      using assms(1) by (auto simp: swaps_def)
    then show ?thesis using True by (auto simp: nth_append)
  next
    case False
    let ?j = "i - length xs"
    have "?j < length ys" using i False by simp
    then have "base + length xs \<le> ys ! ?j" "ys ! ?j < base + length xs + length ys"
      "ys ! (ys ! ?j - (base + length xs)) = base + length xs + ?j"
      using assms(2) by (auto simp: swaps_def)
    then show ?thesis using False by (auto simp: nth_append)
  qed
qed

lemma swaps_set: "swaps base ks \<Longrightarrow> set ks \<subseteq> {base..<base + length ks}"
  by (auto simp: swaps_def in_set_conv_nth)

lemma swaps_concat:
  assumes "\<And>j. j < n \<Longrightarrow> swaps (base + j * m) (f j) \<and> length (f j) = m"
  shows "swaps base (concat (map f [0..<n])) \<and> length (concat (map f [0..<n])) = n * m"
  using assms
proof (induction n)
  case (Suc n)
  have "swaps base (concat (map f [0..<n])) \<and> length (concat (map f [0..<n])) = n * m"
    by (rule Suc.IH) (use Suc.prems in simp)
  moreover have "swaps (base + n * m) (f n)" "length (f n) = m" using Suc.prems[of n] by simp_all
  ultimately show ?case by (simp add: swaps_append)
qed simp

fun fields_end :: "store \<Rightarrow> nat \<Rightarrow> Field list \<Rightarrow> nat" where
  "fields_end st offset [] = offset"
| "fields_end st offset (f # fs) = fields_end st (fld_offset f + ty_size (type_at st (fld_type f))) fs"

lemma fields_end_last:
  "flds \<noteq> [] \<Longrightarrow> fields_end st offset flds = fld_offset (last flds) + ty_size (type_at st (fld_type (last flds)))"
  by (induction flds arbitrary: offset) auto

lemma fields_end_bounds: "fields_in_order st offset flds sz \<Longrightarrow> offset \<le> fields_end st offset flds \<and> fields_end st offset flds \<le> sz"
  by (induction flds arbitrary: offset) force+

lemma extent_Compound: "ty_kind (type_at st t) = Compound flds \<Longrightarrow> extent st t = fields_end st 0 flds"
  by (simp add: extent_def fields_end_last)

lemma source_fields_swaps:
  assumes "\<And>f base. f \<in> set flds \<Longrightarrow> swaps base (source (fld_type f) base) \<and> length (source (fld_type f) base) = ty_size (type_at st (fld_type f))"
    and "fields_in_order st offset flds sz"
  shows "swaps (base + offset) (source_fields st source base offset flds) \<and>
    length (source_fields st source base offset flds) = fields_end st offset flds - offset"
  using assms
proof (induction flds arbitrary: offset)
  case (Cons f fs)
  let ?off = "fld_offset f" and ?sz = "ty_size (type_at st (fld_type f))"
  have field: "swaps (base + ?off) (source (fld_type f) (base + ?off))" "length (source (fld_type f) (base + ?off)) = ?sz"
    using Cons.prems(1)[of f "base + ?off"] by simp_all
  have rest: "swaps (base + (?off + ?sz)) (source_fields st source base (?off + ?sz) fs)"
    "length (source_fields st source base (?off + ?sz) fs) = fields_end st (?off + ?sz) fs - (?off + ?sz)"
    using Cons.IH[of "?off + ?sz"] Cons.prems by auto
  have le: "offset \<le> ?off" "?off + ?sz \<le> fields_end st (?off + ?sz) fs"
    using Cons.prems(2) fields_end_bounds[of st "?off + ?sz" fs sz] by auto
  have "swaps (base + ?off) (source (fld_type f) (base + ?off) @ source_fields st source base (?off + ?sz) fs)"
    using field rest by (intro swaps_append) (simp_all add: add.assoc)
  then have "swaps (base + offset) ([base + offset..<base + ?off] @ source (fld_type f) (base + ?off) @ source_fields st source base (?off + ?sz) fs)"
    using le by (intro swaps_append[of _ "[base + offset..<base + ?off]"]) simp_all
  then show ?case using field rest le by simp
qed simp

lemma source_swaps:
  assumes "well_laid st" and "t \<in> dom (objects st)" and "swappable_upto fuel st t"
  shows "swaps base (source_upto fuel st t base) \<and> length (source_upto fuel st t base) = extent st t"
  using assms(2,3)
proof (induction fuel arbitrary: t base)
  case (Suc fuel)
  note laid = well_laidD[OF assms(1) Suc.prems(1)]
  show ?case
  proof (cases "ty_kind (type_at st t)")
    case (Array dim on)
    have "swaps (base + j * ty_size (type_at st on)) (source_upto fuel st on (base + j * ty_size (type_at st on))) \<and>
        length (source_upto fuel st on (base + j * ty_size (type_at st on))) = ty_size (type_at st on)" for j
      using Suc.IH[of on "base + j * ty_size (type_at st on)"] Suc.prems laid(1) Array by simp
    then show ?thesis using swaps_concat[of dim base "ty_size (type_at st on)"] Array laid(2)[OF Array]
      by (simp add: extent_def)
  next
    case (Compound flds)
    have "swaps base' (source_upto fuel st (fld_type f) base') \<and>
        length (source_upto fuel st (fld_type f) base') = ty_size (type_at st (fld_type f))" if "f \<in> set flds" for f base'
      using Suc.IH[of "fld_type f" base'] Suc.prems laid(1) Compound that by (auto simp: list_all_iff)
    from source_fields_swaps[OF this laid(3)[OF Compound], of base]
    show ?thesis using Compound by (simp add: extent_Compound)
  qed (use Suc.prems in \<open>simp_all add: extent_def\<close>)
qed simp

lemma map_add_upt: "map ((+) k) [m..<n] = [m + k..<n + (k::nat)]"
  by (induction n) auto

lemma map_upt_add: "map (\<lambda>a. a + k) [m..<n] = [m + k..<n + (k::nat)]"
  by (induction n) auto

lemma source_fields_shift:
  assumes "\<And>t b. source t (b + k) = map ((+) k) (source t b)"
  shows "source_fields st source (base + k) offset flds = map ((+) k) (source_fields st source base offset flds)"
proof (induction flds arbitrary: offset)
  case (Cons f fs)
  have "[base + k + offset..<base + k + fld_offset f] = map ((+) k) [base + offset..<base + fld_offset f]"
    unfolding map_add_upt by (simp add: ac_simps)
  then show ?case using Cons assms[of "fld_type f" "base + fld_offset f"] by (simp add: ac_simps)
qed simp

lemma source_shift: "source_upto fuel st t (base + k) = map ((+) k) (source_upto fuel st t base)"
proof (induction fuel arbitrary: t base)
  case (Suc fuel)
  show ?case
  proof (cases "ty_kind (type_at st t)")
    case (Array dim on)
    have "source_upto fuel st on (base + k + j * n) = map ((+) k) (source_upto fuel st on (base + j * n))" for j n
      using Suc[of on "base + j * n"] by (simp add: ac_simps)
    then show ?thesis using Array by (simp add: map_concat comp_def)
  next
    case (Compound flds)
    then show ?thesis using source_fields_shift[of "source_upto fuel st" k, OF Suc] by simp
  qed (simp_all add: rev_map[symmetric] map_upt_add ac_simps)
qed simp

section \<open>The visitor\<close>

lemma swap_at_bytes:
  assumes "n \<in> {1, 2, 4, 8}" and "offset + n \<le> length bs"
  shows "swap_at n (map Byte bs) offset =
    Inr (True, map Byte (overwrite bs offset (map ((!) bs) (rev [offset..<offset + n]))), ())"
  using assms Endian_swap_rev[of "map ((!) bs) [offset..<offset + n]"]
  by (simp add: swap_at_def read_bytes_Byte write_bytes_Byte rev_map)

lemma overwrite_next:
  assumes "base + length ks \<le> pos" and "set ms \<subseteq> {pos..<pos + length ms}" and "pos + length ms \<le> length bs"
  shows "(let bs' = overwrite bs base (map ((!) bs) ks) in overwrite bs' pos (map ((!) bs') ms)) =
    overwrite bs base (map ((!) bs) (ks @ [base + length ks..<pos] @ ms))"
proof -
  let ?bs = "overwrite bs base (map ((!) bs) ks)"
  have len: "length ?bs = length bs" using assms by simp
  have same: "map ((!) ?bs) ms = map ((!) bs) ms"
    using assms by (auto simp: nth_overwrite subset_iff)
  have "overwrite ?bs pos (map ((!) bs) ms) = overwrite bs base (map ((!) bs) (ks @ [base + length ks..<pos] @ ms))"
    using assms len by (intro nth_equalityI) (auto simp: nth_overwrite nth_append)
  then show ?thesis by (simp add: Let_def same del: map_append)
qed

lemma visit_while_append:
  "visit_while f (xs @ ys) mem s = bind_result (visit_while f xs mem s) (\<lambda>(continue, mem', s').
     if continue then visit_while f ys mem' s' else Inr (False, mem', s'))"
  by (induction xs arbitrary: mem s) (auto simp: bind_result_def split: sum.splits)

lemma visit_fields_source:
  assumes step: "\<And>f offset bs. f \<in> set flds \<Longrightarrow> offset + ty_size (type_at st (fld_type f)) \<le> length bs \<Longrightarrow>
      d (fld_type f) (map Byte bs) offset () = Inr (True, map Byte (overwrite bs offset (map ((!) bs) (source (fld_type f) offset))), ())"
    and source: "\<And>f b. f \<in> set flds \<Longrightarrow> swaps b (source (fld_type f) b) \<and> length (source (fld_type f) b) = ty_size (type_at st (fld_type f))"
    and order: "fields_in_order st offset flds sz" and "base + sz \<le> length bs" and "length ks = offset"
  shows "visit_while (\<lambda>f mem s. default_field d f mem (base + fld_offset f) s) flds
      (map Byte (overwrite bs base (map ((!) bs) ks))) () =
    Inr (True, map Byte (overwrite bs base (map ((!) bs) (ks @ source_fields st source base offset flds))), ())"
  using step source order assms(5)
proof (induction flds arbitrary: offset ks)
  case (Cons f fs)
  let ?pos = "fld_offset f" and ?sz = "ty_size (type_at st (fld_type f))"
  let ?ms = "source (fld_type f) (base + ?pos)" and ?bs = "overwrite bs base (map ((!) bs) ks)"
  let ?ks = "ks @ [base + offset..<base + ?pos] @ ?ms"
  have ms: "swaps (base + ?pos) ?ms" "length ?ms = ?sz" using Cons.prems(2)[of f "base + ?pos"] by simp_all
  have order: "offset \<le> ?pos" "fields_in_order st (?pos + ?sz) fs sz" using Cons.prems(3) by simp_all
  then have fits: "base + ?pos + ?sz \<le> length bs" using fields_end_bounds[of st "?pos + ?sz" fs sz] assms(4) by simp
  have "d (fld_type f) (map Byte ?bs) (base + ?pos) () = Inr (True, map Byte (overwrite ?bs (base + ?pos) (map ((!) ?bs) ?ms)), ())"
    by (rule Cons.prems(1)) (use fits order Cons.prems(4) in simp_all)
  also have "overwrite ?bs (base + ?pos) (map ((!) ?bs) ?ms) = overwrite bs base (map ((!) bs) ?ks)"
    using overwrite_next[of base ks "base + ?pos" ?ms bs] fits order Cons.prems(4) ms swaps_set[OF ms(1)] by (simp add: Let_def)
  finally have "d (fld_type f) (map Byte ?bs) (base + ?pos) () = Inr (True, map Byte (overwrite bs base (map ((!) bs) ?ks)), ())" .
  moreover have "visit_while (\<lambda>f mem s. default_field d f mem (base + fld_offset f) s) fs
      (map Byte (overwrite bs base (map ((!) bs) ?ks))) () =
    Inr (True, map Byte (overwrite bs base (map ((!) bs) (?ks @ source_fields st source base (?pos + ?sz) fs))), ())"
    by (rule Cons.IH) (use Cons.prems order ms in simp_all)
  ultimately show ?case by (simp add: default_field_def)
qed simp

lemma visit_array_source:
  assumes step: "\<And>offset bs. offset + m \<le> length bs \<Longrightarrow>
      d (map Byte bs) offset () = Inr (True, map Byte (overwrite bs offset (map ((!) bs) (source offset))), ())"
    and source: "\<And>b. swaps b (source b) \<and> length (source b) = m" and "base + n * m \<le> length bs"
  shows "visit_while (\<lambda>i mem s. d mem (base + m * i) s) [0..<n] (map Byte bs) () =
    Inr (True, map Byte (overwrite bs base (map ((!) bs) (concat (map (\<lambda>j. source (base + j * m)) [0..<n])))), ())"
  using assms(3)
proof (induction n)
  case (Suc n)
  let ?ks = "concat (map (\<lambda>j. source (base + j * m)) [0..<n])"
  have ks: "length ?ks = n * m" using swaps_concat[of n base m "\<lambda>j. source (base + j * m)"] source by simp
  have "overwrite (overwrite bs base (map ((!) bs) ?ks)) (base + n * m)
      (map ((!) (overwrite bs base (map ((!) bs) ?ks))) (source (base + n * m))) =
    overwrite bs base (map ((!) bs) (?ks @ source (base + n * m)))"
    using overwrite_next[of base ?ks "base + n * m" "source (base + n * m)" bs] Suc.prems ks source[of "base + n * m"]
      swaps_set[of "base + n * m" "source (base + n * m)"]
    by (simp add: Let_def add.assoc)
  then have "d (map Byte (overwrite bs base (map ((!) bs) ?ks))) (base + m * n) () =
      Inr (True, map Byte (overwrite bs base (map ((!) bs) (?ks @ source (base + n * m)))), ())"
    using step[of "base + n * m" "overwrite bs base (map ((!) bs) ?ks)"] Suc.prems ks
    by (simp add: mult.commute[of m n] del: map_append)
  moreover have "visit_while (\<lambda>i mem s. d mem (base + m * i) s) [0..<n] (map Byte bs) () =
      Inr (True, map Byte (overwrite bs base (map ((!) bs) ?ks)), ())"
    by (rule Suc.IH) (use Suc.prems in simp)
  ultimately show ?case by (simp add: visit_while_append)
qed simp

lemma visitor_source:
  assumes "well_laid st" and "t \<in> dom (objects st)" and "swappable_upto fuel st t"
    and "offset + ty_size (type_at st t) \<le> length bs"
  shows "dispatch_value fuel st EndianSwapVisitor t (map Byte bs) offset () =
    Inr (True, map Byte (overwrite bs offset (map ((!) bs) (source_upto fuel st t offset))), ())"
  using assms(2-4)
proof (induction fuel arbitrary: t bs offset)
  case (Suc fuel)
  note laid = well_laidD[OF assms(1) Suc.prems(1)]
  show ?case
  proof (cases "ty_kind (type_at st t)")
    case (Array dim on)
    have on: "on \<in> dom (objects st)" "swappable_upto fuel st on" "extent st on = ty_size (type_at st on)"
      using Suc.prems laid(1) Array by simp_all
    have "visit_while (\<lambda>i mem s. dispatch_value fuel st EndianSwapVisitor on mem (offset + ty_size (type_at st on) * i) s)
        [0..<dim] (map Byte bs) () = Inr (True, map Byte (overwrite bs offset (map ((!) bs)
          (concat (map (\<lambda>j. source_upto fuel st on (offset + j * ty_size (type_at st on))) [0..<dim])))), ())"
    proof (rule visit_array_source)
      show "offset + dim * ty_size (type_at st on) \<le> length bs" using Suc.prems(3) laid(2)[OF Array] by simp
    qed (use Suc.IH[OF on(1,2)] source_swaps[OF assms(1) on(1,2)] on(3) in auto)
    then show ?thesis using Array by (simp add: visit_value_Array_def)
  next
    case (Compound flds)
    have field: "fld_type f \<in> dom (objects st)" "swappable_upto fuel st (fld_type f)"
      "extent st (fld_type f) = ty_size (type_at st (fld_type f))" if "f \<in> set flds" for f
      using Suc.prems laid(1) Compound that by (auto simp: list_all_iff)
    have "visit_while (\<lambda>f mem s. default_field (dispatch_value fuel st EndianSwapVisitor) f mem (offset + fld_offset f) s) flds
        (map Byte (overwrite bs offset (map ((!) bs) []))) () =
      Inr (True, map Byte (overwrite bs offset (map ((!) bs) ([] @ source_fields st (source_upto fuel st) offset 0 flds))), ())"
      by (rule visit_fields_source[OF _ _ laid(3)[OF Compound] Suc.prems(3)])
        (use Suc.IH[OF field(1,2)] source_swaps[OF assms(1) field(1,2)] field(3) in auto)
    then show ?thesis using Compound by (simp add: visit_value_Compound_def EndianSwapVisitor_def)
  qed (use Suc.prems swap_at_bytes[of "ty_size (type_at st t)" offset bs] in
      \<open>auto simp: dispatch_Numeric_def EndianSwapVisitor_def SizeOfEnum_def split: NumericCategory.splits\<close>)
qed simp

section \<open>The meaning of the compiled program\<close>

datatype eop = ESkip nat | ESwap4 | ESwap8 | EIndex nat | EArray nat nat "eop list"

fun eop_code :: "eop \<Rightarrow> nat list" and eops_code :: "eop list \<Rightarrow> nat list" where
  "eop_code (ESkip n) = [SWAP_FLAG_SKIP, n]"
| "eop_code ESwap4 = [FLAG_SWAP_4]"
| "eop_code ESwap8 = [FLAG_SWAP_8]"
| "eop_code (EIndex k) = [k]"
| "eop_code (EArray dim m xs) = [SWAP_FLAG_ARRAY, dim, m] @ eops_code xs @ [SWAP_FLAG_END]"
| "eops_code [] = []"
| "eops_code (x # xs) = eop_code x @ eops_code xs"

fun eop_length :: "eop \<Rightarrow> nat" and eops_length :: "eop list \<Rightarrow> nat" where
  "eop_length (ESkip n) = n"
| "eop_length ESwap4 = 4"
| "eop_length ESwap8 = 8"
| "eop_length (EIndex k) = 1"
| "eop_length (EArray dim m xs) = dim * eops_length xs"
| "eops_length [] = 0"
| "eops_length (x # xs) = eop_length x + eops_length xs"

text \<open>The positions the bytes are copied from, at an offset of the output and of the input.\<close>

fun eop_source :: "eop \<Rightarrow> nat \<Rightarrow> nat \<Rightarrow> nat list" and eops_source :: "eop list \<Rightarrow> nat \<Rightarrow> nat \<Rightarrow> nat list" where
  "eop_source (ESkip n) to from = [to..<to + n]"
| "eop_source ESwap4 to from = rev [to..<to + 4]"
| "eop_source ESwap8 to from = rev [to..<to + 8]"
| "eop_source (EIndex k) to from = [from + k]"
| "eop_source (EArray dim m xs) to from =
     concat (map (\<lambda>j. eops_source xs (to + j * eops_length xs) (from + m * j)) [0..<dim])"
| "eops_source [] to from = []"
| "eops_source (x # xs) to from = eop_source x to from @ eops_source xs (to + eop_length x) from"

lemma length_eop_source:
  "length (eop_source x to from) = eop_length x" "length (eops_source xs to from) = eops_length xs"
proof (induction x to "from" and xs to "from" rule: eop_source_eops_source.induct)
  case (5 dim m xs to "from")
  have "map (\<lambda>j. length (eops_source xs (to + j * eops_length xs) (from + m * j))) [0..<dim] = replicate dim (eops_length xs)"
    using 5 by (intro nth_equalityI) simp_all
  then show ?case by (simp add: length_concat comp_def sum_list_replicate)
qed simp_all

lemma eops_append [simp]:
  "eops_code (xs @ ys) = eops_code xs @ eops_code ys"
  "eops_length (xs @ ys) = eops_length xs + eops_length ys"
  "eops_source (xs @ ys) to from = eops_source xs to from @ eops_source ys (to + eops_length xs) from"
  by (induction xs arbitrary: to) (simp_all add: add.assoc)

text \<open>Operands that no flag can be confused with, skips and arrays that are not empty.\<close>

fun eop_ok :: "eop \<Rightarrow> bool" where
  "eop_ok (ESkip n) = (0 < n \<and> n < 2 ^ 62)"
| "eop_ok (EIndex k) = (k < 2 ^ 62)"
| "eop_ok (EArray dim m xs) = (0 < dim \<and> dim < 2 ^ 62 \<and> m < 2 ^ 62 \<and> list_all eop_ok xs)"
| "eop_ok _ = True"

text \<open>The fuel an operation needs beyond one step.\<close>

fun eop_need :: "eop \<Rightarrow> nat" and eops_need :: "eop list \<Rightarrow> nat" where
  "eop_need (EArray dim m xs) = Suc (length xs + eops_need xs)"
| "eop_need _ = 0"
| "eops_need [] = 0"
| "eops_need (x # xs) = eop_need x + eops_need xs"

lemma eop_need_code: "Suc (eop_need x) \<le> length (eop_code x)" "length xs + eops_need xs \<le> length (eops_code xs)"
  by (induction x and xs rule: eop_code_eops_code.induct) auto

lemma copy_swapped_bytes:
  assumes "from + n \<le> length inp" "to + n \<le> length out" "\<And>bs. length (f bs) = length bs"
  shows "copy_swapped f (map Byte inp) from n (map Byte out) to =
    Inr (map Byte (overwrite out to (f (map ((!) inp) [from..<from + n]))))"
  using assms by (simp add: copy_swapped_def read_bytes_Byte write_bytes_Byte)

lemma length_Endian_swap [simp]: "length (Endian_swap bs) = length bs"
  by (simp add: Endian_swap_def bytes_of_word_def)

definition runs :: "byte list \<Rightarrow> eop list \<Rightarrow> bool" where
  "runs inp xs \<longleftrightarrow> (\<forall>fuel out to from rest. eops_need xs \<le> fuel \<longrightarrow> to + eops_length xs \<le> length out \<longrightarrow> set (eops_source xs to from) \<subseteq> {..<length inp} \<longrightarrow>
     swap_loop (fuel + length xs) (map Byte inp) (map Byte out) to from (eops_code xs @ rest) =
     swap_loop fuel (map Byte inp) (map Byte (overwrite out to (map ((!) inp) (eops_source xs to from)))) (to + eops_length xs) from rest)"

lemma runsD:
  assumes "runs inp xs" and "eops_need xs \<le> fuel" and "to + eops_length xs \<le> length out"
    and "set (eops_source xs to from) \<subseteq> {..<length inp}"
  shows "swap_loop (fuel + length xs) (map Byte inp) (map Byte out) to from (eops_code xs @ rest) =
     swap_loop fuel (map Byte inp) (map Byte (overwrite out to (map ((!) inp) (eops_source xs to from)))) (to + eops_length xs) from rest"
  using assms unfolding runs_def by blast

lemma run_array:
  assumes "runs inp xs" and "Suc (length xs + eops_need xs) \<le> fuel" and "to + dim * eops_length xs \<le> length out"
    and "set (concat (map (\<lambda>j. eops_source xs (to + j * eops_length xs) (from + m * j)) [0..<dim])) \<subseteq> {..<length inp}"
  shows "fold_result (\<lambda>((output', offset), _) i. swap_loop fuel (map Byte inp) output' offset (from + m * i) (eops_code xs @ SWAP_FLAG_END # rest))
      ((map Byte out, to), it) [0..<dim] =
    Inr ((map Byte (overwrite out to (map ((!) inp) (concat (map (\<lambda>j. eops_source xs (to + j * eops_length xs) (from + m * j)) [0..<dim])))),
      to + dim * eops_length xs), if dim = 0 then it else SWAP_FLAG_END # rest)"
  using assms(3,4)
proof (induction dim)
  case (Suc n)
  let ?src = "\<lambda>j. eops_source xs (to + j * eops_length xs) (from + m * j)"
  let ?out = "overwrite out to (map ((!) inp) (concat (map ?src [0..<n])))"
  have len: "length (concat (map ?src [0..<n])) = n * eops_length xs"
    using length_eop_source(1)[of "EArray n m xs" to "from"] by simp
  obtain f where f: "fuel = Suc f + length xs" "eops_need xs \<le> Suc f"
    using assms(2) by (intro that[of "fuel - Suc (length xs)"]) simp_all
  have "swap_loop (Suc f + length xs) (map Byte inp) (map Byte ?out) (to + n * eops_length xs) (from + m * n) (eops_code xs @ SWAP_FLAG_END # rest) =
    swap_loop (Suc f) (map Byte inp) (map Byte (overwrite ?out (to + n * eops_length xs) (map ((!) inp) (?src n))))
      (to + n * eops_length xs + eops_length xs) (from + m * n) (SWAP_FLAG_END # rest)"
    by (rule runsD[OF assms(1) f(2)]) (use Suc.prems len in auto)
  also have "\<dots> = Inr ((map Byte (overwrite ?out (to + n * eops_length xs) (map ((!) inp) (?src n))), to + n * eops_length xs + eops_length xs), SWAP_FLAG_END # rest)"
    by (simp add: swap_loop.simps(2) swap_flags)
  also have "overwrite ?out (to + n * eops_length xs) (map ((!) inp) (?src n)) = overwrite out to (map ((!) inp) (concat (map ?src [0..<n]) @ ?src n))"
    using overwrite_append[of to "map ((!) inp) (concat (map ?src [0..<n]))" "map ((!) inp) (?src n)" out] Suc.prems len
    by (simp add: length_eop_source)
  finally have last: "swap_loop fuel (map Byte inp) (map Byte ?out) (to + n * eops_length xs) (from + m * n) (eops_code xs @ SWAP_FLAG_END # rest) =
    Inr ((map Byte (overwrite out to (map ((!) inp) (concat (map ?src [0..<n]) @ ?src n))), to + n * eops_length xs + eops_length xs), SWAP_FLAG_END # rest)"
    by (simp only: f(1))
  have "fold_result (\<lambda>((output', offset), _) i. swap_loop fuel (map Byte inp) output' offset (from + m * i) (eops_code xs @ SWAP_FLAG_END # rest))
      ((map Byte out, to), it) [0..<n] = Inr ((map Byte ?out, to + n * eops_length xs), if n = 0 then it else SWAP_FLAG_END # rest)"
    by (rule Suc.IH) (use Suc.prems in auto)
  then show ?case using last by (simp add: fold_result_append add.commute[of "eops_length xs"] add.assoc)
qed simp

lemma index_no_flag:
  "k < 2 ^ 62 \<Longrightarrow> k \<noteq> SWAP_FLAG_SKIP" "k < 2 ^ 62 \<Longrightarrow> k \<noteq> SWAP_FLAG_ARRAY" "k < 2 ^ 62 \<Longrightarrow> k \<noteq> SWAP_FLAG_END"
  "k < 2 ^ 62 \<Longrightarrow> k \<noteq> FLAG_SWAP_4" "k < 2 ^ 62 \<Longrightarrow> k \<noteq> FLAG_SWAP_8"
  by (simp_all add: swap_flags)

lemma interval_below: "{to..<to + n} \<subseteq> {..<m} \<Longrightarrow> 0 < n \<Longrightarrow> to + n \<le> (m::nat)"
  by (auto simp: subset_iff dest: spec[of _ "to + n - 1"])

lemma run_op:
  assumes "eop_ok x" and "\<And>dim m xs. x = EArray dim m xs \<Longrightarrow> runs inp xs" and "eop_need x \<le> fuel"
    and "to + eop_length x \<le> length out" and "set (eop_source x to from) \<subseteq> {..<length inp}"
  shows "swap_loop (Suc fuel) (map Byte inp) (map Byte out) to from (eop_code x @ rest) =
    swap_loop fuel (map Byte inp) (map Byte (overwrite out to (map ((!) inp) (eop_source x to from)))) (to + eop_length x) from rest"
proof (cases x)
  case (ESkip n)
  have "to + n \<le> length inp" using assms(1,5) ESkip interval_below[of to n] by simp
  then have "copy_swapped id (map Byte inp) to n (map Byte out) to = Inr (map Byte (overwrite out to (map ((!) inp) [to..<to + n])))"
    using assms(4) ESkip copy_swapped_bytes[of to n inp to out id]
    by simp
  then show ?thesis using ESkip by (simp add: swap_loop.simps(2) with_operand_def)
next
  case (EArray dim m xs)
  have ok: "0 < dim" using assms(1) EArray by simp
  note array = run_array[OF assms(2)[OF EArray], of fuel to dim out "from" m rest "eops_code xs @ SWAP_FLAG_END # rest"]
  show ?thesis using EArray ok assms(3-5) array
    by (simp add: swap_loop.simps(2) with_operand_def step_over_def swap_flags)
next
  case (EIndex k)
  have "copy_swapped id (map Byte inp) (from + k) 1 (map Byte out) to = Inr (map Byte (overwrite out to [inp ! (from + k)]))"
    using assms(4,5) EIndex copy_swapped_bytes[of "from + k" 1 inp to out id] by simp
  then show ?thesis using EIndex index_no_flag assms(1) by (simp add: swap_loop.simps(2))
next
  case ESwap4
  have "copy_swapped Endian_swap (map Byte inp) to 4 (map Byte out) to =
      Inr (map Byte (overwrite out to (rev (map ((!) inp) [to..<to + 4]))))"
    using assms(4,5) ESwap4 copy_swapped_bytes[of to 4 inp to out Endian_swap] interval_below[of to 4] Endian_swap_rev[of "map ((!) inp) [to..<to + 4]"]
    by simp
  then show ?thesis using ESwap4 by (simp add: swap_loop.simps(2) rev_map swap_flags)
next
  case ESwap8
  have "copy_swapped Endian_swap (map Byte inp) to 8 (map Byte out) to =
      Inr (map Byte (overwrite out to (rev (map ((!) inp) [to..<to + 8]))))"
    using assms(4,5) ESwap8 copy_swapped_bytes[of to 8 inp to out Endian_swap] interval_below[of to 8] Endian_swap_rev[of "map ((!) inp) [to..<to + 8]"]
    by simp
  then show ?thesis using ESwap8 by (simp add: swap_loop.simps(2) rev_map swap_flags)
qed

lemma run_ops:
  "eop_ok x \<Longrightarrow> x = EArray dim m xs \<Longrightarrow> runs inp xs" "list_all eop_ok ys \<Longrightarrow> runs inp ys"
proof (induction x and ys arbitrary: dim m xs rule: eop_code_eops_code.induct)
  case (7 y ys)
  show ?case unfolding runs_def
  proof (intro allI impI)
    fix fuel to "from" rest and out :: "byte list"
    assume need: "eops_need (y # ys) \<le> fuel" and fits: "to + eops_length (y # ys) \<le> length out"
      and src: "set (eops_source (y # ys) to from) \<subseteq> {..<length inp}"
    let ?out = "overwrite out to (map ((!) inp) (eop_source y to from))"
    have "swap_loop (Suc (fuel + length ys)) (map Byte inp) (map Byte out) to from (eop_code y @ eops_code ys @ rest) =
      swap_loop (fuel + length ys) (map Byte inp) (map Byte ?out) (to + eop_length y) from (eops_code ys @ rest)"
      by (rule run_op) (use 7 need fits src in auto)
    also have "\<dots> = swap_loop fuel (map Byte inp)
        (map Byte (overwrite ?out (to + eop_length y) (map ((!) inp) (eops_source ys (to + eop_length y) from))))
        (to + eop_length y + eops_length ys) from rest"
      by (rule runsD) (use 7 need fits src in \<open>auto simp: length_eop_source\<close>)
    also have "overwrite ?out (to + eop_length y) (map ((!) inp) (eops_source ys (to + eop_length y) from)) =
      overwrite out to (map ((!) inp) (eops_source (y # ys) to from))"
      using overwrite_append[of to "map ((!) inp) (eop_source y to from)" "map ((!) inp) (eops_source ys (to + eop_length y) from)" out] fits
      by (simp add: length_eop_source)
    finally show "swap_loop (fuel + length (y # ys)) (map Byte inp) (map Byte out) to from (eops_code (y # ys) @ rest) =
      swap_loop fuel (map Byte inp) (map Byte (overwrite out to (map ((!) inp) (eops_source (y # ys) to from))))
        (to + eops_length (y # ys)) from rest"
      by (simp add: add.assoc)
  qed
qed (auto simp: runs_def)

lemma compiled_swap_ops:
  assumes "list_all eop_ok xs" and "eops_length xs \<le> length out" and "set (eops_source xs 0 0) \<subseteq> {..<length inp}"
  shows "compiled_swap (eops_code xs) (map Byte inp) (map Byte out) =
    Inr (map Byte (overwrite out 0 (map ((!) inp) (eops_source xs 0 0))))"
proof -
  obtain fuel where fuel: "Suc (length (eops_code xs)) = Suc fuel + length xs" "eops_need xs \<le> Suc fuel"
    using eop_need_code(2)[of xs] by (intro that[of "length (eops_code xs) - length xs"]) simp_all
  have "swap_loop (Suc fuel + length xs) (map Byte inp) (map Byte out) 0 0 (eops_code xs @ []) =
    Inr ((map Byte (overwrite out 0 (map ((!) inp) (eops_source xs 0 0))), eops_length xs), [])"
    using runsD[OF run_ops(2)[OF assms(1)] fuel(2), of 0 out 0 inp "[]"] assms(2,3) by (simp add: swap_loop.simps(2))
  then show ?thesis using fuel(1) by (simp add: compiled_swap_def)
qed

section \<open>Compilation\<close>

text \<open>
  The program behind \<open>pre\<close> is the code of the operations \<open>xs\<close>. They take the bytes from the
  position \<open>start\<close> on from the positions \<open>ks\<close>, and keep doing so when both offsets are moved,
  which is what happens in the elements of an array.
\<close>

definition compiled_to :: "nat list \<Rightarrow> nat \<Rightarrow> nat list \<Rightarrow> nat list \<Rightarrow> eop list \<Rightarrow> bool" where
  "compiled_to pre start ks code xs \<longleftrightarrow> code = pre @ eops_code xs \<and> list_all eop_ok xs \<and>
     (\<forall>d. eops_source xs (start + d) d = map ((+) d) ks)"

lemma compiled_toD:
  assumes "compiled_to pre start ks code xs"
  shows "code = pre @ eops_code xs" "list_all eop_ok xs" "eops_source xs (start + d) d = map ((+) d) ks" "eops_length xs = length ks"
proof -
  show "code = pre @ eops_code xs" "list_all eop_ok xs" and source: "eops_source xs (start + d) d = map ((+) d) ks" for d
    using assms by (simp_all add: compiled_to_def)
  show "eops_length xs = length ks" using length_eop_source(2)[of xs "start + 0" 0] source[of 0] by simp
qed

lemma compiled_to_snoc:
  assumes "compiled_to pre start ks code xs" and "eop_ok x"
    and "\<And>d. eop_source x (start + length ks + d) d = map ((+) d) ms"
  shows "compiled_to pre start (ks @ ms) (code @ eop_code x) (xs @ [x])"
proof -
  have "eops_source (xs @ [x]) (start + d) d = map ((+) d) (ks @ ms)" for d
    using compiled_toD(3,4)[OF assms(1)] assms(3)[of d] by (simp add: ac_simps)
  then show ?thesis using compiled_toD(1,2)[OF assms(1)] assms(2) by (simp add: compiled_to_def)
qed

text \<open>The end of a program that is not a skip is not taken for one.\<close>

definition no_skip :: "nat list \<Rightarrow> bool" where
  "no_skip pre \<longleftrightarrow> (pre = [] \<or> last pre \<noteq> SWAP_FLAG_SKIP \<and> (butlast pre = [] \<or> last (butlast pre) \<noteq> SWAP_FLAG_SKIP))"

lemma last_code: "pre = [] \<or> last pre \<noteq> SWAP_FLAG_SKIP \<Longrightarrow> list_all eop_ok xs \<Longrightarrow>
    pre @ eops_code xs = [] \<or> last (pre @ eops_code xs) \<noteq> SWAP_FLAG_SKIP"
proof (cases xs rule: rev_cases)
  case (snoc ys y)
  then show "list_all eop_ok xs \<Longrightarrow> ?thesis" by (cases y) (auto simp: swap_flags)
qed simp

lemma skip_tail:
  assumes "no_skip pre" and "list_all eop_ok xs" and "\<And>ys n. xs \<noteq> ys @ [ESkip n]"
  shows "no_skip (pre @ eops_code xs)"
proof (cases xs rule: rev_cases)
  case (snoc ys y)
  have before: "pre @ eops_code ys = [] \<or> last (pre @ eops_code ys) \<noteq> SWAP_FLAG_SKIP"
    using last_code[of pre ys] assms(1,2) snoc by (auto simp: no_skip_def)
  show ?thesis
  proof (cases y)
    case (EArray dim m zs)
    have "last ([SWAP_FLAG_ARRAY, dim, m] @ eops_code zs) \<noteq> SWAP_FLAG_SKIP"
      using last_code[of "[SWAP_FLAG_ARRAY, dim, m]" zs] assms(2) snoc EArray by (simp add: swap_flags)
    moreover have "butlast (pre @ eops_code xs) = (pre @ eops_code ys) @ ([SWAP_FLAG_ARRAY, dim, m] @ eops_code zs)"
      using snoc EArray by (simp add: butlast_append)
    moreover have "last (pre @ eops_code xs) = SWAP_FLAG_END" using snoc EArray by simp
    ultimately show ?thesis by (simp add: no_skip_def swap_flags)
  qed (use before assms(2,3) snoc in \<open>auto simp: no_skip_def butlast_append swap_flags\<close>)
qed (use assms in simp)

lemma no_skip_iff: "no_skip c \<Longrightarrow> \<not> (length c > 1 \<and> c ! (length c - 2) = SWAP_FLAG_SKIP)"
proof -
  assume c: "no_skip c"
  have "c ! (length c - 2) = last (butlast c)" if "length c > 1"
    using that by (cases c rule: rev_cases) (auto simp: last_conv_nth nth_append)
  moreover have "butlast c \<noteq> []" if "length c > 1" using that by (cases c rule: rev_cases) auto
  ultimately show ?thesis using c by (auto simp: no_skip_def)
qed

lemma compile_skip:
  assumes "compiled_to pre start ks (m_compiled s) xs" and "no_skip pre" and "0 < n" and "start + length ks + n < 2 ^ 31"
  shows "\<exists>xs'. compiled_to pre start (ks @ [start + length ks..<start + length ks + n]) (m_compiled (swap_skip s (int n))) xs'"
proof (cases "\<exists>ys k. xs = ys @ [ESkip k]")
  case True
  then obtain ys k where xs: "xs = ys @ [ESkip k]" by blast
  have k: "eops_length ys + k = length ks" "0 < k" using compiled_toD(2,4)[OF assms(1)] xs by simp_all
  let ?c = "m_compiled s"
  have code: "?c = (pre @ eops_code ys) @ [SWAP_FLAG_SKIP, k]" using compiled_toD(1)[OF assms(1)] xs by simp
  have "m_compiled (swap_skip s (int n)) = (pre @ eops_code ys) @ [SWAP_FLAG_SKIP, k + n]"
    using k assms(4) unfolding swap_skip_def code
    by (simp add: nth_append list_update_append Let_def nat_add_distrib zmod_trivial_iff nat_mod_distrib flip: of_nat_add)
  moreover have "eops_source (ys @ [ESkip (k + n)]) (start + d) d = map ((+) d) (ks @ [start + length ks..<start + length ks + n])" for d
  proof -
    have "eops_source (ys @ [ESkip (k + n)]) (start + d) d = eops_source (ys @ [ESkip k]) (start + d) d @ [start + d + length ks..<start + d + length ks + n]"
      using k(1) upt_add_eq_append[of "start + d + eops_length ys" "start + d + eops_length ys + k" n] by (simp add: add.assoc flip: k(1))
    then show ?thesis using compiled_toD(3)[OF assms(1), of d] xs by (simp add: map_add_upt ac_simps)
  qed
  ultimately have "compiled_to pre start (ks @ [start + length ks..<start + length ks + n]) (m_compiled (swap_skip s (int n))) (ys @ [ESkip (k + n)])"
    using compiled_toD(2)[OF assms(1)] xs k assms(3,4) by (simp add: compiled_to_def)
  then show ?thesis by blast
next
  case False
  then have "no_skip (m_compiled s)" using skip_tail[OF assms(2) compiled_toD(2)[OF assms(1)]] compiled_toD(1)[OF assms(1)] by auto
  from no_skip_iff[OF this] have "m_compiled (swap_skip s (int n)) = m_compiled s @ eop_code (ESkip n)"
    using assms(4) by (auto simp: swap_skip_def Let_def push_swap_def nat_mod_distrib)
  moreover have "compiled_to pre start (ks @ [start + length ks..<start + length ks + n]) (m_compiled s @ eop_code (ESkip n)) (xs @ [ESkip n])"
    by (rule compiled_to_snoc[OF assms(1)]) (use assms(3,4) in \<open>simp_all add: map_add_upt ac_simps\<close>)
  ultimately show ?thesis by metis
qed

text \<open>An array multiplies the operand of the last operation.\<close>

fun eop_times :: "eop \<Rightarrow> nat \<Rightarrow> eop" where
  "eop_times (ESkip n) k = ESkip (n * k)"
| "eop_times (EArray dim m xs) k = EArray (dim * k) m xs"
| "eop_times x k = x"

fun is_repeat :: "eop \<Rightarrow> bool" where
  "is_repeat (ESkip n) = True"
| "is_repeat (EArray dim m xs) = (eops_length xs = m)"
| "is_repeat x = False"

lemma upt_mult: "[0..<n * Suc k] = [0..<n * k] @ map ((+) (n * k)) [0..<n]"
  using upt_add_eq_append[of 0 "n * k" n] by (simp add: map_add_upt add.commute)

lemma eop_times_source:
  "is_repeat x \<Longrightarrow> eop_source (eop_times x k) to from =
     concat (map (\<lambda>j. eop_source x (to + j * eop_length x) (from + j * eop_length x)) [0..<k])"
proof (cases x)
  case (ESkip n)
  have "[to..<to + n * k] = concat (map (\<lambda>j. [to + j * n..<to + j * n + n]) [0..<k])"
  proof (induction k)
    case (Suc k)
    have "[to..<to + n * Suc k] = [to..<to + n * k] @ [to + n * k..<to + n * k + n]"
      using upt_add_eq_append[of to "to + n * k" n] by (simp add: ac_simps)
    then show ?case using Suc by (simp add: mult.commute)
  qed simp
  then show ?thesis using ESkip by simp
next
  case (EArray dim m xs)
  moreover assume "is_repeat x"
  ultimately have m: "eops_length xs = m" by simp
  have "concat (map (\<lambda>j. eops_source xs (to + j * m) (from + m * j)) [0..<dim * k]) =
    concat (map (\<lambda>j. concat (map (\<lambda>i. eops_source xs (to + j * (dim * m) + i * m) (from + j * (dim * m) + m * i)) [0..<dim])) [0..<k])"
  proof (induction k)
    case (Suc k)
    have "map (\<lambda>j. eops_source xs (to + j * m) (from + m * j)) (map ((+) (dim * k)) [0..<dim]) =
      map (\<lambda>i. eops_source xs (to + k * (dim * m) + i * m) (from + k * (dim * m) + m * i)) [0..<dim]"
      by (simp add: algebra_simps)
    then show ?case using Suc unfolding upt_mult by (simp del: map_map)
  qed simp
  then show ?thesis using EArray m by simp
qed simp_all

lemma repeat_source:
  assumes "\<And>d. f (start + d) d = map ((+) d) (source_upto fuel st on start)"
  shows "concat (map (\<lambda>j. f (start + d + j * m) (d + j * m)) [0..<dim]) =
    map ((+) d) (concat (map (\<lambda>j. source_upto fuel st on (start + j * m)) [0..<dim]))"
proof -
  have "f (start + d + j * m) (d + j * m) = map ((+) d) (source_upto fuel st on (start + j * m))" for j
    using assms[of "d + j * m"] source_shift[of fuel st on start "j * m"] by (simp add: comp_def ac_simps)
  then show ?thesis by (simp add: map_concat comp_def)
qed

lemma single_skip:
  assumes "list_all eop_ok xs"
  shows "length (eops_code xs) = 2 \<and> eops_code xs ! 0 = SWAP_FLAG_SKIP \<longleftrightarrow> (\<exists>n. xs = [ESkip n])"
proof (cases xs)
  case (Cons x ys)
  then show ?thesis
  proof (cases x)
    case (ESkip n)
    then show ?thesis using Cons by (cases ys rule: eops_code.cases) (auto elim: eop_code.elims)
  qed (use assms Cons in \<open>auto simp: swap_flags\<close>)
qed simp

text \<open>
  What compiling a type adds to the program; an array adds one operation, whose operand an
  enclosing array can multiply.
\<close>

definition compiles :: "nat \<Rightarrow> store \<Rightarrow> tid \<Rightarrow> bool" where
  "compiles fuel st t \<longleftrightarrow> (\<forall>s pre start ks xs. no_skip pre \<longrightarrow> compiled_to pre start ks (m_compiled s) xs \<longrightarrow>
     m_output_index s = start + length ks \<longrightarrow> m_output_index s + ty_size (type_at st t) < 2 ^ 31 \<longrightarrow>
     (\<exists>s' xs'. compile_swap fuel st t s = Inr s' \<and>
        compiled_to pre start (ks @ source_upto fuel st t (m_output_index s)) (m_compiled s') xs' \<and>
        (getCategory_of (ty_kind (type_at st t)) = CatArray \<longrightarrow> (\<exists>x. xs' = xs @ [x] \<and> is_repeat x))))"

lemma compilesD:
  assumes "compiles fuel st t" and "no_skip pre" and "compiled_to pre start ks (m_compiled s) xs"
    and "m_output_index s = start + length ks" and "m_output_index s + ty_size (type_at st t) < 2 ^ 31"
  obtains s' xs' where "compile_swap fuel st t s = Inr s'"
    and "compiled_to pre start (ks @ source_upto fuel st t (m_output_index s)) (m_compiled s') xs'"
    and "getCategory_of (ty_kind (type_at st t)) = CatArray \<Longrightarrow> \<exists>x. xs' = xs @ [x] \<and> is_repeat x"
  using assms(1)[unfolded compiles_def, rule_format, OF assms(2-5)] that by blast

lemma compiled_to_Nil [simp]: "compiled_to pre start [] pre []"
  by (simp add: compiled_to_def)

lemma compiled_to_tail:
  assumes "compiled_to pre start ks code xs" and "compiled_to pre start (ks @ ms) code' (xs @ [x])"
  shows "eop_ok x" "eop_source x (start + length ks + d) d = map ((+) d) ms" "eop_length x = length ms"
    "code' = code @ eop_code x"
proof -
  show "eop_ok x" using compiled_toD(2)[OF assms(2)] by simp
  show "eop_source x (start + length ks + d) d = map ((+) d) ms"
    using compiled_toD(3)[OF assms(1), of d] compiled_toD(4)[OF assms(1)] compiled_toD(3)[OF assms(2), of d] by (simp add: ac_simps)
  show "eop_length x = length ms" using compiled_toD(4)[OF assms(1)] compiled_toD(4)[OF assms(2)] by simp
  show "code' = code @ eop_code x" using compiled_toD(1)[OF assms(1)] compiled_toD(1)[OF assms(2)] by simp
qed

lemma times_code:
  "is_repeat x \<Longrightarrow> (code @ eop_code x)[length code + 1 := (code @ eop_code x) ! (length code + 1) * k] = code @ eop_code (eop_times x k)"
  by (cases x) (auto simp: nth_append list_update_append)

lemma times_ok:
  assumes "eop_ok x" and "is_repeat x" and "0 < k" and "0 < eop_length x" and "k * eop_length x < 2 ^ 62"
  shows "eop_ok (eop_times x k)"
proof (cases x)
  case (EArray dim m xs)
  then have "dim * k * 1 \<le> dim * k * m" using assms(2,4) by (intro mult_le_mono2) (simp add: Suc_leI)
  moreover have "dim * k * m < 2 ^ 62" using assms(2,5) EArray by (simp add: ac_simps)
  ultimately have "dim * k < 2 ^ 62" by linarith
  then show ?thesis using assms EArray by simp
qed (use assms in \<open>auto simp: mult.commute\<close>)

lemma compile_nested_array:
  assumes on: "compiles fuel st on" and cat: "getCategory_of (ty_kind (type_at st on)) = CatArray"
    and pre: "no_skip pre" "compiled_to pre start ks (m_compiled s) xs" "m_output_index s = start + length ks"
    and dim: "0 < dim" "0 < ty_size (type_at st on)" "m_output_index s + dim * ty_size (type_at st on) < 2 ^ 31"
    and len: "\<And>b. length (source_upto fuel st on b) = ty_size (type_at st on)"
  shows "\<exists>s' x. swap_Array st (compile_swap fuel st) dim on s = Inr s' \<and> is_repeat x \<and>
    compiled_to pre start (ks @ concat (map (\<lambda>j. source_upto fuel st on (m_output_index s + j * ty_size (type_at st on))) [0..<dim]))
      (m_compiled s') (xs @ [x])"
proof -
  let ?m = "ty_size (type_at st on)" and ?mi = "m_output_index s"
  have "?m \<le> dim * ?m" using dim(1) by simp
  then have "?mi + ?m < 2 ^ 31" using dim(3) by linarith
  from compilesD[OF on pre this] cat obtain s' x where s': "compile_swap fuel st on s = Inr s'" and x: "is_repeat x"
    and to: "compiled_to pre start (ks @ source_upto fuel st on ?mi) (m_compiled s') (xs @ [x])" by metis
  note tail = compiled_to_tail[OF pre(2) to]
  let ?s = "s'\<lparr>m_compiled := m_compiled s @ eop_code (eop_times x dim)\<rparr>"
  have "swap_Array st (compile_swap fuel st) dim on s = Inr ?s"
    using cat s' times_code[OF x, of "m_compiled s" dim] tail(4) by (simp add: swap_Array_def Let_def)
  moreover have "compiled_to pre start (ks @ concat (map (\<lambda>j. source_upto fuel st on (?mi + j * ?m)) [0..<dim]))
      (m_compiled s @ eop_code (eop_times x dim)) (xs @ [eop_times x dim])"
  proof (rule compiled_to_snoc[OF pre(2)])
    have "eop_length x = ?m" using tail(3) len by simp
    then show "eop_ok (eop_times x dim)" using dim by (intro times_ok[OF tail(1) x]) simp_all
    show "eop_source (eop_times x dim) (start + length ks + d) d = map ((+) d) (concat (map (\<lambda>j. source_upto fuel st on (?mi + j * ?m)) [0..<dim]))" for d
      unfolding eop_times_source[OF x] \<open>eop_length x = ?m\<close>
      using repeat_source[of "eop_source x" ?mi fuel st on d ?m dim] tail(2) pre(3) by simp
  qed
  moreover have "is_repeat (eop_times x dim)" using x by (cases x) auto
  ultimately show ?thesis by (intro exI[of _ ?s] exI[of _ "eop_times x dim"]) simp
qed

lemma compile_array:
  assumes on: "compiles fuel st on" and cat: "getCategory_of (ty_kind (type_at st on)) \<noteq> CatArray"
    and pre: "compiled_to pre start ks (m_compiled s) xs" "m_output_index s = start + length ks"
    and dim: "0 < dim" "0 < ty_size (type_at st on)" "m_output_index s + dim * ty_size (type_at st on) < 2 ^ 31"
    and len: "\<And>b. length (source_upto fuel st on b) = ty_size (type_at st on)"
  shows "\<exists>s' x. swap_Array st (compile_swap fuel st) dim on s = Inr s' \<and> is_repeat x \<and>
    compiled_to pre start (ks @ concat (map (\<lambda>j. source_upto fuel st on (m_output_index s + j * ty_size (type_at st on))) [0..<dim]))
      (m_compiled s') (xs @ [x])"
proof -
  let ?m = "ty_size (type_at st on)" and ?mi = "m_output_index s" and ?P = "m_compiled s"
  let ?pre = "?P @ [SWAP_FLAG_ARRAY, dim, ?m]"
  have small: "dim \<le> dim * ?m" "?m \<le> dim * ?m" using dim by simp_all
  moreover have "dim * ?m < 2 ^ 62" using dim(3) by simp
  ultimately have bounds: "?mi + ?m < 2 ^ 31" "dim < 2 ^ 62" "?m < 2 ^ 62" using dim(3) by linarith+
  have "no_skip ?pre" using bounds by (simp add: no_skip_def butlast_append swap_flags)
  then obtain s2 b where s2: "compile_swap fuel st on (push_swap s [SWAP_FLAG_ARRAY, dim, ?m]) = Inr s2"
    and b: "compiled_to ?pre ?mi (source_upto fuel st on ?mi) (m_compiled s2) b"
    by (rule compilesD[OF on, of ?pre ?mi "[]" "push_swap s [SWAP_FLAG_ARRAY, dim, ?m]" "[]"])
      (use bounds(1) in \<open>simp_all add: push_swap_def\<close>)
  have blen: "eops_length b = ?m" using compiled_toD(4)[OF b] len by simp
  have code: "m_compiled s2 = ?P @ [SWAP_FLAG_ARRAY, dim, ?m] @ eops_code b" using compiled_toD(1)[OF b] by simp
  have flag: "length (m_compiled s2) = length ?pre + 2 \<and> m_compiled s2 ! length ?pre = SWAP_FLAG_SKIP \<longleftrightarrow> (\<exists>n. b = [ESkip n])"
    using single_skip[OF compiled_toD(2)[OF b]] unfolding code by (auto simp: nth_append)
  define x where "x = (if \<exists>n. b = [ESkip n] then ESkip (?m * dim) else EArray dim ?m b)"
  obtain s' where s': "swap_Array st (compile_swap fuel st) dim on s = Inr s'" "m_compiled s' = ?P @ eop_code x"
  proof (cases "\<exists>n. b = [ESkip n]")
    case True
    then have bm: "b = [ESkip ?m]" using blen by auto
    let ?s' = "s2\<lparr>m_compiled := ?P @ [SWAP_FLAG_SKIP, ?m * dim]\<rparr>"
    have "swap_Array st (compile_swap fuel st) dim on s = Inr ?s'"
      using cat s2 flag True code unfolding swap_Array_def bm
      by (simp add: push_swap_def Let_def nth_append list_update_append butlast_append numeral_3_eq_3 numeral_2_eq_2)
    then show ?thesis by (rule that) (use True in \<open>simp add: x_def\<close>)
  next
    case False
    have "swap_Array st (compile_swap fuel st) dim on s = Inr (push_swap s2 [SWAP_FLAG_END])"
      using cat s2 flag False unfolding swap_Array_def by (auto simp: push_swap_def Let_def)
    then show ?thesis by (rule that) (use False code in \<open>auto simp: x_def push_swap_def\<close>)
  qed
  have rep: "is_repeat x" using blen by (simp add: x_def)
  have "compiled_to pre start (ks @ concat (map (\<lambda>j. source_upto fuel st on (?mi + j * ?m)) [0..<dim])) (?P @ eop_code x) (xs @ [x])"
  proof (rule compiled_to_snoc[OF pre(1)])
    show "eop_ok x" using dim bounds(2,3) compiled_toD(2)[OF b] \<open>dim * ?m < 2 ^ 62\<close> by (simp add: x_def mult.commute)
    show "eop_source x (start + length ks + d) d = map ((+) d) (concat (map (\<lambda>j. source_upto fuel st on (?mi + j * ?m)) [0..<dim]))" for d
    proof -
      have "eop_source x to from = concat (map (\<lambda>j. eops_source b (to + j * ?m) (from + j * ?m)) [0..<dim])" for to "from"
        using blen eop_times_source[of "ESkip ?m" dim to "from"] by (auto simp: x_def mult.commute)
      then show ?thesis using repeat_source[of "eops_source b" ?mi fuel st on d ?m dim] compiled_toD(3)[OF b] pre(2) by simp
    qed
  qed
  then show ?thesis using s' rep by auto
qed

lemma to_int32_small: "n < 2 ^ 31 \<Longrightarrow> to_int32 n = int n"
  by (simp add: to_int32_def)

lemma compile_fields:
  assumes "\<And>f. f \<in> set flds \<Longrightarrow> compiles fuel st (fld_type f)"
    and "\<And>f b. f \<in> set flds \<Longrightarrow> length (source_upto fuel st (fld_type f) b) = ty_size (type_at st (fld_type f))"
    and "fields_in_order st offset flds sz" and "no_skip pre" and "compiled_to pre start ks (m_compiled s) xs"
    and "m_output_index s = start + length ks" and "m_output_index s = base + offset" and "base + sz < 2 ^ 31"
  shows "\<exists>s' xs'. fold_result (swap_field st (compile_swap fuel st) base) s flds = Inr s' \<and>
    compiled_to pre start (ks @ source_fields st (source_upto fuel st) base offset flds) (m_compiled s') xs'"
  using assms
proof (induction flds arbitrary: offset ks s xs)
  case (Cons f fs)
  let ?new = "base + fld_offset f" and ?sz = "ty_size (type_at st (fld_type f))" and ?mi = "m_output_index s"
  let ?ks = "ks @ [base + offset..<?new]"
  have order: "offset \<le> fld_offset f" "fields_in_order st (fld_offset f + ?sz) fs sz" using Cons.prems(3) by simp_all
  then have fits: "?new + ?sz < 2 ^ 31" using fields_end_bounds[of st "fld_offset f + ?sz" fs sz] Cons.prems(8) by linarith
  define s1 where "s1 = (if ?new > ?mi then swap_skip s (to_int32 (?new - ?mi)) else s)"
  obtain xs1 where s1: "compiled_to pre start ?ks (m_compiled s1) xs1"
  proof (cases "?new > ?mi")
    case True
    have "start + length ks + (?new - ?mi) < 2 ^ 31" using True fits Cons.prems(6) by simp
    from compile_skip[OF Cons.prems(5,4) _ this] show ?thesis
      using True Cons.prems(6,7) fits that by (auto simp: s1_def to_int32_small)
  next
    case False
    then show ?thesis using order Cons.prems(5,7) by (intro that[of xs]) (simp add: s1_def)
  qed
  have len: "start + length ?ks = ?new" using order Cons.prems(6,7) by simp
  obtain s2 xs2 where s2: "compile_swap fuel st (fld_type f) (s1\<lparr>m_output_index := ?new\<rparr>) = Inr s2"
    and xs2: "compiled_to pre start (?ks @ source_upto fuel st (fld_type f) ?new) (m_compiled s2) xs2"
    by (rule compilesD[OF Cons.prems(1)[of f] Cons.prems(4), of start ?ks "s1\<lparr>m_output_index := ?new\<rparr>" xs1])
      (use s1 len fits in simp_all)
  let ?s2 = "s2\<lparr>m_output_index := ?new + ?sz\<rparr>"
  have step: "swap_field st (compile_swap fuel st) base s f = Inr ?s2"
    using s2 order Cons.prems(7) by (simp add: swap_field_def Let_def s1_def)
  have "\<exists>s' xs'. fold_result (swap_field st (compile_swap fuel st) base) ?s2 fs = Inr s' \<and>
    compiled_to pre start ((?ks @ source_upto fuel st (fld_type f) ?new) @ source_fields st (source_upto fuel st) base (fld_offset f + ?sz) fs) (m_compiled s') xs'"
    by (rule Cons.IH[OF _ _ order(2) Cons.prems(4)]) (use Cons.prems xs2 len in \<open>simp_all add: add.assoc\<close>)
  then show ?case using step by simp
qed auto

lemma compile_indices:
  "compiled_to pre start ks code xs \<Longrightarrow> \<forall>k \<in> set is. k < 2 ^ 62 \<Longrightarrow>
   compiled_to pre start (ks @ is) (code @ is) (xs @ map EIndex is)"
proof (induction "is" rule: rev_induct)
  case (snoc k "is")
  then show ?case using compiled_to_snoc[of pre start "ks @ is" "code @ is" "xs @ map EIndex is" "EIndex k" "[k]"] by simp
qed simp

lemma compile_leaf:
  assumes "no_skip pre" and "compiled_to pre start ks (m_compiled s) xs" and "m_output_index s = start + length ks"
    and "m_output_index s + ty_size obj < 2 ^ 31"
  shows "ty_size obj \<in> {1, 2, 4, 8} \<Longrightarrow> \<exists>s' xs'. swap_Numeric obj s = Inr s' \<and>
      compiled_to pre start (ks @ rev [m_output_index s..<m_output_index s + ty_size obj]) (m_compiled s') xs'" (is "_ \<Longrightarrow> ?num")
    and "ty_size obj = SizeOfEnum \<Longrightarrow> \<exists>s' xs'. swap_Enum s = Inr s' \<and>
      compiled_to pre start (ks @ rev [m_output_index s..<m_output_index s + ty_size obj]) (m_compiled s') xs'"
proof -
  let ?mi = "m_output_index s"
  have indices: "\<exists>xs'. compiled_to pre start (ks @ rev [?mi..<?mi + n]) (m_compiled s @ rev [?mi..<?mi + n]) xs'" if "n = ty_size obj" for n
    using compile_indices[OF assms(2), of "rev [?mi..<?mi + n]"] assms(4) that by fastforce
  have snoc: "\<exists>xs'. compiled_to pre start (ks @ rev [?mi..<?mi + n]) (m_compiled s @ eop_code x) xs'"
    if "eop_ok x" "\<And>d. eop_source x (?mi + d) d = rev [?mi + d..<?mi + d + n]" for x n
    using compiled_to_snoc[OF assms(2) that(1), of "rev [?mi..<?mi + n]"] that(2) assms(3)
    by (auto simp: rev_map[symmetric] map_add_upt ac_simps)
  show "\<exists>s' xs'. swap_Enum s = Inr s' \<and> compiled_to pre start (ks @ rev [?mi..<?mi + ty_size obj]) (m_compiled s') xs'"
    if "ty_size obj = SizeOfEnum"
    using indices[OF that[symmetric]] that
    by (auto simp: swap_Enum_def push_swap_def rev_map[symmetric] map_upt_add add.commute)
  assume "ty_size obj \<in> {1, 2, 4, 8}"
  then consider "ty_size obj = 1" | "ty_size obj = 2" | "ty_size obj = 4" | "ty_size obj = 8" by blast
  then show ?num
  proof cases
    case 1
    then show ?thesis using compile_skip[OF assms(2,1), of 1] assms(3,4) by (auto simp: swap_Numeric_def)
  next
    case 2
    then show ?thesis using indices[of 2] by (auto simp: swap_Numeric_def push_swap_def numeral_2_eq_2)
  next
    case 3
    then show ?thesis using snoc[of ESwap4 4] by (auto simp: swap_Numeric_def push_swap_def)
  next
    case 4
    then show ?thesis using snoc[of ESwap8 8] by (auto simp: swap_Numeric_def push_swap_def)
  qed
qed

lemma compile_source:
  assumes "well_laid st" and "t \<in> dom (objects st)" and "swappable_upto fuel st t"
  shows "compiles fuel st t"
  using assms(2,3)
proof (induction fuel arbitrary: t)
  case (Suc fuel)
  note laid = well_laidD[OF assms(1) Suc.prems(1)]
  let ?sz = "ty_size (type_at st t)"
  show ?case unfolding compiles_def
  proof (intro allI impI)
    fix s :: CompileEndianSwapVisitor and pre start ks xs
    assume pre: "no_skip pre" "compiled_to pre start ks (m_compiled s) xs" "m_output_index s = start + length ks"
      and small: "m_output_index s + ?sz < 2 ^ 31"
    let ?mi = "m_output_index s"
    show "\<exists>s' xs'. compile_swap (Suc fuel) st t s = Inr s' \<and>
        compiled_to pre start (ks @ source_upto (Suc fuel) st t ?mi) (m_compiled s') xs' \<and>
        (getCategory_of (ty_kind (type_at st t)) = CatArray \<longrightarrow> (\<exists>x. xs' = xs @ [x] \<and> is_repeat x))"
    proof (cases "ty_kind (type_at st t)")
      case (Array dim on)
      have on: "on \<in> dom (objects st)" "swappable_upto fuel st on" "extent st on = ty_size (type_at st on)" "0 < dim"
        using Suc.prems laid(1) Array by simp_all
      have len: "length (source_upto fuel st on b) = ty_size (type_at st on)" for b
        using source_swaps[OF assms(1) on(1,2), of b] on(3) by simp
      note args = on(4) conjunct2[OF laid(2)[OF Array]] small[unfolded conjunct1[OF laid(2)[OF Array]]] len
      show ?thesis
        using compile_nested_array[OF Suc.IH[OF on(1,2)] _ pre args] compile_array[OF Suc.IH[OF on(1,2)] _ pre(2,3) args] Array
        by (cases "getCategory_of (ty_kind (type_at st on)) = CatArray") fastforce+
    next
      case (Compound flds)
      have field: "fld_type f \<in> dom (objects st)" "swappable_upto fuel st (fld_type f)"
        "extent st (fld_type f) = ty_size (type_at st (fld_type f))" if "f \<in> set flds" for f
        using Suc.prems laid(1) Compound that by (auto simp: list_all_iff)
      have "\<exists>s' xs'. fold_result (swap_field st (compile_swap fuel st) ?mi) s flds = Inr s' \<and>
        compiled_to pre start (ks @ source_fields st (source_upto fuel st) ?mi 0 flds) (m_compiled s') xs'"
        by (rule compile_fields[OF _ _ laid(3)[OF Compound] pre])
          (use Suc.IH[OF field(1,2)] source_swaps[OF assms(1) field(1,2)] field(3) small in auto)
      then show ?thesis using Compound by (simp add: swap_Compound_def)
    qed (use Suc.prems compile_leaf[OF pre small] in \<open>auto split: NumericCategory.splits\<close>)
  qed
qed simp

lemma map_add_0 [simp]: "map ((+) (0::nat)) ks = ks"
  by (induction ks) simp_all

lemma compile_apply_source:
  assumes "well_laid st" and "t \<in> dom (objects st)" and "swappable st t" and "ty_size (type_at st t) < 2 ^ 31"
  obtains xs where "compile_apply st t = Inr (eops_code xs)" and "list_all eop_ok xs"
    and "eops_source xs 0 0 = swap_source st t 0"
proof -
  let ?s = "\<lparr>m_output_index = 0, m_compiled = []\<rparr> :: CompileEndianSwapVisitor"
  obtain s' xs where s': "compile_swap (Suc (next_id st)) st t ?s = Inr s'"
    and xs: "compiled_to [] 0 ([] @ source_upto (Suc (next_id st)) st t (m_output_index ?s)) (m_compiled s') xs"
    by (rule compilesD[OF compile_source[OF assms(1,2) assms(3)[unfolded swappable_def]], of "[]" 0 "[]" ?s "[]"])
      (use assms(4) in \<open>simp_all add: no_skip_def\<close>)
  show thesis
    by (rule that[of xs]) (use s' compiled_toD(1,2)[OF xs] compiled_toD(3)[OF xs, of 0] in
      \<open>simp_all add: compile_apply_def swap_source_def del: compile_swap.simps source_upto.simps\<close>)
qed

lemma swap_source_swaps:
  assumes "well_laid st" and "t \<in> dom (objects st)" and "swappable st t"
  shows "swaps base (swap_source st t base)" "length (swap_source st t base) = extent st t"
  using source_swaps[OF assms(1,2) assms(3)[unfolded swappable_def], of base] by (simp_all add: swap_source_def)

lemma extent_le:
  assumes "well_laid st" and "t \<in> dom (objects st)"
  shows "extent st t \<le> ty_size (type_at st t)"
proof (cases "ty_kind (type_at st t)")
  case (Compound flds)
  then show ?thesis using fields_end_bounds[OF well_laidD(3)[OF assms Compound]] by (simp add: extent_Compound)
qed (simp_all add: extent_def)

lemma endian_swap_source:
  assumes "well_laid st" and "t \<in> dom (objects st)" and "swappable st t" and "offset + ty_size (type_at st t) \<le> length bs"
  shows "endian_swap st t (map Byte bs) offset = Inr (map Byte (overwrite bs offset (map ((!) bs) (swap_source st t offset))))"
  using visitor_source[OF assms(1,2) assms(3)[unfolded swappable_def] assms(4)]
  by (simp add: endian_swap_def apply_value_def swap_source_def del: dispatch_value.simps source_upto.simps)

lemma swaps_twice:
  assumes "swaps offset ks" and "offset + length ks \<le> length bs"
  shows "(let bs' = overwrite bs offset (map ((!) bs) ks) in overwrite bs' offset (map ((!) bs') ks)) = bs"
proof -
  let ?bs = "overwrite bs offset (map ((!) bs) ks)"
  have len: "length ?bs = length bs" using assms(2) by simp
  have "?bs ! (ks ! i) = bs ! (offset + i)" if "i < length ks" for i
    using that assms by (auto simp: nth_overwrite swaps_def)
  then show ?thesis using assms(2) len by (intro nth_equalityI) (auto simp: Let_def nth_overwrite)
qed

section \<open>Properties\<close>

text \<open>
  Types to instantiate the theorems: a structure that ends with a padding byte, an array of it,
  and a structure with an array field and trailing padding.
\<close>

definition endian_store :: store where
  "endian_store = \<lparr>objects = [2 \<mapsto> Numeric_ctor ''/uint16_t'' 2 UInt, 3 \<mapsto> Numeric_ctor ''/uint8_t'' 1 UInt,
     4 \<mapsto> Type_ctor ''/P'' 4 (Compound [mk_field ''a'' 2 0, mk_field ''b'' 3 2]),
     5 \<mapsto> Type_ctor ''/P[2]'' 8 (Array 2 4), 6 \<mapsto> Type_ctor ''/uint16_t[2]'' 4 (Array 2 2),
     7 \<mapsto> Type_ctor ''/Q'' 8 (Compound [mk_field ''s'' 6 0, mk_field ''t'' 2 4])], next_id = 8\<rparr>"

lemma endian_store_types [simp]:
  "type_at endian_store 2 = Numeric_ctor ''/uint16_t'' 2 UInt" "type_at endian_store 3 = Numeric_ctor ''/uint8_t'' 1 UInt"
  "type_at endian_store 4 = Type_ctor ''/P'' 4 (Compound [mk_field ''a'' 2 0, mk_field ''b'' 3 2])"
  "type_at endian_store 5 = Type_ctor ''/P[2]'' 8 (Array 2 4)" "type_at endian_store 6 = Type_ctor ''/uint16_t[2]'' 4 (Array 2 2)"
  "type_at endian_store 7 = Type_ctor ''/Q'' 8 (Compound [mk_field ''s'' 6 0, mk_field ''t'' 2 4])"
  "next_id endian_store = 8" "dom (objects endian_store) = {2, 3, 4, 5, 6, 7}"
  by (auto simp: endian_store_def type_at_def)

lemmas endian_store_defs = Numeric_ctor_def Type_ctor_def mk_field_def

lemmas endian_numerals = swappable_upto.simps(2)[of "pred_numeral k" for k, folded numeral_eq_Suc]

lemmas source_numeral = source_upto.simps(2)[of "pred_numeral k" for k, folded numeral_eq_Suc]

lemma upt_small: "[0..<2] = [0, 1]" "[2..<4] = [2, 3]" "[4..<6] = [4, 5]"
  by code_simp+

lemma endian_store_ok: "well_laid endian_store" "swappable endian_store 7" "extent endian_store 7 = 6"
  by (simp_all add: well_laid_def endian_store_defs swappable_def extent_def endian_numerals)

text \<open>
  C6: The compiled byte swap is equivalent to the visitor that swaps a value in place: for every
  supported type without padding at the end of array elements and fields, compiling succeeds, and
  running the program copies to the output what the visitor makes of the input. The trailing padding
  of the output is not touched.
\<close>

theorem compiled_swap_equivalent:
  assumes "well_laid st" and "t \<in> dom (objects st)" and "swappable st t" and "ty_size (type_at st t) < 2 ^ 31"
    and "ty_size (type_at st t) \<le> length inp" and "ty_size (type_at st t) \<le> length out"
  shows "\<exists>compiled mem. compile_apply st t = Inr compiled \<and> endian_swap st t (map Byte inp) 0 = Inr mem \<and>
    compiled_swap compiled (map Byte inp) (map Byte out) = Inr (take (extent st t) mem @ drop (extent st t) (map Byte out))"
proof -
  let ?ks = "swap_source st t 0"
  obtain xs where xs: "compile_apply st t = Inr (eops_code xs)" "list_all eop_ok xs" "eops_source xs 0 0 = ?ks"
    by (rule compile_apply_source[OF assms(1-4)])
  have ks: "length ?ks = extent st t" "set ?ks \<subseteq> {0..<extent st t}" "extent st t \<le> length inp" "extent st t \<le> length out"
    using swap_source_swaps[OF assms(1-3), of 0] swaps_set[of 0 ?ks] extent_le[OF assms(1,2)] assms(5,6) by auto
  have "compiled_swap (eops_code xs) (map Byte inp) (map Byte out) = Inr (map Byte (overwrite out 0 (map ((!) inp) ?ks)))"
    using compiled_swap_ops[OF xs(2), of out inp] length_eop_source(2)[of xs 0 0] xs(3) ks by fastforce
  moreover have "endian_swap st t (map Byte inp) 0 = Inr (map Byte (overwrite inp 0 (map ((!) inp) ?ks)))"
    using endian_swap_source[OF assms(1-3), of 0 inp] assms(5) by simp
  ultimately show ?thesis using xs(1) ks(1) by (auto simp: overwrite_def drop_map)
qed

theorem compiled_swap_equivalent_witness:
  "\<exists>compiled mem. compile_apply endian_store 7 = Inr compiled \<and>
    endian_swap endian_store 7 (map Byte [1, 2, 3, 4, 5, 6, 7, 8]) 0 = Inr mem \<and>
    compiled_swap compiled (map Byte [1, 2, 3, 4, 5, 6, 7, 8]) (map Byte [0, 0, 0, 0, 0, 0, 0, 0]) =
      Inr (take 6 mem @ drop 6 (map Byte [0, 0, 0, 0, 0, 0, 0, 0]))"
  using compiled_swap_equivalent[of endian_store 7 "[1, 2, 3, 4, 5, 6, 7, 8]" "[0, 0, 0, 0, 0, 0, 0, 0]"] endian_store_ok
  by (simp add: Type_ctor_def)

text \<open>
  C17: The visitor swaps the endianness of a value in place. For numbers, enumerations, and arrays and
  structures of them where no array element and no field ends with padding (\<open>swappable\<close>), at any
  place of a memory of bytes, \<open>endian_swap\<close> succeeds: the bytes of every number and enumeration
  of the value are reversed in place (\<open>swap_source\<close> lists, for every byte of the result, where it
  comes from), all other bytes are unchanged, and a second swap restores the memory.
\<close>

theorem endian_swap_reverses:
  assumes "well_laid st" and "t \<in> dom (objects st)" and "swappable st t" and "offset + ty_size (type_at st t) \<le> length bs"
  shows "\<exists>bs'. endian_swap st t (map Byte bs) offset = Inr (map Byte bs') \<and> length bs' = length bs \<and>
    length (swap_source st t offset) = extent st t \<and>
    (\<forall>i < length bs. bs' ! i = (if offset \<le> i \<and> i < offset + extent st t
       then bs ! (swap_source st t offset ! (i - offset)) else bs ! i)) \<and>
    endian_swap st t (map Byte bs') offset = Inr (map Byte bs)"
proof -
  let ?ks = "swap_source st t offset" let ?bs = "overwrite bs offset (map ((!) bs) ?ks)"
  have ks: "swaps offset ?ks" "length ?ks = extent st t" "offset + length ?ks \<le> length bs"
    using swap_source_swaps[OF assms(1-3), of offset] extent_le[OF assms(1,2)] assms(4) by auto
  have len: "length ?bs = length bs" using ks(3) by simp
  have "?bs ! i = (if offset \<le> i \<and> i < offset + extent st t then bs ! (?ks ! (i - offset)) else bs ! i)"
    if "i < length bs" for i using that ks(2,3) by (auto simp: nth_overwrite)
  moreover have "endian_swap st t (map Byte ?bs) offset = Inr (map Byte bs)"
    using endian_swap_source[OF assms(1-3), of offset ?bs] swaps_twice[OF ks(1,3)] assms(4) len by (simp add: Let_def)
  ultimately show ?thesis using endian_swap_source[OF assms] ks(2) len by blast
qed

theorem endian_swap_reverses_witness:
  "endian_swap endian_store 7 (map Byte [1, 2, 3, 4, 5, 6, 7, 8]) 0 = Inr (map Byte [2, 1, 4, 3, 6, 5, 7, 8])"
proof -
  have source: "swap_source endian_store 7 0 = [1, 0, 3, 2, 5, 4]"
    by (simp add: swap_source_def source_numeral endian_store_defs upt_small)
  obtain bs' where bs': "endian_swap endian_store 7 (map Byte [1, 2, 3, 4, 5, 6, 7, 8]) 0 = Inr (map Byte bs')"
    "length bs' = 8" "\<forall>i < 8. bs' ! i = (if i < 6 then [1, 2, 3, 4, 5, 6, 7, 8] ! ([1, 0, 3, 2, 5, 4] ! i)
       else [1, 2, 3, 4, 5, 6, 7, 8] ! i)"
    using endian_swap_reverses[of endian_store 7 0 "[1, 2, 3, 4, 5, 6, 7, 8]"] endian_store_ok source
    by (auto simp: Type_ctor_def)
  have "[0..<8] = [0, 1, 2, 3, 4, 5, 6, 7]" by code_simp
  then have "bs' = map ((!) bs') [0, 1, 2, 3, 4, 5, 6, 7]" using map_nth[of bs'] bs'(2) by metis
  then have "bs' = [2, 1, 4, 3, 6, 5, 7, 8]" using bs'(3) by simp
  then show ?thesis using bs'(1) by simp
qed

end
