(* ===== verification/StringAlgorithms.thy ===== *)
theory StringAlgorithms
  imports Prelude
begin

text \<open>
  The string algorithms of \<open>boost\<close> that the sources call. They are not part of the repository:
  the definitions that use them take them as the parameter \<open>B\<close>, collected in \<open>boost\<close>;
  \<open>boost_spec\<close> states their documented behaviour, and \<open>boost_impl\<close> shows that it can be
  implemented.
\<close>

section \<open>The algorithms\<close>

text \<open>
  \<open>boost::split\<close> with \<open>is_any_of\<close> and \<open>token_compress_on\<close>, \<open>boost::join\<close>,
  \<open>boost::replace_all\<close>.
\<close>

record boost =
  split :: "string \<Rightarrow> string \<Rightarrow> string list"
  join :: "string list \<Rightarrow> string \<Rightarrow> string"
  replace_all :: "string \<Rightarrow> string \<Rightarrow> string \<Rightarrow> string"

section \<open>Their specification\<close>

definition split_spec :: "(string \<Rightarrow> string \<Rightarrow> string list) \<Rightarrow> bool" where
  "split_spec f \<longleftrightarrow>
     (\<forall>cs s. (\<forall>c \<in> set s. c \<notin> set cs) \<longrightarrow> f cs s = [s]) \<and>
     (\<forall>cs s sep r. (\<forall>c \<in> set s. c \<notin> set cs) \<and> sep \<noteq> [] \<and> only_of cs sep \<and> (r = [] \<or> hd r \<notin> set cs) \<longrightarrow>
        f cs (s @ sep @ r) = s # f cs r)"

definition join_spec :: "(string list \<Rightarrow> string \<Rightarrow> string) \<Rightarrow> bool" where
  "join_spec f \<longleftrightarrow> (\<forall>sep. f [] sep = []) \<and> (\<forall>s sep. f [s] sep = s) \<and> (\<forall>s t ts sep. f (s # t # ts) sep = s @ sep @ f (t # ts) sep)"

definition replace_spec :: "(string \<Rightarrow> string \<Rightarrow> string \<Rightarrow> string) \<Rightarrow> bool" where
  "replace_spec f \<longleftrightarrow>
     (\<forall>s p r. p \<noteq> [] \<and> \<not> contains_string p s \<longrightarrow> f s p r = s) \<and>
     (\<forall>a p r b. p \<noteq> [] \<and> \<not> contains_string p (a @ butlast p) \<longrightarrow> f (a @ p @ b) p r = a @ r @ f b p r)"

definition boost_spec :: "boost \<Rightarrow> bool" where
  "boost_spec B \<longleftrightarrow> split_spec (split B) \<and> join_spec (join B) \<and> replace_spec (replace_all B)"

text \<open>An implementation.\<close>

function split_any :: "string \<Rightarrow> string \<Rightarrow> string list" where
  "split_any cs s =
     (let t = takeWhile (\<lambda>c. c \<notin> set cs) s; r = dropWhile (\<lambda>c. c \<notin> set cs) s in
      if r = [] then [t] else t # split_any cs (dropWhile (\<lambda>c. c \<in> set cs) r))"
  by pat_completeness auto
termination
proof (relation "measure (\<lambda>(cs, s). length s)", goal_cases)
  case (2 cs s t r)
  then obtain c r' where r: "r = c # r'" by (meson neq_Nil_conv)
  then have "c \<in> set cs" using 2 by (metis hd_dropWhile list.sel(1) list.simps(3))
  then have "length (dropWhile (\<lambda>c. c \<in> set cs) r) < length r" using r by (simp add: length_dropWhile_le le_imp_less_Suc)
  moreover have "length r \<le> length s" using 2 by (simp add: length_dropWhile_le)
  ultimately show ?case by simp
qed simp

declare split_any.simps [simp del]

fun join_with :: "string list \<Rightarrow> string \<Rightarrow> string" where
  "join_with [] sep = []"
| "join_with [s] sep = s"
| "join_with (s # t # ts) sep = s @ sep @ join_with (t # ts) sep"

function replace_string :: "string \<Rightarrow> string \<Rightarrow> string \<Rightarrow> string" where
  "replace_string s p r =
     (case s of [] \<Rightarrow> []
      | c # cs \<Rightarrow> if p \<noteq> [] \<and> starts_with p s then r @ replace_string (drop (length p) s) p r else c # replace_string cs p r)"
  by pat_completeness auto
termination
  by (relation "measure (\<lambda>(s, _). length s)") auto

declare replace_string.simps [simp del]

definition boost_impl :: boost where
  "boost_impl = \<lparr>split = split_any, join = join_with, replace_all = replace_string\<rparr>"

lemma split_any_spec: "split_spec split_any"
  unfolding split_spec_def
proof (intro conjI allI impI)
  fix cs s :: string assume "\<forall>c \<in> set s. c \<notin> set cs"
  then show "split_any cs s = [s]" by (subst split_any.simps) (simp add: Let_def dropWhile_eq_Nil_conv takeWhile_eq_all_conv)
next
  fix cs s sep r :: string
  assume a: "(\<forall>c \<in> set s. c \<notin> set cs) \<and> sep \<noteq> [] \<and> only_of cs sep \<and> (r = [] \<or> hd r \<notin> set cs)"
  then obtain c sep' where sep: "sep = c # sep'" "c \<in> set cs" by (cases sep) (auto simp: only_of_def)
  have parts: "takeWhile (\<lambda>c. c \<notin> set cs) (s @ sep @ r) = s" "dropWhile (\<lambda>c. c \<notin> set cs) (s @ sep @ r) = sep @ r"
    using a sep by (simp_all add: takeWhile_append2 dropWhile_append2)
  moreover have "dropWhile (\<lambda>c. c \<in> set cs) (sep @ r) = r"
    using a by (cases r) (auto simp: only_of_def list_all_iff dropWhile_append2)
  ultimately show "split_any cs (s @ sep @ r) = s # split_any cs r"
    using a by (subst split_any.simps) (simp add: Let_def)
qed

lemma replace_string_at:
  assumes "p \<noteq> []" and "\<not> contains_string p (a @ butlast p)"
  shows "replace_string (a @ p @ b) p r = a @ r @ replace_string b p r"
  using assms(2)
proof (induction a)
  case Nil
  then show ?case using assms(1) by (subst replace_string.simps) (cases p; simp)
next
  case (Cons c a)
  have "\<not> starts_with p (c # a @ p @ b)"
  proof
    assume "starts_with p (c # a @ p @ b)"
    then have "take (length p) ((c # a @ butlast p) @ last p # b) = p"
      using assms(1) unfolding starts_with_take by (metis append.assoc append_Cons append_Nil append_butlast_last_id)
    moreover have "length p \<le> length (c # a @ butlast p)" using assms(1) by (cases p) auto
    ultimately have "take (length p) (c # a @ butlast p) = p" by (metis append.assoc append_Cons diff_is_0_eq take_append take0 append_Nil2)
    then have "starts_with p (c # a @ butlast p)" unfolding starts_with_take .
    then show False using Cons.prems by simp
  qed
  moreover have "\<not> contains_string p (a @ butlast p)" using Cons.prems by simp
  ultimately show ?case using Cons.IH by (subst append_Cons, subst replace_string.simps) simp
qed

lemma replace_string_none: "p \<noteq> [] \<Longrightarrow> \<not> contains_string p s \<Longrightarrow> replace_string s p r = s"
  by (induction s) (subst replace_string.simps, simp)+

lemma boost_impl_spec: "boost_spec boost_impl"
  using split_any_spec replace_string_at replace_string_none
  by (simp add: boost_spec_def boost_impl_def join_spec_def replace_spec_def)

lemma split_plain: "boost_spec B \<Longrightarrow> \<forall>c \<in> set s. c \<notin> set cs \<Longrightarrow> split B cs s = [s]"
  unfolding boost_spec_def split_spec_def by blast

lemma split_at: "boost_spec B \<Longrightarrow> \<forall>c \<in> set s. c \<notin> set cs \<Longrightarrow> sep \<noteq> [] \<Longrightarrow> only_of cs sep \<Longrightarrow> r = [] \<or> hd r \<notin> set cs \<Longrightarrow>
    split B cs (s @ sep @ r) = s # split B cs r"
  unfolding boost_spec_def split_spec_def by blast

end
