(* ===== verification/Display.thy ===== *)
theory Display
  imports Visitors StringAlgorithms
begin

text \<open>
  The display of types (\<open>typelib/typedisplay.cc\<close>) and of values as lines of comma separated
  values (\<open>typelib/csvoutput.cc\<close>). The output stream is the string written to it. \<open>boost::join\<close> is
  taken from the parameter \<open>B\<close>; how floating point numbers are printed is the parameter
  \<open>show_float\<close>. Proved: the display of a type ends, and the columns of a line hold the values
  that the columns of the header name.
\<close>

section \<open>Types\<close>

definition display_Numeric :: "Type \<Rightarrow> NumericCategory \<Rightarrow> string" where
  "display_Numeric obj cat = (case cat of SInt \<Rightarrow> ''sint'' | UInt \<Rightarrow> ''uint'' | Float \<Rightarrow> ''float'') @
     ''('' @ show_nat (ty_size obj) @ '') ('' @ ty_name obj @ '')''"

definition display_Enum :: "Type \<Rightarrow> (string \<times> int) list \<Rightarrow> string" where
  "display_Enum obj vs = ''enum '' @ ty_name obj @ concat (map (\<lambda>(symbol, v). newline @ ''    '' @ symbol @ '' -> '' @ show_int v) vs)"

definition display_field :: "(tid \<Rightarrow> string result) \<Rightarrow> string \<Rightarrow> string \<Rightarrow> Field \<Rightarrow> string result" where
  "display_field dispatch indent stream f =
     bind_result (dispatch (fld_type f)) (\<lambda>shown.
     Inr (stream @ indent @ ''(+'' @ show_nat (fld_offset f) @ '') '' @ shown @ '' '' @ fld_name f @ newline))"

text \<open>\<open>TypeDisplayVisitor\<close>. The fuel bounds the nesting of compounds and arrays.\<close>

fun display_type :: "nat \<Rightarrow> store \<Rightarrow> string \<Rightarrow> tid \<Rightarrow> string result" where
  "display_type 0 st indent t = Inl OutOfFuel"
| "display_type (Suc fuel) st indent t =
    (let obj = type_at st t in
     case ty_kind obj of
       NullType \<Rightarrow> Inr (''null'' @ newline)
     | Opaque \<Rightarrow> Inr (''opaque '' @ ty_name obj @ newline)
     | Compound flds \<Rightarrow>
         bind_result (fold_result (display_field (display_type fuel st (indent @ ''  '')) (indent @ ''  ''))
           (''compound '' @ ty_name obj @ '' ['' @ show_nat (ty_size obj) @ ''] {'' @ newline) flds) (\<lambda>stream.
         Inr (stream @ indent @ ''};''))
     | Numeric cat \<Rightarrow> Inr (display_Numeric obj cat)
     | Enum vs _ \<Rightarrow> Inr (display_Enum obj vs)
     | Pointer on \<Rightarrow> Inr (''pointer on '' @ ty_name (type_at st on) @ newline)
     | Array dim on \<Rightarrow>
         bind_result (display_type fuel st (indent @ ''  '') on) (\<lambda>shown.
         Inr (''array['' @ show_nat dim @ ''] of'' @ newline @ indent @ ''  '' @ shown))
     | Container container_kind _ on \<Rightarrow> Inr (''container '' @ container_kind @ ''<'' @ ty_name (type_at st on) @ ''>''))"

definition type_display :: "store \<Rightarrow> string \<Rightarrow> tid \<Rightarrow> string result" where
  "type_display st indent t = display_type (Suc (next_id st)) st indent t"

section \<open>Headers\<close>

text \<open>
  \<open>HeaderVisitor\<close>: \<open>m_name\<close> holds the parts of the name of the current column. Every method
  restores it. The elements of a container are one column; pointers are followed.
\<close>

definition header_Array :: "(tid \<Rightarrow> string list \<Rightarrow> string list \<Rightarrow> string list result) \<Rightarrow> nat \<Rightarrow> tid \<Rightarrow> string list \<Rightarrow> string list \<Rightarrow> string list result" where
  "header_Array dispatch dim on m_name m_headers =
     fold_result (\<lambda>headers i. dispatch on (m_name @ [''['', show_nat i, '']'']) headers) m_headers [0..<dim]"

definition header_Compound :: "(tid \<Rightarrow> string list \<Rightarrow> string list \<Rightarrow> string list result) \<Rightarrow> Field list \<Rightarrow> string list \<Rightarrow> string list \<Rightarrow> string list result" where
  "header_Compound dispatch flds m_name m_headers =
     fold_result (\<lambda>headers f. dispatch (fld_type f) (m_name @ [''.'', fld_name f]) headers) m_headers flds"

fun header_visit :: "nat \<Rightarrow> boost \<Rightarrow> store \<Rightarrow> tid \<Rightarrow> string list \<Rightarrow> string list \<Rightarrow> string list result" where
  "header_visit 0 B st t m_name m_headers = Inl OutOfFuel"
| "header_visit (Suc fuel) B st t m_name m_headers =
    (let obj = type_at st t; output = Inr (m_headers @ [join B m_name []]) in
     case ty_kind obj of
       NullType \<Rightarrow> Inl (NullTypeFound (ty_name obj))
     | Opaque \<Rightarrow> output
     | Numeric _ \<Rightarrow> output
     | Enum _ _ \<Rightarrow> output
     | Pointer on \<Rightarrow> header_visit fuel B st on (''*('' # m_name @ ['')'']) m_headers
     | Array dim on \<Rightarrow> header_Array (header_visit fuel B st) dim on m_name m_headers
     | Compound flds \<Rightarrow> header_Compound (header_visit fuel B st) flds m_name m_headers
     | Container _ _ on \<Rightarrow> header_visit fuel B st on m_name m_headers)"

definition HeaderVisitor_apply :: "boost \<Rightarrow> store \<Rightarrow> tid \<Rightarrow> string \<Rightarrow> string list result" where
  "HeaderVisitor_apply B st t basename = header_visit (Suc (next_id st)) B st t [basename] []"

definition CSVOutput_header :: "boost \<Rightarrow> store \<Rightarrow> tid \<Rightarrow> string \<Rightarrow> string \<Rightarrow> string result" where
  "CSVOutput_header B st t m_separator basename =
     bind_result (HeaderVisitor_apply B st t basename) (\<lambda>headers. Inr (join B headers m_separator))"

section \<open>Lines\<close>

definition signed_of :: "nat \<Rightarrow> nat \<Rightarrow> int" where
  "signed_of sz v = (if v < 2 ^ (8 * sz - 1) then int v else int v - 2 ^ (8 * sz))"

text \<open>\<open>display\<close>: integers of one byte are printed as characters unless \<open>m_char_as_numeric\<close> is set.\<close>

definition display_value :: "(byte list \<Rightarrow> string) \<Rightarrow> bool \<Rightarrow> NumericCategory \<Rightarrow> byte list \<Rightarrow> string" where
  "display_value show_float char_as_numeric cat bs =
     (if cat = Float then show_float bs
      else if length bs = 1 \<and> \<not> char_as_numeric then [char_of (nat_of_bytes bs)]
      else if cat = SInt then show_int (signed_of (length bs) (nat_of_bytes bs))
      else show_nat (nat_of_bytes bs))"

definition line_Enum :: "store \<Rightarrow> tid \<Rightarrow> byte list \<Rightarrow> string" where
  "line_Enum st t bs =
     (let v = signed_of 4 (nat_of_bytes bs) in
      case ty_kind (type_at st t) of
        Enum vs _ \<Rightarrow> (case Enum_get_value vs v of Inr symbol \<Rightarrow> symbol | Inl _ \<Rightarrow> show_int v)
      | _ \<Rightarrow> show_int v)"

definition line_String :: "string \<Rightarrow> byte list \<Rightarrow> string" where
  "line_String string_delimeter str = string_delimeter @ map (\<lambda>b. char_of (unat b)) str @ string_delimeter"

text \<open>
  \<open>LineVisitor\<close>. Its method for opaque types takes the value by copy, so it does not override the
  virtual method: opaque types are not printed.
\<close>

definition LineVisitor :: "(memory \<Rightarrow> nat \<Rightarrow> (memory \<times> nat) result) \<Rightarrow> (byte list \<Rightarrow> string) \<Rightarrow> store \<Rightarrow> bool \<Rightarrow> string \<Rightarrow> string list ValueVisitor" where
  "LineVisitor deref show_float st char_as_numeric string_delimeter =
     \<lparr>on_numeric = (\<lambda>cat n mem offset m_output. bind_result (read_bytes mem offset n) (\<lambda>bs.
        Inr (True, mem, m_output @ [display_value show_float char_as_numeric cat bs]))),
      on_enum = (\<lambda>t mem offset m_output. bind_result (read_bytes mem offset 4) (\<lambda>bs.
        Inr (True, mem, m_output @ [line_Enum st t bs]))),
      on_pointer = follow_pointer deref,
      on_container = (\<lambda>visited t mem offset m_output.
        if ty_name (type_at st t) = ''/std/string''
        then bind_result (get_string mem offset) (\<lambda>str. Inr (True, mem, m_output @ [line_String string_delimeter str]))
        else visited),
      on_field = default_field\<rparr>"

definition CSVOutput_line :: "(memory \<Rightarrow> nat \<Rightarrow> (memory \<times> nat) result) \<Rightarrow> (byte list \<Rightarrow> string) \<Rightarrow> store \<Rightarrow> bool \<Rightarrow> string
    \<Rightarrow> tid \<Rightarrow> memory \<Rightarrow> nat \<Rightarrow> string list result" where
  "CSVOutput_line deref show_float st char_as_numeric string_delimeter t mem offset =
     bind_result (apply_value st (LineVisitor deref show_float st char_as_numeric string_delimeter) t mem offset []) (\<lambda>(_, m_output). Inr m_output)"

definition CSVOutput_display :: "boost \<Rightarrow> (memory \<Rightarrow> nat \<Rightarrow> (memory \<times> nat) result) \<Rightarrow> (byte list \<Rightarrow> string) \<Rightarrow> store \<Rightarrow> string \<Rightarrow> bool \<Rightarrow> string
    \<Rightarrow> tid \<Rightarrow> memory \<Rightarrow> nat \<Rightarrow> string result" where
  "CSVOutput_display B deref show_float st m_separator char_as_numeric string_delimeter t mem offset =
     bind_result (CSVOutput_line deref show_float st char_as_numeric string_delimeter t mem offset) (\<lambda>cells. Inr (join B cells m_separator))"

section \<open>Properties\<close>

text \<open>The types of which every part is a column, with their fields inside.\<close>

inductive csv_type :: "store \<Rightarrow> tid \<Rightarrow> bool" for st where
  csv_numeric: "ty_kind (type_at st t) = Numeric cat \<Longrightarrow> ty_size (type_at st t) \<in> (case cat of Float \<Rightarrow> {4, 8} | _ \<Rightarrow> {1, 2, 4, 8}) \<Longrightarrow> csv_type st t"
| csv_enum: "ty_kind (type_at st t) = Enum vs l \<Longrightarrow> ty_size (type_at st t) = 4 \<Longrightarrow> csv_type st t"
| csv_array: "ty_kind (type_at st t) = Array dim on \<Longrightarrow> ty_size (type_at st t) = dim * ty_size (type_at st on) \<Longrightarrow> csv_type st on \<Longrightarrow> csv_type st t"
| csv_compound: "ty_kind (type_at st t) = Compound flds \<Longrightarrow>
    (\<And>f. f \<in> set flds \<Longrightarrow> csv_type st (fld_type f) \<and> fld_offset f + ty_size (type_at st (fld_type f)) \<le> ty_size (type_at st t)) \<Longrightarrow> csv_type st t"

inductive_cases csv_typeE: "csv_type st t"

text \<open>
  The columns of a type: the numbers and enumerations in it, in the order of memory traversal, each
  with the parts of its name and its offset.
\<close>

fun leaves :: "nat \<Rightarrow> store \<Rightarrow> tid \<Rightarrow> string list \<Rightarrow> nat \<Rightarrow> (string list \<times> nat \<times> tid) list" where
  "leaves 0 st t path offset = []"
| "leaves (Suc fuel) st t path offset =
    (case ty_kind (type_at st t) of
       Array dim on \<Rightarrow> concat (map (\<lambda>i. leaves fuel st on (path @ [''['', show_nat i, '']'']) (offset + ty_size (type_at st on) * i)) [0..<dim])
     | Compound flds \<Rightarrow> concat (map (\<lambda>f. leaves fuel st (fld_type f) (path @ [''.'', fld_name f]) (offset + fld_offset f)) flds)
     | _ \<Rightarrow> [(path, offset, t)])"

definition column_name :: "boost \<Rightarrow> string list \<times> nat \<times> tid \<Rightarrow> string" where
  "column_name B leaf = join B (fst leaf) []"

definition column_value :: "(byte list \<Rightarrow> string) \<Rightarrow> bool \<Rightarrow> store \<Rightarrow> memory \<Rightarrow> string list \<times> nat \<times> tid \<Rightarrow> string" where
  "column_value show_float char_as_numeric st mem leaf =
     (case leaf of (_, offset, t) \<Rightarrow>
      let bs = projr (read_bytes mem offset (ty_size (type_at st t))) in
      case ty_kind (type_at st t) of
        Numeric cat \<Rightarrow> display_value show_float char_as_numeric cat bs
      | _ \<Rightarrow> line_Enum st t bs)"

definition readable :: "memory \<Rightarrow> nat \<Rightarrow> nat \<Rightarrow> bool" where
  "readable mem offset n \<longleftrightarrow> offset + n \<le> length mem \<and> (\<forall>i < n. is_Byte (mem ! (offset + i)))"

lemma readable_read:
  assumes "readable mem offset n"
  shows "\<exists>bs. read_bytes mem offset n = Inr bs"
proof -
  have "list_all is_Byte (slice mem offset n)"
    using assms by (auto simp: readable_def slice_def list_all_length)
  then show ?thesis using assms by (simp add: read_bytes_def readable_def)
qed

lemma readable_part: "readable mem offset n \<Longrightarrow> k + m \<le> n \<Longrightarrow> readable mem (offset + k) m"
  by (auto simp: readable_def add.assoc)

text \<open>A loop over visits that each append to the output.\<close>

lemma fold_appends:
  "(\<And>x out. x \<in> set xs \<Longrightarrow> f out x = Inr (out @ g x)) \<Longrightarrow> fold_result f out xs = Inr (out @ concat (map g xs))"
  by (induction xs arbitrary: out) simp_all

lemma visit_while_appends:
  "(\<And>x out. x \<in> set xs \<Longrightarrow> f x mem out = Inr (True, mem, out @ g x)) \<Longrightarrow>
   visit_while f xs mem out = Inr (True, mem, out @ concat (map g xs))"
  by (induction xs arbitrary: out) simp_all

lemma nested_fuel:
  assumes "wf_store st" and "acyclic (contains st)" and "t \<in> dom (objects st)" and "csv_type st t" and "card (nested_in st t) < Suc fuel"
    and "u \<in> set (kind_refs (ty_kind (type_at st t)))"
  shows "u \<in> dom (objects st)" "card (nested_in st u) < fuel"
proof -
  show "u \<in> dom (objects st)" using assms(1,3,6) unfolding wf_store_def type_at_def by (auto simp: domIff) blast
  have "(t, u) \<in> contains st" using assms(4,3,6) by (cases rule: csv_type.cases) (auto simp: contains_def)
  then show "card (nested_in st u) < fuel" using nested_in_psubset[OF assms(1,2)] assms(5) by fastforce
qed

lemma header_columns:
  assumes "wf_store st" and "acyclic (contains st)"
  shows "t \<in> dom (objects st) \<Longrightarrow> csv_type st t \<Longrightarrow> card (nested_in st t) < fuel \<Longrightarrow>
    header_visit fuel B st t path headers = Inr (headers @ map (column_name B) (leaves fuel st t path offset))"
proof (induction fuel arbitrary: t path headers offset)
  case (Suc fuel)
  note fuel = nested_fuel[OF assms Suc.prems]
  from Suc.prems(2) show ?case
  proof (cases rule: csv_type.cases)
    case (csv_array dim on)
    have "header_visit fuel B st on p hs = Inr (hs @ map (column_name B) (leaves fuel st on p off))" for p hs off
      using Suc.IH[of on] fuel[of on] csv_array by simp
    then show ?thesis using csv_array(1) unfolding header_visit.simps
      by (simp add: Let_def header_Array_def map_concat o_def)
        (rule fold_appends[where g = "\<lambda>i. map (column_name B) (leaves fuel st on (path @ [''['', show_nat i, '']''])
          (offset + ty_size (type_at st on) * i))"], simp)
  next
    case (csv_compound flds)
    have "header_visit fuel B st (fld_type f) p hs = Inr (hs @ map (column_name B) (leaves fuel st (fld_type f) p off))"
      if "f \<in> set flds" for f p hs off using Suc.IH[of "fld_type f"] fuel[of "fld_type f"] csv_compound that by simp
    then show ?thesis using csv_compound(1) unfolding header_visit.simps
      by (simp add: Let_def header_Compound_def map_concat o_def)
        (rule fold_appends[where g = "\<lambda>f. map (column_name B) (leaves fuel st (fld_type f) (path @ [''.'', fld_name f])
          (offset + fld_offset f))"], simp)
  qed (simp_all add: column_name_def)
qed simp

lemma line_columns:
  assumes "wf_store st" and "acyclic (contains st)"
  shows "t \<in> dom (objects st) \<Longrightarrow> csv_type st t \<Longrightarrow> card (nested_in st t) < fuel \<Longrightarrow> readable mem offset (ty_size (type_at st t)) \<Longrightarrow>
    dispatch_value fuel st (LineVisitor deref show_float st cn delim) t mem offset out =
    Inr (True, mem, out @ map (column_value show_float cn st mem) (leaves fuel st t path offset))"
proof (induction fuel arbitrary: t offset out path)
  case (Suc fuel)
  note fuel = nested_fuel[OF assms Suc.prems(1-3)]
  let ?vis = "LineVisitor deref show_float st cn delim" and ?text = "column_value show_float cn st mem"
  obtain bs where bs: "read_bytes mem offset (ty_size (type_at st t)) = Inr bs" using readable_read[OF Suc.prems(4)] by blast
  from Suc.prems(2) show ?case
  proof (cases rule: csv_type.cases)
    case (csv_numeric cat)
    then show ?thesis using bs by (simp add: dispatch_Numeric_def LineVisitor_def column_value_def)
  next
    case (csv_enum vs l)
    then show ?thesis using bs by (simp add: LineVisitor_def column_value_def)
  next
    case (csv_array dim on)
    let ?d = "\<lambda>i mem out. dispatch_value fuel st ?vis on mem (offset + ty_size (type_at st on) * i) out"
    let ?g = "\<lambda>i. map ?text (leaves fuel st on (path @ [''['', show_nat i, '']'']) (offset + ty_size (type_at st on) * i))"
    have "?d i mem out = Inr (True, mem, out @ ?g i)" if "i \<in> set [0..<dim]" for i out
    proof (rule Suc.IH)
      have "ty_size (type_at st on) * i + ty_size (type_at st on) = ty_size (type_at st on) * Suc i" by simp
      also have "\<dots> \<le> ty_size (type_at st on) * dim" using that by (intro mult_le_mono2) simp
      finally show "readable mem (offset + ty_size (type_at st on) * i) (ty_size (type_at st on))"
        using readable_part[OF Suc.prems(4)] csv_array(2) by (simp add: mult.commute)
    qed (use csv_array fuel[of on] in simp_all)
    from visit_while_appends[of "[0..<dim]" ?d mem ?g out, OF this]
    show ?thesis using csv_array(1) by (simp add: visit_value_Array_def map_concat o_def)
  next
    case (csv_compound flds)
    let ?d = "\<lambda>f mem out. on_field ?vis (dispatch_value fuel st ?vis) f mem (offset + fld_offset f) out"
    let ?g = "\<lambda>f. map ?text (leaves fuel st (fld_type f) (path @ [''.'', fld_name f]) (offset + fld_offset f))"
    have "?d f mem out = Inr (True, mem, out @ ?g f)" if "f \<in> set flds" for f out
    proof -
      have "readable mem (offset + fld_offset f) (ty_size (type_at st (fld_type f)))"
        by (rule readable_part[OF Suc.prems(4)]) (use csv_compound(2)[OF that] in simp)
      then have "dispatch_value fuel st ?vis (fld_type f) mem (offset + fld_offset f) out = Inr (True, mem, out @ ?g f)"
        using csv_compound that fuel[of "fld_type f"] by (intro Suc.IH) simp_all
      then show ?thesis by (simp add: LineVisitor_def default_field_def)
    qed
    from visit_while_appends[of flds ?d mem ?g out, OF this]
    show ?thesis using csv_compound(1) by (simp add: visit_value_Compound_def map_concat o_def)
  qed
qed simp

lemma nested_in_bound: "wf_store st \<Longrightarrow> card (nested_in st t) < Suc (next_id st)"
proof -
  assume wf: "wf_store st"
  have "card (nested_in st t) \<le> card {..< next_id st}"
    using nested_in_subset[OF wf, of t] wf_store_finite[OF wf] by (intro card_mono) auto
  then show ?thesis by simp
qed

text \<open>
  C36: For every type that is made of numbers, enumerations, arrays and structures, and every value of
  it in memory, the CSV header and the CSV line are printed, and their columns correspond: the
  columns are the numbers and enumerations in the type, in order; the header has the path to each of
  them, and the line the text of the bytes at its offset.
\<close>

theorem csv_columns_match:
  assumes "wf_store st" and "acyclic (contains st)" and "t \<in> dom (objects st)" and "csv_type st t"
    and "readable mem offset (ty_size (type_at st t))"
  shows "\<exists>columns. columns = leaves (Suc (next_id st)) st t [basename] offset \<and>
    CSVOutput_header B st t separator basename = Inr (join B (map (column_name B) columns) separator) \<and>
    CSVOutput_display B deref show_float st separator char_as_numeric delim t mem offset =
      Inr (join B (map (column_value show_float char_as_numeric st mem) columns) separator)"
  using header_columns[OF assms(1-4) nested_in_bound[OF assms(1)], of B "[basename]" "[]" offset]
    line_columns[OF assms(1-4) nested_in_bound[OF assms(1)] assms(5), of deref show_float char_as_numeric delim "[]" "[basename]"]
  by (auto simp: CSVOutput_header_def CSVOutput_display_def HeaderVisitor_apply_def CSVOutput_line_def apply_value_def
      simp del: header_visit.simps dispatch_value.simps leaves.simps)

lemma pair_store_csv: "wf_store pair_store" "acyclic (contains pair_store)" "csv_type pair_store 3"
proof -
  have int: "csv_type pair_store 2" by (rule csv_numeric[where cat = SInt]) (simp_all add: pair_store_def type_at_def Numeric_ctor_def Type_ctor_def)
  show "csv_type pair_store 3" by (rule csv_compound) (use int in \<open>auto simp: pair_store_def type_at_def Numeric_ctor_def Type_ctor_def\<close>)
  show "wf_store pair_store" by (auto simp: wf_store_def pair_store_def Numeric_ctor_def Type_ctor_def)
  show "acyclic (contains pair_store)"
  proof (rule acyclicI_order[where f = id])
    show "id u < id t" if "(t, u) \<in> contains pair_store" for t u
      using that by (auto simp: contains_def pair_store_def type_at_def Numeric_ctor_def Type_ctor_def split: if_splits)
  qed
qed

theorem csv_columns_match_witness:
  "CSVOutput_header boost_impl pair_store 3 '','' ''p'' = Inr ''p.a,p.b'' \<and>
   CSVOutput_display boost_impl (\<lambda>_ _. Inl UndefinedBehaviour) (\<lambda>_. []) pair_store '','' True [] 3
     (map Byte [7, 0, 0, 0, 255, 255, 255, 255]) 0 = Inr ''7,-1''"
proof -
  have h: "3 \<in> dom (objects pair_store)" "ty_size (type_at pair_store 3) = 8" by (simp_all add: pair_store_def type_at_def Type_ctor_def)
  have "readable (map Byte [7, 0, 0, 0, 255, 255, 255, 255]) 0 8"
    unfolding readable_def by (simp add: nth_map del: list.map)
  then have "\<exists>columns. columns = leaves (Suc (next_id pair_store)) pair_store 3 [''p''] 0 \<and>
    CSVOutput_header boost_impl pair_store 3 '','' ''p'' = Inr (join boost_impl (map (column_name boost_impl) columns) '','') \<and>
    CSVOutput_display boost_impl (\<lambda>_ _. Inl UndefinedBehaviour) (\<lambda>_. []) pair_store '','' True [] 3
      (map Byte [7, 0, 0, 0, 255, 255, 255, 255]) 0 =
      Inr (join boost_impl (map (column_value (\<lambda>_. []) True pair_store (map Byte [7, 0, 0, 0, 255, 255, 255, 255])) columns) '','')"
    by (intro csv_columns_match[OF pair_store_csv(1,2) h(1) pair_store_csv(3)]) (simp add: h(2))
  moreover have "leaves (Suc (next_id pair_store)) pair_store 3 [''p''] 0 = [([''p'', ''.'', ''a''], 0, 2), ([''p'', ''.'', ''b''], 4, 2)]"
    by code_simp
  moreover have "join boost_impl (map (column_name boost_impl) [([''p'', ''.'', ''a''], 0, 2), ([''p'', ''.'', ''b''], 4, 2)]) '','' = ''p.a,p.b''"
    by code_simp
  moreover have "map (column_value (\<lambda>_. []) True pair_store (map Byte [7, 0, 0, 0, 255, 255, 255, 255]))
      [([''p'', ''.'', ''a''], 0, 2), ([''p'', ''.'', ''b''], 4, 2)] = [show_int 7, show_int (- 1)]"
    by (simp add: column_value_def display_value_def signed_of_def read_bytes_def slice_def pair_store_def type_at_def
        Numeric_ctor_def Type_ctor_def)
  moreover have "join boost_impl [show_int 7, show_int (- 1)] '','' = ''7,-1''" by code_simp
  ultimately show ?thesis by simp
qed

text \<open>The display of a type ends; the target of a pointer is named, not displayed.\<close>

lemma display_type_returns:
  assumes "wf_store st" and "acyclic (contains st)"
  shows "t \<in> dom (objects st) \<Longrightarrow> card (nested_in st t) < fuel \<Longrightarrow> \<exists>s. display_type fuel st indent t = Inr s"
proof (induction fuel arbitrary: t indent)
  case (Suc fuel)
  have IH: "\<exists>s. display_type fuel st i u = Inr s" if "(t, u) \<in> contains st" for u i
  proof (rule Suc.IH)
    show "card (nested_in st u) < fuel" using nested_in_psubset[OF assms that] Suc.prems(2) by simp
    show "u \<in> dom (objects st)" using nested_in_subset[OF assms(1), of t] that by (auto simp: nested_in_def)
  qed
  show ?case
  proof (cases "ty_kind (type_at st t)")
    case (Array dim on)
    then show ?thesis using IH[of on] Suc.prems(1) by (force simp: contains_def)
  next
    case (Compound flds)
    have "\<exists>s. fold_result (display_field (display_type fuel st i) i) stream gs = Inr s" if "set gs \<subseteq> set flds" for gs i stream
      using that
    proof (induction gs arbitrary: stream)
      case (Cons g gs)
      obtain s where "display_type fuel st i (fld_type g) = Inr s" using IH[of "fld_type g" i] Cons.prems Compound Suc.prems(1)
        by (force simp: contains_def)
      then show ?case using Cons by (simp add: display_field_def)
    qed simp
    from this[OF order_refl, of "indent @ ''  ''"] show ?thesis using Compound by (auto simp: Let_def)
  qed simp_all
qed simp

lemma type_display_returns:
  "wf_store st \<Longrightarrow> acyclic (contains st) \<Longrightarrow> t \<in> dom (objects st) \<Longrightarrow> \<exists>s. type_display st indent t = Inr s"
  unfolding type_display_def by (rule display_type_returns[OF _ _ _ nested_in_bound])

end
