(* ===== verification/Registry.thy ===== *)
theory Registry
  imports TypeModel
begin

text \<open>
  The registry: \<open>typelib/registry.cc\<close> and \<open>typelib/registry.hh\<close>, with the name parser of
  \<open>typelib/typebuilder.cc\<close> that \<open>Registry::has\<close> relies on. \<open>m_global\<close> maps absolute names
  to types, ordered by \<open>nameSort\<close>; \<open>m_current\<close> adds the names that are visible relative to
  the default namespace. Aliases are entries whose key is not the name of the type.
  Operations that read or modify type objects take the store. The tokenizer of namespaces
  is the parameter \<open>tok\<close> (see \<open>Typename\<close>).
\<close>

section \<open>Parsing the modifiers of a type name\<close>

text \<open>
  \<open>Modifier\<close>: the category is \<open>CatPointer\<close> or \<open>CatArray\<close>. \<open>find_last_of\<close> searches at
  positions up to \<open>end\<close>. The \<open>int\<close> cursor stops at every value below one, so a natural
  number stands for it.
\<close>

record Modifier =
  mod_category :: Category
  mod_size :: int

definition find_last_of :: "string \<Rightarrow> char \<Rightarrow> nat \<Rightarrow> nat option" where
  "find_last_of s c last_pos =
     (case filter (\<lambda>i. char_at s i = c) [0..<Suc last_pos] of
        [] \<Rightarrow> None | positions \<Rightarrow> Some (last positions))"

lemma find_last_of_le:
  assumes "find_last_of s c e = Some i"
  shows "i \<le> e \<and> char_at s i = c"
proof (cases "filter (\<lambda>i. char_at s i = c) [0..<Suc e]")
  case Nil
  with assms show ?thesis by (simp add: find_last_of_def del: upt_Suc)
next
  case (Cons x xs)
  with assms have "i = last (x # xs)" by (simp add: find_last_of_def del: upt_Suc)
  then have "i \<in> set (filter (\<lambda>i. char_at s i = c) [0..<Suc e])"
    using last_in_set[of "x # xs"] unfolding Cons by simp
  then show ?thesis by (simp del: upt_Suc)
qed

function parseTypename_loop :: "string \<Rightarrow> nat \<Rightarrow> Modifier list \<Rightarrow> (string \<times> Modifier list) result" where
  "parseTypename_loop full_name end_pos modlist =
     (if end_pos = 0 then Inl (InvalidIndirectName full_name)
      else if char_at full_name end_pos = CHR '']'' then
        (case find_last_of full_name (CHR ''['') end_pos of
           None \<Rightarrow> Inl (InvalidIndirectName full_name)
         | Some start \<Rightarrow> parseTypename_loop full_name (start - 1)
             (\<lparr>mod_category = CatArray, mod_size = atoi (drop (start + 1) full_name)\<rparr> # modlist))
      else if char_at full_name end_pos = CHR ''*'' then
        parseTypename_loop full_name (end_pos - 1) (\<lparr>mod_category = CatPointer, mod_size = 1\<rparr> # modlist)
      else if char_at full_name end_pos = CHR '' '' then
        parseTypename_loop full_name (end_pos - 1) modlist
      else Inr (take (end_pos + 1) full_name, modlist))"
  by pat_completeness auto
termination
  by (relation "measure (\<lambda>(_, end_pos, _). end_pos)") (auto dest!: find_last_of_le)

declare parseTypename_loop.simps [simp del]

definition parseTypename :: "string \<Rightarrow> (string \<times> Modifier list) result" where
  "parseTypename full_name = parseTypename_loop full_name (length full_name - 1) []"

definition getBaseTypename :: "string \<Rightarrow> string result" where
  "getBaseTypename full_name = bind_result (parseTypename full_name) (\<lambda>(name, _). Inr name)"

section \<open>The registry\<close>

record RegistryType =
  reg_type :: tid
  reg_persistent :: bool
  reg_source_id :: string

record Registry =
  m_global :: "(string \<times> RegistryType) list"
  m_current :: "string \<rightharpoonup> RegistryType"
  m_namespace :: string

text \<open>\<open>m_current.insert\<close> keeps an existing entry.\<close>

definition current_insert :: "string \<Rightarrow> RegistryType \<Rightarrow> (string \<rightharpoonup> RegistryType) \<Rightarrow> (string \<rightharpoonup> RegistryType)" where
  "current_insert name regtype m = (case m name of None \<Rightarrow> m(name \<mapsto> regtype) | Some _ \<Rightarrow> m)"

subsection \<open>Lookups\<close>

definition get :: "Registry \<Rightarrow> string \<Rightarrow> tid option" where
  "get reg name = map_option reg_type (m_current reg name)"

definition get_ref :: "store \<Rightarrow> Registry \<Rightarrow> tid \<Rightarrow> tid result" where
  "get_ref st reg type = (case get reg (ty_name (type_at st type)) of
     None \<Rightarrow> Inl (Undefined (ty_name (type_at st type))) | Some t \<Rightarrow> Inr t)"

definition find_entry :: "Registry \<Rightarrow> string \<Rightarrow> RegistryType option" where
  "find_entry reg name = map_of (m_global reg) name"

definition isAlias :: "store \<Rightarrow> string \<times> RegistryType \<Rightarrow> bool" where
  "isAlias st e = (fst e \<noteq> ty_name (type_at st (reg_type (snd e))))"

definition isIncluded :: "store \<Rightarrow> Registry \<Rightarrow> tid \<Rightarrow> bool" where
  "isIncluded st reg type = (get reg (ty_name (type_at st type)) = Some type)"

definition getFullName :: "Registry \<Rightarrow> string \<Rightarrow> string" where
  "getFullName reg name = (if isAbsoluteName name then name else m_namespace reg @ name)"

definition maybeParse :: "Registry \<Rightarrow> string \<Rightarrow> (tid option \<times> Modifier list) result" where
  "maybeParse reg full_name =
     bind_result (parseTypename full_name) (\<lambda>(name, mods).
       case get reg name of None \<Rightarrow> Inr (None, []) | Some t \<Rightarrow> Inr (Some t, mods))"

definition getBaseType :: "Registry \<Rightarrow> string \<Rightarrow> tid option result" where
  "getBaseType reg full_name = bind_result (maybeParse reg full_name) (\<lambda>(t, _). Inr t)"

definition has :: "Registry \<Rightarrow> string \<Rightarrow> bool \<Rightarrow> bool result" where
  "has reg name build_if_missing =
     (if m_current reg name \<noteq> None then Inr True
      else if \<not> build_if_missing then Inr False
      else bind_result (getBaseType reg (getFullName reg name)) (\<lambda>t. Inr (t \<noteq> None)))"

text \<open>A \<open>std::set<std::string>\<close>, in its order.\<close>

definition getAliasesOf :: "store \<Rightarrow> Registry \<Rightarrow> tid \<Rightarrow> string list" where
  "getAliasesOf st reg type =
     sort (map fst (filter (\<lambda>e. isAlias st e \<and> reg_type (snd e) = type) (m_global reg)))"

text \<open>The ranges \<open>[begin(), end())\<close> and \<open>[begin(prefix), end(prefix))\<close>.\<close>

definition begin_end :: "Registry \<Rightarrow> string \<Rightarrow> (string \<times> RegistryType) list" where
  "begin_end reg prefix =
     (case omap_lower_bound nameSort prefix (m_global reg) of
        [] \<Rightarrow> []
      | e # rest \<Rightarrow> if starts_with prefix (fst e)
          then takeWhile (\<lambda>e. starts_with prefix (fst e)) (e # rest) else [])"

definition registry_size :: "Registry \<Rightarrow> nat" where
  "registry_size reg = length (m_global reg)"

subsection \<open>Namespaces\<close>

definition importNamespace :: "Registry \<Rightarrow> string \<Rightarrow> bool \<Rightarrow> Registry" where
  "importNamespace reg name erase_existing =
     (let norm_name = getNormalizedNamespace name;
          norm_length = length norm_name
      in fold (\<lambda>(full_name, regtype) reg'.
           let rel_name = drop norm_length full_name;
               cur = (if erase_existing then (m_current reg')(rel_name := None) else m_current reg')
           in reg'\<lparr>m_current := current_insert rel_name regtype cur\<rparr>)
         (takeWhile (\<lambda>e. isInNamespace (fst e) norm_name True)
           (omap_lower_bound nameSort norm_name (m_global reg))) reg)"

fun import_spaces :: "string \<Rightarrow> string list \<Rightarrow> Registry \<Rightarrow> Registry" where
  "import_spaces cur_space [] reg = reg"
| "import_spaces cur_space (t # ts) reg =
     (let cur_space' = cur_space @ t @ NamespaceMarkString
      in import_spaces cur_space' ts (importNamespace reg cur_space' True))"

definition updateCurrentNameMap :: "tokenizer \<Rightarrow> Registry \<Rightarrow> Registry" where
  "updateCurrentNameMap tok reg =
     (let reg1 = fold (\<lambda>(name, regtype) r. r\<lparr>m_current := current_insert name regtype (m_current r)\<rparr>)
            (m_global reg) (reg\<lparr>m_current := Map.empty\<rparr>);
          reg2 = importNamespace reg1 NamespaceMarkString False
      in import_spaces NamespaceMarkString (tok (m_namespace reg)) reg2)"

definition setDefaultNamespace :: "tokenizer \<Rightarrow> Registry \<Rightarrow> string \<Rightarrow> bool \<times> Registry" where
  "setDefaultNamespace tok reg space =
     (if \<not> isValidNamespace tok space True then (False, reg)
      else (True, updateCurrentNameMap tok (reg\<lparr>m_namespace := getNormalizedNamespace space\<rparr>)))"

subsection \<open>Adding types and aliases\<close>

definition isPersistent :: "store \<Rightarrow> string \<Rightarrow> tid \<Rightarrow> bool" where
  "isPersistent st name type =
     (if name \<noteq> ty_name (type_at st type) then True
      else case getCategory (type_at st type) of
        CatPointer \<Rightarrow> False | CatArray \<Rightarrow> False | _ \<Rightarrow> True)"

text \<open>The loop that makes the new type visible relative to the enclosing namespaces.\<close>

fun add_relative :: "store \<Rightarrow> string \<Rightarrow> RegistryType \<Rightarrow> string \<Rightarrow> string list \<Rightarrow>
    (string \<rightharpoonup> RegistryType) \<Rightarrow> (string \<rightharpoonup> RegistryType) result" where
  "add_relative st name regtype cur_space tokens cur =
     (if length name \<le> length cur_space \<or> take (length cur_space) name \<noteq> cur_space then Inr cur
      else bind_result (getRelativeName name cur_space) (\<lambda>cur_name.
        let cur' = (if (case cur cur_name of
                          None \<Rightarrow> True
                        | Some old \<Rightarrow> \<not> nameSort (ty_name (type_at st (reg_type old))) name)
                    then cur(cur_name \<mapsto> regtype) else cur)
        in case tokens of
             [] \<Rightarrow> Inr cur'
           | t # ts \<Rightarrow> add_relative st name regtype (cur_space @ t @ NamespaceMarkString) ts cur'))"

declare add_relative.simps [simp del]

definition add_name :: "tokenizer \<Rightarrow> store \<Rightarrow> Registry \<Rightarrow> string \<Rightarrow> tid \<Rightarrow> bool \<Rightarrow> string \<Rightarrow> Registry result" where
  "add_name tok st reg name added persistent source_id =
     (if \<not> isValidTypename name True then Inl (BadName name)
      else if get reg name = Some added then Inr reg
      else if get reg name \<noteq> None then Inl (AlreadyDefined name)
      else
        let regtype = \<lparr>reg_type = added, reg_persistent = persistent, reg_source_id = source_id\<rparr>;
            global = omap_insert nameSort name regtype (m_global reg);
            cur = current_insert name regtype (m_current reg)
        in bind_result (add_relative st name regtype NamespaceMarkString (tok (m_namespace reg)) cur)
             (\<lambda>cur'. Inr (reg\<lparr>m_global := global, m_current := cur'\<rparr>)))"

text \<open>
  \<open>getIndirection\<close> and \<open>getIndirectTypeName\<close> of the classes derived from \<open>Indirect\<close>;
  \<open>std::string\<close> overrides \<open>modifiedDependencyAliases\<close> to do nothing, as all other types.
\<close>

definition Vector_fullName :: "string \<Rightarrow> string" where
  "Vector_fullName element_name = ''/std/vector<'' @ element_name @ ''>''"

fun indirection :: "kind \<Rightarrow> tid option" where
  "indirection (Array _ on) = Some on"
| "indirection (Pointer on) = Some on"
| "indirection (Container _ _ on) = Some on"
| "indirection _ = None"

fun getIndirectTypeName :: "kind \<Rightarrow> string \<Rightarrow> string" where
  "getIndirectTypeName (Array dim _) inside = getArrayName inside dim"
| "getIndirectTypeName (Pointer _) inside = getPointerName inside"
| "getIndirectTypeName (Container _ VectorFactory _) inside = Vector_fullName inside"
| "getIndirectTypeName _ inside = []"

type_synonym alias_operation = "Registry \<Rightarrow> string \<Rightarrow> string \<Rightarrow> bool \<Rightarrow> string \<Rightarrow> Registry result"

definition modifiedDependencyAliases :: "alias_operation \<Rightarrow> store \<Rightarrow> Registry \<Rightarrow> tid \<Rightarrow> Registry result" where
  "modifiedDependencyAliases alias_op st reg t =
     (let k = ty_kind (type_at st t) in
      case k of
        Container _ StringFactory _ \<Rightarrow> Inr reg
      | _ \<Rightarrow> (case indirection k of
          None \<Rightarrow> Inr reg
        | Some on \<Rightarrow> fold_result (\<lambda>reg' alias_it.
            let alias_name = getIndirectTypeName k alias_it in
            bind_result (has reg' alias_name False) (\<lambda>known.
              if known then Inr reg'
              else alias_op reg' (ty_name (type_at st t)) alias_name False []))
            reg (getAliasesOf st reg on)))"

text \<open>The types that refer to \<open>base_type\<close> directly.\<close>

definition alias_triggers :: "store \<Rightarrow> Registry \<Rightarrow> tid \<Rightarrow> tid list" where
  "alias_triggers st reg base_type =
     map (reg_type \<circ> snd) (filter (\<lambda>e. \<not> isAlias st e \<and>
       base_type \<in> dependsOn (type_at st (reg_type (snd e)))) (m_global reg))"

text \<open>
  \<open>alias\<close> and \<open>modifiedDependencyAliases\<close> call each other; the first argument bounds the
  depth, which is the number of nested indirections (\<open>alias_terminates\<close>).
\<close>

primrec alias_rec :: "nat \<Rightarrow> tokenizer \<Rightarrow> store \<Rightarrow> alias_operation" where
  "alias_rec 0 tok st = (\<lambda>reg base newname persistent source_id. Inl OutOfFuel)"
| "alias_rec (Suc fuel) tok st = (\<lambda>reg base newname persistent source_id.
     if \<not> isValidTypename newname True then Inl (BadName newname)
     else case get reg base of
       None \<Rightarrow> Inl (Undefined base)
     | Some base_type \<Rightarrow>
         bind_result (add_name tok st reg newname base_type persistent source_id) (\<lambda>reg'.
           fold_result (modifiedDependencyAliases (alias_rec fuel tok st) st) reg'
             (alias_triggers st reg' base_type)))"

definition alias_persistent :: "tokenizer \<Rightarrow> store \<Rightarrow> alias_operation" where
  "alias_persistent tok st = alias_rec (Suc (next_id st)) tok st"

definition registry_alias :: "tokenizer \<Rightarrow> store \<Rightarrow> Registry \<Rightarrow> string \<Rightarrow> string \<Rightarrow> string \<Rightarrow> Registry result" where
  "registry_alias tok st reg base newname source_id =
     (case get reg base of
        None \<Rightarrow> Inl (Undefined base)
      | Some base_type \<Rightarrow>
          alias_persistent tok st reg base newname (isPersistent st newname base_type) source_id)"

definition add_persistent :: "tokenizer \<Rightarrow> store \<Rightarrow> Registry \<Rightarrow> tid \<Rightarrow> bool \<Rightarrow> string \<Rightarrow> Registry result" where
  "add_persistent tok st reg added persistent source_id =
     bind_result (add_name tok st reg (ty_name (type_at st added)) added persistent source_id)
       (\<lambda>reg'. if list_ex (\<lambda>dep. getAliasesOf st reg' dep \<noteq> []) (kind_refs (ty_kind (type_at st added)))
          then modifiedDependencyAliases (alias_persistent tok st) st reg' added
          else Inr reg')"

definition add :: "tokenizer \<Rightarrow> store \<Rightarrow> Registry \<Rightarrow> tid \<Rightarrow> string \<Rightarrow> Registry result" where
  "add tok st reg added source_id =
     add_persistent tok st reg added (isPersistent st (ty_name (type_at st added)) added) source_id"

subsection \<open>Removing\<close>

definition removeAlias :: "tokenizer \<Rightarrow> store \<Rightarrow> Registry \<Rightarrow> string \<Rightarrow> Registry result" where
  "removeAlias tok st reg name =
     (case map_of (m_global reg) name of
        None \<Rightarrow> Inl RuntimeError
      | Some regtype \<Rightarrow>
          if ty_name (type_at st (reg_type regtype)) = name then Inl RuntimeError
          else Inr (updateCurrentNameMap tok (reg\<lparr>m_global := omap_erase name (m_global reg)\<rparr>)))"

definition clearAliases :: "tokenizer \<Rightarrow> store \<Rightarrow> Registry \<Rightarrow> Registry" where
  "clearAliases tok st reg =
     updateCurrentNameMap tok (reg\<lparr>m_global := filter (\<lambda>e. \<not> isAlias st e) (m_global reg)\<rparr>)"

text \<open>\<open>clear\<close> deletes each object once, under its own name.\<close>

definition clear :: "store \<Rightarrow> Registry \<Rightarrow> store \<times> Registry" where
  "clear st reg =
     (fold (\<lambda>e st'. st'\<lparr>objects := (objects st')(reg_type (snd e) := None)\<rparr>)
        (filter (\<lambda>e. \<not> isAlias st e) (m_global reg)) st,
      reg\<lparr>m_global := [], m_current := Map.empty\<rparr>)"

text \<open>
  One round of \<open>reverseDepends\<close> collects the types outside \<open>result\<close> and \<open>queue\<close> that refer
  to one of the queue; the loop ends when there is none.
\<close>

definition depends_round :: "store \<Rightarrow> Registry \<Rightarrow> tid set \<Rightarrow> tid set \<Rightarrow> tid set" where
  "depends_round st reg result queue =
     set (map (reg_type \<circ> snd) (filter (\<lambda>e. let t = reg_type (snd e) in
       \<not> isAlias st e \<and> t \<notin> result \<and> t \<notin> queue \<and>
       list_ex (\<lambda>d. d \<in> queue) (kind_refs (ty_kind (type_at st t)))) (m_global reg)))"

fun reverseDepends_loop :: "nat \<Rightarrow> store \<Rightarrow> Registry \<Rightarrow> tid set \<Rightarrow> tid set \<Rightarrow> tid set option" where
  "reverseDepends_loop 0 st reg result queue = None"
| "reverseDepends_loop (Suc fuel) st reg result queue =
     (if queue = {} then Some result
      else reverseDepends_loop fuel st reg (result \<union> queue) (depends_round st reg result queue))"

definition reverseDepends :: "store \<Rightarrow> Registry \<Rightarrow> tid \<Rightarrow> tid set option" where
  "reverseDepends st reg type = reverseDepends_loop (length (m_global reg) + 3) st reg {} {type}"

definition remove :: "store \<Rightarrow> Registry \<Rightarrow> tid \<Rightarrow> (tid set \<times> Registry) option" where
  "remove st reg type = map_option (\<lambda>types.
     (types, reg\<lparr>m_global := filter (\<lambda>e. reg_type (snd e) \<notin> types) (m_global reg),
       m_current := (\<lambda>name. case m_current reg name of
          None \<Rightarrow> None
        | Some regtype \<Rightarrow> if reg_type regtype \<in> types then None else Some regtype)\<rparr>))
     (reverseDepends st reg type)"

subsection \<open>Metadata, source identifiers and comparison\<close>

definition setSourceID :: "store \<Rightarrow> Registry \<Rightarrow> tid \<Rightarrow> string \<Rightarrow> store \<times> Registry" where
  "setSourceID st reg type source_id =
     (let name = ty_name (type_at st type) in
      case map_of (m_global reg) name of
        None \<Rightarrow> (st, reg)
      | Some regtype \<Rightarrow>
          (update_type st type (\<lambda>t. t\<lparr>ty_metadata := MetaData_set (ty_metadata t) ''source_id'' source_id\<rparr>),
           reg\<lparr>m_global := omap_assign nameSort name (regtype\<lparr>reg_source_id := source_id\<rparr>) (m_global reg)\<rparr>))"

definition copySourceIDs :: "store \<Rightarrow> Registry \<Rightarrow> Registry \<Rightarrow> store \<times> Registry" where
  "copySourceIDs st reg other =
     fold (\<lambda>(name, other_it) (st', reg').
       case map_of (m_global reg') name of
         None \<Rightarrow> (st', reg')
       | Some it \<Rightarrow>
           if reg_source_id other_it \<noteq> [] \<and> reg_source_id it = []
           then setSourceID st' reg' (reg_type it) (reg_source_id other_it) else (st', reg'))
       (m_global other) (st, reg)"

definition mergeMetaData_at :: "store \<Rightarrow> tid \<Rightarrow> tid \<Rightarrow> store" where
  "mergeMetaData_at st t other = update_type st t (\<lambda>obj. Compound_mergeMetaData obj (type_at st other))"

definition registry_mergeMetaData :: "store \<Rightarrow> Registry \<Rightarrow> Registry \<Rightarrow> store" where
  "registry_mergeMetaData st reg other =
     fold (\<lambda>(name, other_it) st'.
       case map_of (m_global reg) name of
         None \<Rightarrow> st'
       | Some it \<Rightarrow> mergeMetaData_at st' (reg_type it) (reg_type other_it))
       (m_global other) st"

section \<open>Importing namespaces\<close>

text \<open>The names the registry works with: absolute and without an empty segment.\<close>

definition canonical_name :: "string \<Rightarrow> bool" where
  "canonical_name name \<longleftrightarrow> isAbsoluteName name \<and> \<not> contains_string ''//'' name"

definition names_ok :: "(string \<times> RegistryType) list \<Rightarrow> bool" where
  "names_ok m \<longleftrightarrow> omap_sorted nameSort m \<and> (\<forall>name \<in> fst ` set m. canonical_name name)"

text \<open>A prefix that ends with the namespace mark.\<close>

definition is_space_prefix :: "string \<Rightarrow> bool" where
  "is_space_prefix ns \<longleftrightarrow> ns \<noteq> [] \<and> last ns = NamespaceMark"

lemma is_space_prefix_normalized [simp]: "is_space_prefix (getNormalizedNamespace ns)"
  by (auto simp: is_space_prefix_def getNormalizedNamespace_def NamespaceMarkString_def NamespaceMark_def)

lemma is_space_prefix_mark [simp]: "is_space_prefix NamespaceMarkString" "is_space_prefix (ns @ NamespaceMarkString)"
  by (simp_all add: is_space_prefix_def NamespaceMarkString_def NamespaceMark_def)

lemma normalized_space [simp]: "is_space_prefix ns \<Longrightarrow> getNormalizedNamespace ns = ns"
  by (simp add: is_space_prefix_def getNormalizedNamespace_def)

lemma isInNamespace_prefix: "is_space_prefix ns \<Longrightarrow> isInNamespace name ns True \<longleftrightarrow> starts_with ns name"
  by (simp add: isInNamespace_def Let_def starts_with_take)

lemma relative_not_absolute:
  assumes "is_space_prefix ns" and "canonical_name (ns @ n)"
  shows "\<not> isAbsoluteName n"
proof
  assume "isAbsoluteName n"
  then obtain m where "n = CHR ''/'' # m" by (cases n) (auto simp: isAbsoluteName_def NamespaceMark_def)
  moreover obtain ns' where "ns = ns' @ ''/''"
    using assms(1) by (cases ns rule: rev_cases) (auto simp: is_space_prefix_def NamespaceMark_def)
  ultimately have "ns @ n = ns' @ ''//'' @ m" by simp
  then show False using assms(2) unfolding canonical_name_def contains_string_iff by blast
qed

definition import_entry :: "nat \<Rightarrow> bool \<Rightarrow> string \<times> RegistryType \<Rightarrow> Registry \<Rightarrow> Registry" where
  "import_entry n erase_existing = (\<lambda>(full_name, regtype) reg'.
     let rel_name = drop n full_name;
         cur = (if erase_existing then (m_current reg')(rel_name := None) else m_current reg')
     in reg'\<lparr>m_current := current_insert rel_name regtype cur\<rparr>)"

lemma import_entry_simps:
  "m_global (import_entry n erase e reg) = m_global reg"
  "m_namespace (import_entry n erase e reg) = m_namespace reg"
  "m_current (import_entry n erase e reg) =
     (if erase \<or> m_current reg (drop n (fst e)) = None
      then (m_current reg)(drop n (fst e) \<mapsto> snd e) else m_current reg)"
  by (auto simp: import_entry_def Let_def current_insert_def split: prod.splits option.splits)

lemma fold_import_entry:
  assumes "\<forall>e \<in> set es. starts_with ns (fst e)" and "distinct (map fst es)"
  shows "m_global (fold (import_entry (length ns) erase) es reg) = m_global reg \<and>
    m_namespace (fold (import_entry (length ns) erase) es reg) = m_namespace reg \<and>
    m_current (fold (import_entry (length ns) erase) es reg) n =
      (case map_of es (ns @ n) of
         None \<Rightarrow> m_current reg n
       | Some rt \<Rightarrow> if erase \<or> m_current reg n = None then Some rt else m_current reg n)"
  using assms
proof (induction es arbitrary: reg)
  case (Cons e es)
  obtain k rt where e: "e = (ns @ k, rt)" using Cons.prems(1) by (cases e) (auto simp: starts_with_iff)
  have "map_of es (ns @ k) = None" using Cons.prems(2) e by (auto simp: map_of_eq_None_iff)
  then show ?case using Cons.IH[of "import_entry (length ns) erase e reg"] Cons.prems e
    by (auto simp: import_entry_simps split: option.splits)
qed simp

lemma map_of_filter_prefix:
  "map_of (filter (\<lambda>e. starts_with p (fst e)) m) (p @ n) = map_of m (p @ n)"
  by (induction m) (auto simp: starts_with_iff)

lemma importNamespace_simps:
  assumes "omap_sorted nameSort (m_global reg)"
    and ns_def: "ns = getNormalizedNamespace name"
  shows "m_global (importNamespace reg name erase) = m_global reg"
    and "m_namespace (importNamespace reg name erase) = m_namespace reg"
    and "m_current (importNamespace reg name erase) n =
      (case map_of (m_global reg) (ns @ n) of
         None \<Rightarrow> m_current reg n
       | Some rt \<Rightarrow> if erase \<or> m_current reg n = None then Some rt else m_current reg n)"
proof -
  let ?es = "filter (\<lambda>e. starts_with ns (fst e)) (m_global reg)"
  have "takeWhile (\<lambda>e. isInNamespace (fst e) ns True) (omap_lower_bound nameSort ns (m_global reg)) = ?es"
    using lower_bound_prefix_range[OF assms(1)] by (simp add: isInNamespace_prefix ns_def)
  then have eq: "importNamespace reg name erase = fold (import_entry (length ns) erase) ?es reg"
    by (simp add: importNamespace_def import_entry_def ns_def Let_def)
  have "distinct (map fst ?es)"
    using nameSort_map.omap_sorted_distinct[OF omap_sorted_filter[OF assms(1)]] .
  note fold_import_entry[of ?es ns, OF _ this, of erase reg n]
  then show "m_global (importNamespace reg name erase) = m_global reg"
    and "m_namespace (importNamespace reg name erase) = m_namespace reg"
    and "m_current (importNamespace reg name erase) n =
      (case map_of (m_global reg) (ns @ n) of
         None \<Rightarrow> m_current reg n
       | Some rt \<Rightarrow> if erase \<or> m_current reg n = None then Some rt else m_current reg n)"
    unfolding eq by (auto simp: map_of_filter_prefix)
qed

text \<open>The namespaces that enclose the default one, outermost first, and name lookup in them.\<close>

fun enclosing :: "string \<Rightarrow> string list \<Rightarrow> string list" where
  "enclosing cur_space [] = [cur_space]"
| "enclosing cur_space (t # ts) = cur_space # enclosing (cur_space @ t @ NamespaceMarkString) ts"

fun resolve :: "(string \<times> RegistryType) list \<Rightarrow> string list \<Rightarrow> string \<Rightarrow> RegistryType option" where
  "resolve m [] name = None"
| "resolve m (ns # spaces) name =
     (case resolve m spaces name of Some rt \<Rightarrow> Some rt | None \<Rightarrow> map_of m (ns @ name))"

lemma import_spaces_simps:
  assumes "omap_sorted nameSort (m_global reg)"
  shows "m_global (import_spaces cur ts reg) = m_global reg \<and>
    m_namespace (import_spaces cur ts reg) = m_namespace reg \<and>
    m_current (import_spaces cur ts reg) n =
      (case resolve (m_global reg) (tl (enclosing cur ts)) n of Some rt \<Rightarrow> Some rt | None \<Rightarrow> m_current reg n)"
  using assms
proof (induction ts arbitrary: cur reg)
  case (Cons t ts)
  let ?cur = "cur @ t @ NamespaceMarkString"
  have norm: "getNormalizedNamespace ?cur = ?cur"
    using is_space_prefix_mark(2)[of "cur @ t"] by simp
  obtain rest where rest: "enclosing ?cur ts = ?cur # rest" by (cases ts) auto
  note imp = importNamespace_simps[OF Cons.prems norm[symmetric], of True]
  show ?case
    using Cons.IH[of "importNamespace reg ?cur True" ?cur] Cons.prems imp
    by (auto simp: Let_def norm rest imp split: option.splits)
qed simp

lemma fold_insert_global:
  "m_global (fold (\<lambda>(name, rt) r. r\<lparr>m_current := current_insert name rt (m_current r)\<rparr>) es reg) = m_global reg \<and>
   m_namespace (fold (\<lambda>(name, rt) r. r\<lparr>m_current := current_insert name rt (m_current r)\<rparr>) es reg) = m_namespace reg \<and>
   m_current (fold (\<lambda>(name, rt) r. r\<lparr>m_current := current_insert name rt (m_current r)\<rparr>) es reg) =
     map_of es ++ m_current reg"
proof (induction es arbitrary: reg)
  case (Cons e es)
  then show ?case
    by (cases e) (auto simp: current_insert_def fun_eq_iff map_add_def split: option.splits)
qed simp

text \<open>
  What the recomputed map contains: an absolute name means itself, a relative name means
  the type of that name in the innermost enclosing namespace that has one.
\<close>

lemma updateCurrentNameMap_simps:
  assumes "names_ok (m_global reg)"
  shows "m_global (updateCurrentNameMap tok reg) = m_global reg \<and>
    m_namespace (updateCurrentNameMap tok reg) = m_namespace reg \<and>
    m_current (updateCurrentNameMap tok reg) n =
      (if isAbsoluteName n then map_of (m_global reg) n
       else resolve (m_global reg) (enclosing NamespaceMarkString (tok (m_namespace reg))) n)"
proof -
  let ?m = "m_global reg" and ?ts = "tok (m_namespace reg)"
  have sorted: "omap_sorted nameSort ?m" and canonical: "map_of ?m k = Some rt \<Longrightarrow> canonical_name k" for k rt
    using assms by (force simp: names_ok_def dest: map_of_SomeD)+
  have none: "resolve ?m (enclosing ns ts) n = None" if "isAbsoluteName n" "is_space_prefix ns" for ns ts
    using that(2)
  proof (induction ts arbitrary: ns)
    case Nil
    then show ?case using relative_not_absolute[of ns n] that(1) canonical[of "ns @ n"]
      by (cases "map_of ?m (ns @ n)") auto
  next
    case (Cons t ts)
    have "is_space_prefix (ns @ t @ NamespaceMarkString)"
      using is_space_prefix_mark(2)[of "ns @ t"] by simp
    then show ?case using Cons relative_not_absolute[of ns n] that(1) canonical[of "ns @ n"]
      by (cases "map_of ?m (ns @ n)") auto
  qed
  have rel: "map_of ?m n = None" if "\<not> isAbsoluteName n"
    using that canonical[of n] by (cases "map_of ?m n") (auto simp: canonical_name_def)
  obtain rest where rest: "enclosing NamespaceMarkString ?ts = NamespaceMarkString # rest"
    by (cases ?ts) auto
  define reg1 where "reg1 = fold (\<lambda>(name, rt) r. r\<lparr>m_current := current_insert name rt (m_current r)\<rparr>)
     ?m (reg\<lparr>m_current := Map.empty\<rparr>)"
  have reg1: "m_global reg1 = ?m" "m_namespace reg1 = m_namespace reg" "m_current reg1 = map_of ?m"
    using fold_insert_global[of ?m "reg\<lparr>m_current := Map.empty\<rparr>"] by (simp_all add: reg1_def)
  have imp: "m_global (importNamespace reg1 NamespaceMarkString False) = ?m"
    "m_namespace (importNamespace reg1 NamespaceMarkString False) = m_namespace reg"
    using importNamespace_simps(1,2)[of reg1, OF _ refl] sorted reg1 by simp_all
  show ?thesis
    using import_spaces_simps[of "importNamespace reg1 NamespaceMarkString False" NamespaceMarkString ?ts n]
      importNamespace_simps(3)[of reg1, OF _ refl, of NamespaceMarkString False n] sorted none[of NamespaceMarkString ?ts] rel
    by (auto simp: updateCurrentNameMap_def Let_def reg1_def[symmetric] imp reg1 rest split: option.splits)
qed

section \<open>The registry invariant\<close>

text \<open>
  \<open>m_global\<close> is ordered and has canonical names; an absolute name has the same meaning in
  both maps; what a name means in \<open>m_current\<close> is registered under a name that ends with it;
  registered objects exist, and are registered under their own name.
\<close>

definition global_type :: "Registry \<Rightarrow> string \<Rightarrow> tid option" where
  "global_type reg name = map_option reg_type (map_of (m_global reg) name)"

definition registry_ok :: "store \<Rightarrow> Registry \<Rightarrow> bool" where
  "registry_ok st reg \<longleftrightarrow> names_ok (m_global reg) \<and>
     (\<forall>n. isAbsoluteName n \<longrightarrow> get reg n = global_type reg n) \<and>
     (\<forall>n t. get reg n = Some t \<longrightarrow> (\<exists>ns. global_type reg (ns @ n) = Some t)) \<and>
     (\<forall>n t. global_type reg n = Some t \<longrightarrow>
        t \<in> dom (objects st) \<and> global_type reg (ty_name (type_at st t)) = Some t)"

lemma registry_ok_sorted: "registry_ok st reg \<Longrightarrow> omap_sorted nameSort (m_global reg)"
  by (simp add: registry_ok_def names_ok_def)

lemma registry_ok_absolute:
  "registry_ok st reg \<Longrightarrow> isAbsoluteName n \<Longrightarrow> get reg n = global_type reg n"
  by (simp add: registry_ok_def)

lemma global_type_SomeD: "global_type reg n = Some t \<Longrightarrow> \<exists>rt. (n, rt) \<in> set (m_global reg) \<and> reg_type rt = t"
  by (auto simp: global_type_def dest: map_of_SomeD)

lemma registry_ok_type:
  "registry_ok st reg \<Longrightarrow> global_type reg n = Some t \<Longrightarrow>
   t \<in> dom (objects st) \<and> global_type reg (ty_name (type_at st t)) = Some t \<and> canonical_name n"
  using global_type_SomeD[of reg n t] unfolding registry_ok_def names_ok_def
  by (metis fst_conv image_eqI)

lemma registry_ok_suffix:
  "registry_ok st reg \<Longrightarrow> get reg n = Some t \<Longrightarrow> \<exists>ns. global_type reg (ns @ n) = Some t"
  by (simp add: registry_ok_def)

lemma registry_ok_get:
  "registry_ok st reg \<Longrightarrow> get reg n = Some t \<Longrightarrow>
   t \<in> dom (objects st) \<and> global_type reg (ty_name (type_at st t)) = Some t"
  unfolding registry_ok_def by blast

lemma global_type_entry:
  "registry_ok st reg \<Longrightarrow> (n, rt) \<in> set (m_global reg) \<Longrightarrow> global_type reg n = Some (reg_type rt)"
  using nameSort_map.omap_sorted_distinct[OF registry_ok_sorted] by (simp add: global_type_def)

lemma resolve_SomeD: "resolve m spaces n = Some rt \<Longrightarrow> \<exists>ns. map_of m (ns @ n) = Some rt"
  by (induction m spaces n rule: resolve.induct) (auto split: option.splits)

lemma updateCurrentNameMap_ok:
  assumes "names_ok (m_global reg)"
    and "\<And>n t. global_type reg n = Some t \<Longrightarrow>
        t \<in> dom (objects st) \<and> global_type reg (ty_name (type_at st t)) = Some t"
  shows "registry_ok st (updateCurrentNameMap tok reg)"
proof -
  note cur = updateCurrentNameMap_simps[OF assms(1), of tok]
  have glob: "global_type (updateCurrentNameMap tok reg) n = global_type reg n" for n
    using cur by (simp add: global_type_def)
  have "\<exists>ns. global_type reg (ns @ n) = Some t" if "get (updateCurrentNameMap tok reg) n = Some t" for n t
    using that cur[of n]
    by (cases "isAbsoluteName n")
      (auto simp: get_def global_type_def dest!: resolve_SomeD intro: exI[of _ "[]"])
  then show ?thesis
    using assms cur glob unfolding registry_ok_def by (auto simp: get_def global_type_def)
qed

subsection \<open>Adding\<close>

lemma add_relative_spec:
  assumes "is_space_prefix sp"
  shows "\<exists>cur'. add_relative st name rt sp ts cur = Inr cur' \<and>
    (\<forall>n. cur' n = cur n \<or> cur' n = Some rt \<and> (\<exists>ns. is_space_prefix ns \<and> name = ns @ n))"
  using assms
proof (induction ts arbitrary: sp cur)
  case Nil
  have rel: "getRelativeName name sp = Inr (drop (length sp) name)" if "length sp < length name"
    using Nil that by (auto simp: getRelativeName_def is_space_prefix_def NamespaceMark_def Let_def)
  show ?case
  proof (cases "length name \<le> length sp \<or> take (length sp) name \<noteq> sp")
    case False
    then have "name = sp @ drop (length sp) name" by (metis append_take_drop_id)
    then show ?thesis using False rel Nil by (subst add_relative.simps) (auto simp: Let_def)
  qed (simp add: add_relative.simps)
next
  case (Cons t ts)
  have sp': "is_space_prefix (sp @ t @ NamespaceMarkString)"
    using is_space_prefix_mark(2)[of "sp @ t"] by simp
  have rel: "getRelativeName name sp = Inr (drop (length sp) name)" if "length sp < length name"
    using Cons.prems that by (auto simp: getRelativeName_def is_space_prefix_def NamespaceMark_def Let_def)
  show ?case
  proof (cases "length name \<le> length sp \<or> take (length sp) name \<noteq> sp")
    case False
    then have eq: "name = sp @ drop (length sp) name" by (metis append_take_drop_id)
    define cur1 where "cur1 = (if (case cur (drop (length sp) name) of
                          None \<Rightarrow> True
                        | Some old \<Rightarrow> \<not> nameSort (ty_name (type_at st (reg_type old))) name)
                    then cur(drop (length sp) name \<mapsto> rt) else cur)"
    have "add_relative st name rt sp (t # ts) cur =
        add_relative st name rt (sp @ t @ NamespaceMarkString) ts cur1"
      using False rel by (subst add_relative.simps) (simp add: Let_def cur1_def)
    moreover have "cur1 n = cur n \<or> cur1 n = Some rt \<and> name = sp @ n" for n
      using eq by (auto simp: cur1_def)
    ultimately show ?thesis using Cons.IH[OF sp', of cur1] Cons.prems by metis
  qed (simp add: add_relative.simps)
qed

text \<open>
  Every branch of \<open>add\<close>. A new name is bound in both maps; no other absolute name changes
  its meaning, and a relative name can only come to mean the new type.
\<close>

lemma add_name_cases:
  assumes "registry_ok st reg" and "canonical_name name"
  shows "(\<exists>e. add_name tok st reg name t p src = Inl e \<and>
            (e = BadName name \<and> \<not> isValidTypename name True \<or>
             e = AlreadyDefined name \<and> isValidTypename name True \<and>
               global_type reg name \<noteq> None \<and> global_type reg name \<noteq> Some t)) \<or>
         add_name tok st reg name t p src = Inr reg \<and> isValidTypename name True \<and> global_type reg name = Some t \<or>
         (\<exists>reg'. add_name tok st reg name t p src = Inr reg' \<and> isValidTypename name True \<and>
            global_type reg name = None \<and> m_namespace reg' = m_namespace reg \<and>
            m_global reg' = omap_insert nameSort name
              \<lparr>reg_type = t, reg_persistent = p, reg_source_id = src\<rparr> (m_global reg) \<and>
            (\<forall>n. isAbsoluteName n \<longrightarrow> get reg' n = (if n = name then Some t else get reg n)) \<and>
            (\<forall>n. get reg' n = get reg n \<or> get reg' n = Some t \<and> (\<exists>ns. name = ns @ n)))"
proof -
  let ?rt = "\<lparr>reg_type = t, reg_persistent = p, reg_source_id = src\<rparr>"
  have abs: "isAbsoluteName name" using assms(2) by (simp add: canonical_name_def)
  have get: "get reg name = global_type reg name" using registry_ok_absolute[OF assms(1) abs] .
  show ?thesis
  proof (cases "isValidTypename name True \<and> get reg name = None")
    case True
    then have new: "current_insert name ?rt (m_current reg) = (m_current reg)(name \<mapsto> ?rt)"
      by (auto simp: current_insert_def get_def)
    obtain cur' where cur': "add_relative st name ?rt NamespaceMarkString (tok (m_namespace reg))
          ((m_current reg)(name \<mapsto> ?rt)) = Inr cur'"
      and upd: "\<And>n. cur' n = ((m_current reg)(name \<mapsto> ?rt)) n \<or>
          cur' n = Some ?rt \<and> (\<exists>ns. is_space_prefix ns \<and> name = ns @ n)"
      using add_relative_spec[OF is_space_prefix_mark(1)] by metis
    have rel: "\<not> isAbsoluteName n" if "is_space_prefix ns" "name = ns @ n" for ns n
      using relative_not_absolute[OF that(1)] assms(2) that(2) by blast
    let ?reg' = "reg\<lparr>m_global := omap_insert nameSort name ?rt (m_global reg), m_current := cur'\<rparr>"
    have "add_name tok st reg name t p src = Inr ?reg'"
      using True cur' new by (simp add: add_name_def Let_def)
    moreover have "get ?reg' n = (if n = name then Some t else get reg n)" if "isAbsoluteName n" for n
      using upd[of n] rel that by (auto simp: get_def)
    moreover have "get ?reg' n = get reg n \<or> get ?reg' n = Some t \<and> (\<exists>ns. name = ns @ n)" for n
      using upd[of n] by (cases "n = name") (auto simp: get_def)
    ultimately show ?thesis using True get by auto
  qed (use get in \<open>auto simp: add_name_def\<close>)
qed

lemma global_type_insert:
  assumes "registry_ok st reg" and "global_type reg name = None"
    and "m_global reg' = omap_insert nameSort name rt (m_global reg)"
  shows "global_type reg' = (global_type reg)(name \<mapsto> reg_type rt)"
  using assms nameSort_map.omap_find_insert[OF registry_ok_sorted[OF assms(1)]]
  by (auto simp: global_type_def fun_eq_iff)

definition registry_extends :: "store \<Rightarrow> Registry \<Rightarrow> Registry \<Rightarrow> bool" where
  "registry_extends st reg reg' \<longleftrightarrow> registry_ok st reg' \<and> global_type reg \<subseteq>\<^sub>m global_type reg' \<and>
     m_namespace reg' = m_namespace reg"

lemma registry_extends_trans:
  "registry_extends st reg reg' \<Longrightarrow> registry_extends st reg' reg'' \<Longrightarrow> registry_extends st reg reg''"
  by (auto simp: registry_extends_def intro: map_le_trans)

text \<open>Adding an object under its own name, or a registered object under a further name.\<close>

lemma add_name_ok:
  assumes ok: "registry_ok st reg" and name: "canonical_name name" and t: "t \<in> dom (objects st)"
    and known: "name = ty_name (type_at st t) \<or> global_type reg (ty_name (type_at st t)) = Some t"
  shows "result_ok (\<lambda>e. e \<noteq> OutOfFuel)
    (\<lambda>reg'. registry_extends st reg reg' \<and> global_type reg' name = Some t)
    (add_name tok st reg name t p src)"
proof -
  consider (err) e where "add_name tok st reg name t p src = Inl e" "e \<noteq> OutOfFuel"
    | (old) "add_name tok st reg name t p src = Inr reg" "global_type reg name = Some t"
    | (new) reg' where "add_name tok st reg name t p src = Inr reg'" "global_type reg name = None"
      "m_namespace reg' = m_namespace reg"
      "m_global reg' = omap_insert nameSort name
         \<lparr>reg_type = t, reg_persistent = p, reg_source_id = src\<rparr> (m_global reg)"
      "\<And>n. isAbsoluteName n \<Longrightarrow> get reg' n = (if n = name then Some t else get reg n)"
      "\<And>n. get reg' n = get reg n \<or> get reg' n = Some t \<and> (\<exists>ns. name = ns @ n)"
    using add_name_cases[OF ok name, of tok t p src] by blast
  then show ?thesis
  proof cases
    case new
    have glob: "global_type reg' = (global_type reg)(name \<mapsto> t)"
      using global_type_insert[OF ok new(2,4)] by simp
    have "names_ok (m_global reg')"
      using ok name unfolding registry_ok_def names_ok_def new(4)
      by (auto simp: nameSort_map.omap_sorted_insert nameSort_map.omap_insert_keys)
    moreover have "\<exists>ns. global_type reg' (ns @ n) = Some u" if u: "get reg' n = Some u" for n u
    proof (cases "get reg' n = get reg n")
      case True
      then obtain ns where "global_type reg (ns @ n) = Some u"
        using u registry_ok_suffix[OF ok, of n u] by auto
      then have "global_type reg' (ns @ n) = Some u" using glob new(2) by (cases "ns @ n = name") simp_all
      then show ?thesis by (rule exI)
    next
      case False
      then obtain ns where "name = ns @ n" and "u = t" using new(6)[of n] u by auto
      then have "global_type reg' (ns @ n) = Some u" using glob by simp
      then show ?thesis by (rule exI)
    qed
    moreover have "global_type reg \<subseteq>\<^sub>m global_type reg'"
      using glob new(2) by (auto simp: map_le_def)
    moreover have "get reg' n = global_type reg' n" if "isAbsoluteName n" for n
      using new(5)[OF that] registry_ok_absolute[OF ok that] glob by simp
    moreover have "u \<in> dom (objects st) \<and> global_type reg' (ty_name (type_at st u)) = Some u"
      if u: "global_type reg' n = Some u" for n u
    proof (cases "n = name")
      case True
      then show ?thesis using u glob t known by auto
    next
      case False
      then have "global_type reg n = Some u" using u glob by simp
      from registry_ok_type[OF ok this] show ?thesis using glob new(2) by auto
    qed
    ultimately show ?thesis
      using new(1,3) glob by (simp add: registry_extends_def registry_ok_def)
  qed (use ok in \<open>auto simp: registry_extends_def\<close>)
qed

subsection \<open>Aliases\<close>

text \<open>An indirect type is built on a type that exists already.\<close>

definition indirect_acyclic :: "store \<Rightarrow> bool" where
  "indirect_acyclic st \<longleftrightarrow> (\<forall>t \<in> dom (objects st). t < next_id st \<and>
     (\<forall>on. indirection (ty_kind (type_at st t)) = Some on \<longrightarrow> on < t))"

lemma double_mark_append:
  "CHR ''/'' \<notin> set ys \<Longrightarrow> contains_string ''//'' (xs @ ys) = contains_string ''//'' xs"
proof (induction xs)
  case Nil
  then show ?case by (auto simp: contains_string_iff)
next
  case (Cons c xs)
  then show ?case by (cases xs; cases ys) auto
qed

lemma canonical_append: "canonical_name a \<Longrightarrow> CHR ''/'' \<notin> set b \<Longrightarrow> canonical_name (a @ b)"
  by (auto simp: canonical_name_def double_mark_append isAbsoluteName_def)

lemma canonical_vector: "canonical_name a \<Longrightarrow> canonical_name (Vector_fullName a)"
  by (simp add: canonical_name_def Vector_fullName_def isAbsoluteName_def NamespaceMark_def double_mark_append)

lemma canonical_getIndirectTypeName:
  assumes "canonical_name a" and "indirection k \<noteq> None" and "\<And>c on. k \<noteq> Container c StringFactory on"
  shows "canonical_name (getIndirectTypeName k a)"
  using assms mark_not_in_show_nat
  by (cases "(k, a)" rule: getIndirectTypeName.cases)
    (auto simp: getArrayName_def getPointerName_def canonical_vector intro!: canonical_append)

lemma not_string_case:
  "(\<And>c on. k \<noteq> Container c StringFactory on) \<Longrightarrow>
   (case k of Container _ StringFactory _ \<Rightarrow> a | _ \<Rightarrow> b) = b"
  by (cases k) (auto split: factory.splits)

lemma modifiedDependencyAliases_ok:
  assumes ok: "registry_ok st reg" and x: "global_type reg (ty_name (type_at st x)) = Some x"
    and op: "\<And>reg' newname. indirection (ty_kind (type_at st x)) \<noteq> None \<Longrightarrow> registry_ok st reg' \<Longrightarrow>
      get reg' (ty_name (type_at st x)) = Some x \<Longrightarrow> canonical_name newname \<Longrightarrow>
      result_ok Q (registry_extends st reg') (alias_op reg' (ty_name (type_at st x)) newname False [])"
  shows "result_ok Q (registry_extends st reg) (modifiedDependencyAliases alias_op st reg x)"
proof -
  let ?k = "ty_kind (type_at st x)"
  show ?thesis
  proof (cases "indirection ?k = None \<or> (\<exists>c on. ?k = Container c StringFactory on)")
    case True
    then have "modifiedDependencyAliases alias_op st reg x = Inr reg"
      by (auto simp: modifiedDependencyAliases_def Let_def split: kind.splits factory.splits)
    then show ?thesis using ok by (simp add: registry_extends_def)
  next
    case False
    then obtain on where on: "indirection ?k = Some on" by auto
    let ?f = "\<lambda>reg' alias_it. let alias_name = getIndirectTypeName ?k alias_it in
      bind_result (has reg' alias_name False) (\<lambda>known. if known then Inr reg'
        else alias_op reg' (ty_name (type_at st x)) alias_name False [])"
    have eq: "modifiedDependencyAliases alias_op st reg x = fold_result ?f reg (getAliasesOf st reg on)"
      using False on by (simp add: modifiedDependencyAliases_def Let_def not_string_case)
    show ?thesis
      unfolding eq
    proof (rule result_ok_fold)
      show "registry_extends st reg reg" using ok by (simp add: registry_extends_def)
      fix reg' a
      assume a: "a \<in> set (getAliasesOf st reg on)" and ext: "registry_extends st reg reg'"
      from a have "canonical_name a" using ok by (auto simp: getAliasesOf_def registry_ok_def names_ok_def)
      then have name: "canonical_name (getIndirectTypeName ?k a)"
        using False by (intro canonical_getIndirectTypeName) auto
      have glob: "global_type reg' (ty_name (type_at st x)) = Some x"
        using ext x by (force simp: registry_extends_def map_le_def)
      have ok': "registry_ok st reg'" using ext by (simp add: registry_extends_def)
      have "isAbsoluteName (ty_name (type_at st x))"
        using registry_ok_type[OF ok x] by (simp add: canonical_name_def)
      then have "get reg' (ty_name (type_at st x)) = Some x"
        using registry_ok_absolute[OF ok'] glob by simp
      then have "result_ok Q (registry_extends st reg') (alias_op reg' (ty_name (type_at st x))
          (getIndirectTypeName ?k a) False [])"
        using op ok' name on by simp
      then have "result_ok Q (registry_extends st reg) (alias_op reg' (ty_name (type_at st x))
          (getIndirectTypeName ?k a) False [])"
        by (rule result_ok_mono) (rule registry_extends_trans[OF ext])
      then show "result_ok Q (registry_extends st reg) (?f reg' a)"
        using ext by (simp add: Let_def has_def)
    qed
  qed
qed

lemma alias_rec_ok:
  assumes "indirect_acyclic st" and "registry_ok st reg" and "canonical_name newname"
    and "0 < n" and "\<And>b. get reg base = Some b \<Longrightarrow> next_id st - b < n"
  shows "result_ok (\<lambda>e. e \<noteq> OutOfFuel) (\<lambda>reg'. registry_extends st reg reg' \<and> global_type reg' newname = get reg base)
    (alias_rec n tok st reg base newname p src)"
  using assms(2-5)
proof (induction n arbitrary: reg base newname p src)
  case (Suc n)
  show ?case
  proof (cases "isValidTypename newname True \<and> get reg base \<noteq> None")
    case True
    then obtain b where b: "get reg base = Some b" by auto
    have known: "b \<in> dom (objects st)" "global_type reg (ty_name (type_at st b)) = Some b"
      using registry_ok_get[OF Suc.prems(1) b] by simp_all
    let ?mod = "modifiedDependencyAliases (alias_rec n tok st) st"
    have triggers: "result_ok (\<lambda>e. e \<noteq> OutOfFuel) (registry_extends st reg')
        (fold_result ?mod reg' (alias_triggers st reg' b))" if ok': "registry_ok st reg'" for reg'
    proof (rule result_ok_fold)
      show "registry_extends st reg' reg'" using ok' by (simp add: registry_extends_def)
      fix r x
      assume x: "x \<in> set (alias_triggers st reg' b)" and ext: "registry_extends st reg' r"
      have ok_r: "registry_ok st r" using ext by (simp add: registry_extends_def)
      from x obtain e where e: "e \<in> set (m_global reg')" "\<not> isAlias st e" "x = reg_type (snd e)"
        and dep: "b \<in> set (kind_refs (ty_kind (type_at st x)))"
        by (auto simp: alias_triggers_def dependsOn_def)
      then have glob': "global_type reg' (ty_name (type_at st x)) = Some x"
        using global_type_entry[OF ok', of "fst e" "snd e"] by (simp add: isAlias_def) (metis prod.collapse)
      then have glob: "global_type r (ty_name (type_at st x)) = Some x"
        using ext by (force simp: registry_extends_def map_le_def)
      have less: "next_id st - x < n \<and> 0 < n" if "indirection (ty_kind (type_at st x)) \<noteq> None"
      proof -
        from that obtain on where "indirection (ty_kind (type_at st x)) = Some on" by auto
        moreover from this have "on = b" using dep by (cases "ty_kind (type_at st x)") auto
        ultimately have "b < x" "x < next_id st"
          using assms(1) registry_ok_type[OF ok' glob'] unfolding indirect_acyclic_def by auto
        then show ?thesis using Suc.prems(4)[OF b] by (intro conjI; linarith)
      qed
      have "result_ok (\<lambda>e. e \<noteq> OutOfFuel) (registry_extends st r) (?mod r x)"
        by (rule modifiedDependencyAliases_ok[OF ok_r glob], rule result_ok_mono, rule Suc.IH) (use less in simp_all)
      then show "result_ok (\<lambda>e. e \<noteq> OutOfFuel) (registry_extends st reg') (?mod r x)"
        by (rule result_ok_mono) (rule registry_extends_trans[OF ext])
    qed
    have "result_ok (\<lambda>e. e \<noteq> OutOfFuel) (\<lambda>reg'. registry_extends st reg reg' \<and> global_type reg' newname = Some b)
        (bind_result (add_name tok st reg newname b p src)
          (\<lambda>reg'. fold_result ?mod reg' (alias_triggers st reg' b)))"
    proof (rule result_ok_bind)
      show "result_ok (\<lambda>e. e \<noteq> OutOfFuel)
          (\<lambda>reg'. registry_extends st reg reg' \<and> global_type reg' newname = Some b)
          (add_name tok st reg newname b p src)"
        by (rule add_name_ok[OF Suc.prems(1,2) known(1)]) (simp add: known)
      fix reg' assume ext: "registry_extends st reg reg' \<and> global_type reg' newname = Some b"
      then have "registry_ok st reg'" by (simp add: registry_extends_def)
      from triggers[OF this] show "result_ok (\<lambda>e. e \<noteq> OutOfFuel)
          (\<lambda>reg'. registry_extends st reg reg' \<and> global_type reg' newname = Some b)
          (fold_result ?mod reg' (alias_triggers st reg' b))"
        by (rule result_ok_mono) (use ext in \<open>auto intro: registry_extends_trans simp: registry_extends_def map_le_def dom_def\<close>)
    qed
    then show ?thesis using True b by simp
  qed (auto split: option.splits)
qed simp

lemma alias_persistent_ok:
  assumes "indirect_acyclic st" and "registry_ok st reg" and "canonical_name newname"
  shows "result_ok (\<lambda>e. e \<noteq> OutOfFuel) (registry_extends st reg)
    (alias_persistent tok st reg base newname p src)"
    and "result_ok (\<lambda>e. e \<noteq> OutOfFuel) (\<lambda>reg'. global_type reg' newname = get reg base)
    (alias_persistent tok st reg base newname p src)"
proof -
  have "result_ok (\<lambda>e. e \<noteq> OutOfFuel) (\<lambda>reg'. registry_extends st reg reg' \<and> global_type reg' newname = get reg base)
    (alias_persistent tok st reg base newname p src)"
    unfolding alias_persistent_def by (rule alias_rec_ok[OF assms]) auto
  then show "result_ok (\<lambda>e. e \<noteq> OutOfFuel) (registry_extends st reg) (alias_persistent tok st reg base newname p src)"
    and "result_ok (\<lambda>e. e \<noteq> OutOfFuel) (\<lambda>reg'. global_type reg' newname = get reg base)
      (alias_persistent tok st reg base newname p src)" by (rule result_ok_mono, simp)+
qed

lemma add_persistent_ok:
  assumes "indirect_acyclic st" and ok: "registry_ok st reg"
    and name: "canonical_name (ty_name (type_at st t))" and t: "t \<in> dom (objects st)"
  shows "result_ok (\<lambda>e. e \<noteq> OutOfFuel)
    (\<lambda>reg'. registry_extends st reg reg' \<and> global_type reg' (ty_name (type_at st t)) = Some t)
    (add_persistent tok st reg t p src)"
  unfolding add_persistent_def
proof (rule result_ok_bind)
  let ?n = "ty_name (type_at st t)"
  show "result_ok (\<lambda>e. e \<noteq> OutOfFuel) (\<lambda>reg'. registry_extends st reg reg' \<and> global_type reg' ?n = Some t)
      (add_name tok st reg ?n t p src)"
    by (rule add_name_ok[OF ok name t]) simp
  fix reg' assume ext: "registry_extends st reg reg' \<and> global_type reg' ?n = Some t"
  then have ok': "registry_ok st reg'" by (simp add: registry_extends_def)
  have "result_ok (\<lambda>e. e \<noteq> OutOfFuel) (registry_extends st reg')
      (modifiedDependencyAliases (alias_persistent tok st) st reg' t)"
    by (rule modifiedDependencyAliases_ok[OF ok']) (use ext assms(1) alias_persistent_ok(1) in simp_all)
  then have "result_ok (\<lambda>e. e \<noteq> OutOfFuel) (\<lambda>reg'. registry_extends st reg reg' \<and> global_type reg' ?n = Some t)
      (modifiedDependencyAliases (alias_persistent tok st) st reg' t)"
    by (rule result_ok_mono)
      (use ext in \<open>auto intro: registry_extends_trans simp: registry_extends_def map_le_def dom_def\<close>)
  then show "result_ok (\<lambda>e. e \<noteq> OutOfFuel) (\<lambda>reg'. registry_extends st reg reg' \<and> global_type reg' ?n = Some t)
      (if list_ex (\<lambda>dep. getAliasesOf st reg' dep \<noteq> []) (kind_refs (ty_kind (type_at st t)))
       then modifiedDependencyAliases (alias_persistent tok st) st reg' t else Inr reg')"
    using ext by simp
qed

end
