(* ===== verification/RegistryOutcome.thy ===== *)
theory RegistryOutcome
  imports Registry
begin

text \<open>
  The registry that an operation leaves behind when it throws. \<open>alias\<close> and \<open>add\<close> register
  a name first and propagate aliases to the dependent types then; an exception in the
  propagation leaves the names registered so far. An outcome is the registry when the
  operation returns or throws, with the exception it threw. Proved: the outcomes agree with
  the results of \<open>alias\<close> and \<open>add\<close>, and the registry of every outcome is well formed.
\<close>

section \<open>Outcomes\<close>

type_synonym 's outcome = "'s \<times> error option"

definition outcome_result :: "'s outcome \<Rightarrow> 's result" where
  "outcome_result r = (case r of (s, None) \<Rightarrow> Inr s | (s, Some e) \<Rightarrow> Inl e)"

lemma outcome_result_simps [simp]: "outcome_result (s, None) = Inr s" "outcome_result (s, Some e) = Inl e"
  by (simp_all add: outcome_result_def)

text \<open>A loop whose body changes the state in place and may throw.\<close>

fun fold_outcome :: "('s \<Rightarrow> 'a \<Rightarrow> 's outcome) \<Rightarrow> 's \<Rightarrow> 'a list \<Rightarrow> 's outcome" where
  "fold_outcome f s [] = (s, None)"
| "fold_outcome f s (x # xs) = (case f s x of (s', None) \<Rightarrow> fold_outcome f s' xs | (s', Some e) \<Rightarrow> (s', Some e))"

lemma outcome_result_fold:
  "(\<And>s x. outcome_result (f s x) = g s x) \<Longrightarrow> outcome_result (fold_outcome f s xs) = fold_result g s xs"
proof (induction xs arbitrary: s)
  case (Cons x xs)
  obtain s' e where f: "f s x = (s', e)" by fastforce
  have "g s x = outcome_result (s', e)" using Cons.prems f by metis
  then show ?case using f Cons.IH[OF Cons.prems] by (cases e) simp_all
qed simp

lemma fold_outcome_invariant:
  "P s \<Longrightarrow> (\<And>t x. x \<in> set xs \<Longrightarrow> P t \<Longrightarrow> P (fst (f t x))) \<Longrightarrow> P (fst (fold_outcome f s xs))"
proof (induction xs arbitrary: s)
  case (Cons x xs)
  obtain s' e where f: "f s x = (s', e)" by fastforce
  then have "P s'" using Cons.prems(2)[of x s] Cons.prems(1) by simp
  then show ?case using f Cons.IH[of s'] Cons.prems(2) by (cases e) simp_all
qed simp

section \<open>Aliases and additions\<close>

text \<open>\<open>add\<close> of a name checks the name before it changes the registry.\<close>

definition add_name_outcome :: "tokenizer \<Rightarrow> store \<Rightarrow> Registry \<Rightarrow> string \<Rightarrow> tid \<Rightarrow> bool \<Rightarrow> string \<Rightarrow> Registry outcome" where
  "add_name_outcome tok st reg name added persistent source_id =
     (case add_name tok st reg name added persistent source_id of
        Inl e \<Rightarrow> (reg, Some e)
      | Inr reg' \<Rightarrow> (reg', None))"

type_synonym alias_outcome_operation = "Registry \<Rightarrow> string \<Rightarrow> string \<Rightarrow> bool \<Rightarrow> string \<Rightarrow> Registry outcome"

definition modifiedDependencyAliases_outcome :: "alias_outcome_operation \<Rightarrow> store \<Rightarrow> Registry \<Rightarrow> tid \<Rightarrow> Registry outcome" where
  "modifiedDependencyAliases_outcome alias_op st reg t =
     (let k = ty_kind (type_at st t) in
      case k of
        Container _ StringFactory _ \<Rightarrow> (reg, None)
      | _ \<Rightarrow> (case indirection k of
          None \<Rightarrow> (reg, None)
        | Some on \<Rightarrow> fold_outcome (\<lambda>reg' alias_it.
            let alias_name = getIndirectTypeName k alias_it in
            if m_current reg' alias_name \<noteq> None then (reg', None)
            else alias_op reg' (ty_name (type_at st t)) alias_name False [])
            reg (getAliasesOf st reg on)))"

primrec alias_outcome :: "nat \<Rightarrow> tokenizer \<Rightarrow> store \<Rightarrow> alias_outcome_operation" where
  "alias_outcome 0 tok st = (\<lambda>reg base newname persistent source_id. (reg, Some OutOfFuel))"
| "alias_outcome (Suc fuel) tok st = (\<lambda>reg base newname persistent source_id.
     if \<not> isValidTypename newname True then (reg, Some (BadName newname))
     else case get reg base of
       None \<Rightarrow> (reg, Some (Undefined base))
     | Some base_type \<Rightarrow>
         (case add_name_outcome tok st reg newname base_type persistent source_id of
            (reg', Some e) \<Rightarrow> (reg', Some e)
          | (reg', None) \<Rightarrow>
              fold_outcome (modifiedDependencyAliases_outcome (alias_outcome fuel tok st) st) reg'
                (alias_triggers st reg' base_type)))"

definition registry_alias_outcome :: "tokenizer \<Rightarrow> store \<Rightarrow> Registry \<Rightarrow> string \<Rightarrow> string \<Rightarrow> string \<Rightarrow> Registry outcome" where
  "registry_alias_outcome tok st reg base newname source_id =
     (case get reg base of
        None \<Rightarrow> (reg, Some (Undefined base))
      | Some base_type \<Rightarrow> alias_outcome (Suc (next_id st)) tok st reg base newname
          (isPersistent st newname base_type) source_id)"

definition add_outcome :: "tokenizer \<Rightarrow> store \<Rightarrow> Registry \<Rightarrow> tid \<Rightarrow> string \<Rightarrow> Registry outcome" where
  "add_outcome tok st reg added source_id =
     (case add_name_outcome tok st reg (ty_name (type_at st added)) added
             (isPersistent st (ty_name (type_at st added)) added) source_id of
        (reg', Some e) \<Rightarrow> (reg', Some e)
      | (reg', None) \<Rightarrow>
          if list_ex (\<lambda>dep. getAliasesOf st reg' dep \<noteq> []) (kind_refs (ty_kind (type_at st added)))
          then modifiedDependencyAliases_outcome (alias_outcome (Suc (next_id st)) tok st) st reg' added
          else (reg', None))"

section \<open>Outcomes and results\<close>

lemma modifiedDependencyAliases_outcome_result:
  assumes "\<And>reg base newname persistent src.
    outcome_result (op' reg base newname persistent src) = alias_op reg base newname persistent src"
  shows "outcome_result (modifiedDependencyAliases_outcome op' st reg t) = modifiedDependencyAliases alias_op st reg t"
proof -
  let ?k = "ty_kind (type_at st t)"
  have "outcome_result (fold_outcome (\<lambda>reg' alias_it.
      let alias_name = getIndirectTypeName ?k alias_it in
      if m_current reg' alias_name \<noteq> None then (reg', None)
      else op' reg' (ty_name (type_at st t)) alias_name False []) reg as) =
    fold_result (\<lambda>reg' alias_it.
      let alias_name = getIndirectTypeName ?k alias_it in
      bind_result (has reg' alias_name False) (\<lambda>known.
        if known then Inr reg' else alias_op reg' (ty_name (type_at st t)) alias_name False [])) reg as" for as
    by (rule outcome_result_fold) (simp add: has_def assms Let_def)
  then show ?thesis
    unfolding modifiedDependencyAliases_outcome_def modifiedDependencyAliases_def Let_def
    by (auto split: kind.split factory.split option.split)
qed

lemma alias_outcome_result:
  "outcome_result (alias_outcome n tok st reg base newname persistent src) =
   alias_rec n tok st reg base newname persistent src"
proof (induction n arbitrary: reg base newname persistent src)
  case (Suc n)
  have "outcome_result (fold_outcome (modifiedDependencyAliases_outcome (alias_outcome n tok st) st) reg' ts) =
      fold_result (modifiedDependencyAliases (alias_rec n tok st) st) reg' ts" for reg' ts
    by (rule outcome_result_fold) (rule modifiedDependencyAliases_outcome_result[OF Suc])
  then show ?case
    by (auto simp: add_name_outcome_def split: option.split sum.split)
qed simp

text \<open>What \<open>alias\<close> and \<open>add\<close> return is the registry of the outcome, or its exception.\<close>

theorem registry_alias_outcome_result:
  "outcome_result (registry_alias_outcome tok st reg base newname src) = registry_alias tok st reg base newname src"
  by (simp add: registry_alias_outcome_def registry_alias_def alias_persistent_def alias_outcome_result
      del: alias_outcome.simps alias_rec.simps split: option.split)

theorem add_outcome_result: "outcome_result (add_outcome tok st reg t src) = add tok st reg t src"
  unfolding add_outcome_def Registry.add_def add_persistent_def add_name_outcome_def alias_persistent_def
  by (auto simp: modifiedDependencyAliases_outcome_result[OF alias_outcome_result]
      simp del: alias_outcome.simps alias_rec.simps split: sum.split)

section \<open>Every outcome is well formed\<close>

lemma add_name_outcome_ok:
  assumes "registry_ok st reg" and "canonical_name name" and "t \<in> dom (objects st)"
    and "name = ty_name (type_at st t) \<or> global_type reg (ty_name (type_at st t)) = Some t"
    and "add_name_outcome tok st reg name t p src = (reg', e)"
  shows "registry_extends st reg reg'" and "e = None \<Longrightarrow> global_type reg' name = Some t"
  using add_name_ok[OF assms(1-4), of tok p src] assms(1,5)
  by (auto simp: add_name_outcome_def registry_extends_def split: sum.splits)

lemma modifiedDependencyAliases_outcome_ok:
  assumes ok: "registry_ok st reg" and x: "global_type reg (ty_name (type_at st x)) = Some x"
    and op: "\<And>reg' newname. registry_ok st reg' \<Longrightarrow> canonical_name newname \<Longrightarrow>
      registry_extends st reg' (fst (alias_op reg' (ty_name (type_at st x)) newname False []))"
  shows "registry_extends st reg (fst (modifiedDependencyAliases_outcome alias_op st reg x))"
proof -
  let ?k = "ty_kind (type_at st x)"
  show ?thesis
  proof (cases "indirection ?k = None \<or> (\<exists>c on. ?k = Container c StringFactory on)")
    case True
    then have "modifiedDependencyAliases_outcome alias_op st reg x = (reg, None)"
      by (auto simp: modifiedDependencyAliases_outcome_def Let_def split: kind.splits factory.splits)
    then show ?thesis using ok by (simp add: registry_extends_def)
  next
    case False
    then obtain on where on: "indirection ?k = Some on" by auto
    let ?f = "\<lambda>reg' alias_it. let alias_name = getIndirectTypeName ?k alias_it in
      if m_current reg' alias_name \<noteq> None then (reg', None)
      else alias_op reg' (ty_name (type_at st x)) alias_name False []"
    have eq: "modifiedDependencyAliases_outcome alias_op st reg x = fold_outcome ?f reg (getAliasesOf st reg on)"
      using False on by (simp add: modifiedDependencyAliases_outcome_def Let_def not_string_case)
    show ?thesis unfolding eq
    proof (rule fold_outcome_invariant)
      show "registry_extends st reg reg" using ok by (simp add: registry_extends_def)
      fix reg' a
      assume a: "a \<in> set (getAliasesOf st reg on)" and ext: "registry_extends st reg reg'"
      from a have "canonical_name a" using ok by (auto simp: getAliasesOf_def registry_ok_def names_ok_def)
      then have "canonical_name (getIndirectTypeName ?k a)"
        using False by (intro canonical_getIndirectTypeName) auto
      moreover have "registry_ok st reg'" using ext by (simp add: registry_extends_def)
      ultimately show "registry_extends st reg (fst (?f reg' a))"
        using registry_extends_trans[OF ext op] ext by (simp add: Let_def)
    qed
  qed
qed

lemma alias_outcome_ok:
  assumes "registry_ok st reg" and "canonical_name newname"
  shows "registry_extends st reg (fst (alias_outcome n tok st reg base newname p src))"
  using assms
proof (induction n arbitrary: reg base newname p src)
  case (Suc n)
  show ?case
  proof (cases "isValidTypename newname True \<and> get reg base \<noteq> None")
    case True
    then obtain b where b: "get reg base = Some b" by auto
    have known: "b \<in> dom (objects st)" "global_type reg (ty_name (type_at st b)) = Some b"
      using registry_ok_get[OF Suc.prems(1) b] by simp_all
    obtain reg' e where add: "add_name_outcome tok st reg newname b p src = (reg', e)" by fastforce
    have ext: "registry_extends st reg reg'"
      by (rule add_name_outcome_ok(1)[OF Suc.prems known(1) _ add]) (simp add: known)
    then have ok': "registry_ok st reg'" by (simp add: registry_extends_def)
    have "registry_extends st reg' (fst (fold_outcome (modifiedDependencyAliases_outcome (alias_outcome n tok st) st) reg'
        (alias_triggers st reg' b)))"
    proof (rule fold_outcome_invariant)
      show "registry_extends st reg' reg'" using ok' by (simp add: registry_extends_def)
      fix r x
      assume x: "x \<in> set (alias_triggers st reg' b)" and ext_r: "registry_extends st reg' r"
      from x obtain en where en: "en \<in> set (m_global reg')" "\<not> isAlias st en" "x = reg_type (snd en)"
        by (auto simp: alias_triggers_def)
      then have "global_type reg' (ty_name (type_at st x)) = Some x"
        using global_type_entry[OF ok', of "fst en" "snd en"] by (simp add: isAlias_def) (metis prod.collapse)
      then have "global_type r (ty_name (type_at st x)) = Some x"
        using ext_r by (force simp: registry_extends_def map_le_def)
      moreover have "registry_ok st r" using ext_r by (simp add: registry_extends_def)
      ultimately have "registry_extends st r (fst (modifiedDependencyAliases_outcome (alias_outcome n tok st) st r x))"
        by (intro modifiedDependencyAliases_outcome_ok) (use Suc.IH in simp_all)
      then show "registry_extends st reg' (fst (modifiedDependencyAliases_outcome (alias_outcome n tok st) st r x))"
        by (rule registry_extends_trans[OF ext_r])
    qed
    then show ?thesis using True b add ext registry_extends_trans[OF ext] by (cases e) simp_all
  qed (use Suc.prems in \<open>auto simp: registry_extends_def split: option.splits\<close>)
qed (simp add: registry_extends_def)

lemma registry_alias_outcome_ok:
  assumes "registry_ok st reg" and "canonical_name newname"
  shows "registry_extends st reg (fst (registry_alias_outcome tok st reg base newname src))"
  unfolding registry_alias_outcome_def
  using alias_outcome_ok[OF assms] assms(1)
  by (auto simp: registry_extends_def simp del: alias_outcome.simps split: option.split)

lemma add_outcome_ok:
  assumes "registry_ok st reg" and "canonical_name (ty_name (type_at st t))" and "t \<in> dom (objects st)"
  shows "registry_extends st reg (fst (add_outcome tok st reg t src))"
proof -
  let ?n = "ty_name (type_at st t)"
  obtain reg' e where add: "add_name_outcome tok st reg ?n t (isPersistent st ?n t) src = (reg', e)" by fastforce
  note new = add_name_outcome_ok[OF assms(1,2,3) disjI1[OF refl] add]
  have "registry_extends st reg' (fst (modifiedDependencyAliases_outcome (alias_outcome (Suc (next_id st)) tok st) st reg' t))"
    if "e = None" using new that
    by (intro modifiedDependencyAliases_outcome_ok alias_outcome_ok) (simp_all add: registry_extends_def)
  then show ?thesis using add new registry_extends_trans[OF new(1)]
    by (cases e) (simp_all add: add_outcome_def del: alias_outcome.simps)
qed

end
