(* ===== verification/RegistryInvariant.thy ===== *)
theory RegistryInvariant
  imports RegistryOutcome
begin

text \<open>
  What the registry guarantees: the transitive reverse dependencies are computed exactly,
  removing a type leaves no dangling dependency, every operation keeps the registry
  invariant, and hence every state that a sequence of operations reaches satisfies it.
\<close>

section \<open>Reverse dependencies\<close>

text \<open>\<open>(t, u)\<close> is an edge when \<open>t\<close> is registered and refers to \<open>u\<close>.\<close>

definition dependency :: "store \<Rightarrow> Registry \<Rightarrow> tid rel" where
  "dependency st reg = {(t, u). \<exists>e \<in> set (m_global reg). \<not> isAlias st e \<and> reg_type (snd e) = t \<and>
     u \<in> dependsOn (type_at st t)}"

definition registered :: "Registry \<Rightarrow> tid set" where
  "registered reg = (reg_type \<circ> snd) ` set (m_global reg)"

lemma depends_round_eq:
  "depends_round st reg result queue =
     {t. t \<notin> result \<and> t \<notin> queue \<and> (\<exists>u \<in> queue. (t, u) \<in> dependency st reg)}"
  by (auto simp: depends_round_def dependency_def dependsOn_def list_ex_iff Let_def image_iff)

lemma depends_round_registered: "depends_round st reg result queue \<subseteq> registered reg"
  by (auto simp: depends_round_def registered_def Let_def)

text \<open>
  The state of the loop: the queue and the result are disjoint, everything in them depends
  on the type, and every type that refers into the result has been collected.
\<close>

definition depends_inv :: "store \<Rightarrow> Registry \<Rightarrow> tid \<Rightarrow> tid set \<Rightarrow> tid set \<Rightarrow> bool" where
  "depends_inv st reg t result queue \<longleftrightarrow>
     t \<in> result \<union> queue \<and> result \<inter> queue = {} \<and> result \<union> queue \<subseteq> insert t (registered reg) \<and>
     (\<forall>u \<in> result \<union> queue. (u, t) \<in> (dependency st reg)\<^sup>*) \<and>
     (\<forall>u v. (u, v) \<in> dependency st reg \<longrightarrow> v \<in> result \<longrightarrow> u \<in> result \<union> queue)"

lemma depends_inv_step:
  assumes "depends_inv st reg t result queue"
  shows "depends_inv st reg t (result \<union> queue) (depends_round st reg result queue)"
proof -
  have "(u, t) \<in> (dependency st reg)\<^sup>*" if "u \<in> depends_round st reg result queue" for u
    using that assms unfolding depends_round_eq depends_inv_def
    by (blast intro: converse_rtrancl_into_rtrancl)
  then show ?thesis
    using assms depends_round_registered[of st reg result queue]
    unfolding depends_inv_def depends_round_eq by blast
qed

lemma depends_inv_exact:
  assumes "depends_inv st reg t result {}"
  shows "result = {u. (u, t) \<in> (dependency st reg)\<^sup>*}"
proof
  show "result \<subseteq> {u. (u, t) \<in> (dependency st reg)\<^sup>*}" using assms by (auto simp: depends_inv_def)
  have "u \<in> result" if "(u, t) \<in> (dependency st reg)\<^sup>*" for u
    using that assms by (induction rule: converse_rtrancl_induct) (auto simp: depends_inv_def)
  then show "{u. (u, t) \<in> (dependency st reg)\<^sup>*} \<subseteq> result" by blast
qed

lemma reverseDepends_loop_exact:
  assumes "depends_inv st reg t result queue"
    and "card (insert t (registered reg) - result) < fuel"
  shows "reverseDepends_loop fuel st reg result queue = Some {u. (u, t) \<in> (dependency st reg)\<^sup>*}"
  using assms
proof (induction fuel arbitrary: result queue)
  case (Suc fuel)
  show ?case
  proof (cases "queue = {}")
    case True
    then show ?thesis using depends_inv_exact[of st reg t result] Suc.prems(1) by simp
  next
    case False
    then obtain q where q: "q \<in> queue" by blast
    then have "q \<notin> result" "q \<in> insert t (registered reg)"
      using Suc.prems(1) by (auto simp: depends_inv_def)
    then have "insert t (registered reg) - (result \<union> queue) \<subset> insert t (registered reg) - result"
      using q by (intro psubsetI) blast+
    moreover have "finite (insert t (registered reg) - result)" by (simp add: registered_def)
    ultimately have "card (insert t (registered reg) - (result \<union> queue)) < card (insert t (registered reg) - result)"
      by (intro psubset_card_mono)
    then have "card (insert t (registered reg) - (result \<union> queue)) < fuel"
      using Suc.prems(2) by simp
    then show ?thesis using Suc.IH[OF depends_inv_step[OF Suc.prems(1)]] False by simp
  qed
qed simp

lemma reverseDepends_eq: "reverseDepends st reg t = Some {u. (u, t) \<in> (dependency st reg)\<^sup>*}"
proof -
  have "card (registered reg) \<le> length (m_global reg)"
    unfolding registered_def by (metis List.finite_set card_image_le card_length le_trans)
  then have "card (insert t (registered reg) - {}) < length (m_global reg) + 3"
    using card_insert_le_m1[of "length (m_global reg) + 2" "registered reg" t] by simp
  moreover have "depends_inv st reg t {} {t}" by (simp add: depends_inv_def)
  ultimately show ?thesis unfolding reverseDepends_def by (intro reverseDepends_loop_exact)
qed

section \<open>The operations keep the invariant\<close>

lemma remove_eq:
  "remove st reg t = Some (let types = {u. (u, t) \<in> (dependency st reg)\<^sup>*} in
     (types, reg\<lparr>m_global := filter (\<lambda>e. reg_type (snd e) \<notin> types) (m_global reg),
       m_current := (\<lambda>name. case m_current reg name of
          None \<Rightarrow> None
        | Some regtype \<Rightarrow> if reg_type regtype \<in> types then None else Some regtype)\<rparr>))"
  by (simp add: remove_def reverseDepends_eq Let_def)

lemma remove_lookup:
  assumes "registry_ok st reg" and "remove st reg t = Some (types, reg')"
  shows "global_type reg' n = (case global_type reg n of Some u \<Rightarrow> if u \<in> types then None else Some u | None \<Rightarrow> None)"
    and "get reg' n = (case get reg n of Some u \<Rightarrow> if u \<in> types then None else Some u | None \<Rightarrow> None)"
    and "names_ok (m_global reg')"
    and "set (m_global reg') = {e \<in> set (m_global reg). reg_type (snd e) \<notin> types}"
  using assms(2) map_of_filter_value[OF nameSort_map.omap_sorted_distinct[OF registry_ok_sorted[OF assms(1)]],
      of "\<lambda>rt. reg_type rt \<notin> types"] assms(1)
  by (auto simp: remove_eq Let_def global_type_def get_def registry_ok_def names_ok_def omap_sorted_filter
      split: option.splits)

lemma remove_ok:
  assumes ok: "registry_ok st reg" and rem: "remove st reg t = Some (types, reg')"
  shows "registry_ok st reg'"
proof -
  note lk = remove_lookup[OF ok rem]
  have "\<exists>ns. global_type reg' (ns @ n) = Some u" if u: "get reg' n = Some u" for n u
  proof -
    have "get reg n = Some u" and "u \<notin> types" using u lk(2) by (auto split: option.splits if_splits)
    moreover obtain ns where "global_type reg (ns @ n) = Some u"
      using registry_ok_suffix[OF ok \<open>get reg n = Some u\<close>] by (rule exE)
    ultimately have "global_type reg' (ns @ n) = Some u" using lk(1) by simp
    then show ?thesis by (rule exI)
  qed
  moreover have "u \<in> dom (objects st) \<and> global_type reg' (ty_name (type_at st u)) = Some u"
    if u: "global_type reg' n = Some u" for n u
  proof -
    have "global_type reg n = Some u" and "u \<notin> types" using u lk(1) by (auto split: option.splits if_splits)
    then show ?thesis using registry_ok_type[OF ok, of n u] lk(1) by auto
  qed
  ultimately show ?thesis
    using lk(1,2,3) registry_ok_absolute[OF ok] by (simp add: registry_ok_def)
qed

lemma importNamespace_ok:
  assumes ok: "registry_ok st reg"
  shows "registry_ok st (importNamespace reg name erase)"
proof -
  let ?ns = "getNormalizedNamespace name" and ?reg = "importNamespace reg name erase"
  note imp = importNamespace_simps[OF registry_ok_sorted[OF ok] refl, of name erase]
  have glob: "global_type ?reg n = global_type reg n" for n by (simp add: global_type_def imp(1))
  have cur: "get ?reg n = get reg n \<or> get ?reg n = global_type reg (?ns @ n)" for n
    using imp(3)[of n] by (auto simp: get_def global_type_def split: option.splits)
  have abs: "get ?reg n = get reg n" if "isAbsoluteName n" for n
  proof -
    have "global_type reg (?ns @ n) = None"
      using registry_ok_type[OF ok, of "?ns @ n"] relative_not_absolute[of ?ns n] that
      by (cases "global_type reg (?ns @ n)") auto
    then show ?thesis using imp(3)[of n] by (simp add: get_def global_type_def split: option.splits)
  qed
  have "\<exists>ns. global_type reg (ns @ n) = Some u" if "get ?reg n = Some u" for n u
    using cur[of n] registry_ok_suffix[OF ok, of n u] that by auto
  then show ?thesis
    using ok abs unfolding registry_ok_def by (simp add: glob imp(1))
qed

text \<open>A registry stays well formed in a store that keeps the registered objects and their names.\<close>

lemma registry_ok_store:
  assumes "registry_ok st reg"
    and "\<And>t. t \<in> dom (objects st) \<Longrightarrow> t \<in> dom (objects st') \<and> ty_name (type_at st' t) = ty_name (type_at st t)"
  shows "registry_ok st' reg"
  using assms unfolding registry_ok_def by metis

lemma registry_ok_subset:
  assumes ok: "registry_ok st reg" and P: "\<And>e. e \<in> set (m_global reg) \<Longrightarrow> \<not> isAlias st e \<Longrightarrow> P e"
  shows "registry_ok st (updateCurrentNameMap tok (reg\<lparr>m_global := filter P (m_global reg)\<rparr>))"
proof (rule updateCurrentNameMap_ok)
  let ?reg = "reg\<lparr>m_global := filter P (m_global reg)\<rparr>"
  show names: "names_ok (m_global ?reg)"
    using ok by (auto simp: registry_ok_def names_ok_def omap_sorted_filter)
  fix n t assume "global_type ?reg n = Some t"
  then obtain rt where "(n, rt) \<in> set (m_global reg)" "reg_type rt = t" using global_type_SomeD by fastforce
  then have glob: "global_type reg (ty_name (type_at st t)) = Some t" and t: "t \<in> dom (objects st)"
    using registry_ok_type[OF ok] global_type_entry[OF ok] by blast+
  from global_type_SomeD[OF glob] obtain rt' where rt': "(ty_name (type_at st t), rt') \<in> set (m_global reg)"
    "reg_type rt' = t" by blast
  then have "(ty_name (type_at st t), rt') \<in> set (m_global ?reg)" using P[OF rt'(1)] by (simp add: isAlias_def)
  moreover have "distinct (map fst (m_global ?reg))"
    using names unfolding names_ok_def by (intro nameSort_map.omap_sorted_distinct) (rule conjunct1)
  ultimately have "global_type ?reg (ty_name (type_at st t)) = Some t"
    using rt'(2) by (simp add: global_type_def)
  then show "t \<in> dom (objects st) \<and> global_type ?reg (ty_name (type_at st t)) = Some t" using t by simp
qed

lemma setSourceID_ok:
  assumes ok: "registry_ok st reg" and t: "t \<in> dom (objects st)"
    and set: "setSourceID st reg t src = (st', reg')"
  shows "registry_ok st' reg'"
proof (cases "map_of (m_global reg) (ty_name (type_at st t))")
  case None
  then show ?thesis using set ok by (simp add: setSourceID_def Let_def)
next
  case (Some rt)
  let ?n = "ty_name (type_at st t)"
  have reg': "reg' = reg\<lparr>m_global := omap_assign nameSort ?n (rt\<lparr>reg_source_id := src\<rparr>) (m_global reg)\<rparr>"
    and st': "st' = update_type st t (\<lambda>x. x\<lparr>ty_metadata := MetaData_set (ty_metadata x) ''source_id'' src\<rparr>)"
    using set Some by (simp_all add: setSourceID_def Let_def)
  have glob: "global_type reg' = global_type reg"
    using Some nameSort_map.omap_find_assign[OF registry_ok_sorted[OF ok], of ?n]
    by (auto simp: reg' global_type_def fun_eq_iff)
  have "?n \<in> fst ` set (m_global reg)" using Some by (force dest: map_of_SomeD)
  then have "names_ok (m_global reg')"
    using ok by (auto simp: reg' registry_ok_def names_ok_def nameSort_map.omap_sorted_assign
        nameSort_map.omap_assign_keys)
  then have "registry_ok st reg'"
    using ok unfolding registry_ok_def by (simp add: glob) (simp add: get_def reg')
  then show ?thesis
    by (rule registry_ok_store) (use t in \<open>auto simp: st' update_type_def type_at_def\<close>)
qed

section \<open>Reachable registries\<close>

type_synonym registry_state = "store \<times> Registry"

definition state_ok :: "registry_state \<Rightarrow> bool" where
  "state_ok s \<longleftrightarrow> indirect_acyclic (fst s) \<and> registry_ok (fst s) (snd s)"

definition empty_state :: "registry_state \<Rightarrow> bool" where
  "empty_state s \<longleftrightarrow> objects (fst s) = Map.empty \<and> m_global (snd s) = [] \<and> m_current (snd s) = Map.empty"

text \<open>
  The operations a program performs on a registry and its types, in any order: creating a
  type object over existing ones, modifying one (its size, fields, values or metadata, not
  its name or what an indirect type is built on), and the operations of the registry.
  \<open>add\<close> and \<open>alias\<close> may throw with part of their work done: the step leads to the registry
  they leave behind, whatever the outcome. The other operations throw, if at all, before
  they change anything. \<open>merge\<close>, \<open>minimal\<close>, \<open>resize\<close> and \<open>build\<close> are not steps.
\<close>

inductive registry_step :: "tokenizer \<Rightarrow> registry_state \<Rightarrow> registry_state \<Rightarrow> bool" for tok where
  create: "set (kind_refs (ty_kind obj)) \<subseteq> {..< next_id st} \<Longrightarrow> new_type st obj = (t, st') \<Longrightarrow>
    registry_step tok (st, reg) (st', reg)"
| modify: "t \<in> dom (objects st) \<Longrightarrow> ty_name (f (type_at st t)) = ty_name (type_at st t) \<Longrightarrow>
    indirection (ty_kind (f (type_at st t))) = indirection (ty_kind (type_at st t)) \<Longrightarrow>
    registry_step tok (st, reg) (update_type st t f, reg)"
| add: "t \<in> dom (objects st) \<Longrightarrow> canonical_name (ty_name (type_at st t)) \<Longrightarrow>
    add_outcome tok st reg t src = (reg', threw) \<Longrightarrow> registry_step tok (st, reg) (st, reg')"
| alias_name: "canonical_name newname \<Longrightarrow> registry_alias_outcome tok st reg base newname src = (reg', threw) \<Longrightarrow>
    registry_step tok (st, reg) (st, reg')"
| default_namespace: "setDefaultNamespace tok reg space = (b, reg') \<Longrightarrow> registry_step tok (st, reg) (st, reg')"
| import_namespace: "registry_step tok (st, reg) (st, importNamespace reg name erase)"
| remove_alias: "removeAlias tok st reg name = Inr reg' \<Longrightarrow> registry_step tok (st, reg) (st, reg')"
| clear_aliases: "registry_step tok (st, reg) (st, clearAliases tok st reg)"
| remove: "remove st reg t = Some (types, reg') \<Longrightarrow> registry_step tok (st, reg) (st, reg')"
| set_source_id: "t \<in> dom (objects st) \<Longrightarrow> setSourceID st reg t src = (st', reg') \<Longrightarrow>
    registry_step tok (st, reg) (st', reg')"
| clear: "clear st reg = (st', reg') \<Longrightarrow> registry_step tok (st, reg) (st', reg')"

lemma indirection_refs: "indirection k = Some on \<Longrightarrow> on \<in> set (kind_refs k)"
  by (cases k) auto

lemma update_type_ok:
  assumes "state_ok (st, reg)" and "t \<in> dom (objects st)"
    and "ty_name (f (type_at st t)) = ty_name (type_at st t)"
    and "indirection (ty_kind (f (type_at st t))) = indirection (ty_kind (type_at st t))"
  shows "state_ok (update_type st t f, reg)"
proof -
  have at: "type_at (update_type st t f) u = (if u = t then f (type_at st t) else type_at st u)" for u
    by (simp add: update_type_def type_at_def)
  have "registry_ok (update_type st t f) reg"
    by (rule registry_ok_store[of st]) (use assms at in \<open>auto simp: state_ok_def update_type_def\<close>)
  moreover have "indirect_acyclic (update_type st t f)"
    using assms at unfolding state_ok_def indirect_acyclic_def by (auto simp: update_type_def)
  ultimately show ?thesis by (simp add: state_ok_def)
qed

lemma delete_objects_le:
  fixes es :: "(string \<times> RegistryType) list"
  shows "objects (fold (\<lambda>e st'. st'\<lparr>objects := (objects st')(reg_type (snd e) := None)\<rparr>) es st) \<subseteq>\<^sub>m objects st \<and>
      next_id (fold (\<lambda>e st'. st'\<lparr>objects := (objects st')(reg_type (snd e) := None)\<rparr>) es st) = next_id st"
proof (induction es arbitrary: st)
  case (Cons e es)
  let ?st = "st\<lparr>objects := (objects st)(reg_type (snd e) := None)\<rparr>"
  have le: "objects ?st \<subseteq>\<^sub>m objects st" by simp
  have "next_id ?st = next_id st" by simp
  then show ?case unfolding fold_simps
    using Cons.IH[of ?st] map_le_trans[OF conjunct1[OF Cons.IH[of ?st]] le] by metis
qed simp

lemma indirect_acyclic_le:
  assumes "indirect_acyclic st" and "objects st' \<subseteq>\<^sub>m objects st" and "next_id st' = next_id st"
  shows "indirect_acyclic st'"
  unfolding indirect_acyclic_def
proof
  fix t assume t: "t \<in> dom (objects st')"
  then have "objects st t = objects st' t" using assms(2) by (simp add: map_le_def)
  then have "t \<in> dom (objects st)" "type_at st' t = type_at st t" using t by (auto simp: type_at_def)
  then show "t < next_id st' \<and> (\<forall>on. indirection (ty_kind (type_at st' t)) = Some on \<longrightarrow> on < t)"
    using assms(1,3) by (simp add: indirect_acyclic_def)
qed

lemma registry_step_ok:
  assumes "registry_step tok s s'" and "state_ok s"
  shows "state_ok s'"
  using assms
proof (induction rule: registry_step.induct)
  case (create obj st t st' reg)
  have st': "objects st' = (objects st)(next_id st \<mapsto> obj)" "next_id st' = Suc (next_id st)"
    using create(2) by (auto simp: new_type_def)
  have acyclic: "indirect_acyclic st" and ok: "registry_ok st reg"
    using create.prems by (simp_all add: state_ok_def)
  have old: "u \<noteq> next_id st" "type_at st' u = type_at st u" if "u \<in> dom (objects st)" for u
    using acyclic that st' by (auto simp: indirect_acyclic_def type_at_def)
  have "registry_ok st' reg"
    by (rule registry_ok_store[OF ok]) (use old st' in auto)
  moreover have "indirect_acyclic st'"
    unfolding indirect_acyclic_def
  proof (intro ballI conjI allI impI)
    fix u assume u: "u \<in> dom (objects st')"
    show "u < next_id st'" using u acyclic by (auto simp: st' indirect_acyclic_def less_Suc_eq)
    fix on assume on: "indirection (ty_kind (type_at st' u)) = Some on"
    show "on < u"
    proof (cases "u = next_id st")
      case True
      then have "indirection (ty_kind obj) = Some on" using on by (simp add: st' type_at_def)
      then show ?thesis using indirection_refs[of "ty_kind obj" on] create(1) True by auto
    next
      case False
      then have "u \<in> dom (objects st)" using u by (simp add: st')
      then show ?thesis using on old acyclic by (simp add: indirect_acyclic_def)
    qed
  qed
  ultimately show ?case by (simp add: state_ok_def)
next
  case (add t st reg src reg' threw)
  then show ?case using add_outcome_ok[of st reg t tok src] by (simp add: state_ok_def registry_extends_def)
next
  case (alias_name newname st reg base src reg' threw)
  then show ?case using registry_alias_outcome_ok[of st reg newname tok base src]
    by (simp add: state_ok_def registry_extends_def)
next
  case (default_namespace reg space b reg' st)
  let ?reg = "reg\<lparr>m_namespace := getNormalizedNamespace space\<rparr>"
  have "registry_ok st (updateCurrentNameMap tok ?reg)" if "registry_ok st reg"
    by (rule updateCurrentNameMap_ok) (use that registry_ok_type[OF that] in
      \<open>simp_all add: registry_ok_def global_type_def\<close>)
  then show ?case using default_namespace
    by (auto simp: setDefaultNamespace_def state_ok_def split: if_splits)
next
  case (remove_alias st reg name reg')
  have ok: "registry_ok st reg" using remove_alias.prems by (simp add: state_ok_def)
  from remove_alias(1) obtain rt where rt: "map_of (m_global reg) name = Some rt"
    "ty_name (type_at st (reg_type rt)) \<noteq> name"
    "reg' = updateCurrentNameMap tok (reg\<lparr>m_global := omap_erase name (m_global reg)\<rparr>)"
    by (auto simp: removeAlias_def split: option.splits if_splits)
  have "isAlias st e" if "e \<in> set (m_global reg)" "fst e = name" for e
  proof -
    have "(name, snd e) \<in> set (m_global reg)" using that by (metis prod.collapse)
    then have "reg_type (snd e) = reg_type rt"
      using global_type_entry[OF ok] rt(1) by (fastforce simp: global_type_def)
    then show ?thesis using that(2) rt(2) by (simp add: isAlias_def)
  qed
  then have "registry_ok st (updateCurrentNameMap tok (reg\<lparr>m_global := filter (\<lambda>e. fst e \<noteq> name) (m_global reg)\<rparr>))"
    by (intro registry_ok_subset[OF ok]) blast
  then show ?case using remove_alias.prems rt(3) by (simp add: state_ok_def omap_erase_def)
next
  case (clear_aliases st reg)
  then show ?case by (auto simp: state_ok_def clearAliases_def intro: registry_ok_subset)
next
  case (remove st reg t types reg')
  then show ?case by (auto simp: state_ok_def intro: remove_ok)
next
  case (set_source_id t st reg src st' reg')
  have "indirect_acyclic st'"
    using set_source_id update_type_ok[of st reg t "\<lambda>x. x\<lparr>ty_metadata := MetaData_set (ty_metadata x) ''source_id'' src\<rparr>"]
    by (auto simp: setSourceID_def Let_def state_ok_def split: option.splits)
  moreover have "registry_ok st' reg'"
    using setSourceID_ok[OF _ set_source_id(1,2)] set_source_id.prems by (simp add: state_ok_def)
  ultimately show ?case by (simp add: state_ok_def)
next
  case (clear st reg st' reg')
  have "objects st' \<subseteq>\<^sub>m objects st" "next_id st' = next_id st"
    using clear(1) delete_objects_le by (auto simp: clear_def)
  then have "indirect_acyclic st'"
    using clear.prems indirect_acyclic_le by (auto simp: state_ok_def)
  then show ?case using clear(1)
    by (auto simp: state_ok_def clear_def registry_ok_def names_ok_def get_def global_type_def)
next
  case (modify t st f reg)
  then show ?case by (intro update_type_ok)
next
  case (import_namespace st reg name erase)
  then show ?case by (simp add: state_ok_def importNamespace_ok)
qed

lemma empty_state_ok: "empty_state s \<Longrightarrow> state_ok s"
  by (simp add: empty_state_def state_ok_def indirect_acyclic_def registry_ok_def names_ok_def
      get_def global_type_def)

interpretation registry_component: stateful_component empty_state "registry_step tok" state_ok
  by unfold_locales (fact empty_state_ok, rule registry_step_ok)

section \<open>Properties\<close>

text \<open>
  A tokenizer that satisfies \<open>NameTokenizer_spec\<close>, and a small registry for the examples:
  two base types, a pointer and a structure over it.
\<close>

fun split_tok :: "string \<Rightarrow> string \<Rightarrow> string list" where
  "split_tok cur [] = (if cur = [] then [] else [cur])"
| "split_tok cur (c # s) =
     (if c = CHR ''/'' then (if cur = [] then split_tok [] s else cur # split_tok [] s)
      else split_tok (cur @ [c]) s)"

definition example_tok :: tokenizer where
  "example_tok = split_tok []"

lemma split_tok_segment:
  "CHR ''/'' \<notin> set t \<Longrightarrow> split_tok cur (t @ s) = split_tok (cur @ t) s"
  by (induction t arbitrary: cur) auto

lemma example_tok_spec: "NameTokenizer_spec example_tok"
  unfolding NameTokenizer_spec_def example_tok_def
proof (intro conjI allI impI)
  fix t s :: string
  assume t: "t \<noteq> [] \<and> CHR ''/'' \<notin> set t"
  then show "split_tok [] t = [t]" using split_tok_segment[of t "[]" "[]"] by simp
  show "split_tok [] (t @ CHR ''/'' # s) = t # split_tok [] s"
    using t split_tok_segment[of t "[]" "CHR ''/'' # s"] by simp
qed simp_all

definition example_store :: store where
  "example_store = \<lparr>objects =
     [0 \<mapsto> Numeric_ctor ''/int'' 4 SInt, 1 \<mapsto> Numeric_ctor ''/A/T'' 8 SInt,
      2 \<mapsto> Type_ctor ''/int*'' 8 (Pointer 0),
      3 \<mapsto> Type_ctor ''/A/S'' 8 (Compound
        [\<lparr>fld_name = ''p'', fld_type = 2, fld_offset = 0, fld_metadata = []\<rparr>])], next_id = 4\<rparr>"

definition example_entry :: "tid \<Rightarrow> RegistryType" where
  "example_entry t = \<lparr>reg_type = t, reg_persistent = True, reg_source_id = []\<rparr>"

definition example_global :: "(string \<times> RegistryType) list" where
  "example_global = [(''/A/S'', example_entry 3), (''/A/T'', example_entry 1),
     (''/int'', example_entry 0), (''/int*'', example_entry 2)]"

definition example_registry :: Registry where
  "example_registry = updateCurrentNameMap example_tok
     \<lparr>m_global = example_global, m_current = Map.empty, m_namespace = ''/''\<rparr>"

lemma example_global_names: "names_ok example_global"
  by (simp add: example_global_def names_ok_def canonical_name_def isAbsoluteName_def NamespaceMark_def
      char_value_def)

lemma example_registry_global [simp]: "m_global example_registry = example_global"
  using updateCurrentNameMap_simps[of "\<lparr>m_global = example_global, m_current = Map.empty, m_namespace = ''/''\<rparr>"]
    example_global_names by (simp add: example_registry_def)

lemma example_store_acyclic: "indirect_acyclic example_store"
  by (simp add: indirect_acyclic_def example_store_def type_at_def Numeric_ctor_def Type_ctor_def)

lemma example_registry_ok: "registry_ok example_store example_registry"
  unfolding example_registry_def
  by (rule updateCurrentNameMap_ok)
    (simp_all add: example_global_names, auto simp: example_global_def global_type_def example_store_def
      type_at_def Numeric_ctor_def Type_ctor_def example_entry_def split: if_splits)

text \<open>
  C21: Name resolution. After \<open>updateCurrentNameMap\<close> (which \<open>setDefaultNamespace\<close>,
  \<open>removeAlias\<close> and \<open>clearAliases\<close> end with) an absolute name means the type registered
  under it, and a relative name the type of that name in the innermost namespace, among
  those that enclose the default namespace, that has one.
\<close>

theorem updateCurrentNameMap_resolves:
  assumes "names_ok (m_global reg)"
  shows "m_current (updateCurrentNameMap tok reg) name =
    (if isAbsoluteName name then map_of (m_global reg) name
     else resolve (m_global reg) (enclosing NamespaceMarkString (tok (m_namespace reg))) name)"
  using updateCurrentNameMap_simps[OF assms] by blast

theorem updateCurrentNameMap_resolves_witness:
  "m_current (updateCurrentNameMap example_tok (example_registry\<lparr>m_namespace := ''/A/''\<rparr>)) ''T''
     = Some (example_entry 1)"
proof -
  have "names_ok (m_global (example_registry\<lparr>m_namespace := ''/A/''\<rparr>))"
    using example_global_names by simp
  from updateCurrentNameMap_resolves[OF this, of example_tok "''T''"] show ?thesis
    by (simp add: isAbsoluteName_def NamespaceMark_def NamespaceMarkString_def example_tok_def example_global_def)
qed

text \<open>
  C25: Importing a namespace binds exactly the types below it, under their names relative to
  it: the range that starts at \<open>lower_bound\<close> in the order \<open>nameSort\<close> misses none and holds
  no other. A name already bound is kept or replaced as \<open>erase_existing\<close> says, and no other
  name changes.
\<close>

theorem importNamespace_exact:
  assumes "omap_sorted nameSort (m_global reg)"
  shows "m_current (importNamespace reg name erase_existing) n =
    (case map_of (m_global reg) (getNormalizedNamespace name @ n) of
       None \<Rightarrow> m_current reg n
     | Some rt \<Rightarrow> if erase_existing \<or> m_current reg n = None then Some rt else m_current reg n)"
  using importNamespace_simps(3)[OF assms refl] .

theorem importNamespace_exact_witness:
  "m_current (importNamespace example_registry ''/A'' True) ''S'' = Some (example_entry 3) \<and>
   m_current (importNamespace example_registry ''/A'' True) ''int'' = m_current example_registry ''int''"
proof -
  have "omap_sorted nameSort (m_global example_registry)"
    using example_global_names by (simp add: names_ok_def)
  note this [THEN importNamespace_exact, of "''/A''" True]
  from this[of "''S''"] this[of "''int''"] show ?thesis
    by (simp add: example_global_def getNormalizedNamespace_def NamespaceMark_def)
qed

text \<open>
  C20: \<open>reverseDepends\<close> terminates on every registry and returns exactly the types from
  which the given type can be reached through the references of registered types.
\<close>

theorem reverseDepends_exact:
  "reverseDepends st reg t = Some {u. (u, t) \<in> (dependency st reg)\<^sup>*}"
  by (rule reverseDepends_eq)

text \<open>
  C15: Removing a type from a well-formed registry leaves a well-formed registry in which
  neither the type nor any registered type that depends on it can be found under any name,
  no remaining type refers to a removed one, and every other absolute name keeps its
  meaning.
\<close>

theorem remove_no_dangling:
  assumes "registry_ok st reg"
  shows "\<exists>types reg'. remove st reg t = Some (types, reg') \<and> registry_ok st reg' \<and> t \<in> types \<and>
    (\<forall>n u. get reg' n = Some u \<longrightarrow> u \<notin> types \<and> dependsOn (type_at st u) \<inter> types = {}) \<and>
    (\<forall>n u. isAbsoluteName n \<longrightarrow> get reg n = Some u \<longrightarrow> u \<notin> types \<longrightarrow> get reg' n = Some u)"
proof -
  obtain types reg' where rem: "remove st reg t = Some (types, reg')"
    and types: "types = {u. (u, t) \<in> (dependency st reg)\<^sup>*}"
    by (simp add: remove_eq Let_def)
  note lk = remove_lookup[OF assms rem]
  have "u \<notin> types \<and> dependsOn (type_at st u) \<inter> types = {}" if u: "get reg' n = Some u" for n u
  proof -
    have reg_u: "get reg n = Some u" and out: "u \<notin> types"
      using u lk(2)[of n] by (auto split: option.splits if_splits)
    obtain rt where rt: "(ty_name (type_at st u), rt) \<in> set (m_global reg)" "reg_type rt = u"
      using registry_ok_get[OF assms reg_u] global_type_SomeD by blast
    have "v \<notin> types" if "v \<in> dependsOn (type_at st u)" for v
    proof
      assume "v \<in> types"
      have "(u, v) \<in> dependency st reg"
        using rt that by (auto simp: dependency_def isAlias_def intro!: bexI[of _ "(ty_name (type_at st u), rt)"])
      then show False using \<open>v \<in> types\<close> out types by (auto intro: converse_rtrancl_into_rtrancl)
    qed
    then show ?thesis using out by blast
  qed
  then show ?thesis using rem remove_ok[OF assms rem] lk(2) types by auto
qed

theorem remove_no_dangling_witness:
  "\<exists>types reg'. remove example_store example_registry 0 = Some (types, reg') \<and> 0 \<in> types \<and>
     get reg' ''/A/S'' = None \<and> get reg' ''/A/T'' = Some 1"
proof -
  let ?D = "dependency example_store example_registry"
  have d: "(3, 2) \<in> ?D" "(2, 0) \<in> ?D"
    by (simp_all add: dependency_def example_global_def isAlias_def example_store_def example_entry_def
        type_at_def Numeric_ctor_def Type_ctor_def dependsOn_def)
  obtain types reg' where r: "remove example_store example_registry 0 = Some (types, reg')" "0 \<in> types"
      "\<forall>n u. get reg' n = Some u \<longrightarrow> u \<notin> types \<and> dependsOn (type_at example_store u) \<inter> types = {}"
      "\<forall>n u. isAbsoluteName n \<longrightarrow> get example_registry n = Some u \<longrightarrow> u \<notin> types \<longrightarrow> get reg' n = Some u"
    using remove_no_dangling[OF example_registry_ok, of 0] by blast
  have types: "types = {u. (u, 0) \<in> ?D\<^sup>*}" using r(1) by (simp add: remove_eq Let_def)
  have get: "get example_registry n = global_type example_registry n" if "isAbsoluteName n" for n
    using registry_ok_absolute[OF example_registry_ok that] .
  have "3 \<in> types" unfolding types using d by (auto intro: converse_rtrancl_into_rtrancl)
  then have "get reg' ''/A/S'' = None"
    using remove_lookup(2)[OF example_registry_ok r(1)] get[of "''/A/S''"]
    by (simp add: isAbsoluteName_def NamespaceMark_def global_type_def example_global_def example_entry_def)
  moreover have "1 \<notin> types"
  proof
    assume "1 \<in> types"
    then obtain v where "(1, v) \<in> ?D" unfolding types by (auto elim: converse_rtranclE)
    then show False
      by (auto simp: dependency_def example_global_def example_store_def example_entry_def
          type_at_def Numeric_ctor_def Type_ctor_def dependsOn_def)
  qed
  moreover have "get example_registry ''/A/T'' = Some 1"
    using get[of "''/A/T''"]
    by (simp add: isAbsoluteName_def NamespaceMark_def global_type_def example_global_def example_entry_def)
  ultimately show ?thesis using r by (auto simp: isAbsoluteName_def NamespaceMark_def)
qed

text \<open>
  C23: \<open>alias\<close> terminates: on a well-formed registry whose indirect types are built on
  earlier types, the mutual recursion with \<open>modifiedDependencyAliases\<close> returns a registry
  or one of the exceptions of the code, and the resulting registry is well formed and keeps
  all previous entries.
\<close>

theorem alias_terminates:
  assumes "indirect_acyclic st" and "registry_ok st reg" and "canonical_name newname"
  shows "case registry_alias tok st reg base newname src of
     Inl e \<Rightarrow> e \<noteq> OutOfFuel
   | Inr reg' \<Rightarrow> registry_ok st reg' \<and> global_type reg \<subseteq>\<^sub>m global_type reg'"
proof (cases "get reg base")
  case (Some b)
  then show ?thesis
    using alias_persistent_ok(1)[OF assms, of tok base "isPersistent st newname b" src]
    by (auto simp: registry_alias_def result_ok_def registry_extends_def split: sum.splits)
qed (simp add: registry_alias_def)

theorem alias_terminates_witness:
  "case registry_alias example_tok example_store example_registry ''/int'' ''/Integer'' [] of
     Inl e \<Rightarrow> e \<noteq> OutOfFuel
   | Inr reg' \<Rightarrow> registry_ok example_store reg' \<and> global_type example_registry \<subseteq>\<^sub>m global_type reg'"
  by (rule alias_terminates[OF example_store_acyclic example_registry_ok])
    (simp add: canonical_name_def isAbsoluteName_def NamespaceMark_def)

text \<open>
  C14: From an empty registry, whatever sequence of the following a program performs, with
  canonical names: creating and modifying type objects, \<open>add\<close>, \<open>alias\<close>,
  \<open>setDefaultNamespace\<close>, \<open>importNamespace\<close>, \<open>removeAlias\<close>, \<open>clearAliases\<close>, \<open>remove\<close>,
  \<open>setSourceID\<close> and \<open>clear\<close>, also where \<open>add\<close> or \<open>alias\<close> throws halfway, the registry is
  well formed: its names are ordered and unique, a lookup of an absolute name agrees with
  the registered entry, every name means a registered object, and every registered object
  is found under its own name.
\<close>

theorem registry_invariant:
  assumes "reachable empty_state (registry_step tok) (st, reg)"
  shows "registry_ok st reg \<and> indirect_acyclic st"
  using registry_component.invariant_reachable[OF assms] by (simp add: state_ok_def)

definition start_registry :: Registry where
  "start_registry = \<lparr>m_global = [], m_current = Map.empty, m_namespace = ''/''\<rparr>"

definition start_store :: store where
  "start_store = \<lparr>objects = Map.empty, next_id = 0\<rparr>"

definition int_store :: store where
  "int_store = snd (new_type start_store (Numeric_ctor ''/int'' 4 SInt))"

theorem registry_invariant_witness:
  "registry_ok int_store (fst (add_outcome example_tok int_store start_registry 0 [])) \<and>
   get (fst (add_outcome example_tok int_store start_registry 0 [])) ''/int'' = Some 0"
proof -
  have "reachable empty_state (registry_step example_tok) (start_store, start_registry)"
    by (rule reachable_init) (simp add: empty_state_def start_store_def start_registry_def)
  then have int: "reachable empty_state (registry_step example_tok) (int_store, start_registry)"
    by (rule reachable_step)
      (rule registry_step.create[of "Numeric_ctor ''/int'' 4 SInt" _ 0],
        simp_all add: int_store_def new_type_def start_store_def Numeric_ctor_def Type_ctor_def)
  have "registry_step example_tok (int_store, start_registry)
      (int_store, fst (add_outcome example_tok int_store start_registry 0 []))"
    by (rule registry_step.add[where t = 0 and src = "[]" and threw = "snd (add_outcome example_tok int_store start_registry 0 [])"])
      (simp_all add: int_store_def new_type_def start_store_def Numeric_ctor_def Type_ctor_def type_at_def
        canonical_name_def isAbsoluteName_def NamespaceMark_def)
  from reachable_step[OF int this] have "registry_ok int_store (fst (add_outcome example_tok int_store start_registry 0 []))"
    using registry_invariant by blast
  moreover have "get (fst (add_outcome example_tok int_store start_registry 0 [])) ''/int'' = Some 0" by code_simp
  ultimately show ?thesis by simp
qed

text \<open>
  An alias that throws stays registered: the name of a template is a valid alias, the name
  of a pointer to it, which \<open>alias\<close> registers next for the existing pointer, is not valid.
\<close>

definition pointer_only_store :: store where
  "pointer_only_store = \<lparr>objects = [0 \<mapsto> Numeric_ctor ''/int'' 4 SInt, 1 \<mapsto> Type_ctor ''/int*'' 8 (Pointer 0)], next_id = 2\<rparr>"

definition pointer_only_registry :: Registry where
  "pointer_only_registry = updateCurrentNameMap example_tok
     \<lparr>m_global = [(''/int'', example_entry 0), (''/int*'', example_entry 1)], m_current = Map.empty, m_namespace = ''/''\<rparr>"

theorem alias_throws_registered:
  "case registry_alias_outcome example_tok pointer_only_store pointer_only_registry ''/int'' ''/v</int>'' [] of
     (reg', threw) \<Rightarrow> threw = Some (BadName ''/v</int>*'') \<and> get reg' ''/v</int>'' = Some 0"
  by code_simp

text \<open>A registry with default namespace \<open>/Z/\<close> and the types \<open>/T\<close> and \<open>/Z/T\<close>, in both orders.\<close>

definition shadow_store :: store where
  "shadow_store = \<lparr>objects = [0 \<mapsto> Numeric_ctor ''/T'' 4 SInt, 1 \<mapsto> Numeric_ctor ''/Z/T'' 8 SInt], next_id = 2\<rparr>"

definition shadow_registry :: "tid list \<Rightarrow> Registry result" where
  "shadow_registry ts = fold_result (\<lambda>reg t. add example_tok shadow_store reg t [])
     \<lparr>m_global = [], m_current = Map.empty, m_namespace = ''/Z/''\<rparr> ts"

text \<open>
  What a relative name means depends on the history. \<open>add\<close> decides between two types of
  the same relative name by \<open>nameSort\<close>, so in the default namespace \<open>/Z/\<close> the name \<open>T\<close> means
  \<open>/T\<close> after adding \<open>/T\<close> and \<open>/Z/T\<close>, while recomputing the map makes it \<open>/Z/T\<close>; and after
  removing \<open>/Z/T\<close> from the recomputed registry \<open>T\<close> means nothing, though \<open>/T\<close> is visible.
\<close>

theorem relative_names_history:
  "(case shadow_registry [0, 1] of Inl e \<Rightarrow> False | Inr reg \<Rightarrow>
      get reg ''T'' = Some 0 \<and> get (updateCurrentNameMap example_tok reg) ''T'' = Some 1 \<and>
      (case remove shadow_store (updateCurrentNameMap example_tok reg) 1 of
         None \<Rightarrow> False
       | Some (_, reg') \<Rightarrow> get reg' ''T'' = None \<and>
           get (updateCurrentNameMap example_tok reg') ''T'' = Some 0))"
  by code_simp

text \<open>
  An alias whose name is a template instance cannot be given to a type once a pointer to
  that type is registered: the derived alias for the pointer is not a valid type name, and
  the exception escapes from \<open>alias\<close>. Without the pointer the same alias is accepted.
\<close>

definition pointer_registry :: "tid list \<Rightarrow> Registry result" where
  "pointer_registry ts = fold_result (\<lambda>reg t. add example_tok example_store reg t []) start_registry ts"

theorem alias_template_with_pointer:
  "bind_result (pointer_registry [0, 2])
     (\<lambda>reg. registry_alias example_tok example_store reg ''/int'' ''/num</A>'' []) = Inl (BadName ''/num</A>*'') \<and>
   \<not> isl (bind_result (pointer_registry [0])
     (\<lambda>reg. registry_alias example_tok example_store reg ''/int'' ''/num</A>'' []))"
proof
  have "(case bind_result (pointer_registry [0, 2])
      (\<lambda>reg. registry_alias example_tok example_store reg ''/int'' ''/num</A>'' []) of
        Inl e \<Rightarrow> e = BadName ''/num</A>*'' | Inr _ \<Rightarrow> False)" by code_simp
  then show "bind_result (pointer_registry [0, 2])
      (\<lambda>reg. registry_alias example_tok example_store reg ''/int'' ''/num</A>'' []) = Inl (BadName ''/num</A>*'')"
    by (cases "bind_result (pointer_registry [0, 2])
      (\<lambda>reg. registry_alias example_tok example_store reg ''/int'' ''/num</A>'' [])") simp_all
qed code_simp

end
