(* ===== verification/Merge.thy ===== *)
theory Merge
  imports RegistryInvariant
begin

text \<open>
  Merging registries (\<open>Type::merge\<close> and \<open>do_merge\<close> of the classes in \<open>typelib/typemodel.cc\<close>,
  \<open>Registry::merge\<close> and \<open>Registry::minimal\<close>) and resizing types (\<open>Type::resize\<close>,
  \<open>Registry::resize\<close>), with the container factories of \<open>lang/csupport/containers.cc\<close> that
  merging calls. The objects of both registries are in one store. An exception discards
  the state of the model: nothing is said about the registry that a failed merge leaves.
\<close>

section \<open>Container factories\<close>

definition Vector_ctor :: "store \<Rightarrow> tid \<Rightarrow> Type" where
  "Vector_ctor st on =
     Type_ctor (Vector_fullName (ty_name (type_at st on))) 24 (Container ''/std/vector'' VectorFactory on)"

definition String_ctor :: "tid \<Rightarrow> Type" where
  "String_ctor on = Type_ctor ''/std/string'' 32 (Container ''/std/string'' StringFactory on)"

text \<open>A registered type that must be a container; \<open>wrong\<close> is thrown if it is not.\<close>

definition get_container :: "store \<Rightarrow> Registry \<Rightarrow> string \<Rightarrow> error \<Rightarrow> tid result" where
  "get_container st reg name wrong = (case get reg name of
     None \<Rightarrow> Inl UndefinedBehaviour
   | Some t \<Rightarrow> if getCategory (type_at st t) \<noteq> CatContainer then Inl wrong else Inr t)"

definition Vector_factory :: "tokenizer \<Rightarrow> store \<Rightarrow> Registry \<Rightarrow> tid list \<Rightarrow> (tid \<times> store \<times> Registry) result" where
  "Vector_factory tok st reg on =
     (case on of [contained_type] \<Rightarrow>
        let full_name = Vector_fullName (ty_name (type_at st contained_type)) in
        bind_result (has reg full_name True) (\<lambda>known.
          if \<not> known then
            (case new_type st (Vector_ctor st contained_type) of (t, st') \<Rightarrow>
               bind_result (add tok st' reg t []) (\<lambda>reg'. Inr (t, st', reg')))
          else bind_result (get_container st reg full_name BadCategory) (\<lambda>t. Inr (t, st, reg)))
      | _ \<Rightarrow> Inl RuntimeError)"

definition String_factory :: "tokenizer \<Rightarrow> store \<Rightarrow> Registry \<Rightarrow> tid list \<Rightarrow> (tid \<times> store \<times> Registry) result" where
  "String_factory tok st reg on =
     bind_result (has reg ''/std/string'' True) (\<lambda>known.
       if known then bind_result (get_container st reg ''/std/string'' BadCast) (\<lambda>t. Inr (t, st, reg))
       else if length on \<noteq> 1 then Inl RuntimeError
       else bind_result (has reg ''/int8_t'' True) (\<lambda>known_int.
         bind_result
           (if \<not> known_int then
              (case new_type st (Numeric_ctor ''/int8_t'' 1 SInt) of (e, st') \<Rightarrow>
                 bind_result (add tok st' reg e []) (\<lambda>reg'. Inr (e, st', reg')))
            else case get reg ''/int8_t'' of None \<Rightarrow> Inl UndefinedBehaviour | Some e \<Rightarrow> Inr (e, st, reg))
           (\<lambda>(element_type, st1, reg1).
              case new_type st1 (String_ctor element_type) of (t, st2) \<Rightarrow>
                bind_result (add tok st2 reg1 t []) (\<lambda>reg2. Inr (t, st2, reg2)))))"

definition call_factory :: "factory \<Rightarrow> tokenizer \<Rightarrow> store \<Rightarrow> Registry \<Rightarrow> tid list \<Rightarrow> (tid \<times> store \<times> Registry) result" where
  "call_factory fac = (case fac of VectorFactory \<Rightarrow> Vector_factory | StringFactory \<Rightarrow> String_factory)"

text \<open>
  \<open>Container::createContainer\<close> looks the factory up in the table that \<open>registerContainer\<close>
  fills.
\<close>

type_synonym AvailableContainers = "string \<rightharpoonup> factory"

definition registerContainer :: "AvailableContainers \<Rightarrow> string \<Rightarrow> factory \<Rightarrow> AvailableContainers" where
  "registerContainer available name fac = available(name \<mapsto> fac)"

definition createContainer :: "AvailableContainers \<Rightarrow> tokenizer \<Rightarrow> store \<Rightarrow> Registry \<Rightarrow> string \<Rightarrow> tid list
    \<Rightarrow> (tid \<times> store \<times> Registry) result" where
  "createContainer available tok st reg name on = (case available name of
     None \<Rightarrow> Inl (UnknownContainer name)
   | Some fac \<Rightarrow> call_factory fac tok st reg on)"

section \<open>Merging types\<close>

type_synonym merge_state = "store \<times> Registry \<times> RecursionStack"

type_synonym merge_fun = "tid \<Rightarrow> merge_state \<Rightarrow> (tid \<times> merge_state) result"

text \<open>\<open>stack.insert\<close> keeps an existing entry.\<close>

definition stack_insert :: "RecursionStack \<Rightarrow> tid \<Rightarrow> tid \<Rightarrow> RecursionStack" where
  "stack_insert stack t u = (case stack t of None \<Rightarrow> stack(t \<mapsto> u) | Some _ \<Rightarrow> stack)"

definition try_merge :: "tid \<Rightarrow> merge_state \<Rightarrow> (tid option \<times> merge_state) result" where
  "try_merge t s = (case s of (st, reg, stack) \<Rightarrow>
     case stack t of
       Some u \<Rightarrow> Inr (Some u, s)
     | None \<Rightarrow> (case get reg (ty_name (type_at st t)) of
         None \<Rightarrow> Inr (None, s)
       | Some old_type \<Rightarrow> (case do_compare (compare_fuel st) st old_type t True stack of
           None \<Rightarrow> Inl OutOfFuel
         | Some (True, stack') \<Rightarrow> Inr (Some old_type, st, reg, stack_insert stack' t old_type)
         | Some (False, _) \<Rightarrow> Inl (DefinitionMismatch (ty_name (type_at st t))))))"

text \<open>\<open>do_merge\<close> of each class, over the \<open>merge\<close> it recurses with.\<close>

definition copy_object :: "tid \<Rightarrow> merge_state \<Rightarrow> (tid \<times> merge_state) result" where
  "copy_object t s = (case s of (st, reg, stack) \<Rightarrow>
     case new_type st (type_at st t) of (i, st') \<Rightarrow> Inr (i, st', reg, stack))"

definition merge_field :: "merge_fun \<Rightarrow> tid \<Rightarrow> merge_state \<Rightarrow> Field \<Rightarrow> merge_state result" where
  "merge_field merge i s f =
     bind_result (merge (fld_type f) s) (\<lambda>(u, st, reg, stack).
       Inr (update_type st i (\<lambda>c. addField st c (fld_name f) u (fld_offset f)), reg, stack))"

definition Compound_do_merge :: "merge_fun \<Rightarrow> tid \<Rightarrow> Field list \<Rightarrow> merge_state \<Rightarrow> (tid \<times> merge_state) result" where
  "Compound_do_merge merge t flds s = (case s of (st, reg, stack) \<Rightarrow>
     case new_type st (Compound_ctor (ty_name (type_at st t))) of (i, st1) \<Rightarrow>
       bind_result (fold_result (merge_field merge i) (st1, reg, stack_insert stack t i) flds)
         (\<lambda>(st2, reg2, stack2). Inr (i, setSize st2 i (ty_size (type_at st t)), reg2, stack2)))"

definition Array_do_merge :: "merge_fun \<Rightarrow> nat \<Rightarrow> tid \<Rightarrow> merge_state \<Rightarrow> (tid \<times> merge_state) result" where
  "Array_do_merge merge dim on s =
     bind_result (merge on s) (\<lambda>(u, st, reg, stack).
       case new_type st (Array_ctor st u dim) of (i, st') \<Rightarrow> Inr (i, st', reg, stack))"

definition Pointer_do_merge :: "merge_fun \<Rightarrow> tid \<Rightarrow> merge_state \<Rightarrow> (tid \<times> merge_state) result" where
  "Pointer_do_merge merge on s =
     bind_result (merge on s) (\<lambda>(u, st, reg, stack).
       case new_type st (Pointer_ctor st u) of (i, st') \<Rightarrow> Inr (i, st', reg, stack))"

definition Container_do_merge :: "merge_fun \<Rightarrow> tokenizer \<Rightarrow> tid \<Rightarrow> factory \<Rightarrow> tid \<Rightarrow> merge_state
    \<Rightarrow> (tid \<times> merge_state) result" where
  "Container_do_merge merge tok t fac on s =
     bind_result (merge on s) (\<lambda>(u, st, reg, stack).
     bind_result (call_factory fac tok st reg [u]) (\<lambda>(i, st', reg').
       Inr (i, setSize st' i (ty_size (type_at st t)), reg', stack)))"

definition do_merge :: "merge_fun \<Rightarrow> tokenizer \<Rightarrow> merge_fun" where
  "do_merge merge tok t s =
     (case ty_kind (type_at (fst s) t) of
        Compound flds \<Rightarrow> Compound_do_merge merge t flds s
      | Array dim on \<Rightarrow> Array_do_merge merge dim on s
      | Pointer on \<Rightarrow> Pointer_do_merge merge on s
      | Container _ fac on \<Rightarrow> Container_do_merge merge tok t fac on s
      | _ \<Rightarrow> copy_object t s)"

definition Type_merge :: "merge_fun \<Rightarrow> tokenizer \<Rightarrow> merge_fun" where
  "Type_merge merge tok t s =
     bind_result (try_merge t s) (\<lambda>(old_type, s1). case old_type of
       Some u \<Rightarrow> Inr (u, s1)
     | None \<Rightarrow> bind_result (do_merge merge tok t s1) (\<lambda>(i, st, reg, stack).
         bind_result (add tok st reg i []) (\<lambda>reg'. Inr (i, st, reg', stack_insert stack t i))))"

definition Indirect_merge :: "merge_fun \<Rightarrow> tokenizer \<Rightarrow> tid \<Rightarrow> merge_fun" where
  "Indirect_merge merge tok on t s =
     bind_result (try_merge t s) (\<lambda>(old_type, s1). case old_type of
       Some u \<Rightarrow> Inr (u, s1)
     | None \<Rightarrow> bind_result (merge on s1) (\<lambda>(_, s2). Type_merge merge tok t s2))"

text \<open>
  The virtual call. The first argument is fuel: compounds being merged are on the stack and
  indirections are followed to older objects, so the depth is bounded (\<open>merge_terminates\<close>).
\<close>

primrec merge_rec :: "nat \<Rightarrow> tokenizer \<Rightarrow> merge_fun" where
  "merge_rec 0 tok = (\<lambda>t s. Inl OutOfFuel)"
| "merge_rec (Suc fuel) tok = (\<lambda>t s.
     case indirection (ty_kind (type_at (fst s) t)) of
       None \<Rightarrow> Type_merge (merge_rec fuel tok) tok t s
     | Some on \<Rightarrow> Indirect_merge (merge_rec fuel tok) tok on t s)"

definition merge_fuel :: "store \<Rightarrow> nat" where
  "merge_fuel st = Suc (Suc (next_id st) * Suc (next_id st))"

text \<open>\<open>Type::merge(Registry&)\<close>.\<close>

definition Type_merge_into :: "tokenizer \<Rightarrow> store \<Rightarrow> Registry \<Rightarrow> tid \<Rightarrow> (store \<times> Registry) result" where
  "Type_merge_into tok st reg t =
     bind_result (merge_rec (merge_fuel st) tok t (st, reg, Map.empty)) (\<lambda>(_, st', reg', _). Inr (st', reg'))"

section \<open>Merging registries\<close>

text \<open>
  The types of the other registry under their own names, then its aliases, then the source
  identifiers and the metadata.
\<close>

definition merge_types :: "nat \<Rightarrow> tokenizer \<Rightarrow> merge_state \<Rightarrow> (string \<times> RegistryType) list \<Rightarrow> merge_state result" where
  "merge_types fuel tok s entries =
     fold_result (\<lambda>s' e. if isAlias (fst s') e then Inr s'
       else bind_result (merge_rec fuel tok (reg_type (snd e)) s') (\<lambda>(_, s''). Inr s'')) s entries"

definition merge_alias :: "tokenizer \<Rightarrow> store \<Rightarrow> Registry \<Rightarrow> string \<times> RegistryType \<Rightarrow> Registry result" where
  "merge_alias tok st reg e =
     (case get reg (fst e) of
        Some old_type \<Rightarrow> (case isSame st old_type (reg_type (snd e)) of
            None \<Rightarrow> Inl OutOfFuel
          | Some False \<Rightarrow> Inl (DefinitionMismatch (fst e))
          | Some True \<Rightarrow> Inr reg)
      | None \<Rightarrow> alias_persistent tok st reg (ty_name (type_at st (reg_type (snd e)))) (fst e)
          (reg_persistent (snd e)) (reg_source_id (snd e)))"

definition copy_annotations :: "store \<Rightarrow> Registry \<Rightarrow> Registry \<Rightarrow> store \<times> Registry" where
  "copy_annotations st reg other = (case copySourceIDs st reg other of
     (st', reg') \<Rightarrow> (registry_mergeMetaData st' reg' other, reg'))"

definition registry_merge :: "tokenizer \<Rightarrow> store \<Rightarrow> Registry \<Rightarrow> Registry \<Rightarrow> (store \<times> Registry) result" where
  "registry_merge tok st reg other =
     bind_result (merge_types (merge_fuel st) tok (st, reg, Map.empty) (m_global other)) (\<lambda>(st1, reg1, _).
     bind_result (fold_result (\<lambda>r e. if \<not> isAlias st1 e then Inr r else merge_alias tok st1 r e) reg1 (m_global other))
       (\<lambda>reg2. Inr (copy_annotations st1 reg2 other)))"

text \<open>\<open>result\<close> is the registry that \<open>new Registry\<close> returns, with the types of the plugins.\<close>

definition minimal_name :: "tokenizer \<Rightarrow> store \<Rightarrow> Registry \<Rightarrow> Registry \<Rightarrow> string \<Rightarrow> bool \<Rightarrow> (store \<times> Registry) result" where
  "minimal_name tok st reg result name with_aliases =
     (case get reg name of
        None \<Rightarrow> Inl RuntimeError
      | Some t \<Rightarrow>
          bind_result (Type_merge_into tok st result t) (\<lambda>(st1, reg1).
          bind_result
            (if with_aliases then fold_result (\<lambda>r e.
               if \<not> isAlias st1 e then Inr r
               else bind_result (has r (ty_name (type_at st1 (reg_type (snd e)))) False) (\<lambda>known.
                 if known then registry_alias tok st1 r (ty_name (type_at st1 (reg_type (snd e)))) (fst e) []
                 else Inr r)) reg1 (m_global reg)
             else Inr reg1)
            (\<lambda>reg2. Inr (copy_annotations st1 reg2 reg))))"

definition minimal :: "tokenizer \<Rightarrow> store \<Rightarrow> Registry \<Rightarrow> Registry \<Rightarrow> Registry \<Rightarrow> bool \<Rightarrow> (store \<times> Registry) result" where
  "minimal tok st reg result auto_types keep_auto_aliases =
     bind_result (fold_result (\<lambda>(st', r) e.
         if isAlias st' e then Inr (st', r)
         else bind_result (has auto_types (ty_name (type_at st' (reg_type (snd e)))) True) (\<lambda>auto_type.
           if auto_type then Inr (st', r) else Type_merge_into tok st' r (reg_type (snd e))))
       (st, result) (m_global reg)) (\<lambda>(st1, reg1).
     bind_result (fold_result (\<lambda>r e.
         if \<not> isAlias st1 e then Inr r
         else bind_result (if keep_auto_aliases then Inr False else has auto_types (fst e) True) (\<lambda>auto_alias.
           if auto_alias then Inr r
           else bind_result (has r (ty_name (type_at st1 (reg_type (snd e)))) False) (\<lambda>known.
             if \<not> known then Inr r else merge_alias tok st1 r e))) reg1 (m_global reg))
       (\<lambda>reg2. Inr (copy_annotations st1 reg2 reg)))"

section \<open>Resizing\<close>

text \<open>The old and the new size of the types that were resized, by name.\<close>

type_synonym SizeMap = "string \<rightharpoonup> nat \<times> nat"

type_synonym resize_state = "store \<times> SizeMap"

type_synonym resize_fun = "tid \<Rightarrow> resize_state \<Rightarrow> (bool \<times> resize_state) result"

definition size_insert :: "SizeMap \<Rightarrow> string \<Rightarrow> nat \<times> nat \<Rightarrow> SizeMap" where
  "size_insert sizes name entry = (case sizes name of None \<Rightarrow> sizes(name \<mapsto> entry) | Some _ \<Rightarrow> sizes)"

definition Type_do_resize :: "tid \<Rightarrow> resize_state \<Rightarrow> bool \<times> resize_state" where
  "Type_do_resize t s = (case s of (st, sizes) \<Rightarrow>
     case sizes (ty_name (type_at st t)) of
       Some (_, new_size) \<Rightarrow>
         if ty_size (type_at st t) \<noteq> new_size then (True, setSize st t new_size, sizes) else (False, s)
     | None \<Rightarrow> (False, s))"

definition Indirect_do_resize :: "resize_fun \<Rightarrow> Registry \<Rightarrow> tid \<Rightarrow> resize_fun" where
  "Indirect_do_resize resize reg on t s =
     (case Type_do_resize t s of (resized, s1) \<Rightarrow>
        bind_result (get_ref (fst s1) reg on) (\<lambda>on'.
        bind_result (resize on' s1) (\<lambda>(b, s2). Inr (b \<or> resized, s2))))"

definition Array_do_resize :: "resize_fun \<Rightarrow> Registry \<Rightarrow> nat \<Rightarrow> tid \<Rightarrow> resize_fun" where
  "Array_do_resize resize reg dim on t s =
     bind_result (Indirect_do_resize resize reg on t s) (\<lambda>(b, st, sizes).
       if \<not> b then Inr (False, st, sizes)
       else Inr (True, setSize st t (dim * ty_size (type_at st on) mod size_t_modulus), sizes))"

definition setOffset :: "store \<Rightarrow> tid \<Rightarrow> nat \<Rightarrow> nat \<Rightarrow> store" where
  "setOffset st t i offset = update_type st t (\<lambda>c. case ty_kind c of
     Compound flds \<Rightarrow> c\<lparr>ty_kind := Compound (flds[i := (flds ! i)\<lparr>fld_offset := offset\<rparr>])\<rparr> | _ \<Rightarrow> c)"

text \<open>Step \<open>i\<close> of the loop over the fields; the first component is \<open>global_offset\<close>.\<close>

definition resize_field :: "resize_fun \<Rightarrow> Registry \<Rightarrow> tid \<Rightarrow> nat \<times> resize_state \<Rightarrow> nat \<Rightarrow> (nat \<times> resize_state) result" where
  "resize_field resize reg t s i = (case s of (global_offset, st, sizes) \<Rightarrow>
     case ty_kind (type_at st t) of
       Compound flds \<Rightarrow>
         let st1 = setOffset st t i ((fld_offset (flds ! i) + global_offset) mod size_t_modulus) in
         bind_result (get_ref st1 reg (fld_type (flds ! i))) (\<lambda>field_type.
         bind_result (resize field_type (st1, sizes)) (\<lambda>(b, st2, sizes2).
           if \<not> b then Inr (global_offset, st2, sizes2)
           else case sizes2 (ty_name (type_at st2 field_type)) of
             None \<Rightarrow> Inl UndefinedBehaviour
           | Some (old_size, _) \<Rightarrow>
               Inr ((global_offset + sub_size_t (ty_size (type_at st2 field_type)) old_size) mod size_t_modulus,
                 st2, sizes2)))
     | _ \<Rightarrow> Inl UndefinedBehaviour)"

definition Compound_do_resize :: "resize_fun \<Rightarrow> Registry \<Rightarrow> Field list \<Rightarrow> resize_fun" where
  "Compound_do_resize resize reg flds t s =
     bind_result (fold_result (resize_field resize reg t) (0, s) [0..<length flds]) (\<lambda>(global_offset, st, sizes).
       if global_offset \<noteq> 0
       then Inr (True, setSize st t ((ty_size (type_at st t) + global_offset) mod size_t_modulus), sizes)
       else Inr (False, st, sizes))"

definition do_resize :: "resize_fun \<Rightarrow> Registry \<Rightarrow> resize_fun" where
  "do_resize resize reg t s =
     (case ty_kind (type_at (fst s) t) of
        Compound flds \<Rightarrow> Compound_do_resize resize reg flds t s
      | Array dim on \<Rightarrow> Array_do_resize resize reg dim on t s
      | Pointer on \<Rightarrow> Indirect_do_resize resize reg on t s
      | Container _ _ on \<Rightarrow> Indirect_do_resize resize reg on t s
      | _ \<Rightarrow> Inr (Type_do_resize t s))"

text \<open>\<open>Type::resize\<close>; the first argument is fuel for the recursion, which nothing in the code bounds.\<close>

primrec type_resize :: "nat \<Rightarrow> Registry \<Rightarrow> resize_fun" where
  "type_resize 0 reg = (\<lambda>t s. Inl OutOfFuel)"
| "type_resize (Suc fuel) reg = (\<lambda>t s.
     let name = ty_name (type_at (fst s) t); old_size = ty_size (type_at (fst s) t) in
     if snd s name \<noteq> None then Inr (True, s)
     else bind_result (do_resize (type_resize fuel reg) reg t s) (\<lambda>(b, st, sizes).
       if b then Inr (True, st, size_insert sizes name (old_size, ty_size (type_at st t)))
       else Inr (False, st, sizes)))"

definition resize_named :: "Registry \<Rightarrow> resize_state \<Rightarrow> string \<times> nat \<Rightarrow> resize_state result" where
  "resize_named reg s e = (case s of (st, sizes) \<Rightarrow>
     case get reg (fst e) of
       None \<Rightarrow> Inl UndefinedBehaviour
     | Some t \<Rightarrow> Inr (setSize st t (snd e),
         size_insert sizes (ty_name (type_at st t)) (ty_size (type_at st t), snd e)))"

definition registry_resize :: "nat \<Rightarrow> Registry \<Rightarrow> store \<Rightarrow> (string \<times> nat) list \<Rightarrow> store result" where
  "registry_resize fuel reg st new_sizes =
     bind_result (fold_result (resize_named reg) (st, Map.empty) new_sizes) (\<lambda>s.
     bind_result (fold_result (\<lambda>s' e. if isAlias (fst s') e then Inr s'
         else bind_result (type_resize fuel reg (reg_type (snd e)) s') (\<lambda>(_, s''). Inr s'')) s (m_global reg))
       (\<lambda>(st', _). Inr st'))"

end
