(* ===== verification/TypeBuilder.thy ===== *)
theory TypeBuilder
  imports RegistryInvariant
begin

text \<open>
  Derived types: \<open>typelib/typebuilder.cc\<close> and \<open>Registry::build\<close>. A builder works on a
  registry and a current type; its state is \<open>(st, reg, m_type)\<close>. Proved: parsing inverts
  the printing of modifiers, and building a derived type yields the type with exactly the
  parsed structure, reusing the types the registry has, or fails on an invalid name.
\<close>

section \<open>The builder\<close>

type_synonym builder = "store \<times> Registry \<times> tid"

definition join :: "string \<Rightarrow> string \<Rightarrow> string" where
  "join acc s = (if acc = [] then s else acc @ '' '' @ s)"

definition TypeBuilder_ctor :: "store \<Rightarrow> Registry \<Rightarrow> string list \<Rightarrow> builder result" where
  "TypeBuilder_ctor st reg name =
     (let basename = foldl join [] name in
      case get reg basename of None \<Rightarrow> Inl (Undefined basename) | Some t \<Rightarrow> Inr (st, reg, t))"

text \<open>\<open>new\<close> followed by \<open>Registry::add\<close>, unless the name is known.\<close>

definition get_or_add :: "tokenizer \<Rightarrow> builder \<Rightarrow> Type \<Rightarrow> builder result" where
  "get_or_add tok b obj =
     (case b of (st, reg, m_type) \<Rightarrow>
      case get reg (ty_name obj) of
        Some base_type \<Rightarrow> Inr (st, reg, base_type)
      | None \<Rightarrow>
          (case new_type st obj of (t, st') \<Rightarrow>
             bind_result (add tok st' reg t []) (\<lambda>reg'. Inr (st', reg', t))))"

text \<open>The \<open>int\<close> level counts down to zero; it is not negative in any use of the sources.\<close>

fun addPointer :: "tokenizer \<Rightarrow> builder \<Rightarrow> nat \<Rightarrow> builder result" where
  "addPointer tok b 0 = Inr b"
| "addPointer tok (st, reg, m_type) (Suc level) =
     bind_result (get_or_add tok (st, reg, m_type) (Pointer_ctor st m_type))
       (\<lambda>b. addPointer tok b level)"

text \<open>The \<open>int\<close> dimension is converted to \<open>size_t\<close>.\<close>

definition addArrayMajor :: "tokenizer \<Rightarrow> builder \<Rightarrow> int \<Rightarrow> builder result" where
  "addArrayMajor tok b new_dim =
     (case b of (st, reg, m_type) \<Rightarrow>
      get_or_add tok b (Array_ctor st m_type (nat (new_dim mod 2 ^ 64))))"

text \<open>
  \<open>addArrayMinor\<close> strips the dimensions of the current type, adds the new one and puts the
  others back, innermost first. The dimensions are stored as \<open>int\<close>. The fuel bounds the
  nesting of arrays.
\<close>

fun strip_arrays :: "nat \<Rightarrow> store \<Rightarrow> tid \<Rightarrow> int list \<Rightarrow> (tid \<times> int list) result" where
  "strip_arrays 0 st t dims = Inl OutOfFuel"
| "strip_arrays (Suc fuel) st t dims =
     (case ty_kind (type_at st t) of
        Array dim on \<Rightarrow> strip_arrays fuel st on (to_int32 dim # dims)
      | _ \<Rightarrow> Inr (t, dims))"

definition addArrayMinor :: "tokenizer \<Rightarrow> builder \<Rightarrow> int \<Rightarrow> builder result" where
  "addArrayMinor tok b new_dim =
     (case b of (st, reg, m_type) \<Rightarrow>
      bind_result (strip_arrays (Suc (next_id st)) st m_type []) (\<lambda>(t, dims).
        bind_result (addArrayMajor tok (st, reg, t) new_dim) (\<lambda>b'.
          fold_result (addArrayMajor tok) b' dims)))"

definition apply_modifier :: "tokenizer \<Rightarrow> builder \<Rightarrow> Modifier \<Rightarrow> builder result" where
  "apply_modifier tok b m =
     (if mod_category m = CatPointer then addPointer tok b (nat (mod_size m))
      else if mod_category m = CatArray then addArrayMajor tok b (mod_size m)
      else Inr b)"

definition build_spec :: "tokenizer \<Rightarrow> store \<Rightarrow> Registry \<Rightarrow> tid \<times> Modifier list \<Rightarrow> nat \<Rightarrow> builder result" where
  "build_spec tok st reg spec sz =
     bind_result (fold_result (apply_modifier tok) (st, reg, fst spec) (snd spec))
       (\<lambda>(st', reg', t). Inr (if sz \<noteq> 0 then setSize st' t sz else st', reg', t))"

definition parse :: "Registry \<Rightarrow> string \<Rightarrow> (tid \<times> Modifier list) result" where
  "parse reg full_name =
     bind_result (parseTypename full_name) (\<lambda>(name, mods).
       case get reg name of None \<Rightarrow> Inl (Undefined name) | Some t \<Rightarrow> Inr (t, mods))"

definition TypeBuilder_build :: "tokenizer \<Rightarrow> store \<Rightarrow> Registry \<Rightarrow> string \<Rightarrow> nat \<Rightarrow>
    (store \<times> Registry \<times> tid option) result" where
  "TypeBuilder_build tok st reg full_name sz =
     bind_result (maybeParse reg full_name) (\<lambda>(base, mods).
       case base of
         None \<Rightarrow> Inr (st, reg, None)
       | Some t \<Rightarrow> bind_result (build_spec tok st reg (t, mods) sz)
           (\<lambda>(st', reg', t'). Inr (st', reg', Some t')))"

definition build :: "tokenizer \<Rightarrow> store \<Rightarrow> Registry \<Rightarrow> string \<Rightarrow> nat \<Rightarrow>
    (store \<times> Registry \<times> tid option) result" where
  "build tok st reg name sz =
     (case get reg name of
        Some t \<Rightarrow> Inr (st, reg, Some t)
      | None \<Rightarrow> TypeBuilder_build tok st reg (getFullName reg name) sz)"

section \<open>Parsing inverts printing\<close>

definition pointer_modifier :: Modifier where
  "pointer_modifier = \<lparr>mod_category = CatPointer, mod_size = 1\<rparr>"

definition array_modifier :: "nat \<Rightarrow> Modifier" where
  "array_modifier dim = \<lparr>mod_category = CatArray, mod_size = int dim\<rparr>"

definition print_modifier :: "Modifier \<Rightarrow> string" where
  "print_modifier m =
     (if mod_category m = CatPointer then ''*'' else ''['' @ show_nat (nat (mod_size m)) @ '']'')"

definition proper_modifier :: "Modifier \<Rightarrow> bool" where
  "proper_modifier m \<longleftrightarrow> m = pointer_modifier \<or> (\<exists>dim < 2 ^ 31. m = array_modifier dim)"

text \<open>A name that does not itself end with a modifier or a space.\<close>

definition base_name :: "string \<Rightarrow> bool" where
  "base_name name \<longleftrightarrow> 2 \<le> length name \<and> last name \<notin> set ''*] ''"

lemma find_last_of_eq:
  assumes "i \<le> e" and "char_at s i = c" and "\<And>j. i < j \<Longrightarrow> j \<le> e \<Longrightarrow> char_at s j \<noteq> c"
  shows "find_last_of s c e = Some i"
proof -
  have "[0..<Suc e] = [0..<i] @ i # [Suc i..<Suc e]"
    using assms(1) upt_add_eq_append[of 0 i "Suc e - i"] by (simp add: upt_conv_Cons del: upt_Suc)
  moreover have "filter (\<lambda>j. char_at s j = c) [Suc i..<Suc e] = []"
    using assms(3)[OF Suc_le_lessD] by (fastforce simp: filter_empty_conv)
  ultimately have "filter (\<lambda>j. char_at s j = c) [0..<Suc e] = filter (\<lambda>j. char_at s j = c) [0..<i] @ [i]"
    using assms(2) by (simp del: upt_Suc)
  then show ?thesis unfolding find_last_of_def by (cases "filter (\<lambda>j. char_at s j = c) [0..<i]") simp_all
qed

lemma char_at_append:
  "char_at (a @ b) i = (if i < length a then char_at a i else char_at b (i - length a))"
  by (auto simp: char_at_def nth_append)

lemma parse_array_step:
  assumes "0 < length a"
  shows "parseTypename_loop (a @ (''['' @ show_nat dim @ '']'') @ r) (length a + length (show_nat dim) + 1) ms =
    parseTypename_loop (a @ (''['' @ show_nat dim @ '']'') @ r) (length a - 1) (array_modifier dim # ms)"
proof -
  let ?d = "show_nat dim" and ?s = "a @ (''['' @ show_nat dim @ '']'') @ r"
  let ?e = "length a + length ?d + 1"
  have digit: "char_at ?s j \<noteq> CHR ''[''" if "length a < j" "j \<le> ?e" for j
  proof (cases "j = ?e")
    case True
    then show ?thesis by (simp add: char_at_append) (simp add: char_at_def nth_append)
  next
    case False
    then have "char_at ?s j = ?d ! (j - Suc (length a))"
      using that by (auto simp: char_at_def nth_append nth_Cons')
    moreover have "?d ! (j - Suc (length a)) \<in> set ?d" using that False by (intro nth_mem) simp
    ultimately show ?thesis using show_nat_chars[of "CHR ''[''" dim] by (auto simp: is_digit_def)
  qed
  have close: "char_at ?s ?e = CHR '']''" by (simp add: char_at_def nth_append)
  have "find_last_of ?s (CHR ''['') ?e = Some (length a)"
    using digit by (intro find_last_of_eq) (auto simp: char_at_def nth_append)
  moreover have "atoi (drop (length a + 1) ?s) = int dim"
    using atoi_show_nat[of "'']'' @ r" dim] by (simp add: is_digit_def)
  ultimately show ?thesis
    using close by (subst parseTypename_loop.simps) (simp add: array_modifier_def)
qed

lemma parseTypename_loop_modifiers:
  assumes "base_name b" and "list_all proper_modifier ms"
  shows "parseTypename_loop (b @ concat (map print_modifier ms) @ r)
     (length (b @ concat (map print_modifier ms)) - 1) acc = Inr (b, ms @ acc)"
  using assms(2)
proof (induction ms arbitrary: r acc rule: rev_induct)
  case Nil
  have e: "length b - 1 < length b" "0 < length b - 1" using assms(1) by (auto simp: base_name_def)
  then have "char_at (b @ r) (length b - 1) = last b"
    using last_conv_nth[of b] by (cases b) (simp_all add: char_at_def nth_append)
  then show ?case using assms(1) e by (subst parseTypename_loop.simps) (simp add: base_name_def)
next
  case (snoc m ms)
  let ?a = "b @ concat (map print_modifier ms)"
  have a: "0 < length ?a" and b: "b \<noteq> []" using assms(1) by (auto simp: base_name_def)
  show ?case
  proof (cases "m = pointer_modifier")
    case True
    then have eq: "b @ concat (map print_modifier (ms @ [m])) @ r = b @ concat (map print_modifier ms) @ (''*'' @ r)"
      and len: "length (b @ concat (map print_modifier (ms @ [m]))) - 1 = length ?a"
      by (simp_all add: print_modifier_def pointer_modifier_def)
    have "parseTypename_loop (b @ concat (map print_modifier ms) @ (''*'' @ r)) (length ?a) acc =
        parseTypename_loop (b @ concat (map print_modifier ms) @ (''*'' @ r)) (length ?a - 1) (m # acc)"
      using b True by (subst parseTypename_loop.simps) (simp add: char_at_def nth_append pointer_modifier_def)
    then show ?thesis using snoc.IH[of "''*'' @ r" "m # acc"] snoc.prems unfolding eq len by simp
  next
    case False
    then obtain dim where m: "m = array_modifier dim" using snoc.prems by (auto simp: proper_modifier_def)
    let ?p = "''['' @ show_nat dim @ '']''"
    have eq: "b @ concat (map print_modifier (ms @ [m])) @ r = b @ concat (map print_modifier ms) @ (?p @ r)"
      and len: "length (b @ concat (map print_modifier (ms @ [m]))) - 1 = length ?a + length (show_nat dim) + 1"
      by (simp_all add: m print_modifier_def array_modifier_def)
    show ?thesis
      using parse_array_step[OF a, of dim r acc] snoc.IH[of "?p @ r" "m # acc"] snoc.prems
      unfolding eq len by (simp add: m)
  qed
qed

section \<open>Building derived types\<close>

text \<open>
  The registries the builder produces: well formed, without aliases, and such that a name
  with a modifier means the type derived from the one the shorter name means.
\<close>

definition derived_ok :: "store \<Rightarrow> Registry \<Rightarrow> bool" where
  "derived_ok st reg \<longleftrightarrow> (\<forall>n p.
     (global_type reg (getPointerName n) = Some p \<longrightarrow>
        (\<exists>u. global_type reg n = Some u \<and> ty_kind (type_at st p) = Pointer u)) \<and>
     (\<forall>dim. global_type reg (getArrayName n dim) = Some p \<longrightarrow>
        (\<exists>u. global_type reg n = Some u \<and> ty_kind (type_at st p) = Array dim u)))"

definition builder_ok :: "store \<Rightarrow> Registry \<Rightarrow> bool" where
  "builder_ok st reg \<longleftrightarrow> state_ok (st, reg) \<and> derived_ok st reg \<and>
     (\<forall>n t. global_type reg n = Some t \<longrightarrow> ty_name (type_at st t) = n)"

definition derived_object :: "store \<Rightarrow> tid \<Rightarrow> Type \<Rightarrow> bool" where
  "derived_object st t obj \<longleftrightarrow> obj = Pointer_ctor st t \<or> (\<exists>dim. obj = Array_ctor st t dim)"

definition store_extends :: "store \<Rightarrow> store \<Rightarrow> bool" where
  "store_extends st st' \<longleftrightarrow> (\<forall>t \<in> dom (objects st). objects st' t = objects st t)"

lemma store_extends_at: "store_extends st st' \<Longrightarrow> t \<in> dom (objects st) \<Longrightarrow> type_at st' t = type_at st t"
  by (simp add: store_extends_def type_at_def)

lemma store_extends_trans: "store_extends a b \<Longrightarrow> store_extends b c \<Longrightarrow> store_extends a c"
  unfolding store_extends_def by (metis domIff)

lemma split_at_last:
  "a @ c # x = b @ c # y \<Longrightarrow> c \<notin> set x \<Longrightarrow> c \<notin> set y \<Longrightarrow> a = b \<and> x = y"
  by (auto simp: append_eq_append_conv2 append_eq_Cons_conv Cons_eq_append_conv)

lemma show_nat_inj: "show_nat m = show_nat n \<Longrightarrow> m = n"
  by (metis read_show_nat)

lemma getArrayName_inj: "getArrayName a m = getArrayName b n \<longleftrightarrow> a = b \<and> m = n"
  using split_at_last[of a "CHR ''[''" "show_nat m @ '']''" b "show_nat n @ '']''"]
    show_nat_chars[of "CHR ''[''"] show_nat_inj[of m n]
  by (auto simp: getArrayName_def is_digit_def)

lemma derived_names [simp]:
  "getPointerName a \<noteq> getArrayName b n" "getArrayName b n \<noteq> getPointerName a"
  "getPointerName a = getPointerName b \<longleftrightarrow> a = b"
proof -
  have "last (getPointerName a) \<noteq> last (getArrayName b n)"
    by (simp add: getPointerName_def getArrayName_def)
  then show "getPointerName a \<noteq> getArrayName b n" "getArrayName b n \<noteq> getPointerName a" by metis+
qed (simp add: getPointerName_def)

lemma derived_object_cases:
  assumes "derived_object st t obj"
  obtains "ty_name obj = getPointerName (ty_name (type_at st t))" "ty_kind obj = Pointer t"
  | dim where "ty_name obj = getArrayName (ty_name (type_at st t)) dim" "ty_kind obj = Array dim t"
  using assms by (auto simp: derived_object_def Pointer_ctor_def Array_ctor_def Type_ctor_def)

lemma derived_object_canonical:
  assumes "derived_object st t obj" and "canonical_name (ty_name (type_at st t))"
  shows "canonical_name (ty_name obj)"
  using assms(1) by (cases rule: derived_object_cases)
    (auto simp: getPointerName_def getArrayName_def intro!: canonical_append assms(2))

lemma derived_ok_insert:
  assumes ok: "derived_ok st reg" and t: "global_type reg (ty_name (type_at st t)) = Some t"
    and obj: "derived_object st t obj" and new: "global_type reg (ty_name obj) = None"
    and glob: "global_type reg' = (global_type reg)(ty_name obj \<mapsto> i)"
    and at: "type_at st' i = obj" "\<And>n u. global_type reg n = Some u \<Longrightarrow> type_at st' u = type_at st u"
  shows "derived_ok st' reg'"
  unfolding derived_ok_def
proof (intro allI conjI impI)
  fix n p
  have keep: "global_type reg n = Some u \<Longrightarrow> global_type reg' n = Some u" for u
    using glob new by (cases "n = ty_name obj") simp_all
  { assume p: "global_type reg' (getPointerName n) = Some p"
    show "\<exists>u. global_type reg' n = Some u \<and> ty_kind (type_at st' p) = Pointer u"
    proof (cases "getPointerName n = ty_name obj")
      case True
      then have "p = i" using p glob by simp
      then show ?thesis using True t keep at(1) by (auto intro: derived_object_cases[OF obj])
    next
      case False
      then have "global_type reg (getPointerName n) = Some p" using p glob by simp
      then show ?thesis using ok at(2) keep unfolding derived_ok_def by metis
    qed }
  { fix dim assume p: "global_type reg' (getArrayName n dim) = Some p"
    show "\<exists>u. global_type reg' n = Some u \<and> ty_kind (type_at st' p) = Array dim u"
    proof (cases "getArrayName n dim = ty_name obj")
      case True
      then have "p = i" using p glob by simp
      then show ?thesis using True t keep at(1)
        by (auto simp: getArrayName_inj intro: derived_object_cases[OF obj])
    next
      case False
      then have "global_type reg (getArrayName n dim) = Some p" using p glob by simp
      then show ?thesis using ok at(2) keep unfolding derived_ok_def by metis
    qed }
qed

text \<open>
  What one step of the builder establishes; it succeeds exactly for the names that are
  registered already or valid.
\<close>

definition buildable :: "Registry \<Rightarrow> string \<Rightarrow> bool" where
  "buildable reg name \<longleftrightarrow> global_type reg name \<noteq> None \<or> isValidTypename name True"

definition built :: "store \<Rightarrow> Registry \<Rightarrow> Type \<Rightarrow> builder \<Rightarrow> bool" where
  "built st reg obj b = (case b of (st', reg', t') \<Rightarrow>
     buildable reg (ty_name obj) \<and> (\<forall>n. n \<noteq> ty_name obj \<longrightarrow> global_type reg' n = global_type reg n) \<and>
     builder_ok st' reg' \<and> store_extends st st' \<and> global_type reg \<subseteq>\<^sub>m global_type reg' \<and>
     global_type reg' (ty_name obj) = Some t' \<and> ty_kind (type_at st' t') = ty_kind obj)"

lemma get_or_add_ok:
  assumes ok: "builder_ok st reg" and t: "global_type reg (ty_name (type_at st t)) = Some t"
    and obj: "derived_object st t obj"
  shows "result_ok (\<lambda>e. e = BadName (ty_name obj) \<and> \<not> buildable reg (ty_name obj)) (built st reg obj)
    (get_or_add tok (st, reg, t) obj)"
proof -
  have state: "state_ok (st, reg)" and reg: "registry_ok st reg" and derived: "derived_ok st reg"
    and acyclic: "indirect_acyclic st"
    and primary: "\<And>n u. global_type reg n = Some u \<Longrightarrow> ty_name (type_at st u) = n"
    using ok by (simp_all add: builder_ok_def state_ok_def)
  have canonical: "canonical_name (ty_name obj)"
    using derived_object_canonical[OF obj] registry_ok_type[OF reg t] by blast
  then have get: "get reg (ty_name obj) = global_type reg (ty_name obj)"
    using registry_ok_absolute[OF reg] by (simp add: canonical_name_def)
  show ?thesis
  proof (cases "global_type reg (ty_name obj)")
    case (Some p)
    then have "ty_kind (type_at st p) = ty_kind obj"
      using derived t unfolding derived_ok_def by (cases rule: derived_object_cases[OF obj]) fastforce+
    then show ?thesis using Some get ok by (simp add: get_or_add_def built_def store_extends_def buildable_def)
  next
    case None
    obtain i st' where new: "new_type st obj = (i, st')" by fastforce
    then have st': "i = next_id st" "objects st' = (objects st)(i \<mapsto> obj)" by (auto simp: new_type_def)
    have at: "type_at st' i = obj" using st' by (simp add: type_at_def)
    have dom: "u \<noteq> i" if "u \<in> dom (objects st)" for u
      using that acyclic st'(1) by (auto simp: indirect_acyclic_def)
    then have ext: "store_extends st st'" using st' by (auto simp: store_extends_def)
    have old: "type_at st' u = type_at st u" if "global_type reg n = Some u" for n u
      using store_extends_at[OF ext] registry_ok_type[OF reg that] by blast
    have "t < next_id st" using acyclic registry_ok_type[OF reg t] by (auto simp: indirect_acyclic_def)
    then have "set (kind_refs (ty_kind obj)) \<subseteq> {..< next_id st}"
      by (cases rule: derived_object_cases[OF obj]) auto
    from registry_step_ok[OF registry_step.create[OF this new] state]
    have state': "state_ok (st', reg)" .
    then have reg': "registry_ok st' reg" by (simp add: state_ok_def)
    have i: "i \<in> dom (objects st')" using st' by simp
    let ?p = "isPersistent st' (ty_name obj) i"
    have added: "result_ok (\<lambda>e. e \<noteq> OutOfFuel)
        (\<lambda>reg''. registry_extends st' reg reg'' \<and> global_type reg'' (ty_name obj) = Some i)
        (add_name tok st' reg (ty_name obj) i ?p [])"
      by (rule add_name_ok[OF reg' canonical i]) (simp add: at)
    have result: "result_ok (\<lambda>e. e = BadName (ty_name obj) \<and> \<not> buildable reg (ty_name obj)) (built st reg obj)
        (bind_result (add_name tok st' reg (ty_name obj) i ?p []) (\<lambda>reg''. Inr (st', reg'', i)))"
    proof -
      consider e where "add_name tok st' reg (ty_name obj) i ?p [] = Inl e" "e = BadName (ty_name obj)" "\<not> isValidTypename (ty_name obj) True"
        | reg'' where "add_name tok st' reg (ty_name obj) i ?p [] = Inr reg''"
          "m_global reg'' = omap_insert nameSort (ty_name obj)
             \<lparr>reg_type = i, reg_persistent = ?p, reg_source_id = []\<rparr> (m_global reg)" "isValidTypename (ty_name obj) True"
        using add_name_cases[OF reg' canonical, of tok i ?p "[]"] None by auto
      then show ?thesis
      proof cases
        case (2 reg'')
        have glob: "global_type reg'' = (global_type reg)(ty_name obj \<mapsto> i)"
          using global_type_insert[OF reg' None 2(2)] by simp
        have ok'': "registry_ok st' reg''" using added 2(1) by (simp add: registry_extends_def)
        have "derived_ok st' reg''" by (rule derived_ok_insert[OF derived t obj None glob at old])
        moreover have "ty_name (type_at st' u) = n" if "global_type reg'' n = Some u" for n u
          using that glob at old primary by (auto split: if_splits)
        moreover have "global_type reg \<subseteq>\<^sub>m global_type reg''" using glob None by (auto simp: map_le_def)
        ultimately show ?thesis
          using 2(1,3) ok'' state' ext at glob by (simp add: built_def builder_ok_def state_ok_def buildable_def)
      qed (simp add: None buildable_def)
    qed
    have no_alias: "getAliasesOf st' reg'' d = []"
      if "add_name tok st' reg (ty_name obj) i ?p [] = Inr reg''" for reg'' d
    proof -
      have "builder_ok st' reg''" using result that by (simp add: built_def)
      then have "\<not> isAlias st' e" if "e \<in> set (m_global reg'')" for e
        using that global_type_entry[of st' reg'' "fst e" "snd e"]
        by (simp add: builder_ok_def state_ok_def isAlias_def)
      then show ?thesis by (auto simp: getAliasesOf_def filter_empty_conv)
    qed
    have "add tok st' reg i [] = add_name tok st' reg (ty_name obj) i ?p []"
      unfolding Registry.add_def add_persistent_def at
      by (cases "add_name tok st' reg (ty_name obj) i ?p []") (simp_all add: no_alias list_ex_iff)
    then show ?thesis using None get new result by (simp add: get_or_add_def)
  qed
qed

text \<open>\<open>t'\<close> is the type that the modifiers derive from \<open>t\<close>.\<close>

fun is_derived :: "store \<Rightarrow> tid \<Rightarrow> Modifier list \<Rightarrow> tid \<Rightarrow> bool" where
  "is_derived st t [] t' = (t' = t)"
| "is_derived st t (m # ms) t' = (\<exists>u. u \<in> dom (objects st) \<and>
     ty_kind (type_at st u) = (if mod_category m = CatPointer then Pointer t else Array (nat (mod_size m)) t) \<and>
     is_derived st u ms t')"

lemma is_derived_extends:
  "store_extends st st' \<Longrightarrow> is_derived st t ms t' \<Longrightarrow> is_derived st' t ms t'"
proof (induction ms arbitrary: t)
  case (Cons m ms)
  from Cons.prems(2) obtain u where u: "u \<in> dom (objects st)" "is_derived st u ms t'"
    "ty_kind (type_at st u) = (if mod_category m = CatPointer then Pointer t else Array (nat (mod_size m)) t)"
    by auto
  have "u \<in> dom (objects st')" using u(1) Cons.prems(1) by (auto simp: store_extends_def domIff)
  then show ?case
    using u(3) store_extends_at[OF Cons.prems(1) u(1)] Cons.IH[OF Cons.prems(1) u(2)]
    unfolding is_derived.simps by (intro exI[of _ u]) simp
qed simp

lemma is_derived_snoc:
  "is_derived st t ms u \<Longrightarrow> t' \<in> dom (objects st) \<Longrightarrow>
   ty_kind (type_at st t') = (if mod_category m = CatPointer then Pointer u else Array (nat (mod_size m)) u) \<Longrightarrow>
   is_derived st t (ms @ [m]) t'"
  by (induction ms arbitrary: t) auto

definition derived_name :: "store \<Rightarrow> tid \<Rightarrow> Modifier list \<Rightarrow> string" where
  "derived_name st t ms = ty_name (type_at st t) @ concat (map print_modifier ms)"

lemma apply_modifier_ok:
  assumes "builder_ok st reg" and "global_type reg (ty_name (type_at st t)) = Some t"
    and "proper_modifier m"
  shows "\<exists>obj. derived_object st t obj \<and> ty_name obj = derived_name st t [m] \<and>
    ty_kind obj = (if mod_category m = CatPointer then Pointer t else Array (nat (mod_size m)) t) \<and>
    result_ok (\<lambda>e. e = BadName (ty_name obj) \<and> \<not> buildable reg (ty_name obj)) (built st reg obj)
      (apply_modifier tok (st, reg, t) m)"
proof (cases "m = pointer_modifier")
  case True
  have "addPointer tok (st, reg, t) 1 = get_or_add tok (st, reg, t) (Pointer_ctor st t)"
    by (cases "get_or_add tok (st, reg, t) (Pointer_ctor st t)") simp_all
  then have "apply_modifier tok (st, reg, t) m = get_or_add tok (st, reg, t) (Pointer_ctor st t)"
    using True by (simp add: apply_modifier_def pointer_modifier_def)
  moreover have "derived_object st t (Pointer_ctor st t)" by (simp add: derived_object_def)
  ultimately show ?thesis using get_or_add_ok[OF assms(1,2), of "Pointer_ctor st t" tok] True
    by (intro exI[of _ "Pointer_ctor st t"])
      (simp add: pointer_modifier_def derived_name_def print_modifier_def,
        simp add: Pointer_ctor_def Type_ctor_def getPointerName_def)
next
  case False
  then obtain dim where m: "m = array_modifier dim" and dim: "dim < 2 ^ 31"
    using assms(3) by (auto simp: proper_modifier_def)
  have "apply_modifier tok (st, reg, t) m = get_or_add tok (st, reg, t) (Array_ctor st t dim)"
    using dim by (simp add: apply_modifier_def m array_modifier_def addArrayMajor_def)
  moreover have "derived_object st t (Array_ctor st t dim)" by (auto simp: derived_object_def)
  ultimately show ?thesis using get_or_add_ok[OF assms(1,2), of "Array_ctor st t dim" tok]
    by (intro exI[of _ "Array_ctor st t dim"])
      (simp add: m array_modifier_def derived_name_def print_modifier_def,
        simp add: Array_ctor_def Type_ctor_def getArrayName_def)
qed

text \<open>The state of the builder after some of the modifiers.\<close>

definition build_state :: "store \<Rightarrow> Registry \<Rightarrow> tid \<Rightarrow> Modifier list \<Rightarrow> builder \<Rightarrow> bool" where
  "build_state st reg t ms b = (case b of (st', reg', t') \<Rightarrow>
     builder_ok st' reg' \<and> store_extends st st' \<and> global_type reg \<subseteq>\<^sub>m global_type reg' \<and>
     ty_name (type_at st' t') = derived_name st t ms \<and> global_type reg' (derived_name st t ms) = Some t' \<and>
     is_derived st' t ms t' \<and>
     (\<forall>n. length (derived_name st t ms) < length n \<longrightarrow> global_type reg' n = global_type reg n))"

lemma build_state_step:
  assumes "build_state st reg t ms (st', reg', u)" and "proper_modifier m"
  shows "result_ok (\<lambda>e. e = BadName (derived_name st t (ms @ [m])) \<and> \<not> buildable reg (derived_name st t (ms @ [m])))
    (\<lambda>b. build_state st reg t (ms @ [m]) b \<and> buildable reg (derived_name st t (ms @ [m]))) (apply_modifier tok (st', reg', u) m)"
proof -
  have ok: "builder_ok st' reg'" and name: "ty_name (type_at st' u) = derived_name st t ms"
    and u: "global_type reg' (ty_name (type_at st' u)) = Some u"
    and ext: "store_extends st st'" "global_type reg \<subseteq>\<^sub>m global_type reg'" and der: "is_derived st' t ms u"
    and longer: "\<And>n. length (derived_name st t ms) < length n \<Longrightarrow> global_type reg' n = global_type reg n"
    using assms(1) by (simp_all add: build_state_def)
  obtain obj where obj: "ty_name obj = derived_name st' u [m]"
    "ty_kind obj = (if mod_category m = CatPointer then Pointer u else Array (nat (mod_size m)) u)"
    "result_ok (\<lambda>e. e = BadName (ty_name obj) \<and> \<not> buildable reg' (ty_name obj)) (built st' reg' obj)
      (apply_modifier tok (st', reg', u) m)"
    using apply_modifier_ok[OF ok u assms(2)] by blast
  have full: "ty_name obj = derived_name st t (ms @ [m])"
    using obj(1) name by (simp add: derived_name_def)
  have shorter: "length (derived_name st t ms) < length (derived_name st t (ms @ [m]))"
    by (simp add: derived_name_def print_modifier_def)
  then have same: "buildable reg' (ty_name obj) \<longleftrightarrow> buildable reg (ty_name obj)"
    by (simp add: buildable_def full longer)
  have "build_state st reg t (ms @ [m]) b" if "built st' reg' obj b" for b
  proof -
    obtain st'' reg'' t'' where b: "b = (st'', reg'', t'')" by (cases b) auto
    have h: "builder_ok st'' reg''" "store_extends st' st''" "global_type reg' \<subseteq>\<^sub>m global_type reg''"
      "global_type reg'' (ty_name obj) = Some t''" "ty_kind (type_at st'' t'') = ty_kind obj"
      and other: "\<And>n. n \<noteq> ty_name obj \<Longrightarrow> global_type reg'' n = global_type reg' n"
      using that by (simp_all add: b built_def)
    have keep: "global_type reg'' n = global_type reg n" if "length (derived_name st t (ms @ [m])) < length n" for n
      using that shorter other[of n] longer[of n] full by fastforce
    have "t'' \<in> dom (objects st'')" "ty_name (type_at st'' t'') = ty_name obj"
      using h(1,4) registry_ok_type[of st'' reg''] by (auto simp: builder_ok_def state_ok_def)
    then show ?thesis
      using h ext obj(2) full is_derived_snoc[OF is_derived_extends[OF h(2) der]] store_extends_trans map_le_trans
      by (simp add: b build_state_def keep) blast
  qed
  moreover have "buildable reg' (ty_name obj)" if "built st' reg' obj b" for b
    using that by (cases b) (simp add: built_def)
  ultimately show ?thesis using obj(3) same full by (cases "apply_modifier tok (st', reg', u) m") auto
qed

text \<open>The names of the types that are built for a list of modifiers, the full name last.\<close>

fun intermediate_names :: "string \<Rightarrow> Modifier list \<Rightarrow> string list" where
  "intermediate_names b [] = []"
| "intermediate_names b (m # ms) = (b @ print_modifier m) # intermediate_names (b @ print_modifier m) ms"

lemma intermediate_prefix: "n \<in> set (intermediate_names b ms) \<Longrightarrow> \<exists>r. n = b @ r"
proof (induction ms arbitrary: b)
  case (Cons m ms)
  then show ?case using Cons.IH[of "b @ print_modifier m"] by auto
qed simp

lemma build_modifiers:
  assumes "build_state st reg t ms b" and "list_all proper_modifier ms'"
  shows "case find (\<lambda>n. \<not> buildable reg n) (intermediate_names (derived_name st t ms) ms') of
      Some n \<Rightarrow> fold_result (apply_modifier tok) b ms' = Inl (BadName n)
    | None \<Rightarrow> \<exists>b'. fold_result (apply_modifier tok) b ms' = Inr b' \<and> build_state st reg t (ms @ ms') b'"
  using assms
proof (induction ms' arbitrary: ms b)
  case (Cons m ms')
  obtain st' reg' u where b: "b = (st', reg', u)" by (cases b) auto
  have name: "derived_name st t (ms @ [m]) = derived_name st t ms @ print_modifier m" by (simp add: derived_name_def)
  have step: "result_ok (\<lambda>e. e = BadName (derived_name st t (ms @ [m])) \<and> \<not> buildable reg (derived_name st t (ms @ [m])))
      (\<lambda>b. build_state st reg t (ms @ [m]) b \<and> buildable reg (derived_name st t (ms @ [m]))) (apply_modifier tok b m)"
    using build_state_step[of st reg t ms st' reg' u m tok] Cons.prems b by simp
  show ?case
  proof (cases "apply_modifier tok b m")
    case (Inl e)
    then show ?thesis using step by (simp add: name)
  next
    case (Inr b')
    then show ?thesis using step Cons.IH[of "ms @ [m]" b'] Cons.prems(2) by (simp add: name split: option.splits)
  qed
qed simp

section \<open>Properties\<close>

text \<open>
  C24: Parsing a type name recovers the base name and the modifiers, outermost last, from
  the name that is printed from them.
\<close>

theorem parseTypename_print:
  assumes "base_name b" and "list_all proper_modifier ms"
  shows "parseTypename (b @ concat (map print_modifier ms)) = Inr (b, ms)"
  using parseTypename_loop_modifiers[OF assms, of "[]" "[]"] by (simp add: parseTypename_def)

theorem parseTypename_print_witness:
  "parseTypename ''/base/Time*[3][12]'' = Inr (''/base/Time'', [pointer_modifier, array_modifier 3, array_modifier 12])"
proof -
  have "proper_modifier (array_modifier 3)" "proper_modifier (array_modifier 12)"
    unfolding proper_modifier_def by (intro disjI2 exI[of _ 3] conjI; simp) (intro disjI2 exI[of _ 12] conjI; simp)
  then have "list_all proper_modifier [pointer_modifier, array_modifier 3, array_modifier 12]"
    by (simp add: proper_modifier_def)
  moreover have "concat (map print_modifier [pointer_modifier, array_modifier 3, array_modifier 12]) = ''*[3][12]''"
    by code_simp
  ultimately show ?thesis
    using parseTypename_print[of "''/base/Time''" "[pointer_modifier, array_modifier 3, array_modifier 12]"]
    by (simp add: base_name_def)
qed

text \<open>
  C22: Building a derived type. From a registry without aliases in which names with
  modifiers mean what they say, build the name \<open>b\<close> with modifiers. If every intermediate
  name is registered or valid, the build succeeds and returns the type registered under the
  full name, which consists of exactly the requested pointers and arrays over the type \<open>b\<close>
  means; existing objects and entries are unchanged. Otherwise it throws \<open>BadName\<close> with the
  first name that is neither.
\<close>

theorem build_derived_type:
  assumes "builder_ok st reg" and "base_name b" and "canonical_name b"
    and "get reg b = Some t" and "list_all proper_modifier ms"
  shows "case find (\<lambda>n. \<not> (get reg n \<noteq> None \<or> isValidTypename n True)) (intermediate_names b ms) of
      Some n \<Rightarrow> TypeBuilder_build tok st reg (b @ concat (map print_modifier ms)) 0 = Inl (BadName n)
    | None \<Rightarrow> \<exists>st' reg' t'. TypeBuilder_build tok st reg (b @ concat (map print_modifier ms)) 0 = Inr (st', reg', Some t') \<and>
       is_derived st' t ms t' \<and> get reg' (b @ concat (map print_modifier ms)) = Some t' \<and>
       store_extends st st' \<and> global_type reg \<subseteq>\<^sub>m global_type reg' \<and> builder_ok st' reg'"
proof -
  have reg: "registry_ok st reg" using assms(1) by (simp add: builder_ok_def state_ok_def)
  have t: "global_type reg b = Some t"
    using registry_ok_absolute[OF reg, of b] assms(3,4) by (simp add: canonical_name_def)
  then have name: "ty_name (type_at st t) = b" using assms(1) by (simp add: builder_ok_def)
  let ?full = "b @ concat (map print_modifier ms)"
  have "build_state st reg t [] (st, reg, t)"
    using assms(1) t name by (simp add: build_state_def derived_name_def store_extends_def)
  note res = build_modifiers[OF this assms(5), of tok]
  have names: "derived_name st t [] = b" by (simp add: derived_name_def name)
  have absolute: "isAbsoluteName n" if "n \<in> set (intermediate_names b ms)" for n
    using that assms(3) by (auto simp: canonical_name_def isAbsoluteName_def dest!: intermediate_prefix)
  have find: "find (\<lambda>n. \<not> (get reg n \<noteq> None \<or> isValidTypename n True)) (intermediate_names b ms) =
      find (\<lambda>n. \<not> buildable reg n) (intermediate_names b ms)"
    by (rule find_cong) (simp_all add: buildable_def registry_ok_absolute[OF reg absolute])
  have "isAbsoluteName ?full" using assms(3) by (auto simp: canonical_name_def isAbsoluteName_def)
  then have get: "get reg' ?full = Some t'" if "build_state st reg t ms (st', reg', t')" for st' reg' t'
    using that registry_ok_absolute[of st' reg' ?full]
    by (simp add: build_state_def builder_ok_def state_ok_def derived_name_def name)
  have build: "TypeBuilder_build tok st reg ?full 0 =
      bind_result (fold_result (apply_modifier tok) (st, reg, t) ms) (\<lambda>(st', reg', t'). Inr (st', reg', Some t'))"
    using parseTypename_loop_modifiers[OF assms(2,5), of "[]" "[]"] assms(4)
    by (simp add: TypeBuilder_build_def maybeParse_def parseTypename_def build_spec_def)
      (simp add: bind_result_def split: sum.split prod.split)
  show ?thesis
  proof (cases "find (\<lambda>n. \<not> buildable reg n) (intermediate_names b ms)")
    case None
    then obtain st' reg' t' where "fold_result (apply_modifier tok) (st, reg, t) ms = Inr (st', reg', t')"
      "build_state st reg t ms (st', reg', t')" using res by (auto simp: names)
    then show ?thesis using None get build find by (auto simp: build_state_def)
  next
    case (Some n)
    then show ?thesis using res build find by (simp add: names)
  qed
qed

definition base_global :: "(string \<times> RegistryType) list" where
  "base_global = [(''/int'', example_entry 0)]"

definition base_registry :: Registry where
  "base_registry = updateCurrentNameMap example_tok
     \<lparr>m_global = base_global, m_current = Map.empty, m_namespace = ''/''\<rparr>"

lemma base_registry_global: "global_type base_registry n = (if n = ''/int'' then Some 0 else None)"
proof -
  have "names_ok base_global"
    by (simp add: base_global_def names_ok_def canonical_name_def isAbsoluteName_def NamespaceMark_def)
  then show ?thesis
    using updateCurrentNameMap_simps[of "\<lparr>m_global = base_global, m_current = Map.empty, m_namespace = ''/''\<rparr>"]
    by (simp add: base_registry_def global_type_def base_global_def example_entry_def)
qed

lemma base_registry_ok: "builder_ok int_store base_registry"
proof -
  have "registry_ok int_store base_registry"
    unfolding base_registry_def
    by (rule updateCurrentNameMap_ok)
      (auto simp: base_global_def names_ok_def canonical_name_def isAbsoluteName_def NamespaceMark_def
        global_type_def example_entry_def int_store_def new_type_def start_store_def Numeric_ctor_def
        Type_ctor_def type_at_def split: if_splits)
  moreover have "derived_ok int_store base_registry"
    unfolding derived_ok_def base_registry_global
    by (simp add: getPointerName_def getArrayName_def append_eq_Cons_conv append_eq_append_conv2)
  ultimately show ?thesis
    by (simp add: builder_ok_def state_ok_def base_registry_global indirect_acyclic_def int_store_def
        new_type_def start_store_def Numeric_ctor_def Type_ctor_def type_at_def)
qed

theorem build_derived_type_witness:
  "\<exists>st' reg' t'. TypeBuilder_build example_tok int_store base_registry ''/int*'' 0 = Inr (st', reg', Some t') \<and>
     is_derived st' 0 [pointer_modifier] t' \<and> get reg' ''/int*'' = Some t'"
proof -
  have "get base_registry ''/int'' = Some 0"
    using registry_ok_absolute[of int_store base_registry "''/int''"] base_registry_ok base_registry_global[of "''/int''"]
    by (simp add: builder_ok_def state_ok_def isAbsoluteName_def NamespaceMark_def)
  moreover have "base_name ''/int''" "canonical_name ''/int''"
    by (simp_all add: base_name_def canonical_name_def isAbsoluteName_def NamespaceMark_def)
  moreover have "list_all proper_modifier [pointer_modifier]" by (simp add: proper_modifier_def)
  moreover have "''/int'' @ concat (map print_modifier [pointer_modifier]) = ''/int*''"
    "intermediate_names ''/int'' [pointer_modifier] = [''/int*'']" "isValidTypename ''/int*'' True" by code_simp+
  ultimately show ?thesis
    using build_derived_type[OF base_registry_ok, of "''/int''" 0 "[pointer_modifier]" example_tok] by auto
qed

end
