(* ===== verification/MergeCorrect.thy ===== *)
theory MergeCorrect
  imports Merge TypeBuilder
begin

text \<open>
  Correctness of merging: \<open>Registry::merge\<close> terminates, keeps what was defined, and gives for
  every type of the other registry a type of the same name and the same structure. The two
  registries own their type objects: the objects of the other registry are the set \<open>S\<close>.
\<close>

section \<open>What a comparison puts on the stack\<close>

text \<open>
  A comparison of a type in a closed set \<open>D\<close> with a type in a closed set \<open>S\<close> records only
  pairs of types of these sets.
\<close>

definition closed_in :: "store \<Rightarrow> tid set \<Rightarrow> bool" where
  "closed_in st A \<longleftrightarrow> (\<forall>t \<in> A. set (kind_refs (ty_kind (type_at st t))) \<subseteq> A)"

definition records :: "tid set \<Rightarrow> tid set \<Rightarrow> RecursionStack \<Rightarrow> RecursionStack \<Rightarrow> bool" where
  "records D S s s' \<longleftrightarrow> (\<forall>x y. s' x = Some y \<longrightarrow> s x = Some y \<or> x \<in> D \<and> y \<in> S)"

lemma records_refl [simp]: "records D S s s"
  by (simp add: records_def)

lemma records_trans: "records D S s t \<Longrightarrow> records D S t u \<Longrightarrow> records D S s u"
  unfolding records_def by blast

lemma records_None:
  assumes "records (X - S) S s s'" and "s t = None" and "t \<in> S"
  shows "s' t = None"
proof (cases "s' t")
  case (Some y)
  then have "s t = Some y \<or> t \<in> X - S" using assms(1) unfolding records_def by blast
  then show ?thesis using assms(2,3) by simp
qed

definition comparison_within :: "tid set \<Rightarrow> tid set \<Rightarrow> comparison \<Rightarrow> bool" where
  "comparison_within D S cmp \<longleftrightarrow> (\<forall>l r equality s b s'. l \<in> D \<longrightarrow> r \<in> S \<longrightarrow>
     cmp l r equality s = Some (b, s') \<longrightarrow> records D S s s')"

lemma rec_compare_within:
  assumes "comparison_within D S cmp" and "l \<in> D" and "r \<in> S" and "rec_compare cmp l r equality s = Some (b, s')"
  shows "records D S s s'"
proof (cases "l = r \<or> s l \<noteq> None")
  case True
  then show ?thesis using assms(4) by (auto simp: rec_compare_def split: if_splits option.splits)
next
  case False
  then have "cmp l r equality (s(l \<mapsto> r)) = Some (b, s')" using assms(4) by (simp add: rec_compare_def)
  then have "records D S (s(l \<mapsto> r)) s'" using assms(1-3) unfolding comparison_within_def by blast
  moreover have "records D S s (s(l \<mapsto> r))" using assms(2,3) by (auto simp: records_def)
  ultimately show ?thesis by (rule records_trans[rotated])
qed

lemma compare_fields_within:
  assumes "comparison_within D S cmp" and "fld_type ` set fs \<subseteq> D" and "fld_type ` set gs \<subseteq> S"
    and "compare_fields cmp fs gs equality s = Some (b, s')"
  shows "records D S s s'"
  using assms(2-)
proof (induction fs gs arbitrary: s rule: list_induct2')
  case (4 f fs g gs)
  show ?case
  proof (cases "fld_name f \<noteq> fld_name g \<or> fld_offset f \<noteq> fld_offset g")
    case False
    then obtain b1 s1 where r: "rec_compare cmp (fld_type f) (fld_type g) equality s = Some (b1, s1)"
      using 4(4) by (auto split: option.splits)
    have s1: "records D S s s1" by (rule rec_compare_within[OF assms(1) _ _ r]) (use 4(2,3) in auto)
    show ?thesis
    proof (cases b1)
      case True
      then have "compare_fields cmp fs gs equality s1 = Some (b, s')" using 4(4) r False by simp
      then show ?thesis using 4(1)[of s1] 4(2,3) records_trans[OF s1] by auto
    qed (use 4(4) r s1 False in auto)
  qed (use 4(4) in auto)
qed simp_all

lemma do_compare_within:
  assumes "closed_in st D" and "closed_in st S"
  shows "comparison_within D S (do_compare n st)"
proof (induction n)
  case (Suc n)
  show ?case unfolding comparison_within_def
  proof (intro allI impI)
    fix l r equality s b s'
    assume l: "l \<in> D" and r: "r \<in> S" and cmp: "do_compare (Suc n) st l r equality s = Some (b, s')"
    have refs: "set (kind_refs (ty_kind (type_at st l))) \<subseteq> D" "set (kind_refs (ty_kind (type_at st r))) \<subseteq> S"
      using assms l r by (auto simp: closed_in_def)
    note rec = rec_compare_within[OF Suc.IH] and flds = compare_fields_within[OF Suc.IH]
    show "records D S s s'"
    proof (cases "ty_kind (type_at st l)")
      case (Compound fs)
      show ?thesis
      proof (cases "ty_kind (type_at st r)")
        case (Compound gs)
        then show ?thesis using cmp refs flds[of fs gs equality s b s'] \<open>ty_kind (type_at st l) = Compound fs\<close>
          by (auto simp: Let_def class_compare_defs split: if_splits)
      qed (use cmp Compound in \<open>auto simp: Let_def class_compare_defs\<close>)
    qed (use cmp refs in \<open>auto simp: Let_def class_compare_defs split: kind.splits if_splits intro: rec\<close>)
  qed
qed (simp add: comparison_within_def)

section \<open>Sources that can be merged\<close>

text \<open>The references between the types of the source.\<close>

definition refs_in :: "store \<Rightarrow> tid set \<Rightarrow> tid rel" where
  "refs_in st S = {(t, u). t \<in> S \<and> u \<in> set (kind_refs (ty_kind (type_at st t)))}"

text \<open>
  Derived types have the names and sizes their constructors give them, and the element type
  of an array does not lead back to the array.
\<close>

definition derived_shape :: "store \<Rightarrow> tid set \<Rightarrow> tid \<Rightarrow> bool" where
  "derived_shape st S t \<longleftrightarrow> (case ty_kind (type_at st t) of
     Array dim on \<Rightarrow> ty_name (type_at st t) = getArrayName (ty_name (type_at st on)) dim \<and>
       ty_size (type_at st t) = dim * ty_size (type_at st on) \<and> (on, t) \<notin> (refs_in st S)\<^sup>+
   | Pointer on \<Rightarrow> ty_name (type_at st t) = getPointerName (ty_name (type_at st on)) \<and> ty_size (type_at st t) = 8
   | Container _ VectorFactory on \<Rightarrow> ty_name (type_at st t) = Vector_fullName (ty_name (type_at st on))
   | Container _ StringFactory on \<Rightarrow> ty_name (type_at st t) = ''/std/string'' \<and>
       ty_name (type_at st on) = ''/int8_t'' \<and> (on, t) \<notin> (refs_in st S)\<^sup>+
   | _ \<Rightarrow> True)"

definition mergeable :: "store \<Rightarrow> tid set \<Rightarrow> bool" where
  "mergeable st S \<longleftrightarrow> S \<subseteq> dom (objects st) \<and> closed_in st S \<and> closed_in st (dom (objects st) - S) \<and>
     (\<forall>t \<in> dom (objects st). ty_kind (type_at st t) \<noteq> NullType) \<and>
     inj_on (\<lambda>t. ty_name (type_at st t)) S \<and>
     (\<forall>t \<in> S. canonical_name (ty_name (type_at st t)) \<and> derived_shape st S t)"

text \<open>
  The pairs of a source type and its counterpart on a stack: those \<open>merge\<close> records, and those
  a comparison records the other way round.
\<close>

definition pairs :: "tid set \<Rightarrow> RecursionStack \<Rightarrow> tid rel" where
  "pairs S stack = {(t, u). t \<in> S \<and> u \<notin> S \<and> (stack t = Some u \<or> stack u = Some t)}"

lemma pairs_mono: "s \<subseteq>\<^sub>m s' \<Longrightarrow> pairs S s \<subseteq> pairs S s'"
  by (auto simp: pairs_def map_le_def dom_def)

lemma same_shape_pairs:
  assumes "same_shape st (Map.graph s) l r" and "ty_kind (type_at st l) \<noteq> NullType"
    and "set (kind_refs (ty_kind (type_at st l))) \<subseteq> D" and "set (kind_refs (ty_kind (type_at st r))) \<subseteq> S" and "D \<inter> S = {}"
  shows "same_shape st (pairs S s) r l"
proof -
  have flip: "(b, a) \<in> (pairs S s)\<^sup>=" if "(a, b) \<in> (Map.graph s)\<^sup>=" "a \<in> D" "b \<in> S" for a b
    using that assms(5) by (auto simp: pairs_def Map.graph_def)
  have cmp: "Type_do_compare (type_at st r) (type_at st l)"
    using assms(1,2) by (auto simp: same_shape_def Type_do_compare_def Let_def split: kind.splits)
  show ?thesis
  proof (cases "ty_kind (type_at st l)")
    case (Compound fs)
    then obtain gs where gs: "ty_kind (type_at st r) = Compound gs"
      "list_all2 (\<lambda>f g. fld_name f = fld_name g \<and> fld_offset f = fld_offset g \<and>
         (fld_type f, fld_type g) \<in> (Map.graph s)\<^sup>=) fs gs"
      using assms(1) by (auto simp: same_shape_def Let_def)
    have "list_all2 (\<lambda>g f. fld_name g = fld_name f \<and> fld_offset g = fld_offset f \<and>
         (fld_type g, fld_type f) \<in> (pairs S s)\<^sup>=) gs fs"
      unfolding list_all2_conv_all_nth
    proof (intro conjI allI impI)
      show len: "length gs = length fs" using gs(2) by (auto dest: list_all2_lengthD)
      fix i assume i: "i < length gs"
      have f: "fld_name (fs ! i) = fld_name (gs ! i)" "fld_offset (fs ! i) = fld_offset (gs ! i)"
        "(fld_type (fs ! i), fld_type (gs ! i)) \<in> (Map.graph s)\<^sup>="
        using list_all2_nthD2[OF gs(2) i] by simp_all
      moreover have "fld_type (fs ! i) \<in> D" "fld_type (gs ! i) \<in> S"
        using assms(3,4) gs(1) Compound i len by auto
      ultimately show "fld_name (gs ! i) = fld_name (fs ! i)" "fld_offset (gs ! i) = fld_offset (fs ! i)"
        "(fld_type (gs ! i), fld_type (fs ! i)) \<in> (pairs S s)\<^sup>=" using flip by simp_all
    qed
    then show ?thesis using gs(1) cmp Compound by (simp add: same_shape_def Let_def)
  next
    case (Array dim a)
    then obtain b where "ty_kind (type_at st r) = Array dim b" "(a, b) \<in> (Map.graph s)\<^sup>="
      using assms(1) by (auto simp: same_shape_def Let_def)
    then show ?thesis using flip[of a b] assms(3,4) cmp Array by (simp add: same_shape_def Let_def)
  next
    case (Pointer a)
    then obtain b where "ty_kind (type_at st r) = Pointer b" "(a, b) \<in> (Map.graph s)\<^sup>="
      using assms(1) by (auto simp: same_shape_def Let_def)
    then show ?thesis using flip[of a b] assms(3,4) cmp Pointer by (simp add: same_shape_def Let_def)
  next
    case (Container k fac a)
    then obtain k' b where "ty_kind (type_at st r) = Container k' fac b" "(a, b) \<in> (Map.graph s)\<^sup>="
      using assms(1) by (auto simp: same_shape_def Let_def)
    then show ?thesis using flip[of a b] assms(3,4) cmp Container by (simp add: same_shape_def Let_def)
  next
    case Opaque
    then have "ty_kind (type_at st r) = Opaque"
      using cmp by (cases "ty_kind (type_at st r)") (simp_all add: Type_do_compare_def getCategory_def)
    then show ?thesis using assms(1) cmp Opaque by (simp add: same_shape_def Let_def)
  qed (use assms(1,2) cmp in \<open>auto simp: same_shape_def Let_def\<close>)
qed

section \<open>The invariant of a merge\<close>

text \<open>
  \<open>st0\<close> is the store before the merge, \<open>Open\<close> the compounds that are being merged. All other
  recorded pairs have the same shape, and their counterparts are registered.
\<close>

definition alias_free :: "store \<Rightarrow> Registry \<Rightarrow> bool" where
  "alias_free st reg \<longleftrightarrow> (\<forall>n t. global_type reg n = Some t \<longrightarrow> ty_name (type_at st t) = n)"

definition merge_inv :: "store \<Rightarrow> tid set \<Rightarrow> tid set \<Rightarrow> merge_state \<Rightarrow> bool" where
  "merge_inv st0 S Open s \<longleftrightarrow> (case s of (st, reg, stack) \<Rightarrow>
     wf_store st \<and> state_ok (st, reg) \<and> alias_free st reg \<and> store_extends st0 st \<and> next_id st0 \<le> next_id st \<and>
     (\<forall>n u. global_type reg n = Some u \<longrightarrow> u \<notin> S \<and>
        (u \<in> dom (objects st0) \<or> (\<exists>t \<in> S. ty_name (type_at st0 t) = n \<and> stack t = Some u))) \<and>
     (\<forall>t \<in> S. \<forall>u. stack t = Some u \<longrightarrow> u \<in> dom (objects st) - S \<and> ty_name (type_at st u) = ty_name (type_at st0 t)) \<and>
     (\<forall>x y. x \<notin> S \<longrightarrow> stack x = Some y \<longrightarrow> x \<in> dom (objects st0) \<and> y \<in> S) \<and>
     (\<forall>(t, u) \<in> pairs S stack. t \<in> Open \<and> stack t = Some u \<or> same_shape st (pairs S stack) t u) \<and>
     (\<forall>t \<in> S. \<forall>u. stack t = Some u \<longrightarrow> global_type reg (ty_name (type_at st0 t)) = Some u \<or>
        t \<in> Open \<and> global_type reg (ty_name (type_at st0 t)) = None))"

definition merge_grows :: "merge_state \<Rightarrow> merge_state \<Rightarrow> bool" where
  "merge_grows s s' \<longleftrightarrow> (case (s, s') of ((st, reg, stack), (st', reg', stack')) \<Rightarrow>
     store_extends st st' \<and> next_id st \<le> next_id st' \<and> global_type reg \<subseteq>\<^sub>m global_type reg' \<and> stack \<subseteq>\<^sub>m stack')"

lemma merge_grows_refl [simp]: "merge_grows s s"
  by (simp add: merge_grows_def store_extends_def split: prod.splits)

lemma merge_grows_trans: "merge_grows a b \<Longrightarrow> merge_grows b c \<Longrightarrow> merge_grows a c"
  by (auto simp: merge_grows_def intro: store_extends_trans map_le_trans split: prod.splits)

lemma merge_invD:
  assumes "merge_inv st0 S Open (st, reg, stack)"
  shows "wf_store st" "state_ok (st, reg)" "alias_free st reg" "store_extends st0 st" "next_id st0 \<le> next_id st"
    "indirect_acyclic st" "registry_ok st reg"
    "global_type reg n = Some u \<Longrightarrow> u \<notin> S \<and> (u \<in> dom (objects st0) \<or> (\<exists>t \<in> S. ty_name (type_at st0 t) = n \<and> stack t = Some u))"
    "t \<in> S \<Longrightarrow> stack t = Some u \<Longrightarrow> u \<in> dom (objects st) - S \<and> ty_name (type_at st u) = ty_name (type_at st0 t)"
    "x \<notin> S \<Longrightarrow> stack x = Some y \<Longrightarrow> x \<in> dom (objects st0) \<and> y \<in> S"
    "(t, u) \<in> pairs S stack \<Longrightarrow> t \<in> Open \<and> stack t = Some u \<or> same_shape st (pairs S stack) t u"
    "t \<in> S \<Longrightarrow> stack t = Some u \<Longrightarrow> global_type reg (ty_name (type_at st0 t)) = Some u \<or>
      t \<in> Open \<and> global_type reg (ty_name (type_at st0 t)) = None"
  using assms unfolding merge_inv_def state_ok_def prod.case fst_conv snd_conv by blast+

lemma merge_invI:
  assumes "wf_store st" "state_ok (st, reg)" "alias_free st reg" "store_extends st0 st" "next_id st0 \<le> next_id st"
    and "\<And>n u. global_type reg n = Some u \<Longrightarrow>
      u \<notin> S \<and> (u \<in> dom (objects st0) \<or> (\<exists>t \<in> S. ty_name (type_at st0 t) = n \<and> stack t = Some u))"
    and "\<And>t u. t \<in> S \<Longrightarrow> stack t = Some u \<Longrightarrow> u \<in> dom (objects st) - S \<and> ty_name (type_at st u) = ty_name (type_at st0 t)"
    and "\<And>x y. x \<notin> S \<Longrightarrow> stack x = Some y \<Longrightarrow> x \<in> dom (objects st0) \<and> y \<in> S"
    and "\<And>t u. (t, u) \<in> pairs S stack \<Longrightarrow> t \<in> Open \<and> stack t = Some u \<or> same_shape st (pairs S stack) t u"
    and "\<And>t u. t \<in> S \<Longrightarrow> stack t = Some u \<Longrightarrow> global_type reg (ty_name (type_at st0 t)) = Some u \<or>
      t \<in> Open \<and> global_type reg (ty_name (type_at st0 t)) = None"
  shows "merge_inv st0 S Open (st, reg, stack)"
  unfolding merge_inv_def prod.case by (intro conjI allI ballI impI) (use assms in blast)+

text \<open>The objects of the source are never touched.\<close>

lemma merge_source:
  assumes "merge_inv st0 S Open (st, reg, stack)" and "t \<in> dom (objects st0)"
  shows "type_at st t = type_at st0 t" and "t \<in> dom (objects st)"
proof -
  have ext: "store_extends st0 st" using merge_invD(4)[OF assms(1)] .
  show "type_at st t = type_at st0 t" using store_extends_at[OF ext assms(2)] .
  show "t \<in> dom (objects st)" using ext assms(2) by (auto simp: store_extends_def dom_def)
qed

lemma mergeableD:
  assumes "mergeable st S"
  shows "S \<subseteq> dom (objects st)" "closed_in st S" "closed_in st (dom (objects st) - S)"
    "t \<in> dom (objects st) \<Longrightarrow> ty_kind (type_at st t) \<noteq> NullType"
    "t \<in> S \<Longrightarrow> u \<in> S \<Longrightarrow> ty_name (type_at st t) = ty_name (type_at st u) \<Longrightarrow> t = u"
    "t \<in> S \<Longrightarrow> canonical_name (ty_name (type_at st t))" "t \<in> S \<Longrightarrow> derived_shape st S t"
  using assms by (auto simp: mergeable_def inj_on_def)

lemma pairs_dom:
  assumes "merge_inv st0 S Open (st, reg, stack)" and "mergeable st0 S" and "(t, u) \<in> pairs S stack"
  shows "t \<in> dom (objects st0)" and "u \<in> dom (objects st)"
proof -
  show "t \<in> dom (objects st0)" using assms(3) mergeableD(1)[OF assms(2)] by (auto simp: pairs_def)
  from assms(3) have "t \<in> S" "u \<notin> S" "stack t = Some u \<or> stack u = Some t" by (auto simp: pairs_def)
  then show "u \<in> dom (objects st)"
    using merge_invD(9)[OF assms(1), of t u] merge_invD(10)[OF assms(1), of u t] merge_source(2)[OF assms(1), of u] by blast
qed

lemma closed_in_store:
  assumes "closed_in st0 A" and "store_extends st0 st" and "A \<subseteq> dom (objects st0)"
  shows "closed_in st A"
  unfolding closed_in_def
proof
  fix t assume t: "t \<in> A"
  then have "type_at st t = type_at st0 t" using store_extends_at[OF assms(2)] assms(3) by blast
  then show "set (kind_refs (ty_kind (type_at st t))) \<subseteq> A" using assms(1) t by (simp add: closed_in_def)
qed

text \<open>A successful comparison with a type \<open>old\<close> of the destination relates the pairs it recorded.\<close>

lemma compared_pairs:
  assumes inv: "merge_inv st0 S Open (st, reg, stack)" and src: "mergeable st0 S" and t: "t \<in> S"
    and old: "old \<in> dom (objects st0) - S" and none: "stack t = None"
    and ext: "extends st stack stack'" and shape: "same_shape st (Map.graph stack') old t"
    and rec: "records (dom (objects st0) - S) S stack stack'" and ab: "(a, b) \<in> pairs S (stack'(t \<mapsto> old))"
  shows "a \<in> Open \<and> (stack'(t \<mapsto> old)) a = Some b \<or> same_shape st (pairs S (stack'(t \<mapsto> old))) a b"
proof -
  let ?D = "dom (objects st0) - S" and ?s = "stack'(t \<mapsto> old)"
  have none': "stack' t = None" using records_None[OF rec none t] .
  have le: "stack \<subseteq>\<^sub>m stack'" "stack' \<subseteq>\<^sub>m ?s" using ext none' by (auto simp: extends_def map_le_def)
  then have le2: "stack \<subseteq>\<^sub>m ?s" by (rule map_le_trans)
  have D: "closed_in st ?D" "closed_in st S"
    using closed_in_store mergeableD[OF src] merge_invD(4)[OF inv] by blast+
  have flip: "same_shape st (pairs S ?s) r l" if "same_shape st (Map.graph stack') l r" "l \<in> ?D" "r \<in> S" for l r
  proof (rule same_shape_mono[OF pairs_mono[OF le(2)]], rule same_shape_pairs[OF that(1), of ?D])
    show "ty_kind (type_at st l) \<noteq> NullType"
      using mergeableD(4)[OF src, of l] merge_source(1)[OF inv, of l] that(2) by simp
    show "set (kind_refs (ty_kind (type_at st l))) \<subseteq> ?D" "set (kind_refs (ty_kind (type_at st r))) \<subseteq> S"
      using D that(2,3) by (auto simp: closed_in_def)
  qed blast
  have ab': "a \<in> S" "b \<notin> S" "?s a = Some b \<or> stack' b = Some a"
    using ab t by (auto simp: pairs_def split: if_splits)
  consider (old_pair) "stack a = Some b \<or> stack b = Some a" | (found) "a = t" "b = old"
    | (compared) "stack' b = Some a" "stack b = None" "b \<in> ?D"
  proof (cases "?s a = Some b")
    case True
    then have "a = t \<and> b = old \<or> stack' a = Some b" by (auto split: if_splits)
    then show ?thesis using rec ab'(1) old_pair found unfolding records_def by blast
  next
    case False
    then have b: "stack' b = Some a" using ab'(3) by blast
    then have "stack b = Some a \<or> b \<in> ?D" using rec unfolding records_def by blast
    moreover have "stack b = None \<or> stack b = Some a" using b le(1) by (cases "stack b") (auto simp: map_le_def dom_def)
    ultimately show ?thesis using b old_pair compared by blast
  qed
  then show ?thesis
  proof cases
    case old_pair
    then have "(a, b) \<in> pairs S stack" using ab' by (auto simp: pairs_def)
    from merge_invD(11)[OF inv this] show ?thesis
      using same_shape_mono[OF pairs_mono[OF le2]] le2 by (auto simp: map_le_def dom_def)
  next
    case found
    then show ?thesis using flip[OF shape old t] by simp
  next
    case compared
    then have "same_shape st (Map.graph stack') b a" using ext by (simp add: extends_def)
    then show ?thesis using flip compared(3) ab'(1) by blast
  qed
qed

lemma merge_inv_compared:
  assumes inv: "merge_inv st0 S Open (st, reg, stack)" and src: "mergeable st0 S" and t: "t \<in> S"
    and glob: "global_type reg (ty_name (type_at st0 t)) = Some old"
    and old: "old \<in> dom (objects st0) - S" and none: "stack t = None"
    and ext: "extends st stack stack'" and shape: "same_shape st (Map.graph stack') old t"
    and rec: "records (dom (objects st0) - S) S stack stack'"
  shows "merge_inv st0 S Open (st, reg, stack'(t \<mapsto> old)) \<and> stack' t = None \<and> stack \<subseteq>\<^sub>m stack'(t \<mapsto> old)"
proof -
  let ?s = "stack'(t \<mapsto> old)"
  note I = merge_invD[OF inv]
  have none': "stack' t = None" using records_None[OF rec none t] .
  have le: "stack \<subseteq>\<^sub>m ?s" using ext none none' by (auto simp: extends_def map_le_def)
  have key: "a = t \<and> b = old \<or> stack a = Some b" if "?s a = Some b" "a \<in> S" for a b
    using rec that unfolding records_def by (auto split: if_splits)
  have dom: "old \<in> dom (objects st)" using old merge_source(2)[OF inv] by blast
  have "merge_inv st0 S Open (st, reg, ?s)"
    unfolding merge_inv_def prod.case
  proof (intro conjI allI impI ballI)
    fix n u assume u: "global_type reg n = Some u"
    show "u \<notin> S" using I(8)[OF u] by blast
    show "u \<in> dom (objects st0) \<or> (\<exists>t \<in> S. ty_name (type_at st0 t) = n \<and> ?s t = Some u)"
      using I(8)[OF u] le by (metis domI map_le_def)
  next
    fix a u assume a: "a \<in> S" "?s a = Some u"
    from key[OF a(2,1)] show "u \<in> dom (objects st) - S" "ty_name (type_at st u) = ty_name (type_at st0 a)"
      using dom old I(3) glob I(9)[OF a(1)] by (auto simp: alias_free_def)
  next
    fix x y assume x: "x \<notin> S" "?s x = Some y"
    then have "stack x = Some y \<or> x \<in> dom (objects st0) - S \<and> y \<in> S"
      using rec t unfolding records_def by (auto split: if_splits)
    then show "x \<in> dom (objects st0)" "y \<in> S" using I(10)[OF x(1)] by blast+
  next
    fix p assume "p \<in> pairs S ?s"
    then show "case p of (t, u) \<Rightarrow> t \<in> Open \<and> ?s t = Some u \<or> same_shape st (pairs S ?s) t u"
      using compared_pairs[OF inv src t old none ext shape rec] by (cases p) blast
  next
    fix a u assume a: "a \<in> S" "?s a = Some u"
    from key[OF a(2,1)] show "global_type reg (ty_name (type_at st0 a)) = Some u \<or>
        a \<in> Open \<and> global_type reg (ty_name (type_at st0 a)) = None" using glob I(12)[OF a(1)] by blast
  qed (use I(1-5) in simp_all)
  then show ?thesis using none' le by blast
qed

text \<open>\<open>try_merge\<close> finds the counterpart of a type on the stack or in the registry.\<close>

lemma try_merge_ok:
  assumes inv: "merge_inv st0 S Open (st, reg, stack)" and src: "mergeable st0 S" and t: "t \<in> S"
  shows "result_ok (\<lambda>e. e \<noteq> OutOfFuel) (\<lambda>(r, s'). merge_inv st0 S Open s' \<and> merge_grows (st, reg, stack) s' \<and>
      (case r of Some u \<Rightarrow> snd (snd s') t = Some u
       | None \<Rightarrow> s' = (st, reg, stack) \<and> stack t = None \<and> global_type reg (ty_name (type_at st0 t)) = None))
    (try_merge t (st, reg, stack))"
proof -
  note I = merge_invD[OF inv] and M = mergeableD[OF src]
  have t0: "t \<in> dom (objects st0)" and at: "type_at st t = type_at st0 t" using M(1) t merge_source[OF inv] by auto
  have name: "canonical_name (ty_name (type_at st0 t))" using M(6)[OF t] .
  have get: "get reg (ty_name (type_at st t)) = global_type reg (ty_name (type_at st0 t))"
    using registry_ok_absolute[OF I(7)] name at by (simp add: canonical_name_def)
  show ?thesis
  proof (cases "stack t = None \<and> global_type reg (ty_name (type_at st0 t)) \<noteq> None")
    case False
    then show ?thesis using inv get by (cases "stack t") (auto simp: try_merge_def)
  next
    case True
    then obtain old where old: "global_type reg (ty_name (type_at st0 t)) = Some old" and none: "stack t = None" by auto
    let ?D = "dom (objects st0) - S"
    have "old \<notin> S" "old \<in> dom (objects st0)"
      using I(8)[OF old] M(5)[OF _ t] none by force+
    then have oldD: "old \<in> ?D" by simp
    have D: "closed_in st ?D" "closed_in st S"
      using closed_in_store[OF M(3) I(4)] closed_in_store[OF M(2) I(4) M(1)] by auto
    have dom: "old \<in> dom (objects st)" using oldD merge_source(2)[OF inv] by blast
    have "pending st stack < compare_fuel st"
    proof -
      have "pending st stack \<le> card (dom (objects st))" unfolding pending_def
        using finite_subset[OF wf_store_finite[OF I(1)]] by (intro card_mono) auto
      also have "\<dots> \<le> next_id st" using card_mono[OF _ wf_store_finite[OF I(1)]] by simp
      finally show ?thesis by (simp add: compare_fuel_def)
    qed
    then obtain b stack' where cmp: "do_compare (compare_fuel st) st old t True stack = Some (b, stack')"
      using do_compare_returns[OF I(1), of "compare_fuel st"] dom unfolding comparison_returns_def by blast
    show ?thesis
    proof (cases b)
      case False
      then show ?thesis using none get old cmp by (simp add: try_merge_def)
    next
      case True
      then have cmp: "do_compare (compare_fuel st) st old t True stack = Some (True, stack')" using cmp by simp
      have ext: "extends st stack stack'" and shape: "same_shape st (Map.graph stack') old t"
        using do_compare_sound[of st "compare_fuel st"] cmp unfolding comparison_sound_def by blast+
      have rec: "records ?D S stack stack'"
        using do_compare_within[OF D, of "compare_fuel st"] cmp oldD t unfolding comparison_within_def by blast
      from merge_inv_compared[OF inv src t old oldD none ext shape rec] show ?thesis
        using none get old cmp by (simp add: try_merge_def stack_insert_def merge_grows_def store_extends_def)
    qed
  qed
qed

section \<open>Steps that keep the invariant\<close>

lemma same_shape_store:
  "type_at st' l = type_at st l \<Longrightarrow> type_at st' r = type_at st r \<Longrightarrow> same_shape st' R l r = same_shape st R l r"
  by (simp add: same_shape_def)

lemma new_type_at:
  assumes "indirect_acyclic st" and "new_type st obj = (i, st')"
  shows "i = next_id st" "i \<notin> dom (objects st)" "type_at st' i = obj" "objects st' = (objects st)(i \<mapsto> obj)"
    "next_id st' = Suc (next_id st)" "store_extends st st'"
  using assms by (auto simp: new_type_def type_at_def indirect_acyclic_def store_extends_def)

text \<open>A new object for a type that was not merged before.\<close>

lemma merge_inv_new:
  assumes inv: "merge_inv st0 S Open (st, reg, stack)" and src: "mergeable st0 S" and t: "t \<in> S" and none: "stack t = None"
    and unknown: "global_type reg (ty_name (type_at st0 t)) = None"
    and obj: "ty_name obj = ty_name (type_at st0 t)" "set (kind_refs (ty_kind obj)) \<subseteq> dom (objects st)"
    and alloc: "new_type st obj = (i, st')"
  shows "merge_inv st0 S (insert t Open) (st', reg, stack(t \<mapsto> i))"
proof -
  let ?s = "stack(t \<mapsto> i)"
  note I = merge_invD[OF inv] and A = new_type_at[OF merge_invD(6)[OF inv] alloc]
  have lt: "set (kind_refs (ty_kind obj)) \<subseteq> {..< next_id st}" using obj(2) wf_store_finite[OF I(1)] by blast
  have ok: "state_ok (st', reg)" using registry_step_ok[OF registry_step.create[OF lt alloc]] I(2) by blast
  have at: "type_at st' x = type_at st x" if "x \<in> dom (objects st)" for x using store_extends_at[OF A(6) that] .
  have ext: "store_extends st0 st'" using store_extends_trans[OF I(4) A(6)] .
  have i: "i \<notin> S" "i \<notin> dom (objects st0)"
    using A(2) merge_source(2)[OF inv] mergeableD(1)[OF src] by blast+
  have wf: "wf_store st'" using I(1) obj(2) A(1,4,5) unfolding wf_store_def by (auto simp: less_Suc_eq)
  have le: "stack \<subseteq>\<^sub>m ?s" using none by (simp add: map_le_def dom_def)
  show ?thesis unfolding merge_inv_def prod.case
  proof (intro conjI allI impI ballI)
    show "alias_free st' reg" using I(3) at registry_ok_type[OF I(7)] unfolding alias_free_def by metis
  next
    fix n u assume u: "global_type reg n = Some u"
    show "u \<notin> S" using I(8)[OF u] by blast
    show "u \<in> dom (objects st0) \<or> (\<exists>t \<in> S. ty_name (type_at st0 t) = n \<and> ?s t = Some u)"
      using I(8)[OF u] le by (metis domI map_le_def)
  next
    fix a u assume a: "a \<in> S" "?s a = Some u"
    have "u \<in> dom (objects st') - S \<and> ty_name (type_at st' u) = ty_name (type_at st0 a)"
    proof (cases "a = t")
      case True
      then show ?thesis using a i A(3,4) obj(1) by auto
    next
      case False
      then have "u \<in> dom (objects st) - S" "ty_name (type_at st u) = ty_name (type_at st0 a)" using I(9)[OF a(1)] a(2) by auto
      then show ?thesis using at[of u] A(4) by auto
    qed
    then show "u \<in> dom (objects st') - S" "ty_name (type_at st' u) = ty_name (type_at st0 a)" by blast+
  next
    fix x y assume x: "x \<notin> S" "?s x = Some y"
    then show "x \<in> dom (objects st0)" "y \<in> S" using I(10)[of x y] t by (auto split: if_splits)
  next
    fix p assume "p \<in> pairs S ?s"
    then obtain a b where p: "p = (a, b)" "a \<in> S" "b \<notin> S" "?s a = Some b \<or> stack b = Some a"
      using t by (auto simp: pairs_def split: if_splits)
    show "case p of (a, b) \<Rightarrow> a \<in> insert t Open \<and> ?s a = Some b \<or> same_shape st' (pairs S ?s) a b"
    proof (cases "a = t \<and> ?s a = Some b")
      case False
      then have ab: "(a, b) \<in> pairs S stack" using p by (auto simp: pairs_def split: if_splits)
      have "type_at st' a = type_at st a" "type_at st' b = type_at st b"
        using at merge_source(2)[OF inv] pairs_dom[OF inv src ab] by blast+
      from same_shape_store[OF this] show ?thesis
        using I(11)[OF ab] same_shape_mono[OF pairs_mono[OF le]] le none p(1) by (auto simp: map_le_def dom_def)
    qed (use p(1) in auto)
  next
    fix a u assume a: "a \<in> S" "?s a = Some u"
    show "global_type reg (ty_name (type_at st0 a)) = Some u \<or>
        a \<in> insert t Open \<and> global_type reg (ty_name (type_at st0 a)) = None"
      using I(12)[OF a(1), of u] a(2) unknown by (cases "a = t") auto
  qed (use ok wf ext I(5) A(5) in simp_all)
qed

text \<open>An update of the object of an open type.\<close>

lemma merge_inv_update:
  assumes inv: "merge_inv st0 S Open (st, reg, stack)" and src: "mergeable st0 S" and t: "t \<in> S" "t \<in> Open" "stack t = Some i"
    and i: "i \<notin> dom (objects st0)" and name: "ty_name (f (type_at st i)) = ty_name (type_at st i)"
    and ind: "indirection (ty_kind (f (type_at st i))) = indirection (ty_kind (type_at st i))"
    and refs: "set (kind_refs (ty_kind (f (type_at st i)))) \<subseteq> dom (objects st)"
  shows "merge_inv st0 S Open (update_type st i f, reg, stack)"
proof -
  note I = merge_invD[OF inv]
  let ?st = "update_type st i f"
  have dom: "i \<in> dom (objects st)" using I(9)[OF t(1,3)] by blast
  have at: "type_at ?st x = (if x = i then f (type_at st i) else type_at st x)" for x
    by (simp add: update_type_def type_at_def)
  have doms: "dom (objects ?st) = dom (objects st)" "next_id ?st = next_id st" using dom by (auto simp: update_type_def)
  have nm: "ty_name (type_at ?st x) = ty_name (type_at st x)" for x using name at by simp
  have wf: "wf_store ?st" using I(1) refs dom unfolding wf_store_def
    by (auto simp: update_type_def split: if_splits)
  have ok: "state_ok (?st, reg)" by (rule update_type_ok[of st reg i f]) (rule I(2), rule dom, rule name, rule ind)
  have ext: "store_extends st0 ?st" using I(4) i by (auto simp: store_extends_def update_type_def)
  show ?thesis
  proof (rule merge_invI[OF wf ok _ ext _ I(8)])
    show "alias_free ?st reg" using I(3) nm unfolding alias_free_def by metis
  next
    fix a b assume ab: "(a, b) \<in> pairs S stack"
    show "a \<in> Open \<and> stack a = Some b \<or> same_shape ?st (pairs S stack) a b"
    proof (cases "b = i")
      case True
      have "stack a = Some i" "a \<in> S" using ab True i I(10)[of i a] by (auto simp: pairs_def)
      then have "a = t" using I(9)[of a i] I(9)[OF t(1,3)] mergeableD(5)[OF src _ t(1)] by auto
      then show ?thesis using True t by simp
    next
      case False
      have "a \<noteq> i" using pairs_dom(1)[OF inv src ab] i by blast
      then show ?thesis using same_shape_store[of ?st a st b] at False I(11)[OF ab] by simp
    qed
  next
    fix a u assume a: "a \<in> S" "stack a = Some u"
    show "global_type reg (ty_name (type_at st0 a)) = Some u \<or> a \<in> Open \<and> global_type reg (ty_name (type_at st0 a)) = None"
      by (rule I(12)[OF a])
  qed (use doms I(5) nm in \<open>auto dest: I(9) I(10)\<close>)
qed

text \<open>Registering the object of an open type, and closing the type.\<close>

lemma alias_free_none: "registry_ok st reg \<Longrightarrow> alias_free st reg \<Longrightarrow> getAliasesOf st reg t = []"
proof -
  assume ok: "registry_ok st reg" and free: "alias_free st reg"
  have "\<not> isAlias st e" if "e \<in> set (m_global reg)" for e
    using global_type_entry[OF ok, of "fst e" "snd e"] that free by (simp add: alias_free_def isAlias_def)
  then have "filter (\<lambda>e. isAlias st e \<and> reg_type (snd e) = t) (m_global reg) = []" by (simp add: filter_empty_conv)
  then show ?thesis unfolding getAliasesOf_def by simp
qed

lemma add_alias_free:
  assumes ok: "registry_ok st reg" and free: "alias_free st reg" and i: "i \<in> dom (objects st)"
    and name: "canonical_name (ty_name (type_at st i))"
    and known: "global_type reg (ty_name (type_at st i)) = None \<or> global_type reg (ty_name (type_at st i)) = Some i"
  shows "result_ok (\<lambda>e. e \<noteq> OutOfFuel) (\<lambda>reg'. registry_ok st reg' \<and> alias_free st reg' \<and>
      global_type reg' = (global_type reg)(ty_name (type_at st i) \<mapsto> i)) (add tok st reg i src)"
proof -
  let ?n = "ty_name (type_at st i)" and ?p = "isPersistent st (ty_name (type_at st i)) i"
  have keep: "registry_ok st reg'" if "add_name tok st reg ?n i ?p src = Inr reg'" for reg'
    using add_name_ok[OF ok name i, of tok ?p src] that by (simp add: registry_extends_def)
  consider e where "add_name tok st reg ?n i ?p src = Inl e" "e \<noteq> OutOfFuel"
    | "add_name tok st reg ?n i ?p src = Inr reg" "global_type reg ?n = Some i"
    | reg' where "add_name tok st reg ?n i ?p src = Inr reg'" "global_type reg' = (global_type reg)(?n \<mapsto> i)"
    using add_name_cases[OF ok name, of tok i ?p src] global_type_insert[OF ok] by fastforce
  then show ?thesis
  proof cases
    case 2
    then have "(global_type reg)(?n \<mapsto> i) = global_type reg" by (simp add: map_upd_triv)
    then show ?thesis using 2 ok free alias_free_none[OF ok free]
      by (simp add: Registry.add_def add_persistent_def list_ex_iff)
  next
    case (3 reg')
    then have "alias_free st reg'" using free by (auto simp: alias_free_def)
    then show ?thesis using 3 keep[OF 3(1)] alias_free_none[OF keep[OF 3(1)]]
      by (simp add: Registry.add_def add_persistent_def list_ex_iff)
  qed (simp add: Registry.add_def add_persistent_def)
qed

lemma merge_inv_add:
  assumes inv: "merge_inv st0 S (insert t Open) (st, reg, stack)" and src: "mergeable st0 S"
    and t: "t \<in> S" "stack t = Some i"
    and known: "global_type reg (ty_name (type_at st0 t)) = None \<or> global_type reg (ty_name (type_at st0 t)) = Some i"
  shows "result_ok (\<lambda>e. e \<noteq> OutOfFuel) (\<lambda>reg'. merge_inv st0 S (insert t Open) (st, reg', stack) \<and>
      global_type reg' = (global_type reg)(ty_name (type_at st0 t) \<mapsto> i)) (add tok st reg i [])"
proof -
  note I = merge_invD[OF inv]
  have i: "i \<in> dom (objects st) - S" "ty_name (type_at st i) = ty_name (type_at st0 t)" using I(9)[OF t] by blast+
  let ?n = "ty_name (type_at st0 t)"
  have step: "merge_inv st0 S (insert t Open) (st, reg', stack)"
    if r: "registry_ok st reg'" "alias_free st reg'" "global_type reg' = (global_type reg)(?n \<mapsto> i)" for reg'
  proof (rule merge_invI[OF I(1) _ r(2) I(4,5) _ I(9,10,11)])
    show "state_ok (st, reg')" using r(1) I(6) by (simp add: state_ok_def)
  next
    fix n u assume u: "global_type reg' n = Some u"
    have "n = ?n \<and> u = i \<or> global_type reg n = Some u" using u r(3) by (auto split: if_splits)
    then show "u \<notin> S \<and> (u \<in> dom (objects st0) \<or> (\<exists>t \<in> S. ty_name (type_at st0 t) = n \<and> stack t = Some u))"
      using I(8)[of n u] i t by blast
  next
    fix a u assume a: "a \<in> S" "stack a = Some u"
    show "global_type reg' (ty_name (type_at st0 a)) = Some u \<or>
        a \<in> insert t Open \<and> global_type reg' (ty_name (type_at st0 a)) = None"
    proof (cases "a = t")
      case False
      then have "ty_name (type_at st0 a) \<noteq> ?n" using mergeableD(5)[OF src a(1) t(1)] by blast
      then show ?thesis using I(12)[OF a] r(3) by simp
    qed (use a t r(3) in simp)
  qed
  have "result_ok (\<lambda>e. e \<noteq> OutOfFuel) (\<lambda>reg'. registry_ok st reg' \<and> alias_free st reg' \<and>
      global_type reg' = (global_type reg)(?n \<mapsto> i)) (add tok st reg i [])"
    using add_alias_free[OF I(7,3), of i tok "[]"] i known mergeableD(6)[OF src t(1)] by simp
  then show ?thesis by (rule result_ok_mono) (use step in blast)
qed

lemma merge_inv_close:
  assumes inv: "merge_inv st0 S (insert t Open) (st, reg, stack)" and t: "stack t = Some i"
    and reg: "global_type reg (ty_name (type_at st0 t)) = Some i" and shape: "same_shape st (pairs S stack) t i"
  shows "merge_inv st0 S Open (st, reg, stack)"
proof (rule merge_invI[OF merge_invD(1-5)[OF inv] merge_invD(8-10)[OF inv]])
  fix a u assume "(a, u) \<in> pairs S stack"
  from merge_invD(11)[OF inv this] show "a \<in> Open \<and> stack a = Some u \<or> same_shape st (pairs S stack) a u"
    using shape t by auto
next
  fix a u assume a: "a \<in> S" "stack a = Some u"
  show "global_type reg (ty_name (type_at st0 a)) = Some u \<or> a \<in> Open \<and> global_type reg (ty_name (type_at st0 a)) = None"
    using merge_invD(12)[OF inv a] reg t a(2) by (cases "a = t") auto
qed

section \<open>Merging one type\<close>

text \<open>
  What \<open>do_merge\<close> of a type has established when the new object is about to be registered
  (the factories of containers register it themselves).
\<close>

definition merge_opened :: "store \<Rightarrow> tid set \<Rightarrow> tid set \<Rightarrow> tid \<Rightarrow> merge_state \<Rightarrow> tid \<times> merge_state \<Rightarrow> bool" where
  "merge_opened st0 S Open t s r = (case r of (i, st, reg, stack) \<Rightarrow>
     let stack' = stack_insert stack t i in
     merge_inv st0 S (insert t Open) (st, reg, stack') \<and> merge_grows s (st, reg, stack') \<and> stack' t = Some i \<and>
     same_shape st (pairs S stack') t i \<and>
     (global_type reg (ty_name (type_at st0 t)) = None \<or> global_type reg (ty_name (type_at st0 t)) = Some i))"

lemma merge_grows_new:
  assumes "indirect_acyclic st" and "new_type st obj = (i, st')" and "stack t = None"
  shows "merge_grows (st, reg, stack) (st', reg, stack(t \<mapsto> i))"
  using new_type_at[OF assms(1,2)] assms(3) by (simp add: merge_grows_def map_le_def dom_def)

lemma opened_new:
  assumes inv: "merge_inv st0 S Open (st, reg, stack)" and src: "mergeable st0 S" and t: "t \<in> S" "stack t = None"
    and none: "global_type reg (ty_name (type_at st0 t)) = None"
    and obj: "ty_name obj = ty_name (type_at st0 t)" "set (kind_refs (ty_kind obj)) \<subseteq> dom (objects st)"
    and alloc: "new_type st obj = (i, st')"
    and shape: "same_shape st' (pairs S (stack(t \<mapsto> i))) t i"
  shows "merge_opened st0 S Open t (st, reg, stack) (i, st', reg, stack)"
  using merge_inv_new[OF inv src t none obj alloc] merge_grows_new[of st obj i st' stack t reg] merge_invD(6)[OF inv] alloc shape none t(2)
  by (simp add: merge_opened_def stack_insert_def)

text \<open>The end of \<open>Type::merge\<close>: the object is registered and recorded.\<close>

lemma opened_add:
  assumes "mergeable st0 S" and "t \<in> S" and "merge_opened st0 S Open t s (i, st, reg, stack)"
  shows "result_ok (\<lambda>e. e \<noteq> OutOfFuel)
    (\<lambda>(u, s'). merge_inv st0 S Open s' \<and> merge_grows s s' \<and> snd (snd s') t = Some u)
    (bind_result (add tok st reg i []) (\<lambda>reg'. Inr (i, st, reg', stack_insert stack t i)))"
proof (rule result_ok_bind)
  let ?s = "stack_insert stack t i"
  have o: "merge_inv st0 S (insert t Open) (st, reg, ?s)" "merge_grows s (st, reg, ?s)" "?s t = Some i"
    "same_shape st (pairs S ?s) t i"
    "global_type reg (ty_name (type_at st0 t)) = None \<or> global_type reg (ty_name (type_at st0 t)) = Some i"
    using assms(3) by (simp_all add: merge_opened_def Let_def)
  show "result_ok (\<lambda>e. e \<noteq> OutOfFuel) (\<lambda>reg'. merge_inv st0 S (insert t Open) (st, reg', ?s) \<and>
      global_type reg' = (global_type reg)(ty_name (type_at st0 t) \<mapsto> i)) (add tok st reg i [])"
    by (rule merge_inv_add[OF o(1) assms(1,2) o(3,5)])
  fix reg' assume r: "merge_inv st0 S (insert t Open) (st, reg', ?s) \<and>
      global_type reg' = (global_type reg)(ty_name (type_at st0 t) \<mapsto> i)"
  then have inv: "merge_inv st0 S Open (st, reg', ?s)" using merge_inv_close[OF _ o(3) _ o(4)] by simp
  have "global_type reg \<subseteq>\<^sub>m global_type reg'" using r o(5) by (auto simp: map_le_def dom_def)
  then have "merge_grows (st, reg, ?s) (st, reg', ?s)" by (simp add: merge_grows_def store_extends_def)
  then show "result_ok (\<lambda>e. e \<noteq> OutOfFuel)
      (\<lambda>(u, s'). merge_inv st0 S Open s' \<and> merge_grows s s' \<and> snd (snd s') t = Some u) (Inr (i, st, reg', ?s))"
    using inv merge_grows_trans[OF o(2)] o(3) by auto
qed

text \<open>Types without references are copied.\<close>

lemma copy_object_opened:
  assumes inv: "merge_inv st0 S Open (st, reg, stack)" and src: "mergeable st0 S" and t: "t \<in> S" "stack t = None"
    and none: "global_type reg (ty_name (type_at st0 t)) = None" and leaf: "kind_refs (ty_kind (type_at st0 t)) = []"
    and "\<not> (\<exists>flds. ty_kind (type_at st0 t) = Compound flds)"
  shows "result_ok Q (merge_opened st0 S Open t (st, reg, stack)) (copy_object t (st, reg, stack))"
proof -
  have t0: "t \<in> dom (objects st0)" using mergeableD(1)[OF src] t by blast
  obtain i st' where alloc: "new_type st (type_at st t) = (i, st')" by (cases "new_type st (type_at st t)") simp
  note A = new_type_at[OF merge_invD(6)[OF inv] alloc]
  have at: "type_at st t = type_at st0 t" "type_at st' t = type_at st0 t"
    using merge_source[OF inv t0] store_extends_at[OF A(6)] by simp_all
  have "ty_kind (type_at st0 t) \<noteq> NullType" using mergeableD(4)[OF src t0] .
  then have "same_shape st' (pairs S (stack(t \<mapsto> i))) t i"
    using A(3) at leaf assms(7)
    by (cases "ty_kind (type_at st0 t)") (simp_all add: same_shape_def Type_do_compare_def)
  from opened_new[OF inv src t none _ _ alloc this] show ?thesis
    using alloc at leaf by (simp add: copy_object_def)
qed

text \<open>The element type of an indirect type is merged first; merging it again finds it on the stack.\<close>

lemma merge_hit: "stack on = Some u \<Longrightarrow> merge_rec (Suc n) tok on (st, reg, stack) = Inr (u, st, reg, stack)"
  by (simp add: Type_merge_def Indirect_merge_def try_merge_def split: option.splits)

text \<open>The counterpart of the element type of an indirect type.\<close>

lemma merge_element:
  assumes inv: "merge_inv st0 S Open (st, reg, stack)" and src: "mergeable st0 S" and t: "t \<in> S" "stack t = None"
    and ind: "indirection (ty_kind (type_at st0 t)) = Some on" and u: "stack on = Some u"
  shows "on \<in> S" "on \<in> dom (objects st0)" "u \<in> dom (objects st)" "ty_name (type_at st u) = ty_name (type_at st0 on)"
    "(on, u) \<in> pairs S (stack(t \<mapsto> i))"
    "on \<notin> Open \<Longrightarrow> ty_size (type_at st u) = ty_size (type_at st0 on)"
proof -
  note I = merge_invD[OF inv] and M = mergeableD[OF src]
  show on: "on \<in> S" using M(2) t(1) indirection_refs[OF ind] by (auto simp: closed_in_def)
  then show on0: "on \<in> dom (objects st0)" using M(1) by blast
  have u': "u \<in> dom (objects st)" "u \<notin> S" "ty_name (type_at st u) = ty_name (type_at st0 on)" using I(9)[OF on u(1)] by blast+
  then show "u \<in> dom (objects st)" "ty_name (type_at st u) = ty_name (type_at st0 on)" by blast+
  have "on \<noteq> t" using u t(2) by auto
  then show "(on, u) \<in> pairs S (stack(t \<mapsto> i))" using on u u'(2) by (simp add: pairs_def)
  have pair: "(on, u) \<in> pairs S stack" using on u u'(2) by (simp add: pairs_def)
  show "ty_size (type_at st u) = ty_size (type_at st0 on)" if "on \<notin> Open"
  proof -
    have "same_shape st (pairs S stack) on u" using I(11)[OF pair] that by blast
    then have "Type_do_compare (type_at st on) (type_at st u)"
      using M(4)[OF on0] merge_source(1)[OF inv on0] by (auto simp: same_shape_def Let_def split: kind.splits)
    then show ?thesis using merge_source(1)[OF inv on0] by (simp add: Type_do_compare_def)
  qed
qed

lemma source_kept:
  assumes "merge_inv st0 S Open (st, reg, stack)" and "mergeable st0 S" and "t \<in> S" and "store_extends st st'"
  shows "type_at st' t = type_at st0 t"
proof -
  have t0: "t \<in> dom (objects st0)" using mergeableD(1)[OF assms(2)] assms(3) by blast
  then show ?thesis using merge_source[OF assms(1) t0] store_extends_at[OF assms(4)] by simp
qed

lemma Array_opened:
  assumes inv: "merge_inv st0 S Open (st, reg, stack)" and src: "mergeable st0 S" and t: "t \<in> S" "stack t = None"
    and none: "global_type reg (ty_name (type_at st0 t)) = None" and kind: "ty_kind (type_at st0 t) = Array dim on"
    and u: "stack on = Some u" "on \<notin> Open" and merge: "merge on (st, reg, stack) = Inr (u, st, reg, stack)"
  shows "result_ok Q (merge_opened st0 S Open t (st, reg, stack)) (Array_do_merge merge dim on (st, reg, stack))"
proof -
  obtain i st' where alloc: "new_type st (Array_ctor st u dim) = (i, st')" by (cases "new_type st (Array_ctor st u dim)") simp
  note A = new_type_at[OF merge_invD(6)[OF inv] alloc] and E = merge_element[OF inv src t _ u(1)]
  have at: "type_at st' t = type_at st0 t" using source_kept[OF inv src t(1) A(6)] .
  have sh: "ty_name (type_at st0 t) = getArrayName (ty_name (type_at st0 on)) dim"
    "ty_size (type_at st0 t) = dim * ty_size (type_at st0 on)"
    using mergeableD(7)[OF src t(1)] kind by (simp_all add: derived_shape_def)
  have "same_shape st' (pairs S (stack(t \<mapsto> i))) t i"
    using A(3) at kind sh(2) E(5)[of i] E(6)[OF _ u(2)]
    by (simp add: same_shape_def Type_do_compare_def getCategory_def Array_ctor_def Type_ctor_def)
  from opened_new[OF inv src t none _ _ alloc this] show ?thesis
    using alloc merge E(3,4) kind sh(1) by (simp add: Array_do_merge_def Array_ctor_def Type_ctor_def)
qed

lemma Pointer_opened:
  assumes inv: "merge_inv st0 S Open (st, reg, stack)" and src: "mergeable st0 S" and t: "t \<in> S" "stack t = None"
    and none: "global_type reg (ty_name (type_at st0 t)) = None" and kind: "ty_kind (type_at st0 t) = Pointer on"
    and u: "stack on = Some u" and merge: "merge on (st, reg, stack) = Inr (u, st, reg, stack)"
  shows "result_ok Q (merge_opened st0 S Open t (st, reg, stack)) (Pointer_do_merge merge on (st, reg, stack))"
proof -
  obtain i st' where alloc: "new_type st (Pointer_ctor st u) = (i, st')" by (cases "new_type st (Pointer_ctor st u)") simp
  note A = new_type_at[OF merge_invD(6)[OF inv] alloc] and E = merge_element[OF inv src t _ u]
  have at: "type_at st' t = type_at st0 t" using source_kept[OF inv src t(1) A(6)] .
  have sh: "ty_name (type_at st0 t) = getPointerName (ty_name (type_at st0 on))" "ty_size (type_at st0 t) = 8"
    using mergeableD(7)[OF src t(1)] kind by (simp_all add: derived_shape_def)
  have "same_shape st' (pairs S (stack(t \<mapsto> i))) t i"
    using A(3) at kind sh(2) E(5)[of i]
    by (simp add: same_shape_def Type_do_compare_def getCategory_def Pointer_ctor_def Type_ctor_def)
  from opened_new[OF inv src t none _ _ alloc this] show ?thesis
    using alloc merge E(3,4) kind sh(1) by (simp add: Pointer_do_merge_def Pointer_ctor_def Type_ctor_def)
qed

text \<open>
  Containers: the factory creates the object and registers it, then its size is set. \<open>obj\<close>
  is the new container, over the counterpart of the element type.
\<close>

lemma container_new:
  assumes inv: "merge_inv st0 S Open (st, reg, stack)" and src: "mergeable st0 S" and t: "t \<in> S" "stack t = None"
    and none: "global_type reg (ty_name (type_at st0 t)) = None" and kind: "ty_kind (type_at st0 t) = Container k fac on"
    and u: "stack on = Some u" and obj: "ty_name obj = ty_name (type_at st0 t)" "ty_kind obj = Container k' fac u"
    and alloc: "new_type st obj = (i, st')"
  shows "result_ok (\<lambda>e. e \<noteq> OutOfFuel)
    (\<lambda>reg'. merge_opened st0 S Open t (st, reg, stack) (i, setSize st' i (ty_size (type_at st0 t)), reg', stack))
    (add tok st' reg i [])"
proof -
  let ?st = "setSize st' i (ty_size (type_at st0 t))" and ?s = "stack(t \<mapsto> i)"
  note A = new_type_at[OF merge_invD(6)[OF inv] alloc] and E = merge_element[OF inv src t _ u]
  have at: "type_at st' t = type_at st0 t" using source_kept[OF inv src t(1) A(6)] .
  have ne: "i \<noteq> t" "i \<notin> dom (objects st0)"
    using A(2) merge_source(2)[OF inv] mergeableD(1)[OF src] t(1) by blast+
  have new: "merge_inv st0 S (insert t Open) (st', reg, ?s)"
    using merge_inv_new[OF inv src t none obj(1) _ alloc] E(3) kind obj(2) by simp
  have shape: "same_shape ?st (pairs S ?s) t i"
    using A(3) at kind E(5)[of i] obj(2) ne(1)
    by (simp add: same_shape_def Type_do_compare_def getCategory_def setSize_def update_type_def type_at_def)
  show ?thesis
  proof (rule result_ok_mono[OF merge_inv_add[OF new src t(1), of i tok]])
    fix reg' assume r: "merge_inv st0 S (insert t Open) (st', reg', ?s) \<and>
        global_type reg' = (global_type reg)(ty_name (type_at st0 t) \<mapsto> i)"
    have inv': "merge_inv st0 S (insert t Open) (?st, reg', ?s)"
      unfolding setSize_def
    proof (rule merge_inv_update[OF conjunct1[OF r] src t(1) _ _ ne(2)])
      show "set (kind_refs (ty_kind ((type_at st' i)\<lparr>ty_size := ty_size (type_at st0 t)\<rparr>))) \<subseteq> dom (objects st')"
        using A(3,4) obj(2) E(3) kind by auto
    qed simp_all
    have "store_extends st ?st" "next_id ?st = Suc (next_id st)"
      using A(2,4,5) by (auto simp: store_extends_def setSize_def update_type_def)
    then have "merge_grows (st, reg, stack) (?st, reg', ?s)"
      using r none t(2) by (auto simp: merge_grows_def map_le_def dom_def)
    then show "merge_opened st0 S Open t (st, reg, stack) (i, ?st, reg', stack)"
      using inv' shape r t(2) by (simp add: merge_opened_def stack_insert_def)
  qed (use none in simp_all)
qed

lemma parse_plain:
  assumes "1 < length n" and "last n \<notin> set '']* ''"
  shows "parseTypename n = Inr (n, [])"
proof -
  have "char_at n (length n - 1) = last n" using assms(1) by (cases n) (simp_all add: char_at_def last_conv_nth)
  then show ?thesis using assms by (simp add: parseTypename_def parseTypename_loop.simps)
qed

lemma has_absent:
  assumes "isAbsoluteName n" and "get reg n = None" and "1 < length n" and "last n \<notin> set '']* ''"
  shows "has reg n True = Inr False"
  using assms parse_plain[OF assms(3,4)]
  by (auto simp: has_def get_def getFullName_def getBaseType_def maybeParse_def)

lemma Container_opened:
  assumes inv: "merge_inv st0 S Open (st, reg, stack)" and src: "mergeable st0 S" and t: "t \<in> S" "stack t = None"
    and none: "global_type reg (ty_name (type_at st0 t)) = None" and kind: "ty_kind (type_at st0 t) = Container k fac on"
    and u: "stack on = Some u" "fac = StringFactory \<Longrightarrow> on \<notin> Open"
    and merge: "merge on (st, reg, stack) = Inr (u, st, reg, stack)"
  shows "result_ok (\<lambda>e. e \<noteq> OutOfFuel) (merge_opened st0 S Open t (st, reg, stack))
    (Container_do_merge merge tok t fac on (st, reg, stack))"
proof -
  note E = merge_element[OF inv src t _ u(1)] and I = merge_invD[OF inv] and M = mergeableD[OF src]
  have ind: "indirection (ty_kind (type_at st0 t)) = Some on" using kind by simp
  have abs: "isAbsoluteName (ty_name (type_at st0 t))" using M(6)[OF t(1)] by (simp add: canonical_name_def)
  then have get: "get reg (ty_name (type_at st0 t)) = None" using registry_ok_absolute[OF I(7)] none by simp
  have at: "type_at st t = type_at st0 t" using source_kept[OF inv src t(1)] by (simp add: store_extends_def)
  define obj where "obj = (case fac of VectorFactory \<Rightarrow> Vector_ctor st u | StringFactory \<Rightarrow> String_ctor u)"
  obtain i st' where alloc: "new_type st obj = (i, st')" by (cases "new_type st obj") simp
  have sh: "derived_shape st0 S t" using M(7)[OF t(1)] .
  have "call_factory fac tok st reg [u] = bind_result (add tok st' reg i []) (\<lambda>reg'. Inr (i, st', reg'))
      \<and> ty_name obj = ty_name (type_at st0 t) \<and> (\<exists>k'. ty_kind obj = Container k' fac u)"
  proof (cases fac)
    case VectorFactory
    then have nm: "ty_name (type_at st0 t) = Vector_fullName (ty_name (type_at st u))"
      using sh kind E(4)[OF ind] by (simp add: derived_shape_def)
    have "has reg (Vector_fullName (ty_name (type_at st u))) True = Inr False"
      using has_absent[OF abs get] nm by (simp add: Vector_fullName_def)
    then show ?thesis using VectorFactory alloc nm
      by (simp add: call_factory_def Vector_factory_def obj_def Vector_ctor_def Type_ctor_def Let_def)
  next
    case StringFactory
    then have nm: "ty_name (type_at st0 t) = ''/std/string''" "ty_name (type_at st0 on) = ''/int8_t''"
      using sh kind by (simp_all add: derived_shape_def)
    have "global_type reg ''/int8_t'' = Some u" using I(12)[OF E(1)[OF ind] u(1)] u(2) StringFactory nm(2) by simp
    then have int8: "get reg ''/int8_t'' = Some u"
      using registry_ok_absolute[OF I(7), of "''/int8_t''"] by (simp add: isAbsoluteName_def NamespaceMark_def)
    have "has reg ''/std/string'' True = Inr False" using has_absent[OF abs get] nm(1) by simp
    moreover have "has reg ''/int8_t'' True = Inr True" using int8 by (auto simp: has_def get_def)
    ultimately show ?thesis using StringFactory alloc nm(1) int8
      by (simp add: call_factory_def String_factory_def obj_def String_ctor_def Type_ctor_def)
  qed
  then have call: "call_factory fac tok st reg [u] = bind_result (add tok st' reg i []) (\<lambda>reg'. Inr (i, st', reg'))"
    and obj: "ty_name obj = ty_name (type_at st0 t)" and "\<exists>k'. ty_kind obj = Container k' fac u" by blast+
  then obtain k' where k': "ty_kind obj = Container k' fac u" by blast
  have "Container_do_merge merge tok t fac on (st, reg, stack) = bind_result (add tok st' reg i [])
      (\<lambda>reg'. Inr (i, setSize st' i (ty_size (type_at st0 t)), reg', stack))"
    using merge call at by (simp add: Container_do_merge_def bind_result_assoc)
  then show ?thesis
    by (simp only:) (rule result_ok_bind[OF container_new[OF inv src t none kind u(1) obj k' alloc, of tok]], simp)
qed

text \<open>
  Compounds: the new object is on the stack while the types of the fields are merged. The
  fields merged so far are those of a prefix of the source's fields.
\<close>

definition fields_merged :: "RecursionStack \<Rightarrow> Field list \<Rightarrow> Field list \<Rightarrow> bool" where
  "fields_merged stack fs gs \<longleftrightarrow> list_all2 (\<lambda>f g. fld_name f = fld_name g \<and> fld_offset f = fld_offset g \<and>
     stack (fld_type f) = Some (fld_type g)) fs gs"

lemma fields_merged_mono: "fields_merged s fs gs \<Longrightarrow> s \<subseteq>\<^sub>m s' \<Longrightarrow> fields_merged s' fs gs"
  unfolding fields_merged_def by (erule list_all2_mono) (auto simp: map_le_def dom_def)

text \<open>What a \<open>merge\<close> guarantees for a type.\<close>

definition merge_good :: "store \<Rightarrow> tid set \<Rightarrow> tid set \<Rightarrow> tid \<Rightarrow> merge_state \<Rightarrow> (tid \<times> merge_state) result \<Rightarrow> bool" where
  "merge_good st0 S Open t s = result_ok (\<lambda>e. e \<noteq> OutOfFuel)
     (\<lambda>(u, s'). merge_inv st0 S Open s' \<and> merge_grows s s' \<and> snd (snd s') t = Some u)"

definition compound_merging :: "store \<Rightarrow> tid set \<Rightarrow> tid set \<Rightarrow> tid \<Rightarrow> tid \<Rightarrow> Field list \<Rightarrow> merge_state \<Rightarrow> bool" where
  "compound_merging st0 S Open t i fs s \<longleftrightarrow> (case s of (st, reg, stack) \<Rightarrow>
     merge_inv st0 S (insert t Open) s \<and> stack t = Some i \<and>
     (\<exists>gs. ty_kind (type_at st i) = Compound gs \<and> set (kind_refs (Compound gs)) \<subseteq> dom (objects st) \<and> fields_merged stack fs gs))"

text \<open>Growth but for the object that is being built.\<close>

definition grows_but :: "tid \<Rightarrow> merge_state \<Rightarrow> merge_state \<Rightarrow> bool" where
  "grows_but i s s' \<longleftrightarrow> (case (s, s') of ((st, reg, stack), (st', reg', stack')) \<Rightarrow>
     (\<forall>x \<in> dom (objects st) - {i}. objects st' x = objects st x) \<and> next_id st \<le> next_id st' \<and>
     global_type reg \<subseteq>\<^sub>m global_type reg' \<and> stack \<subseteq>\<^sub>m stack')"

lemma grows_but_refl [simp]: "grows_but i s s"
  by (simp add: grows_but_def split: prod.splits)

lemma grows_but_trans:
  assumes "grows_but i a b" and "grows_but i b c"
  shows "grows_but i a c"
proof -
  obtain st1 r1 s1 st2 r2 s2 st3 r3 s3 where abc: "a = (st1, r1, s1)" "b = (st2, r2, s2)" "c = (st3, r3, s3)"
    by (cases a; cases b; cases c) auto
  have "objects st3 x = objects st1 x" if "x \<in> dom (objects st1) - {i}" for x
  proof -
    have "objects st2 x = objects st1 x" using assms(1) that abc by (simp add: grows_but_def)
    then show ?thesis using assms(2) that abc by (auto simp: grows_but_def dom_def)
  qed
  then show ?thesis using assms abc by (auto simp: grows_but_def intro: map_le_trans)
qed

lemma merge_field_ok:
  assumes m: "compound_merging st0 S Open t i fs s" and src: "mergeable st0 S" and t: "t \<in> S" and i: "i \<notin> dom (objects st0)"
    and f: "fld_type f \<in> S" and good: "merge_good st0 S (insert t Open) (fld_type f) s (merge (fld_type f) s)"
  shows "result_ok (\<lambda>e. e \<noteq> OutOfFuel) (\<lambda>s'. compound_merging st0 S Open t i (fs @ [f]) s' \<and> grows_but i s s')
    (merge_field merge i s f)"
  unfolding merge_field_def
proof (rule result_ok_bind[OF good[unfolded merge_good_def]])
  obtain st reg stack where s: "s = (st, reg, stack)" by (cases s) auto
  from m obtain gs where old: "stack t = Some i" "ty_kind (type_at st i) = Compound gs" "fields_merged stack fs gs"
    "set (kind_refs (Compound gs)) \<subseteq> dom (objects st)" by (auto simp: compound_merging_def s)
  fix r assume r: "case r of (u, s') \<Rightarrow> merge_inv st0 S (insert t Open) s' \<and> merge_grows s s' \<and> snd (snd s') (fld_type f) = Some u"
  obtain u st' reg' stack' where r': "r = (u, st', reg', stack')" by (cases r) auto
  have inv: "merge_inv st0 S (insert t Open) (st', reg', stack')" and u: "stack' (fld_type f) = Some u"
    and g: "store_extends st st'" "next_id st \<le> next_id st'" "global_type reg \<subseteq>\<^sub>m global_type reg'" "stack \<subseteq>\<^sub>m stack'"
    using r by (simp_all add: r' s merge_grows_def)
  let ?add = "\<lambda>c. addField st' c (fld_name f) u (fld_offset f)"
  have dom: "i \<in> dom (objects st)" "u \<in> dom (objects st')"
    using m t merge_invD(9)[of st0 S "insert t Open" st reg stack t i] merge_invD(9)[OF inv f u]
    by (auto simp: compound_merging_def s)
  have at: "type_at st' i = type_at st i" "stack' t = Some i" "dom (objects st) \<subseteq> dom (objects st')"
    using store_extends_at[OF g(1) dom(1)] g(1,4) old(1) by (auto simp: map_le_def dom_def store_extends_def)
  have add: "ty_name (?add c) = ty_name c" "ty_kind (?add c) = Compound (gs @ [\<lparr>fld_name = fld_name f, fld_type = u,
      fld_offset = fld_offset f, fld_metadata = []\<rparr>])" if "ty_kind c = Compound gs" for c
    using that by (simp_all add: addField_def Let_def)
  let ?st = "update_type st' i ?add"
  have upd: "type_at ?st i = ?add (type_at st i)" using at(1) by (simp add: update_type_def type_at_def)
  have refs: "set (kind_refs (ty_kind (?add (type_at st' i)))) \<subseteq> dom (objects st')"
    using add(2)[OF old(2)] at old(4) dom(2) by auto
  have "merge_inv st0 S (insert t Open) (?st, reg', stack')"
    by (rule merge_inv_update[OF inv src t _ at(2) i]) (use add old(2) at(1) refs in simp_all)
  moreover have "fields_merged stack' (fs @ [f]) (gs @ [\<lparr>fld_name = fld_name f, fld_type = u,
      fld_offset = fld_offset f, fld_metadata = []\<rparr>])"
    using fields_merged_mono[OF old(3) g(4)] u by (simp add: fields_merged_def list_all2_appendI)
  moreover have "dom (objects ?st) = dom (objects st')" using dom(1) at(3) by (auto simp: update_type_def)
  ultimately have "compound_merging st0 S Open t i (fs @ [f]) (?st, reg', stack')"
    using at(2) add(2)[OF old(2)] upd refs at(1) by (simp add: compound_merging_def)
  moreover have "grows_but i s (?st, reg', stack')"
    using g by (auto simp: grows_but_def s store_extends_def update_type_def)
  ultimately show "result_ok (\<lambda>e. e \<noteq> OutOfFuel) (\<lambda>s'. compound_merging st0 S Open t i (fs @ [f]) s' \<and> grows_but i s s')
      (case r of (u, st, reg, stack) \<Rightarrow> Inr (update_type st i (\<lambda>c. addField st c (fld_name f) u (fld_offset f)), reg, stack))"
    by (simp add: r')
qed

lemma merge_fields_ok:
  assumes "compound_merging st0 S Open t i done_fields s" and src: "mergeable st0 S" and t: "t \<in> S" and i: "i \<notin> dom (objects st0)"
    and f: "\<forall>f \<in> set fs. fld_type f \<in> S" and "snd (snd s0) \<subseteq>\<^sub>m snd (snd s)"
    and good: "\<And>f s. f \<in> set fs \<Longrightarrow> merge_inv st0 S (insert t Open) s \<Longrightarrow> snd (snd s0) \<subseteq>\<^sub>m snd (snd s) \<Longrightarrow>
      merge_good st0 S (insert t Open) (fld_type f) s (merge (fld_type f) s)"
  shows "result_ok (\<lambda>e. e \<noteq> OutOfFuel) (\<lambda>s'. compound_merging st0 S Open t i (done_fields @ fs) s' \<and> grows_but i s s')
    (fold_result (merge_field merge i) s fs)"
  using assms(1,5-)
proof (induction fs arbitrary: done_fields s)
  case (Cons f fs)
  show ?case unfolding fold_result.simps
  proof (rule result_ok_bind)
    have "merge_inv st0 S (insert t Open) s" using Cons.prems(1) by (cases s) (simp add: compound_merging_def)
    then show "result_ok (\<lambda>e. e \<noteq> OutOfFuel) (\<lambda>s'. compound_merging st0 S Open t i (done_fields @ [f]) s' \<and> grows_but i s s')
        (merge_field merge i s f)"
      using Cons.prems by (intro merge_field_ok[OF _ src t i]) simp_all
    fix s1 assume s1: "compound_merging st0 S Open t i (done_fields @ [f]) s1 \<and> grows_but i s s1"
    have "snd (snd s) \<subseteq>\<^sub>m snd (snd s1)" using s1 by (auto simp: grows_but_def split: prod.splits)
    then have le: "snd (snd s0) \<subseteq>\<^sub>m snd (snd s1)" using Cons.prems(3) by (rule map_le_trans[rotated])
    have "result_ok (\<lambda>e. e \<noteq> OutOfFuel)
        (\<lambda>s'. compound_merging st0 S Open t i ((done_fields @ [f]) @ fs) s' \<and> grows_but i s1 s') (fold_result (merge_field merge i) s1 fs)"
      by (rule Cons.IH[OF conjunct1[OF s1] _ le]) (use Cons.prems(2,4) in simp_all)
    then show "result_ok (\<lambda>e. e \<noteq> OutOfFuel)
        (\<lambda>s'. compound_merging st0 S Open t i (done_fields @ f # fs) s' \<and> grows_but i s s') (fold_result (merge_field merge i) s1 fs)"
      by (rule result_ok_mono) (use grows_but_trans[OF conjunct2[OF s1]] in auto)
  qed
qed simp

lemma grows_but_new:
  assumes "i \<notin> dom (objects st)" and "store_extends st st1" and "next_id st \<le> next_id st1" and "stack t = None"
    and "grows_but i (st1, reg, stack(t \<mapsto> i)) (st2, reg2, stack2)"
  shows "merge_grows (st, reg, stack) (setSize st2 i n, reg2, stack2)"
proof -
  have "objects (setSize st2 i n) x = objects st x" if "x \<in> dom (objects st)" for x
  proof -
    have "objects st1 x = objects st x" "x \<noteq> i" using assms(1,2) that by (auto simp: store_extends_def)
    then show ?thesis using assms(5) that by (auto simp: grows_but_def setSize_def update_type_def dom_def)
  qed
  moreover have "stack \<subseteq>\<^sub>m stack(t \<mapsto> i)" using assms(4) by (simp add: map_le_def dom_def)
  then have "stack \<subseteq>\<^sub>m stack2" using assms(5) by (auto simp: grows_but_def intro: map_le_trans)
  ultimately show ?thesis using assms(3,5)
    by (simp add: merge_grows_def grows_but_def store_extends_def setSize_def update_type_def)
qed

lemma Compound_opened:
  assumes inv: "merge_inv st0 S Open (st, reg, stack)" and src: "mergeable st0 S" and t: "t \<in> S" "stack t = None"
    and none: "global_type reg (ty_name (type_at st0 t)) = None" and kind: "ty_kind (type_at st0 t) = Compound flds"
    and good: "\<And>f s i. f \<in> set flds \<Longrightarrow> merge_inv st0 S (insert t Open) s \<Longrightarrow> stack(t \<mapsto> i) \<subseteq>\<^sub>m snd (snd s) \<Longrightarrow>
      merge_good st0 S (insert t Open) (fld_type f) s (merge (fld_type f) s)"
  shows "result_ok (\<lambda>e. e \<noteq> OutOfFuel) (merge_opened st0 S Open t (st, reg, stack))
    (Compound_do_merge merge t flds (st, reg, stack))"
proof -
  have at: "type_at st t = type_at st0 t" using source_kept[OF inv src t(1)] by (simp add: store_extends_def)
  let ?obj = "Compound_ctor (ty_name (type_at st0 t))"
  obtain i st1 where alloc: "new_type st ?obj = (i, st1)" by (cases "new_type st ?obj") simp
  note A = new_type_at[OF merge_invD(6)[OF inv] alloc]
  have i: "i \<notin> dom (objects st0)" "i \<noteq> t" using A(2) merge_source(2)[OF inv] mergeableD(1)[OF src] t(1) by blast+
  have obj: "ty_name ?obj = ty_name (type_at st0 t)" "ty_kind ?obj = Compound []"
    by (simp_all add: Compound_ctor_def Type_ctor_def)
  let ?s1 = "(st1, reg, stack(t \<mapsto> i))"
  have start: "compound_merging st0 S Open t i [] ?s1"
    using merge_inv_new[OF inv src t none obj(1) _ alloc] A(3) obj by (simp add: compound_merging_def fields_merged_def)
  have flds: "\<forall>f \<in> set flds. fld_type f \<in> S" using mergeableD(2)[OF src, unfolded closed_in_def, rule_format, OF t(1)] kind by auto
  have fold: "result_ok (\<lambda>e. e \<noteq> OutOfFuel) (\<lambda>s'. compound_merging st0 S Open t i flds s' \<and> grows_but i ?s1 s')
      (fold_result (merge_field merge i) ?s1 flds)"
    using merge_fields_ok[OF start src t(1) i(1) flds, of ?s1] good by simp
  have "Compound_do_merge merge t flds (st, reg, stack) = bind_result (fold_result (merge_field merge i) ?s1 flds)
      (\<lambda>(st2, reg2, stack2). Inr (i, setSize st2 i (ty_size (type_at st0 t)), reg2, stack2))"
    using alloc at t(2) by (simp add: Compound_do_merge_def stack_insert_def)
  then show ?thesis
  proof (simp only:, intro result_ok_bind[OF fold])
    fix s2 assume s2: "compound_merging st0 S Open t i flds s2 \<and> grows_but i ?s1 s2"
    obtain st2 reg2 stack2 where s2': "s2 = (st2, reg2, stack2)" by (cases s2) auto
    obtain gs where m: "merge_inv st0 S (insert t Open) (st2, reg2, stack2)" "stack2 t = Some i"
      "ty_kind (type_at st2 i) = Compound gs" "set (kind_refs (Compound gs)) \<subseteq> dom (objects st2)" "fields_merged stack2 flds gs"
      using s2 by (auto simp: compound_merging_def s2')
    let ?st = "setSize st2 i (ty_size (type_at st0 t))"
    have inv': "merge_inv st0 S (insert t Open) (?st, reg2, stack2)"
      unfolding setSize_def by (rule merge_inv_update[OF m(1) src t(1) _ m(2) i(1)]) (use m(3,4) in simp_all)
    have src_t: "type_at ?st t = type_at st0 t"
      using merge_source(1)[OF inv'] mergeableD(1)[OF src] t(1) by blast
    have pair: "(fld_type f, u) \<in> pairs S stack2" if "f \<in> set flds" "stack2 (fld_type f) = Some u" for f u
      using that flds merge_invD(9)[OF m(1), of "fld_type f" u] by (simp add: pairs_def)
    have "list_all2 (\<lambda>f g. fld_name f = fld_name g \<and> fld_offset f = fld_offset g \<and>
        (fld_type f, fld_type g) \<in> (pairs S stack2)\<^sup>=) flds gs"
      using m(5) pair unfolding fields_merged_def list_all2_conv_all_nth by simp
    then have shape: "same_shape ?st (pairs S stack2) t i"
      using src_t kind m(3) by (simp add: same_shape_def Type_do_compare_def getCategory_def setSize_def
          update_type_def type_at_def)
    have "merge_grows (st, reg, stack) (?st, reg2, stack2)"
      using grows_but_new[where stack = stack and t = t, OF A(2,6) _ t(2)] A(5) s2 by (simp add: s2')
    then show "result_ok (\<lambda>e. e \<noteq> OutOfFuel) (merge_opened st0 S Open t (st, reg, stack))
        (case s2 of (st2, reg2, stack2) \<Rightarrow> Inr (i, setSize st2 i (ty_size (type_at st0 t)), reg2, stack2))"
      using inv' shape m(2) merge_invD(12)[OF inv' t(1) m(2)] by (auto simp: s2' merge_opened_def stack_insert_def)
  qed
qed

text \<open>\<open>Type::merge\<close>, and the virtual call.\<close>

lemma Type_merge_ok:
  assumes inv: "merge_inv st0 S Open (st, reg, stack)" and src: "mergeable st0 S" and t: "t \<in> S"
    and opened: "stack t = None \<Longrightarrow> global_type reg (ty_name (type_at st0 t)) = None \<Longrightarrow>
      result_ok (\<lambda>e. e \<noteq> OutOfFuel) (merge_opened st0 S Open t (st, reg, stack)) (do_merge merge tok t (st, reg, stack))"
  shows "merge_good st0 S Open t (st, reg, stack) (Type_merge merge tok t (st, reg, stack))"
  unfolding merge_good_def Type_merge_def
proof (rule result_ok_bind[OF try_merge_ok[OF inv src t]])
  let ?P = "\<lambda>(u, s'). merge_inv st0 S Open s' \<and> merge_grows (st, reg, stack) s' \<and> snd (snd s') t = Some u"
  fix r assume r: "case r of (r, s') \<Rightarrow> merge_inv st0 S Open s' \<and> merge_grows (st, reg, stack) s' \<and>
      (case r of Some u \<Rightarrow> snd (snd s') t = Some u
       | None \<Rightarrow> s' = (st, reg, stack) \<and> stack t = None \<and> global_type reg (ty_name (type_at st0 t)) = None)"
  show "result_ok (\<lambda>e. e \<noteq> OutOfFuel) ?P (case r of (old_type, s1) \<Rightarrow> case old_type of Some u \<Rightarrow> Inr (u, s1)
     | None \<Rightarrow> bind_result (do_merge merge tok t s1) (\<lambda>(i, st, reg, stack).
         bind_result (add tok st reg i []) (\<lambda>reg'. Inr (i, st, reg', stack_insert stack t i))))"
  proof (cases "fst r")
    case None
    then have "r = (None, st, reg, stack)" "stack t = None" "global_type reg (ty_name (type_at st0 t)) = None"
      using r by (cases r; simp)+
    moreover have "result_ok (\<lambda>e. e \<noteq> OutOfFuel) ?P (bind_result (do_merge merge tok t (st, reg, stack))
        (\<lambda>(i, st, reg, stack). bind_result (add tok st reg i []) (\<lambda>reg'. Inr (i, st, reg', stack_insert stack t i))))"
    proof (rule result_ok_bind[OF opened[OF calculation(2,3)]])
      fix x assume "merge_opened st0 S Open t (st, reg, stack) x"
      then show "result_ok (\<lambda>e. e \<noteq> OutOfFuel) ?P (case x of (i, st, reg, stack) \<Rightarrow>
          bind_result (add tok st reg i []) (\<lambda>reg'. Inr (i, st, reg', stack_insert stack t i)))"
        using opened_add[OF src t] by (cases x) simp
    qed
    ultimately show ?thesis by simp
  next
    case (Some u)
    then show ?thesis using r by (cases r) simp
  qed
qed

lemma Indirect_merge_ok:
  assumes inv: "merge_inv st0 S Open (st, reg, stack)" and src: "mergeable st0 S" and t: "t \<in> S"
    and good: "merge_good st0 S Open on (st, reg, stack) (merge on (st, reg, stack))"
    and opened: "\<And>st' reg' stack' u. merge_inv st0 S Open (st', reg', stack') \<Longrightarrow> stack' on = Some u \<Longrightarrow> stack' t = None \<Longrightarrow>
      global_type reg' (ty_name (type_at st0 t)) = None \<Longrightarrow>
      result_ok (\<lambda>e. e \<noteq> OutOfFuel) (merge_opened st0 S Open t (st', reg', stack')) (do_merge merge tok t (st', reg', stack'))"
  shows "merge_good st0 S Open t (st, reg, stack) (Indirect_merge merge tok on t (st, reg, stack))"
  unfolding merge_good_def Indirect_merge_def
proof (rule result_ok_bind[OF try_merge_ok[OF inv src t]])
  let ?P = "\<lambda>(u, s'). merge_inv st0 S Open s' \<and> merge_grows (st, reg, stack) s' \<and> snd (snd s') t = Some u"
  fix r assume r: "case r of (r, s') \<Rightarrow> merge_inv st0 S Open s' \<and> merge_grows (st, reg, stack) s' \<and>
      (case r of Some u \<Rightarrow> snd (snd s') t = Some u
       | None \<Rightarrow> s' = (st, reg, stack) \<and> stack t = None \<and> global_type reg (ty_name (type_at st0 t)) = None)"
  show "result_ok (\<lambda>e. e \<noteq> OutOfFuel) ?P (case r of (old_type, s1) \<Rightarrow> case old_type of Some u \<Rightarrow> Inr (u, s1)
     | None \<Rightarrow> bind_result (merge on s1) (\<lambda>(_, s2). Type_merge merge tok t s2))"
  proof (cases "fst r")
    case None
    then have "r = (None, st, reg, stack)" using r by (cases r) simp
    moreover have "result_ok (\<lambda>e. e \<noteq> OutOfFuel) ?P
        (bind_result (merge on (st, reg, stack)) (\<lambda>(_, s2). Type_merge merge tok t s2))"
    proof (rule result_ok_bind[OF good[unfolded merge_good_def]])
      fix x assume x: "case x of (u, s') \<Rightarrow> merge_inv st0 S Open s' \<and> merge_grows (st, reg, stack) s' \<and> snd (snd s') on = Some u"
      obtain u st' reg' stack' where x': "x = (u, st', reg', stack')" by (cases x) auto
      have inv': "merge_inv st0 S Open (st', reg', stack')" "stack' on = Some u" "merge_grows (st, reg, stack) (st', reg', stack')"
        using x by (simp_all add: x')
      from Type_merge_ok[OF inv'(1) src t opened[OF inv'(1,2)]]
      have "merge_good st0 S Open t (st', reg', stack') (Type_merge merge tok t (st', reg', stack'))" .
      then show "result_ok (\<lambda>e. e \<noteq> OutOfFuel) ?P (case x of (_, s2) \<Rightarrow> Type_merge merge tok t s2)"
        unfolding merge_good_def by (simp add: x') (rule result_ok_mono, assumption, use merge_grows_trans[OF inv'(3)] in auto)
    qed
    ultimately show ?thesis by simp
  next
    case (Some u)
    then show ?thesis using r by (cases r) simp
  qed
qed

text \<open>
  The depth of the recursion: the source types that are not on the stack yet, and the
  position of the type among its indirections.
\<close>

definition merge_depth :: "store \<Rightarrow> tid set \<Rightarrow> RecursionStack \<Rightarrow> tid \<Rightarrow> nat" where
  "merge_depth st0 S stack t = card (S - dom stack) * Suc (next_id st0) + t"

lemma merge_depth_mono:
  assumes "finite S" and "stack \<subseteq>\<^sub>m stack'" and "u < t"
  shows "merge_depth st0 S stack' u < merge_depth st0 S stack t"
proof -
  have "card (S - dom stack') \<le> card (S - dom stack)"
    using assms(1) map_le_implies_dom_le[OF assms(2)] by (intro card_mono) auto
  then have "card (S - dom stack') * Suc (next_id st0) \<le> card (S - dom stack) * Suc (next_id st0)" by (rule mult_le_mono1)
  then show ?thesis using assms(3) unfolding merge_depth_def by (rule add_le_less_mono)
qed

lemma merge_depth_open:
  assumes "finite S" and "t \<in> S" and "stack t = None" and "stack(t \<mapsto> i) \<subseteq>\<^sub>m stack'" and "u < next_id st0"
  shows "merge_depth st0 S stack' u < merge_depth st0 S stack t"
proof -
  have "S - dom stack' \<subset> S - dom stack"
    using assms(2,3) map_le_implies_dom_le[OF assms(4)] by auto
  then have "card (S - dom stack') < card (S - dom stack)" by (intro psubset_card_mono) (use assms(1) in auto)
  then have "Suc (card (S - dom stack')) \<le> card (S - dom stack)" by (rule Suc_leI)
  then have "Suc (card (S - dom stack')) * Suc (next_id st0) \<le> card (S - dom stack) * Suc (next_id st0)"
    by (rule mult_le_mono1)
  then show ?thesis using assms(5) unfolding merge_depth_def mult_Suc by linarith
qed

lemma merge_rec_ok:
  assumes src: "mergeable st0 S" and wf0: "wf_store st0"
  shows "t \<in> S \<Longrightarrow> merge_inv st0 S Open (st, reg, stack) \<Longrightarrow> \<forall>x \<in> Open. (x, t) \<in> (refs_in st0 S)\<^sup>* \<Longrightarrow>
    merge_depth st0 S stack t < n \<Longrightarrow> merge_good st0 S Open t (st, reg, stack) (merge_rec n tok t (st, reg, stack))"
proof (induction n arbitrary: t Open st reg stack)
  case (Suc n)
  note t = Suc.prems(1) and inv = Suc.prems(2) and reach = Suc.prems(3) and M = mergeableD[OF src]
  have S: "finite S" "S \<subseteq> {..< next_id st0}"
    using wf_store_finite[OF wf0] M(1) finite_subset[of S "{..< next_id st0}"] by auto
  have at: "type_at st t = type_at st0 t" using source_kept[OF inv src t] by (simp add: store_extends_def)
  show ?case
  proof (cases "indirection (ty_kind (type_at st0 t))")
    case None
    have "merge_good st0 S Open t (st, reg, stack) (Type_merge (merge_rec n tok) tok t (st, reg, stack))"
    proof (rule Type_merge_ok[OF inv src t])
      assume none: "stack t = None" "global_type reg (ty_name (type_at st0 t)) = None"
      show "result_ok (\<lambda>e. e \<noteq> OutOfFuel) (merge_opened st0 S Open t (st, reg, stack))
          (do_merge (merge_rec n tok) tok t (st, reg, stack))"
      proof (cases "ty_kind (type_at st0 t)")
        case (Compound flds)
        have "result_ok (\<lambda>e. e \<noteq> OutOfFuel) (merge_opened st0 S Open t (st, reg, stack))
            (Compound_do_merge (merge_rec n tok) t flds (st, reg, stack))"
        proof (rule Compound_opened[OF inv src t none Compound])
          fix f s i
          assume f: "f \<in> set flds" and s: "merge_inv st0 S (insert t Open) s" "stack(t \<mapsto> i) \<subseteq>\<^sub>m snd (snd s)"
          have ft: "(t, fld_type f) \<in> refs_in st0 S" "fld_type f \<in> S"
            using f Compound t M(2)[unfolded closed_in_def, rule_format, OF t] by (auto simp: refs_in_def)
          then have "fld_type f < next_id st0" using S(2) by blast
          from merge_depth_open[OF S(1) t none(1) s(2) this]
          have d: "merge_depth st0 S (snd (snd s)) (fld_type f) < n" using Suc.prems(4) by simp
          have "\<forall>x \<in> insert t Open. (x, fld_type f) \<in> (refs_in st0 S)\<^sup>*"
            using reach ft(1) by (auto intro: rtrancl_into_rtrancl)
          then show "merge_good st0 S (insert t Open) (fld_type f) s (merge_rec n tok (fld_type f) s)"
            using Suc.IH[OF ft(2), of "insert t Open" "fst s" "fst (snd s)" "snd (snd s)"] s(1) d by simp
        qed
        then show ?thesis using Compound at by (simp add: do_merge_def)
      qed (use copy_object_opened[OF inv src t none] None at in \<open>auto simp: do_merge_def\<close>)
    qed
    then show ?thesis using None at by simp
  next
    case (Some on)
    have on: "(t, on) \<in> refs_in st0 S" "on \<in> S"
      using indirection_refs[OF Some] t M(2)[unfolded closed_in_def, rule_format, OF t] by (auto simp: refs_in_def)
    have "t \<in> dom (objects st)" using merge_source(2)[OF inv] M(1) t by blast
    then have less: "on < t" using merge_invD(6)[OF inv] Some at by (auto simp: indirect_acyclic_def)
    have d: "merge_depth st0 S stack on < n" using merge_depth_mono[OF S(1) _ less, of stack stack st0] Suc.prems(4) by simp
    have good: "merge_good st0 S Open on (st, reg, stack) (merge_rec n tok on (st, reg, stack))"
      by (rule Suc.IH[OF on(2) inv _ d]) (use reach on(1) in \<open>auto intro: rtrancl_into_rtrancl\<close>)
    have not_open: "on \<notin> Open" if "(on, t) \<notin> (refs_in st0 S)\<^sup>+"
      using reach that less by (auto simp: rtrancl_eq_or_trancl)
    obtain m where m: "n = Suc m" using d by (cases n) auto
    have "merge_good st0 S Open t (st, reg, stack) (Indirect_merge (merge_rec n tok) tok on t (st, reg, stack))"
    proof (rule Indirect_merge_ok[where merge = "merge_rec n tok" and on = on, OF inv src t good])
      fix st' reg' stack' u
      assume inv': "merge_inv st0 S Open (st', reg', stack')" and u: "stack' on = Some u" and none: "stack' t = None"
        "global_type reg' (ty_name (type_at st0 t)) = None"
      have at': "type_at st' t = type_at st0 t" using source_kept[OF inv' src t] by (simp add: store_extends_def)
      have hit: "merge_rec n tok on (st', reg', stack') = Inr (u, st', reg', stack')" using merge_hit[of stack' on u m tok st' reg'] u m by simp
      have sh: "derived_shape st0 S t" using M(7)[OF t] .
      show "result_ok (\<lambda>e. e \<noteq> OutOfFuel) (merge_opened st0 S Open t (st', reg', stack'))
          (do_merge (merge_rec n tok) tok t (st', reg', stack'))"
      proof (cases "ty_kind (type_at st0 t)")
        case (Array dim on')
        then have "on' = on" "on \<notin> Open" using Some sh not_open by (simp_all add: derived_shape_def)
        then show ?thesis using Array_opened[OF inv' src t none, of dim on u "merge_rec n tok"] hit u Array at' by (simp add: do_merge_def)
      next
        case (Pointer on')
        then have "on' = on" using Some by simp
        then show ?thesis using Pointer_opened[OF inv' src t none, of on u "merge_rec n tok"] hit u Pointer at' by (simp add: do_merge_def)
      next
        case (Container k fac on')
        then have c: "on' = on" "fac = StringFactory \<Longrightarrow> on \<notin> Open" using Some sh not_open by (simp_all add: derived_shape_def)
        then show ?thesis using Container_opened[OF inv' src t none, of k fac on u "merge_rec n tok" tok] u hit Container at'
          by (simp add: do_merge_def)
      qed (use Some in simp_all)
    qed
    then show ?thesis using Some at by simp
  qed
qed simp

section \<open>Annotations do not change the structure\<close>

text \<open>A type without its metadata.\<close>

definition bare_field :: "Field \<Rightarrow> Field" where
  "bare_field f = f\<lparr>fld_metadata := []\<rparr>"

fun bare_kind :: "kind \<Rightarrow> kind" where
  "bare_kind (Compound fs) = Compound (map bare_field fs)"
| "bare_kind k = k"

definition bare :: "Type \<Rightarrow> Type" where
  "bare t = t\<lparr>ty_metadata := [], ty_kind := bare_kind (ty_kind t)\<rparr>"

lemma bareD:
  assumes "bare t = bare t'"
  shows "ty_name t = ty_name t'" "ty_size t = ty_size t'" "bare_kind (ty_kind t) = bare_kind (ty_kind t')"
proof -
  have "ty_name (bare t) = ty_name (bare t')" "ty_size (bare t) = ty_size (bare t')" "ty_kind (bare t) = ty_kind (bare t')"
    using assms by simp_all
  then show "ty_name t = ty_name t'" "ty_size t = ty_size t'" "bare_kind (ty_kind t) = bare_kind (ty_kind t')"
    by (simp_all add: bare_def)
qed

definition fields_alike :: "Field list \<Rightarrow> Field list \<Rightarrow> bool" where
  "fields_alike fs gs = list_all2 (\<lambda>f g. fld_name f = fld_name g \<and> fld_offset f = fld_offset g \<and> fld_type f = fld_type g) fs gs"

lemma bare_fieldD:
  assumes "bare_field f = bare_field g"
  shows "fld_name f = fld_name g \<and> fld_offset f = fld_offset g \<and> fld_type f = fld_type g"
  using assms by (cases f; cases g) (simp add: bare_field_def)

lemma bare_fields: "map bare_field fs = map bare_field gs \<Longrightarrow> fields_alike fs gs"
  unfolding fields_alike_def
  by (rule list_all2_mono[of "\<lambda>f g. bare_field f = bare_field g"]) (auto simp: list_all2_conv_all_nth list_eq_iff_nth_eq dest: bare_fieldD)

lemma bare_compound:
  assumes "bare_kind k = bare_kind (Compound fs)"
  obtains fs' where "k = Compound fs'" and "fields_alike fs' fs"
  using assms bare_fields by (cases k) auto

lemma bare_plain: "bare_kind k = bare_kind k' \<Longrightarrow> (\<forall>fs. k' \<noteq> Compound fs) \<Longrightarrow> k = k'"
  by (cases k; cases k') auto

lemma bare_category: "bare t = bare t' \<Longrightarrow> getCategory t = getCategory t'"
  using bareD(3)[of t t'] by (cases "ty_kind t"; cases "ty_kind t'") (simp_all add: getCategory_def)

lemma same_shape_bare:
  assumes l: "bare (type_at st' l) = bare (type_at st l)" and r: "bare (type_at st' r) = bare (type_at st r)"
    and shape: "same_shape st R l r"
  shows "same_shape st' R l r"
proof -
  have cmp: "Type_do_compare (type_at st' l) (type_at st' r) = Type_do_compare (type_at st l) (type_at st r)"
    using bareD(2)[OF l] bareD(2)[OF r] bare_category[OF l] bare_category[OF r] by (simp add: Type_do_compare_def)
  note names = bareD(1)[OF l] bareD(1)[OF r]
  show ?thesis
  proof (cases "ty_kind (type_at st l)")
    case (Compound fs)
    then obtain gs where gs: "ty_kind (type_at st r) = Compound gs"
      "list_all2 (\<lambda>f g. fld_name f = fld_name g \<and> fld_offset f = fld_offset g \<and> (fld_type f, fld_type g) \<in> R\<^sup>=) fs gs"
      "Type_do_compare (type_at st l) (type_at st r)" using shape by (auto simp: same_shape_def Let_def)
    obtain fs' where fs': "ty_kind (type_at st' l) = Compound fs'" "fields_alike fs' fs"
      by (rule bare_compound[OF bareD(3)[OF l, unfolded Compound]])
    obtain gs' where gs': "ty_kind (type_at st' r) = Compound gs'" "fields_alike gs' gs"
      by (rule bare_compound[OF bareD(3)[OF r, unfolded gs(1)]])
    have "list_all2 (\<lambda>f g. fld_name f = fld_name g \<and> fld_offset f = fld_offset g \<and> (fld_type f, fld_type g) \<in> R\<^sup>=) fs' gs'"
      using fs'(2) gs'(2) gs(2) unfolding fields_alike_def list_all2_conv_all_nth by simp
    then show ?thesis using fs'(1) gs'(1) gs(3) cmp by (simp add: same_shape_def Let_def)
  next
    case NullType
    then show ?thesis using shape names bare_plain[OF bareD(3)[OF l]] by (simp add: same_shape_def Let_def)
  next
    case Opaque
    then show ?thesis using shape cmp names bare_plain[OF bareD(3)[OF l]] by (simp add: same_shape_def Let_def)
  qed (use shape cmp bare_plain[OF bareD(3)[OF l]] bare_plain[OF bareD(3)[OF r]] in \<open>force simp: same_shape_def Let_def\<close>)+
qed

definition annotated :: "store \<Rightarrow> store \<Rightarrow> bool" where
  "annotated st st' \<longleftrightarrow> dom (objects st') = dom (objects st) \<and> (\<forall>x. bare (type_at st' x) = bare (type_at st x))"

lemma annotated_refl [simp]: "annotated st st"
  by (simp add: annotated_def)

lemma annotated_trans: "annotated a b \<Longrightarrow> annotated b c \<Longrightarrow> annotated a c"
  by (simp add: annotated_def)

lemma annotated_registry:
  assumes "annotated st st'" and "registry_ok st reg"
  shows "registry_ok st' reg"
proof (rule registry_ok_store[OF assms(2)])
  fix t assume "t \<in> dom (objects st)"
  then show "t \<in> dom (objects st') \<and> ty_name (type_at st' t) = ty_name (type_at st t)"
    using assms(1) bareD(1)[of "type_at st' t" "type_at st t"] by (simp add: annotated_def)
qed

lemma update_annotated:
  assumes "t \<in> dom (objects st)" and "bare (f (type_at st t)) = bare (type_at st t)"
  shows "annotated st (update_type st t f)"
  using assms by (auto simp: annotated_def update_type_def type_at_def)

lemma bare_mergeMetaData: "bare (Compound_mergeMetaData t other) = bare t"
proof (cases "ty_kind t")
  case (Compound fs)
  show ?thesis
  proof (cases "ty_kind other")
    case (Compound gs)
    have "bare_field (case getField gs (fld_name f) of None \<Rightarrow> f
      | Some g \<Rightarrow> f\<lparr>fld_metadata := MetaData_merge (fld_metadata f) (fld_metadata g)\<rparr>) = bare_field f" for f
      by (simp add: bare_field_def split: option.splits)
    then have "map bare_field (map (\<lambda>f. case getField gs (fld_name f) of None \<Rightarrow> f
      | Some g \<Rightarrow> f\<lparr>fld_metadata := MetaData_merge (fld_metadata f) (fld_metadata g)\<rparr>) fs) = map bare_field fs"
      by (simp only: list.map_comp comp_def)
    then show ?thesis using Compound \<open>ty_kind t = Compound fs\<close>
      by (simp add: Compound_mergeMetaData_def bare_def Let_def del: map_map)
  qed (simp_all add: Compound_mergeMetaData_def bare_def Let_def Compound)
qed (simp_all add: Compound_mergeMetaData_def bare_def Let_def)

lemma setSourceID_annotated:
  assumes ok: "registry_ok st reg" and t: "t \<in> dom (objects st)" and set: "setSourceID st reg t src = (st', reg')"
  shows "annotated st st' \<and> registry_ok st' reg' \<and> global_type reg' = global_type reg"
proof (cases "map_of (m_global reg) (ty_name (type_at st t))")
  case None
  then show ?thesis using set ok by (simp add: setSourceID_def Let_def)
next
  case (Some rt)
  let ?n = "ty_name (type_at st t)"
  have reg': "reg' = reg\<lparr>m_global := omap_assign nameSort ?n (rt\<lparr>reg_source_id := src\<rparr>) (m_global reg)\<rparr>"
    and st': "st' = update_type st t (\<lambda>x. x\<lparr>ty_metadata := MetaData_set (ty_metadata x) ''source_id'' src\<rparr>)"
    using set Some by (simp_all add: setSourceID_def Let_def)
  have "global_type reg' = global_type reg"
    using Some nameSort_map.omap_find_assign[OF registry_ok_sorted[OF ok], of ?n]
    by (auto simp: reg' global_type_def fun_eq_iff)
  moreover have "annotated st st'" unfolding st' by (rule update_annotated[OF t]) (simp add: bare_def)
  ultimately show ?thesis using setSourceID_ok[OF ok t set] by blast
qed

lemma copy_annotations_ok:
  assumes ok: "registry_ok st reg" and copy: "copy_annotations st reg other = (st', reg')"
  shows "annotated st st'" "registry_ok st' reg'" "global_type reg' = global_type reg"
proof -
  let ?P = "\<lambda>(s, r). annotated st s \<and> registry_ok s r \<and> global_type r = global_type reg"
  have "?P (copySourceIDs st reg other)"
    unfolding copySourceIDs_def
  proof (rule fold_invariant[where Q = "\<lambda>_. True"])
    fix e :: "string \<times> RegistryType" and x assume x: "?P x"
    obtain s r n o' where sr: "x = (s, r)" "e = (n, o')" by (cases x; cases e) auto
    show "?P ((\<lambda>(name, other_it) (st', reg').
        case map_of (m_global reg') name of None \<Rightarrow> (st', reg')
        | Some it \<Rightarrow> if reg_source_id other_it \<noteq> [] \<and> reg_source_id it = []
            then setSourceID st' reg' (reg_type it) (reg_source_id other_it) else (st', reg')) e x)"
    proof (cases "map_of (m_global r) n")
      case (Some it)
      then have "global_type r n = Some (reg_type it)" by (simp add: global_type_def)
      then have "reg_type it \<in> dom (objects s)" using x registry_ok_type[of s r n "reg_type it"] sr(1) by simp
      then show ?thesis
        using x Some setSourceID_annotated[of s r "reg_type it" "reg_source_id o'"] annotated_trans
        by (cases "setSourceID s r (reg_type it) (reg_source_id o')") (auto simp: sr)
    qed (use x sr in simp)
  qed (use ok in simp_all)
  then obtain s r where sr: "copySourceIDs st reg other = (s, r)" "annotated st s" "registry_ok s r" "global_type r = global_type reg"
    by (cases "copySourceIDs st reg other") auto
  have "annotated s (registry_mergeMetaData s r other)"
    unfolding registry_mergeMetaData_def
  proof (rule fold_invariant[where Q = "\<lambda>_. True"])
    fix e :: "string \<times> RegistryType" and x assume x: "annotated s x"
    obtain n o' where e: "e = (n, o')" by (cases e) auto
    show "annotated s ((\<lambda>(name, other_it) st'. case map_of (m_global r) name of None \<Rightarrow> st'
        | Some it \<Rightarrow> mergeMetaData_at st' (reg_type it) (reg_type other_it)) e x)"
    proof (cases "map_of (m_global r) n")
      case (Some it)
      then have "reg_type it \<in> dom (objects x)"
        using x registry_ok_type[OF sr(3), of n "reg_type it"] by (simp add: global_type_def annotated_def)
      then have "annotated x (mergeMetaData_at x (reg_type it) (reg_type o'))"
        unfolding mergeMetaData_at_def by (rule update_annotated) (simp add: bare_mergeMetaData)
      then show ?thesis using Some x annotated_trans[OF x] by (simp add: e)
    qed (use x e in simp)
  qed simp_all
  moreover have "st' = registry_mergeMetaData s r other" "reg' = r" using copy sr(1) by (auto simp: copy_annotations_def)
  ultimately show "annotated st st'" "registry_ok st' reg'" "global_type reg' = global_type reg"
    using annotated_trans[OF sr(2)] annotated_registry[OF _ sr(3)] sr(4) by simp_all
qed

section \<open>Merging registries\<close>

lemma merge_types_ok:
  assumes src: "mergeable st0 S" and wf0: "wf_store st0"
    and entries: "\<forall>e \<in> set entries. reg_type (snd e) \<in> S" and inv: "merge_inv st0 S {} s"
  shows "result_ok (\<lambda>e. e \<noteq> OutOfFuel) (\<lambda>s'. merge_inv st0 S {} s' \<and> merge_grows s s' \<and>
      (\<forall>e \<in> set entries. \<not> isAlias st0 e \<longrightarrow> snd (snd s') (reg_type (snd e)) \<noteq> None))
    (merge_types (merge_fuel st0) tok s entries)"
  using entries inv unfolding merge_types_def
proof (induction entries arbitrary: s)
  case (Cons e es)
  let ?step = "\<lambda>s' e. if isAlias (fst s') e then Inr s'
       else bind_result (merge_rec (merge_fuel st0) tok (reg_type (snd e)) s') (\<lambda>(_, s''). Inr s'')"
  let ?t = "reg_type (snd e)"
  obtain st reg stack where s: "s = (st, reg, stack)" by (cases s) auto
  have t: "?t \<in> S" using Cons.prems(1) by simp
  have alias_same: "isAlias st e = isAlias st0 e"
    using source_kept[OF Cons.prems(2)[unfolded s] src t] by (simp add: isAlias_def store_extends_def)
  have "merge_depth st0 S stack ?t < merge_fuel st0"
  proof -
    have S: "S \<subseteq> {..< next_id st0}" using mergeableD(1)[OF src] wf_store_finite[OF wf0] by blast
    have "card (S - dom stack) \<le> card {..< next_id st0}" using S by (intro card_mono) auto
    then have "card (S - dom stack) * Suc (next_id st0) \<le> next_id st0 * Suc (next_id st0)" by (intro mult_le_mono1) simp
    moreover have "?t < next_id st0" using S t by blast
    ultimately show ?thesis unfolding merge_depth_def merge_fuel_def mult_Suc by linarith
  qed
  then have good: "merge_good st0 S {} ?t s (merge_rec (merge_fuel st0) tok ?t s)"
    using merge_rec_ok[OF src wf0 t, of "{}" st reg stack] Cons.prems(2) by (simp add: s)
  show ?case unfolding fold_result.simps
  proof (rule result_ok_bind)
    show "result_ok (\<lambda>e. e \<noteq> OutOfFuel) (\<lambda>s'. merge_inv st0 S {} s' \<and> merge_grows s s' \<and>
        (\<not> isAlias st0 e \<longrightarrow> snd (snd s') ?t \<noteq> None)) (?step s e)"
    proof (cases "isAlias st0 e")
      case False
      then show ?thesis using good alias_same unfolding merge_good_def
        by (cases "merge_rec (merge_fuel st0) tok ?t s") (auto simp: s)
    qed (use Cons.prems alias_same in \<open>simp add: s\<close>)
    fix s1 assume s1: "merge_inv st0 S {} s1 \<and> merge_grows s s1 \<and> (\<not> isAlias st0 e \<longrightarrow> snd (snd s1) ?t \<noteq> None)"
    have keep: "snd (snd s') ?t \<noteq> None" if "snd (snd s1) ?t \<noteq> None" "merge_grows s1 s'" for s'
      using that by (auto simp: merge_grows_def map_le_def dom_def split: prod.splits)
    show "result_ok (\<lambda>e. e \<noteq> OutOfFuel) (\<lambda>s'. merge_inv st0 S {} s' \<and> merge_grows s s' \<and>
        (\<forall>e \<in> set (e # es). \<not> isAlias st0 e \<longrightarrow> snd (snd s') (reg_type (snd e)) \<noteq> None)) (fold_result ?step s1 es)"
    proof (rule result_ok_mono[OF Cons.IH])
      fix s' assume s': "merge_inv st0 S {} s' \<and> merge_grows s1 s' \<and>
          (\<forall>e \<in> set es. \<not> isAlias st0 e \<longrightarrow> snd (snd s') (reg_type (snd e)) \<noteq> None)"
      then have "merge_grows s s'" using s1 merge_grows_trans by blast
      then show "merge_inv st0 S {} s' \<and> merge_grows s s' \<and>
          (\<forall>e \<in> set (e # es). \<not> isAlias st0 e \<longrightarrow> snd (snd s') (reg_type (snd e)) \<noteq> None)"
        using s' s1 keep by auto
    qed (use Cons.prems(1) s1 in auto)
  qed
qed simp

lemma isSame_returns:
  assumes "wf_store st" and "l \<in> dom (objects st)"
  shows "isSame st l r \<noteq> None"
proof -
  have "pending st [l \<mapsto> r] \<le> card (dom (objects st))"
    unfolding pending_def using finite_subset[OF wf_store_finite[OF assms(1)]] by (intro card_mono) auto
  also have "\<dots> \<le> next_id st" using card_mono[OF _ wf_store_finite[OF assms(1)]] by simp
  finally have "pending st [l \<mapsto> r] < compare_fuel st" by (simp add: compare_fuel_def)
  then show ?thesis using do_compare_returns[OF assms(1), of "compare_fuel st"] assms(2)
    unfolding comparison_returns_def isSame_def by fastforce
qed

lemma merge_alias_ok:
  assumes wf: "wf_store st" and acyclic: "indirect_acyclic st" and ok: "registry_ok st reg"
    and name: "canonical_name (fst e)" and known: "get reg (ty_name (type_at st (reg_type (snd e)))) \<noteq> None"
  shows "result_ok (\<lambda>x. x \<noteq> OutOfFuel) (\<lambda>reg'. registry_extends st reg reg' \<and> global_type reg' (fst e) \<noteq> None)
    (merge_alias tok st reg e)"
proof (cases "get reg (fst e)")
  case None
  have "result_ok (\<lambda>x. x \<noteq> OutOfFuel) (registry_extends st reg) (merge_alias tok st reg e)"
    "result_ok (\<lambda>x. x \<noteq> OutOfFuel) (\<lambda>reg'. global_type reg' (fst e) \<noteq> None) (merge_alias tok st reg e)"
    using None alias_persistent_ok(1)[OF acyclic ok name] result_ok_mono[OF alias_persistent_ok(2)[OF acyclic ok name]] known
    by (simp_all add: merge_alias_def)
  then show ?thesis by (cases "merge_alias tok st reg e") simp_all
next
  case (Some old)
  have glob: "global_type reg (fst e) = Some old"
    using Some registry_ok_absolute[OF ok, of "fst e"] name by (simp add: canonical_name_def)
  have "isSame st old (reg_type (snd e)) \<noteq> None" using isSame_returns[OF wf] registry_ok_type[OF ok glob] by blast
  then show ?thesis using Some glob ok
    by (cases "isSame st old (reg_type (snd e))") (auto simp: merge_alias_def registry_extends_def split: bool.splits)
qed

lemma merge_aliases_ok:
  assumes wf: "wf_store st" and acyclic: "indirect_acyclic st" and ok: "registry_ok st reg"
    and entries: "\<forall>e \<in> set entries. canonical_name (fst e) \<and> isAlias st e \<longrightarrow>
      global_type reg (ty_name (type_at st (reg_type (snd e)))) \<noteq> None"
    and names: "\<forall>e \<in> set entries. canonical_name (fst e) \<and> isAbsoluteName (ty_name (type_at st (reg_type (snd e))))"
  shows "result_ok (\<lambda>x. x \<noteq> OutOfFuel) (\<lambda>reg'. registry_extends st reg reg' \<and>
      (\<forall>e \<in> set entries. isAlias st e \<longrightarrow> global_type reg' (fst e) \<noteq> None))
    (fold_result (\<lambda>r e. if \<not> isAlias st e then Inr r else merge_alias tok st r e) reg entries)"
  using ok entries names
proof (induction entries arbitrary: reg)
  case Nil
  then show ?case by (simp add: registry_extends_def)
next
  case (Cons e es)
  show ?case unfolding fold_result.simps
  proof (rule result_ok_bind)
    show "result_ok (\<lambda>x. x \<noteq> OutOfFuel) (\<lambda>reg'. registry_extends st reg reg' \<and> (isAlias st e \<longrightarrow> global_type reg' (fst e) \<noteq> None))
        (if \<not> isAlias st e then Inr reg else merge_alias tok st reg e)"
    proof (cases "isAlias st e")
      case True
      have "get reg (ty_name (type_at st (reg_type (snd e)))) \<noteq> None"
        using Cons.prems True registry_ok_absolute[OF Cons.prems(1)] by simp
      from merge_alias_ok[OF wf acyclic Cons.prems(1) _ this] show ?thesis using Cons.prems(3) True by simp
    qed (use Cons.prems(1) in \<open>simp add: registry_extends_def\<close>)
    fix r assume r: "registry_extends st reg r \<and> (isAlias st e \<longrightarrow> global_type r (fst e) \<noteq> None)"
    then have le: "global_type reg \<subseteq>\<^sub>m global_type r" and ok': "registry_ok st r" by (simp_all add: registry_extends_def)
    have more: "global_type r n \<noteq> None" if "global_type reg n \<noteq> None" for n using that le by (auto simp: map_le_def dom_def)
    show "result_ok (\<lambda>x. x \<noteq> OutOfFuel) (\<lambda>reg'. registry_extends st reg reg' \<and>
        (\<forall>e \<in> set (e # es). isAlias st e \<longrightarrow> global_type reg' (fst e) \<noteq> None))
        (fold_result (\<lambda>r e. if \<not> isAlias st e then Inr r else merge_alias tok st r e) r es)"
    proof (rule result_ok_mono[OF Cons.IH[OF ok']])
      fix r' assume r': "registry_extends st r r' \<and> (\<forall>e \<in> set es. isAlias st e \<longrightarrow> global_type r' (fst e) \<noteq> None)"
      then have "global_type r' n \<noteq> None" if "global_type r n \<noteq> None" for n
        using that by (auto simp: registry_extends_def map_le_def dom_def)
      then show "registry_extends st reg r' \<and> (\<forall>e \<in> set (e # es). isAlias st e \<longrightarrow> global_type r' (fst e) \<noteq> None)"
        using r r' registry_extends_trans by auto
    qed (use Cons.prems more in auto)
  qed
qed

text \<open>
  What a merge establishes: the result is well formed and keeps every definition, every name
  of the other registry is defined, and a bisimulation relates each type of the other
  registry to the type its name means in the result.
\<close>

definition merged :: "store \<Rightarrow> Registry \<Rightarrow> Registry \<Rightarrow> store \<times> Registry \<Rightarrow> bool" where
  "merged st reg other r = (case r of (st', reg') \<Rightarrow>
     registry_ok st' reg' \<and> global_type reg \<subseteq>\<^sub>m global_type reg' \<and> dom (global_type other) \<subseteq> dom (global_type reg') \<and>
     (\<exists>R. bisimulation st' R \<and> (\<forall>n t. global_type other n = Some t \<longrightarrow> ty_name (type_at st t) = n \<longrightarrow>
        (\<exists>u. global_type reg' n = Some u \<and> (t, u) \<in> R))))"

text \<open>
  Two registries with types of their own, the destination without aliases (an alias of the
  destination would be propagated to the types that the merge adds).
\<close>

definition separate :: "store \<Rightarrow> Registry \<Rightarrow> Registry \<Rightarrow> bool" where
  "separate st reg other \<longleftrightarrow> wf_store st \<and> state_ok (st, reg) \<and> alias_free st reg \<and> registry_ok st other \<and>
     mergeable st (ran (global_type other)) \<and> ran (global_type reg) \<inter> ran (global_type other) = {}"

lemma merge_inv_start:
  assumes "separate st reg other"
  shows "merge_inv st (ran (global_type other)) {} (st, reg, Map.empty)"
proof (rule merge_invI)
  fix n u assume u: "global_type reg n = Some u"
  then have "u \<in> dom (objects st)" using assms registry_ok_type[of st reg n u] by (simp add: separate_def state_ok_def)
  then show "u \<notin> ran (global_type other) \<and> (u \<in> dom (objects st) \<or>
      (\<exists>t \<in> ran (global_type other). ty_name (type_at st t) = n \<and> Map.empty t = Some u))"
    using u assms by (auto simp: separate_def ran_def)
qed (use assms in \<open>auto simp: separate_def store_extends_def pairs_def\<close>)

text \<open>After the first loop every type of the other registry has a counterpart under its name.\<close>

lemma merged_own:
  assumes ok: "registry_ok st other" and inv: "merge_inv st (ran (global_type other)) {} (st1, reg1, stack)"
    and all: "\<forall>e \<in> set (m_global other). \<not> isAlias st e \<longrightarrow> stack (reg_type (snd e)) \<noteq> None"
    and t: "t \<in> ran (global_type other)"
  shows "\<exists>u. stack t = Some u \<and> global_type reg1 (ty_name (type_at st t)) = Some u \<and>
    (t, u) \<in> pairs (ran (global_type other)) stack"
proof -
  obtain n where "global_type other n = Some t" using t by (auto simp: ran_def)
  then have "global_type other (ty_name (type_at st t)) = Some t" using registry_ok_type[OF ok] by blast
  then obtain rt where "(ty_name (type_at st t), rt) \<in> set (m_global other)" "reg_type rt = t" using global_type_SomeD by blast
  then obtain u where u: "stack t = Some u" using all by (force simp: isAlias_def)
  then show ?thesis using merge_invD(12)[OF inv t u] merge_invD(9)[OF inv t u] t by (auto simp: pairs_def)
qed

lemma merged_copy:
  assumes ok: "registry_ok st other" and src: "mergeable st (ran (global_type other))"
    and inv: "merge_inv st (ran (global_type other)) {} (st1, reg1, stack)"
    and all: "\<forall>e \<in> set (m_global other). \<not> isAlias st e \<longrightarrow> stack (reg_type (snd e)) \<noteq> None"
    and le1: "global_type reg \<subseteq>\<^sub>m global_type reg1" and r2: "registry_extends st1 reg1 reg2"
    and aliases: "\<forall>e \<in> set (m_global other). isAlias st1 e \<longrightarrow> global_type reg2 (fst e) \<noteq> None"
  shows "merged st reg other (copy_annotations st1 reg2 other)"
proof -
  let ?S = "ran (global_type other)" and ?R = "pairs (ran (global_type other)) stack"
  obtain st' reg' where copy: "copy_annotations st1 reg2 other = (st', reg')" by (cases "copy_annotations st1 reg2 other") auto
  have ok2: "registry_ok st1 reg2" "global_type reg1 \<subseteq>\<^sub>m global_type reg2" using r2 by (simp_all add: registry_extends_def)
  note C = copy_annotations_ok[OF ok2(1) copy]
  have le: "global_type reg \<subseteq>\<^sub>m global_type reg'" "global_type reg1 \<subseteq>\<^sub>m global_type reg'"
    using map_le_trans[OF le1 ok2(2)] ok2(2) C(3) by simp_all
  have some: "\<exists>u. global_type reg' (ty_name (type_at st t)) = Some u \<and> (t, u) \<in> ?R" if t: "t \<in> ?S" for t
    using merged_own[OF ok inv all t] le(2) by (auto simp: map_le_def dom_def)
  have defined: "global_type reg' n \<noteq> None" if n: "global_type other n = Some t" for n t
  proof -
    obtain rt where e: "(n, rt) \<in> set (m_global other)" "reg_type rt = t" using global_type_SomeD[OF n] by blast
    have t: "t \<in> ?S" using n by (auto simp: ran_def)
    have "type_at st1 t = type_at st t" using source_kept[OF inv src t] by (simp add: store_extends_def)
    then show ?thesis using aliases e C(3) some[OF t] by (cases "isAlias st1 (n, rt)") (force simp: isAlias_def)+
  qed
  have "same_shape st' ?R a b" if "(a, b) \<in> ?R" for a b
    by (rule same_shape_bare[of st' a st1 b]) (use C(1) merge_invD(11)[OF inv that] in \<open>simp_all add: annotated_def\<close>)
  then have "bisimulation st' ?R" by (auto simp: bisimulation_def)
  moreover have "\<exists>u. global_type reg' n = Some u \<and> (t, u) \<in> ?R"
    if "global_type other n = Some t" "ty_name (type_at st t) = n" for n t
    using some[of t] that by (auto simp: ran_def)
  ultimately show ?thesis unfolding merged_def copy prod.case using C(2) le(1) defined by blast
qed

lemma registry_merge_ok:
  assumes sep: "separate st reg other"
  shows "result_ok (\<lambda>e. e \<noteq> OutOfFuel) (merged st reg other) (registry_merge tok st reg other)"
  unfolding registry_merge_def
proof (rule result_ok_bind)
  let ?S = "ran (global_type other)"
  have wf: "wf_store st" and src: "mergeable st ?S" and ok: "registry_ok st other"
    using sep by (simp_all add: separate_def)
  have entry: "global_type other (fst e) = Some (reg_type (snd e))" if "e \<in> set (m_global other)" for e
    using global_type_entry[OF ok, of "fst e" "snd e"] that by simp
  then have ran: "\<forall>e \<in> set (m_global other). reg_type (snd e) \<in> ?S" by (auto simp: ran_def)
  show "result_ok (\<lambda>e. e \<noteq> OutOfFuel) (\<lambda>s'. merge_inv st ?S {} s' \<and> merge_grows (st, reg, Map.empty) s' \<and>
      (\<forall>e \<in> set (m_global other). \<not> isAlias st e \<longrightarrow> snd (snd s') (reg_type (snd e)) \<noteq> None))
      (merge_types (merge_fuel st) tok (st, reg, Map.empty) (m_global other))"
    by (rule merge_types_ok[OF src wf ran merge_inv_start[OF sep]])
  fix s1 assume s1: "merge_inv st ?S {} s1 \<and> merge_grows (st, reg, Map.empty) s1 \<and>
      (\<forall>e \<in> set (m_global other). \<not> isAlias st e \<longrightarrow> snd (snd s1) (reg_type (snd e)) \<noteq> None)"
  obtain st1 reg1 stack where s1': "s1 = (st1, reg1, stack)" by (cases s1) auto
  have inv: "merge_inv st ?S {} (st1, reg1, stack)" and le1: "global_type reg \<subseteq>\<^sub>m global_type reg1"
    and all: "\<forall>e \<in> set (m_global other). \<not> isAlias st e \<longrightarrow> stack (reg_type (snd e)) \<noteq> None"
    using s1 by (simp_all add: s1' merge_grows_def)
  have names: "type_at st1 t = type_at st t" if "t \<in> ?S" for t
    using source_kept[OF inv src that] by (simp add: store_extends_def)
  have canonical: "canonical_name (fst e) \<and> isAbsoluteName (ty_name (type_at st1 (reg_type (snd e))))"
    if e: "e \<in> set (m_global other)" for e
    using registry_ok_type[OF ok entry[OF e]] registry_ok_type[OF ok, of "ty_name (type_at st (reg_type (snd e)))" "reg_type (snd e)"]
      names ran e by (auto simp: canonical_name_def)
  have known: "global_type reg1 (ty_name (type_at st1 (reg_type (snd e)))) \<noteq> None" if "e \<in> set (m_global other)" for e
    using merged_own[OF ok inv all] names ran that by fastforce
  show "result_ok (\<lambda>e. e \<noteq> OutOfFuel) (merged st reg other) (case s1 of (st1, reg1, _) \<Rightarrow>
     bind_result (fold_result (\<lambda>r e. if \<not> isAlias st1 e then Inr r else merge_alias tok st1 r e) reg1 (m_global other))
       (\<lambda>reg2. Inr (copy_annotations st1 reg2 other)))"
    unfolding s1' prod.case
    by (rule result_ok_bind[OF merge_aliases_ok[OF merge_invD(1,6,7)[OF inv]]])
      (use canonical known merged_copy[OF ok src inv all le1] in auto)
qed

section \<open>Examples and properties\<close>

text \<open>A linked list node, recursive through a pointer, to be merged into an empty registry.\<close>

definition node_type :: Type where
  "node_type = Type_ctor ''/Node'' 16 (Compound [\<lparr>fld_name = ''next'', fld_type = 4, fld_offset = 0, fld_metadata = []\<rparr>,
     \<lparr>fld_name = ''v'', fld_type = 2, fld_offset = 8, fld_metadata = []\<rparr>])"

definition node_store :: store where
  "node_store = \<lparr>objects =
     [2 \<mapsto> Numeric_ctor ''/int'' 4 SInt, 3 \<mapsto> node_type, 4 \<mapsto> Type_ctor ''/Node*'' 8 (Pointer 3)], next_id = 5\<rparr>"

definition registry_of :: "(string \<times> RegistryType) list \<Rightarrow> Registry" where
  "registry_of m = \<lparr>m_global = m, m_current = map_of m, m_namespace = ''/''\<rparr>"

definition node_registry :: Registry where
  "node_registry = registry_of [(''/Node'', example_entry 3), (''/Node*'', example_entry 4), (''/int'', example_entry 2)]"

lemma registry_of_ok:
  assumes "names_ok m" and "\<And>n t. map_option reg_type (map_of m n) = Some t \<Longrightarrow>
    t \<in> dom (objects st) \<and> map_option reg_type (map_of m (ty_name (type_at st t))) = Some t"
  shows "registry_ok st (registry_of m)"
  unfolding registry_ok_def
proof (intro conjI allI impI)
  fix n t assume "get (registry_of m) n = Some t"
  then have "global_type (registry_of m) ([] @ n) = Some t" by (simp add: registry_of_def get_def global_type_def)
  then show "\<exists>ns. global_type (registry_of m) (ns @ n) = Some t" by (rule exI)
qed (use assms in \<open>simp_all add: registry_of_def get_def global_type_def\<close>)

lemma node_types: "type_at node_store 2 = Numeric_ctor ''/int'' 4 SInt" "type_at node_store 3 = node_type"
  "type_at node_store 4 = Type_ctor ''/Node*'' 8 (Pointer 3)" "dom (objects node_store) = {2, 3, 4}"
  by (auto simp: node_store_def type_at_def)

lemma node_global: "global_type node_registry = [''/Node'' \<mapsto> 3, ''/Node*'' \<mapsto> 4, ''/int'' \<mapsto> 2]"
  by (auto simp: node_registry_def registry_of_def global_type_def example_entry_def fun_eq_iff)

lemma node_separate: "separate node_store start_registry node_registry"
proof -
  have ran: "ran (global_type node_registry) = {2, 3, 4}"
    unfolding node_global by (simp add: ran_map_upd) auto
  have kinds: "ty_kind (type_at node_store 2) = Numeric SInt" "ty_kind (type_at node_store 4) = Pointer 3"
    "kind_refs (ty_kind (type_at node_store 3)) = [4, 2]" "\<exists>fs. ty_kind (type_at node_store 3) = Compound fs"
    by (simp_all add: node_types Numeric_ctor_def node_type_def Type_ctor_def)
  have names: "ty_name (type_at node_store 2) = ''/int''" "ty_name (type_at node_store 3) = ''/Node''"
    "ty_name (type_at node_store 4) = ''/Node*''" "ty_size (type_at node_store 4) = 8"
    by (simp_all add: node_types Numeric_ctor_def node_type_def Type_ctor_def)
  have canonical: "canonical_name ''/int''" "canonical_name ''/Node''" "canonical_name ''/Node*''" by code_simp+
  have "wf_store node_store"
    by (auto simp: wf_store_def node_store_def Numeric_ctor_def node_type_def Type_ctor_def)
  moreover have "state_ok (node_store, start_registry)"
    by (auto simp: state_ok_def indirect_acyclic_def node_types(4) kinds registry_ok_def names_ok_def start_registry_def
        get_def global_type_def node_store_def type_at_def Numeric_ctor_def node_type_def Type_ctor_def)
  moreover have "registry_ok node_store node_registry"
    unfolding node_registry_def
  proof (rule registry_of_ok)
    show "names_ok [(''/Node'', example_entry 3), (''/Node*'', example_entry 4), (''/int'', example_entry 2)]"
      by (simp add: names_ok_def canonical_name_def isAbsoluteName_def NamespaceMark_def char_value_def)
  qed (use names in \<open>auto simp: node_types(4) example_entry_def split: if_splits\<close>)
  moreover have "mergeable node_store {2, 3, 4}"
    using kinds names canonical node_types(4)
    by (auto simp: mergeable_def closed_in_def inj_on_def derived_shape_def getPointerName_def)
  moreover have "alias_free node_store start_registry" by (simp add: alias_free_def start_registry_def global_type_def)
  moreover have "global_type start_registry = Map.empty" by (simp add: global_type_def start_registry_def fun_eq_iff)
  ultimately show ?thesis by (simp add: separate_def ran)
qed

text \<open>
  C4: \<open>Registry::merge\<close> terminates, and when it does not throw it is correct, types that are
  recursive through pointers and vectors included: the result is well formed, it keeps every
  definition of the destination, it defines every name of the other registry, and for each
  type of the other registry it has a type of the same name that no observation through
  references can tell apart from it (sizes, fields, offsets, dimensions, enumeration values,
  element types). This holds for registries that are \<open>separate\<close>: both are well formed and
  have objects of their own, which do not refer to the other registry; the destination has
  no aliases; there is no null type; in the other registry types have different names, arrays,
  pointers, vectors and strings have the names and sizes their constructors give them, and the
  element type of an array or a string does not lead back to it. The last condition is
  needed for arrays: \<open>Array::do_merge\<close> takes the size of an element that is still being
  merged, which may not be final.
\<close>

theorem registry_merge_correct:
  assumes "separate st reg other"
  shows "result_ok (\<lambda>e. e \<noteq> OutOfFuel) (merged st reg other) (registry_merge tok st reg other)"
  by (rule registry_merge_ok[OF assms])

theorem registry_merge_correct_witness:
  "\<exists>r. registry_merge example_tok node_store start_registry node_registry = Inr r \<and> merged node_store start_registry node_registry r"
proof -
  have "\<not> isl (registry_merge example_tok node_store start_registry node_registry)" by code_simp
  then obtain r where "registry_merge example_tok node_store start_registry node_registry = Inr r"
    by (cases "registry_merge example_tok node_store start_registry node_registry") auto
  then show ?thesis using registry_merge_correct[OF node_separate, of example_tok] by simp
qed

lemma resize_node_diverges:
  assumes "type_at st 3 = node_type" and "type_at st 4 = Type_ctor ''/Node*'' 8 (Pointer 3)"
    and "sizes ''/Node'' = None" and "sizes ''/Node*'' = None"
  shows "type_resize fuel node_registry 3 (st, sizes) = Inl OutOfFuel"
  using assms(1,2)
proof (induction fuel arbitrary: st rule: less_induct)
  case (less fuel)
  let ?st = "setOffset st 3 0 0"
  have upt: "[0..<length [a, b]] = [0, 1]" for a b :: Field by (simp add: upt_rec)
  have same: "type_at ?st 3 = node_type" "type_at ?st 4 = Type_ctor ''/Node*'' 8 (Pointer 3)"
    using less.prems by (simp_all add: setOffset_def update_type_def type_at_def node_type_def Type_ctor_def)
  have refs: "get_ref s node_registry 3 = Inr 3" if "type_at s 3 = node_type" for s
    using that by (simp add: get_ref_def get_def node_registry_def registry_of_def example_entry_def node_type_def Type_ctor_def)
  have refs4: "get_ref s node_registry 4 = Inr 4" if "type_at s 4 = Type_ctor ''/Node*'' 8 (Pointer 3)" for s
    using that by (simp add: get_ref_def get_def node_registry_def registry_of_def example_entry_def Type_ctor_def)
  have pointer: "type_resize f node_registry 4 (?st, sizes) = Inl OutOfFuel" if "f < fuel" for f
  proof (cases f)
    case (Suc m)
    have "type_resize m node_registry 3 (?st, sizes) = Inl OutOfFuel" using less.IH[of m ?st] Suc that same by simp
    then show ?thesis using Suc same assms(4) refs[OF same(1)]
      by (simp add: Let_def do_resize_def Indirect_do_resize_def Type_do_resize_def Type_ctor_def)
  qed simp
  show ?case
  proof (cases fuel)
    case (Suc m)
    have kind: "ty_kind (type_at st 3) = ty_kind node_type" "ty_name (type_at st 3) = ''/Node''"
      using less.prems by (simp_all add: node_type_def Type_ctor_def)
    have "resize_field (type_resize m node_registry) node_registry 3 (0, st, sizes) 0 = Inl OutOfFuel"
      using kind pointer[of m] Suc refs4[OF same(2)]
      by (simp add: resize_field_def node_type_def Type_ctor_def Let_def)
    then show ?thesis using Suc kind assms(3)
      by (simp add: Let_def do_resize_def Compound_do_resize_def node_type_def Type_ctor_def upt_rec)
  qed simp
qed

text \<open>
  \<open>Type::resize\<close> follows pointers and records a compound only after its fields were
  visited. On the registry of the list node, whose \<open>next\<close> pointer leads back to it, resizing
  \<open>/int\<close> does not return: whatever the depth, it needs more.
\<close>

theorem resize_recursive_diverges:
  "registry_resize fuel node_registry node_store [(''/int'', 8)] = Inl OutOfFuel"
proof -
  let ?st = "setSize node_store 2 8" and ?sizes = "[''/int'' \<mapsto> (4, 8)] :: SizeMap"
  have named: "resize_named node_registry (node_store, Map.empty) (''/int'', 8) = Inr (?st, ?sizes)"
    by (simp add: resize_named_def get_def node_registry_def registry_of_def example_entry_def size_insert_def node_types
        Numeric_ctor_def Type_ctor_def)
  have at: "type_at ?st 3 = node_type" "type_at ?st 4 = Type_ctor ''/Node*'' 8 (Pointer 3)"
    using node_types by (simp_all add: setSize_def update_type_def type_at_def)
  then have "type_resize fuel node_registry 3 (?st, ?sizes) = Inl OutOfFuel" by (intro resize_node_diverges) simp_all
  then have first: "type_resize fuel node_registry (reg_type (example_entry 3)) (?st, ?sizes) = Inl OutOfFuel"
    by (simp add: example_entry_def)
  obtain rest where rest: "m_global node_registry = (''/Node'', example_entry 3) # rest"
    by (simp add: node_registry_def registry_of_def)
  have "\<not> isAlias ?st (''/Node'', example_entry 3)"
    using at by (simp add: isAlias_def example_entry_def node_type_def Type_ctor_def)
  then show ?thesis by (simp add: registry_resize_def named rest first)
qed

text \<open>A compound with a field that grows and one that shrinks by as much.\<close>

definition cancel_store :: store where
  "cancel_store = \<lparr>objects =
     [2 \<mapsto> OpaqueType_ctor ''/A'' 4, 3 \<mapsto> OpaqueType_ctor ''/B'' 8,
      4 \<mapsto> Type_ctor ''/S'' 12 (Compound [\<lparr>fld_name = ''a'', fld_type = 2, fld_offset = 0, fld_metadata = []\<rparr>,
         \<lparr>fld_name = ''b'', fld_type = 3, fld_offset = 4, fld_metadata = []\<rparr>]),
      5 \<mapsto> Type_ctor ''/T'' 12 (Compound [\<lparr>fld_name = ''s'', fld_type = 4, fld_offset = 0, fld_metadata = []\<rparr>])], next_id = 6\<rparr>"

definition cancel_registry :: Registry where
  "cancel_registry = registry_of [(''/A'', example_entry 2), (''/B'', example_entry 3), (''/S'', example_entry 4), (''/T'', example_entry 5)]"

lemmas type_resize_numeral = type_resize.simps(2)[of "pred_numeral k" for k, folded numeral_eq_Suc]

text \<open>
  When the changes of the sizes of the fields cancel out, the new size is not recorded and the
  fields are moved again at every further visit: \<open>S\<close> has a field that grows by 4 bytes, one
  that shrinks by 4 bytes and is moved to offset 8, and \<open>T\<close> has a field of type \<open>S\<close>. The
  second visit moves the second field of \<open>S\<close> to offset 12, behind the end of its space.
\<close>

theorem resize_cancelled_twice:
  "map_option (\<lambda>t. case ty_kind (type_at (projr (registry_resize 4 cancel_registry cancel_store [(''/A'', 8), (''/B'', 4)])) t) of
     Compound flds \<Rightarrow> map fld_offset flds | _ \<Rightarrow> []) (get cancel_registry ''/S'') = Some [0, 12]"
  by (simp add: registry_resize_def resize_named_def cancel_registry_def registry_of_def get_def get_ref_def cancel_store_def
      example_entry_def isAlias_def size_insert_def setSize_def setOffset_def update_type_def type_at_def OpaqueType_ctor_def Type_ctor_def
      do_resize_def Compound_do_resize_def resize_field_def Type_do_resize_def type_resize_numeral upt_rec
      size_t_modulus_def sub_size_t_def Let_def)

end
