(* ===== verification/Exporter.thy ===== *)
theory Exporter
  imports MergeCorrect
begin

text \<open>
  Exporting a registry (\<open>exporter.cc\<close>): \<open>Exporter::save\<close> orders the types of a registry so that
  each comes after the types it depends on, keeps the types of a namespace together where it can,
  and hands them one by one to the virtual function \<open>save\<close> of the output format. The
  output is the parameter \<open>'o\<close>. \<open>grounded\<close> says which types can be exported at all; the theorem
  characterizes both outcomes exactly.
\<close>

type_synonym entry = "string \<times> RegistryType"

text \<open>What has to be saved before an entry: the aliased type, or the types its type depends on.\<close>

definition needs :: "store \<Rightarrow> entry \<Rightarrow> tid list" where
  "needs st e = (if isAlias st e then [reg_type (snd e)] else kind_refs (ty_kind (type_at st (reg_type (snd e)))))"

definition done_dependencies :: "store \<Rightarrow> tid set \<Rightarrow> entry \<Rightarrow> bool" where
  "done_dependencies st saved e \<longleftrightarrow> list_all (\<lambda>u. u \<in> saved) (needs st e)"

record 'o export_state =
  x_types :: "entry list"
  x_free :: "entry list"
  x_saved :: "tid set"
  x_last_namespace :: string
  x_out :: 'o

text \<open>The first inner loop: move the entries whose dependencies are saved to \<open>free_types\<close>.\<close>

definition collect_free :: "store \<Rightarrow> 'o export_state \<Rightarrow> 'o export_state" where
  "collect_free st s =
     s\<lparr>x_types := filter (\<lambda>e. \<not> done_dependencies st (x_saved s) e) (x_types s),
       x_free := fold (\<lambda>(name, rt). omap_insert nameSort name rt)
         (filter (done_dependencies st (x_saved s)) (x_types s)) (x_free s)\<rparr>"

text \<open>The second inner loop: drop the entries that are not persistent, they count as saved.\<close>

definition drop_derived :: "'o export_state \<Rightarrow> 'o export_state" where
  "drop_derived s =
     s\<lparr>x_free := filter (\<lambda>e. reg_persistent (snd e)) (x_free s),
       x_saved := x_saved s \<union> (reg_type \<circ> snd) ` {e \<in> set (x_free s). \<not> reg_persistent (snd e)}\<rparr>"

text \<open>The third one: save the entries of one namespace, from the iterator \<open>save_it\<close> on.\<close>

fun save_entries :: "('o \<Rightarrow> entry \<Rightarrow> (bool \<times> 'o) result) \<Rightarrow> string \<Rightarrow> tid set \<times> string \<times> 'o \<Rightarrow> entry list
    \<Rightarrow> (tid set \<times> string \<times> 'o) result" where
  "save_entries save ns s [] = Inr s"
| "save_entries save ns (saved, last_namespace, out) (e # es) =
     bind_result (save out e) (\<lambda>(written, out').
     save_entries save ns (insert (reg_type (snd e)) saved, if written then ns else last_namespace, out') es)"

definition save_namespace :: "('o \<Rightarrow> entry \<Rightarrow> (bool \<times> 'o) result) \<Rightarrow> 'o export_state \<Rightarrow> 'o export_state result" where
  "save_namespace save s =
     (let same = (\<lambda>ns e. getNamespace (fst e) = ns);
          skipped = takeWhile (\<lambda>e. \<not> same (x_last_namespace s) e) (x_free s);
          skipped' = (if skipped = x_free s then [] else skipped);
          from_save_it = drop (length skipped') (x_free s);
          ns = getNamespace (fst (hd from_save_it));
          group = takeWhile (same ns) from_save_it
      in bind_result (save_entries save ns (x_saved s, x_last_namespace s, x_out s) group) (\<lambda>(saved, last_ns, out).
         Inr (s\<lparr>x_free := skipped' @ dropWhile (same ns) from_save_it, x_saved := saved, x_last_namespace := last_ns, x_out := out\<rparr>)))"

text \<open>
  The main loop, then the remaining free types. Each round removes an entry from \<open>types\<close> and
  \<open>free_types\<close>, so the fuel is their number.
\<close>

fun export_loop :: "nat \<Rightarrow> store \<Rightarrow> ('o \<Rightarrow> entry \<Rightarrow> (bool \<times> 'o) result) \<Rightarrow> 'o export_state \<Rightarrow> 'o export_state result" where
  "export_loop 0 st save s = (if x_types s = [] then Inr s else Inl OutOfFuel)"
| "export_loop (Suc fuel) st save s =
     (if x_types s = [] then Inr s
      else
        let s1 = collect_free st s in
        if x_free s1 = [] then Inl (ExportError (map fst (x_types s1)))
        else
          let s2 = drop_derived s1 in
          if list_ex (\<lambda>e. \<not> reg_persistent (snd e)) (x_free s1) then export_loop fuel st save s2
          else bind_result (save_namespace save s2) (export_loop fuel st save))"

definition Exporter_save :: "('o \<Rightarrow> Registry \<Rightarrow> 'o) \<Rightarrow> ('o \<Rightarrow> entry \<Rightarrow> (bool \<times> 'o) result) \<Rightarrow> ('o \<Rightarrow> Registry \<Rightarrow> 'o)
    \<Rightarrow> store \<Rightarrow> Registry \<Rightarrow> 'o \<Rightarrow> 'o result" where
  "Exporter_save begin_export save end_export st reg stream =
     bind_result (export_loop (length (m_global reg)) st save
       \<lparr>x_types = m_global reg, x_free = [], x_saved = {}, x_last_namespace = [], x_out = begin_export stream reg\<rparr>) (\<lambda>s.
     bind_result (fold_result (\<lambda>out e. bind_result (save out e) (\<lambda>(_, out'). Inr out')) (x_out s)
       (filter (\<lambda>e. reg_persistent (snd e)) (x_free s))) (\<lambda>out.
     Inr (end_export out reg)))"

section \<open>The order of the export\<close>

text \<open>The types that do not depend on themselves or on types outside of the registry.\<close>

inductive grounded :: "store \<Rightarrow> Registry \<Rightarrow> tid \<Rightarrow> bool" for st reg where
  "t \<in> ran (global_type reg) \<Longrightarrow> (\<And>u. u \<in> set (kind_refs (ty_kind (type_at st t))) \<Longrightarrow> grounded st reg u) \<Longrightarrow> grounded st reg t"

text \<open>Every entry of the list comes after the persistent entries of what it needs.\<close>

definition dependency_order :: "store \<Rightarrow> Registry \<Rightarrow> entry list \<Rightarrow> bool" where
  "dependency_order st reg es \<longleftrightarrow> (\<forall>i < length es. \<forall>u \<in> set (needs st (es ! i)). \<forall>e \<in> set (m_global reg).
     \<not> isAlias st e \<and> reg_type (snd e) = u \<and> reg_persistent (snd e) \<longrightarrow> e \<in> set (take i es))"

text \<open>
  The invariant of the export: \<open>T\<close> are the entries that wait, \<open>F\<close> the free ones, and the others
  are finished and, when they are persistent, written.
\<close>

definition export_inv :: "store \<Rightarrow> Registry \<Rightarrow> entry set \<Rightarrow> entry set \<Rightarrow> tid set \<Rightarrow> entry list \<Rightarrow> bool" where
  "export_inv st reg T F saved out \<longleftrightarrow> T \<subseteq> set (m_global reg) \<and> F \<subseteq> set (m_global reg) \<and> T \<inter> F = {} \<and>
     set out \<subseteq> set (m_global reg) - T - F \<and> distinct out \<and> (\<forall>e \<in> F. done_dependencies st saved e) \<and>
     (\<forall>e \<in> set (m_global reg) - T - F. reg_type (snd e) \<in> saved \<and> (reg_persistent (snd e) \<longrightarrow> e \<in> set out)) \<and>
     saved \<subseteq> Collect (grounded st reg) \<and>
     (\<forall>e \<in> set (m_global reg). \<not> isAlias st e \<and> reg_type (snd e) \<in> saved \<longrightarrow> e \<notin> T \<union> F) \<and>
     (\<forall>e \<in> set out. reg_persistent (snd e)) \<and> dependency_order st reg out"

lemma export_inv_start: "export_inv st reg (set (m_global reg)) {} {} []"
  by (simp add: export_inv_def dependency_order_def)

lemma export_inv_free:
  assumes "export_inv st reg T F saved out"
  shows "export_inv st reg {e \<in> T. \<not> done_dependencies st saved e} (F \<union> {e \<in> T. done_dependencies st saved e}) saved out"
  using assms unfolding export_inv_def by (intro conjI) (blast | simp)+

lemma entry_unique:
  assumes "registry_ok st reg" and "e \<in> set (m_global reg)" and "e' \<in> set (m_global reg)" and "fst e = fst e'"
  shows "e = e'"
  using assms nameSort_map.omap_sorted_distinct[OF registry_ok_sorted[OF assms(1)]]
  by (metis eq_key_imp_eq_value prod.collapse)

lemma own_entry:
  assumes "registry_ok st reg" and "t \<in> ran (global_type reg)"
  obtains e where "e \<in> set (m_global reg)" and "\<not> isAlias st e" and "reg_type (snd e) = t"
proof -
  obtain n where "global_type reg n = Some t" using assms(2) by (auto simp: ran_def)
  then have "global_type reg (ty_name (type_at st t)) = Some t" using registry_ok_type[OF assms(1)] by blast
  then obtain rt where "(ty_name (type_at st t), rt) \<in> set (m_global reg)" "reg_type rt = t" by (blast dest: global_type_SomeD)
  then show thesis using that[of "(ty_name (type_at st t), rt)"] by (simp add: isAlias_def)
qed

lemma entry_registered: "registry_ok st reg \<Longrightarrow> e \<in> set (m_global reg) \<Longrightarrow> reg_type (snd e) \<in> ran (global_type reg)"
  using global_type_entry[of st reg "fst e" "snd e"] by (auto simp: ran_def)

lemma done_mono: "done_dependencies st saved e \<Longrightarrow> saved \<subseteq> saved' \<Longrightarrow> done_dependencies st saved' e"
  by (auto simp: done_dependencies_def list_all_iff)

lemma dependency_order_snoc:
  assumes "dependency_order st reg out"
    and "\<And>u e'. u \<in> set (needs st e) \<Longrightarrow> e' \<in> set (m_global reg) \<Longrightarrow> \<not> isAlias st e' \<Longrightarrow> reg_type (snd e') = u \<Longrightarrow>
      reg_persistent (snd e') \<Longrightarrow> e' \<in> set out"
  shows "dependency_order st reg (out @ [e])"
  using assms unfolding dependency_order_def by (auto simp: nth_append less_Suc_eq)

text \<open>An entry whose dependencies are saved is finished.\<close>

lemma export_inv_finish:
  assumes ok: "registry_ok st reg" and inv: "export_inv st reg T F saved out" and e: "e \<in> F"
  shows "export_inv st reg T (F - {e}) (insert (reg_type (snd e)) saved) (if reg_persistent (snd e) then out @ [e] else out)"
proof -
  let ?t = "reg_type (snd e)" and ?out = "if reg_persistent (snd e) then out @ [e] else out"
  have I: "T \<subseteq> set (m_global reg)" "F \<subseteq> set (m_global reg)" "T \<inter> F = {}" "set out \<subseteq> set (m_global reg) - T - F" "distinct out"
    "\<forall>e \<in> F. done_dependencies st saved e"
    "\<forall>e \<in> set (m_global reg) - T - F. reg_type (snd e) \<in> saved \<and> (reg_persistent (snd e) \<longrightarrow> e \<in> set out)"
    "saved \<subseteq> Collect (grounded st reg)"
    "\<forall>e \<in> set (m_global reg). \<not> isAlias st e \<and> reg_type (snd e) \<in> saved \<longrightarrow> e \<notin> T \<union> F"
    "\<forall>e \<in> set out. reg_persistent (snd e)" "dependency_order st reg out"
    using inv unfolding export_inv_def by blast+
  have eG: "e \<in> set (m_global reg)" using I(2) e by blast
  have ready: "u \<in> saved" if "u \<in> set (needs st e)" for u
    using I(6) e that by (auto simp: done_dependencies_def list_all_iff)
  have ground: "grounded st reg ?t"
  proof (cases "isAlias st e")
    case True
    then have "?t \<in> saved" using ready[of ?t] by (simp add: needs_def)
    then show ?thesis using I(8) by blast
  next
    case False
    have "grounded st reg u" if "u \<in> set (kind_refs (ty_kind (type_at st ?t)))" for u
      using ready[of u] I(8) that False by (auto simp: needs_def)
    with entry_registered[OF ok eG] show ?thesis by (rule grounded.intros)
  qed
  have only: "e' \<notin> T \<union> (F - {e})" if "e' \<in> set (m_global reg)" "\<not> isAlias st e'" "reg_type (snd e') \<in> insert ?t saved" for e'
  proof (cases "reg_type (snd e') \<in> saved")
    case False
    then have t: "reg_type (snd e') = ?t" using that by simp
    have "\<not> isAlias st e" using False t ready[of ?t] by (auto simp: needs_def)
    then have "fst e = fst e'" using that(2) t by (simp add: isAlias_def)
    then show ?thesis using entry_unique[OF ok eG that(1)] I(3) e by blast
  qed (use that I(9) in blast)
  have "e' \<in> set out" if "u \<in> set (needs st e)" "e' \<in> set (m_global reg)" "\<not> isAlias st e'" "reg_type (snd e') = u" "reg_persistent (snd e')" for u e'
    using that(2-5) ready[OF that(1)] I(7,9) by blast
  then have "dependency_order st reg (out @ [e])" by (rule dependency_order_snoc[OF I(11)])
  then have order: "dependency_order st reg ?out" using I(11) by simp
  have kept: "set ?out \<subseteq> set (m_global reg) - T - (F - {e})" "distinct ?out" "\<forall>e \<in> set ?out. reg_persistent (snd e)"
    using I(3,4,5,10) e eG by auto
  have finished: "\<forall>e' \<in> set (m_global reg) - T - (F - {e}). reg_type (snd e') \<in> insert ?t saved \<and> (reg_persistent (snd e') \<longrightarrow> e' \<in> set ?out)"
    using I(7) by auto
  have "\<forall>e' \<in> F - {e}. done_dependencies st (insert ?t saved) e'" using I(6) done_mono by blast
  then show ?thesis unfolding export_inv_def
    using I(1,2,3,8) kept finished order only ground by (intro conjI) blast+
qed

lemma export_inv_derived:
  assumes ok: "registry_ok st reg" and "finite D" and "\<forall>e \<in> D. \<not> reg_persistent (snd e)" and "export_inv st reg T F saved out" and "D \<subseteq> F"
  shows "export_inv st reg T (F - D) (saved \<union> (reg_type \<circ> snd) ` D) out"
  using assms(2-5)
proof (induction D arbitrary: F saved rule: finite_induct)
  case (insert e D)
  have "export_inv st reg T (F - {e}) (insert (reg_type (snd e)) saved) out"
    using export_inv_finish[OF ok insert.prems(2), of e] insert.prems by simp
  then have "export_inv st reg T (F - {e} - D) (insert (reg_type (snd e)) saved \<union> (reg_type \<circ> snd) ` D) out"
    by (rule insert.IH[rotated]) (use insert in auto)
  moreover have "F - {e} - D = F - insert e D" by blast
  ultimately show ?case by simp
qed simp

text \<open>An output that records the entries; \<open>written\<close> says what \<open>save\<close> returns.\<close>

definition record_entry :: "(entry list \<Rightarrow> entry \<Rightarrow> bool) \<Rightarrow> entry list \<Rightarrow> entry \<Rightarrow> (bool \<times> entry list) result" where
  "record_entry written out e = Inr (written out e, out @ [e])"

lemma save_entries_ok:
  assumes ok: "registry_ok st reg" and "distinct es" and "\<forall>e \<in> set es. reg_persistent (snd e)"
    and "export_inv st reg T F saved out" and "set es \<subseteq> F"
  shows "\<exists>saved' last'. save_entries (record_entry written) ns (saved, last_ns, out) es = Inr (saved', last', out @ es) \<and>
    export_inv st reg T (F - set es) saved' (out @ es)"
  using assms(2-5)
proof (induction es arbitrary: F saved last_ns out)
  case (Cons e es)
  let ?last = "if written out e then ns else last_ns"
  have "export_inv st reg T (F - {e}) (insert (reg_type (snd e)) saved) (out @ [e])"
    using export_inv_finish[OF ok Cons.prems(3), of e] Cons.prems by simp
  then have "\<exists>saved' last'. save_entries (record_entry written) ns (insert (reg_type (snd e)) saved, ?last, out @ [e]) es =
      Inr (saved', last', (out @ [e]) @ es) \<and> export_inv st reg T (F - {e} - set es) saved' ((out @ [e]) @ es)"
    by (rule Cons.IH[rotated 2]) (use Cons.prems in auto)
  moreover have "F - {e} - set es = F - set (e # es)" by auto
  ultimately show ?case by (simp add: record_entry_def[of written out e])
qed simp

lemma omap_insert_new:
  "k \<notin> fst ` set m \<Longrightarrow> set (omap_insert nameSort k v m) = insert (k, v) (set m) \<and> length (omap_insert nameSort k v m) = Suc (length m)"
proof (induction m)
  case (Cons e m)
  then show ?case using nameSort_map.lt_neither by (cases e) auto
qed simp

lemma fold_insert_new:
  assumes "omap_sorted nameSort m" and "distinct (map fst es)" and "fst ` set es \<inter> fst ` set m = {}"
  shows "let m' = fold (\<lambda>(n, rt). omap_insert nameSort n rt) es m in
    omap_sorted nameSort m' \<and> set m' = set es \<union> set m \<and> length m' = length es + length m"
  using assms
proof (induction es arbitrary: m)
  case (Cons e es)
  obtain n rt where e: "e = (n, rt)" by fastforce
  let ?m = "omap_insert nameSort n rt m"
  have new: "set ?m = insert (n, rt) (set m)" "length ?m = Suc (length m)" using omap_insert_new[of n m rt] Cons.prems(3) e by auto
  have "omap_sorted nameSort ?m" "distinct (map fst es)" "fst ` set es \<inter> fst ` set ?m = {}"
    using Cons.prems new nameSort_map.omap_sorted_insert e by auto
  from Cons.IH[OF this] show ?case using e new by (simp add: Let_def)
qed simp

definition exports :: "store \<Rightarrow> Registry \<Rightarrow> entry list export_state \<Rightarrow> bool" where
  "exports st reg s \<longleftrightarrow> (\<exists>P. x_types s = filter P (m_global reg)) \<and> omap_sorted nameSort (x_free s) \<and>
     export_inv st reg (set (x_types s)) (set (x_free s)) (x_saved s) (x_out s)"

definition waiting :: "'o export_state \<Rightarrow> nat" where
  "waiting s = length (x_types s) + length (x_free s)"

lemma collect_free_ok:
  assumes ok: "registry_ok st reg" and s: "exports st reg s"
  shows "exports st reg (collect_free st s)" "waiting (collect_free st s) = waiting s"
proof -
  let ?D = "filter (done_dependencies st (x_saved s)) (x_types s)"
  have inv: "export_inv st reg (set (x_types s)) (set (x_free s)) (x_saved s) (x_out s)" and sorted: "omap_sorted nameSort (x_free s)"
    using s by (simp_all add: exports_def)
  obtain P where P: "x_types s = filter P (m_global reg)" using s by (auto simp: exports_def)
  have dist: "distinct (map fst (m_global reg))" using nameSort_map.omap_sorted_distinct[OF registry_ok_sorted[OF ok]] .
  have D: "distinct (map fst ?D)" using dist unfolding P by (simp add: distinct_map_filter)
  have "fst ` set (x_types s) \<inter> fst ` set (x_free s) = {}"
  proof (rule ccontr)
    assume "fst ` set (x_types s) \<inter> fst ` set (x_free s) \<noteq> {}"
    then obtain e e' where "e \<in> set (x_types s)" "e' \<in> set (x_free s)" "fst e = fst e'" by blast
    then show False using inv entry_unique[OF ok, of e e'] unfolding export_inv_def by blast
  qed
  then have "fst ` set ?D \<inter> fst ` set (x_free s) = {}" by auto
  note new = fold_insert_new[OF sorted D this, unfolded Let_def]
  have "set (x_free (collect_free st s)) = set (x_free s) \<union> {e \<in> set (x_types s). done_dependencies st (x_saved s) e}"
    using new by (auto simp: collect_free_def)
  then have "export_inv st reg (set (x_types (collect_free st s))) (set (x_free (collect_free st s))) (x_saved s) (x_out s)"
    using export_inv_free[OF inv] by (simp add: collect_free_def)
  moreover have "\<exists>Q. x_types (collect_free st s) = filter Q (m_global reg)" using P by (auto simp: collect_free_def)
  ultimately show "exports st reg (collect_free st s)" using new by (simp add: exports_def collect_free_def)
  show "waiting (collect_free st s) = waiting s" using new sum_length_filter_compl[of "done_dependencies st (x_saved s)" "x_types s"]
    by (simp add: waiting_def collect_free_def)
qed

lemma drop_derived_ok:
  assumes ok: "registry_ok st reg" and s: "exports st reg s"
  shows "exports st reg (drop_derived s)" "waiting (drop_derived s) \<le> waiting s"
    "list_ex (\<lambda>e. \<not> reg_persistent (snd e)) (x_free s) \<Longrightarrow> waiting (drop_derived s) < waiting s"
proof -
  let ?D = "{e \<in> set (x_free s). \<not> reg_persistent (snd e)}"
  have "export_inv st reg (set (x_types s)) (set (x_free s) - ?D) (x_saved s \<union> (reg_type \<circ> snd) ` ?D) (x_out s)"
    by (rule export_inv_derived[OF ok]) (use s in \<open>auto simp: exports_def\<close>)
  moreover have "set (x_free s) - ?D = {e \<in> set (x_free s). reg_persistent (snd e)}" by blast
  ultimately show "exports st reg (drop_derived s)"
    using s by (simp add: exports_def drop_derived_def omap_sorted_filter)
  show "waiting (drop_derived s) \<le> waiting s" by (simp add: waiting_def drop_derived_def)
  show "waiting (drop_derived s) < waiting s" if "list_ex (\<lambda>e. \<not> reg_persistent (snd e)) (x_free s)"
    using that length_filter_less[of _ "x_free s" "\<lambda>e. reg_persistent (snd e)"]
    by (auto simp: waiting_def drop_derived_def list_ex_iff)
qed

lemma omap_sorted_append: "omap_sorted lt (xs @ ys @ zs) \<Longrightarrow> omap_sorted lt (xs @ zs)"
  by (auto simp: omap_sorted_def sorted_wrt_append)

lemma save_namespace_ok:
  assumes ok: "registry_ok st reg" and s: "exports st reg s" and nonempty: "x_free s \<noteq> []"
    and persistent: "\<forall>e \<in> set (x_free s). reg_persistent (snd e)"
  shows "\<exists>s'. save_namespace (record_entry written) s = Inr s' \<and> exports st reg s' \<and> waiting s' < waiting s"
proof -
  define before where "before = takeWhile (\<lambda>e. getNamespace (fst e) \<noteq> x_last_namespace s) (x_free s)"
  define before' where "before' = (if before = x_free s then [] else before)"
  define from_it where "from_it = drop (length before') (x_free s)"
  define ns where "ns = getNamespace (fst (hd from_it))"
  define group where "group = takeWhile (\<lambda>e. getNamespace (fst e) = ns) from_it"
  define rest where "rest = dropWhile (\<lambda>e. getNamespace (fst e) = ns) from_it"
  have "x_free s = before' @ from_it"
    using takeWhile_dropWhile_id[of "\<lambda>e. getNamespace (fst e) \<noteq> x_last_namespace s" "x_free s"]
    by (simp add: from_it_def before'_def before_def dropWhile_eq_drop[symmetric])
  moreover from this have "from_it \<noteq> []" using nonempty by (auto simp: before'_def split: if_splits)
  moreover from this have group: "group \<noteq> []" by (cases from_it) (simp_all add: group_def ns_def)
  moreover have "group @ rest = from_it" by (simp add: group_def rest_def)
  ultimately have free: "x_free s = before' @ group @ rest" by simp
  have sorted: "omap_sorted nameSort (before' @ group @ rest)" and
    inv: "export_inv st reg (set (x_types s)) (set (before' @ group @ rest)) (x_saved s) (x_out s)"
    using s free by (simp_all add: exports_def)
  have dist: "distinct (before' @ group @ rest)"
    using nameSort_map.omap_sorted_distinct[OF sorted] unfolding distinct_map by (rule conjunct1)
  obtain saved' last' where save: "save_entries (record_entry written) ns (x_saved s, x_last_namespace s, x_out s) group = Inr (saved', last', x_out s @ group)"
    and inv': "export_inv st reg (set (x_types s)) (set (before' @ group @ rest) - set group) saved' (x_out s @ group)"
    using save_entries_ok[OF ok _ _ inv, of group written ns "x_last_namespace s"] dist persistent free by auto
  let ?s = "s\<lparr>x_free := before' @ rest, x_saved := saved', x_last_namespace := last', x_out := x_out s @ group\<rparr>"
  have "set (before' @ group @ rest) - set group = set (before' @ rest)" using dist by auto
  then have "exports st reg ?s" using s inv' omap_sorted_append[OF sorted] by (simp add: exports_def)
  moreover have "save_namespace (record_entry written) s = Inr ?s"
    unfolding save_namespace_def Let_def before_def[symmetric] before'_def[symmetric] from_it_def[symmetric]
      ns_def[symmetric] group_def[symmetric] rest_def[symmetric] by (simp add: save)
  moreover have "waiting ?s < waiting s" using group free by (simp add: waiting_def)
  ultimately show ?thesis by blast
qed

text \<open>When no entry is free and none can become free, the entries that wait are those of types that are not grounded.\<close>

lemma export_stuck:
  assumes ok: "registry_ok st reg" and s: "exports st reg s" and "x_free s = []"
    and stuck: "\<forall>e \<in> set (x_types s). \<not> done_dependencies st (x_saved s) e"
  shows "x_types s = filter (\<lambda>e. \<not> grounded st reg (reg_type (snd e))) (m_global reg)"
proof -
  have inv: "export_inv st reg (set (x_types s)) {} (x_saved s) (x_out s)" using s assms(3) by (simp add: exports_def)
  have saved: "t \<in> x_saved s" if "grounded st reg t" for t
    using that
  proof (induction rule: grounded.induct)
    case (1 t)
    obtain e where e: "e \<in> set (m_global reg)" "\<not> isAlias st e" "reg_type (snd e) = t" by (rule own_entry[OF ok 1(1)])
    have "done_dependencies st (x_saved s) e" using 1 e by (simp add: done_dependencies_def needs_def list_all_iff)
    then have "e \<notin> set (x_types s)" using stuck by blast
    then show ?case using inv e unfolding export_inv_def by blast
  qed
  obtain P where P: "x_types s = filter P (m_global reg)" using s by (auto simp: exports_def)
  have "P e \<longleftrightarrow> \<not> grounded st reg (reg_type (snd e))" if e: "e \<in> set (m_global reg)" for e
  proof
    assume "P e"
    then have waits: "e \<in> set (x_types s)" using P e by simp
    show "\<not> grounded st reg (reg_type (snd e))"
    proof
      assume "grounded st reg (reg_type (snd e))"
      then have "reg_type (snd e) \<in> x_saved s" by (rule saved)
      then show False using waits stuck inv e unfolding export_inv_def
        by (cases "isAlias st e") (auto simp: done_dependencies_def needs_def)
    qed
  next
    assume "\<not> grounded st reg (reg_type (snd e))"
    then show "P e" using inv e P unfolding export_inv_def by auto
  qed
  then show ?thesis unfolding P by (rule filter_cong[OF refl])
qed

lemma export_loop_ok:
  assumes ok: "registry_ok st reg" and "exports st reg s" and "waiting s \<le> fuel"
  shows "(\<exists>s'. export_loop fuel st (record_entry written) s = Inr s' \<and> exports st reg s' \<and> x_types s' = []) \<or>
    export_loop fuel st (record_entry written) s =
      Inl (ExportError (map fst (filter (\<lambda>e. \<not> grounded st reg (reg_type (snd e))) (m_global reg)))) \<and>
    (\<exists>e \<in> set (m_global reg). \<not> grounded st reg (reg_type (snd e)))"
  using assms(2,3)
proof (induction fuel arbitrary: s)
  case (Suc fuel)
  let ?s1 = "collect_free st s" and ?s2 = "drop_derived (collect_free st s)"
  note free = collect_free_ok[OF ok Suc.prems(1)]
  note derived = drop_derived_ok[OF ok free(1)]
  show ?case
  proof (cases "x_types s = []")
    case types: False
    show ?thesis
    proof (cases "x_free ?s1 = []")
      case True
      have "x_types ?s1 = filter (\<lambda>e. \<not> grounded st reg (reg_type (snd e))) (m_global reg)"
        by (rule export_stuck[OF ok free(1) True]) (simp add: collect_free_def)
      moreover have "x_types ?s1 \<noteq> []" using free(2) True types by (auto simp: waiting_def)
      ultimately show ?thesis using True types by (auto simp: Let_def filter_empty_conv)
    next
      case False
      show ?thesis
      proof (cases "list_ex (\<lambda>e. \<not> reg_persistent (snd e)) (x_free ?s1)")
        case True
        have "waiting ?s2 \<le> fuel" using derived(3)[OF True] free(2) Suc.prems(2) by simp
        from Suc.IH[OF derived(1) this] show ?thesis using True False types by (simp add: Let_def)
      next
        case persistent: False
        have same: "x_free ?s2 = x_free ?s1" using persistent by (simp add: drop_derived_def list_ex_iff)
        obtain s' where s': "save_namespace (record_entry written) ?s2 = Inr s'" "exports st reg s'" "waiting s' < waiting ?s2"
          using save_namespace_ok[OF ok derived(1), of written] False same persistent by (auto simp: list_ex_iff)
        have "waiting s' \<le> fuel" using s'(3) derived(2) free(2) Suc.prems(2) by linarith
        from Suc.IH[OF s'(2) this] show ?thesis using s'(1) persistent False types by (simp add: Let_def)
      qed
    qed
  qed (use Suc.prems in auto)
qed (auto simp: waiting_def)

lemma export_result:
  assumes ok: "registry_ok st reg"
  shows "(\<exists>out. Exporter_save (\<lambda>out _. out) (record_entry written) (\<lambda>out _. out) st reg [] = Inr out \<and> distinct out \<and>
      set out = {e \<in> set (m_global reg). reg_persistent (snd e)} \<and> dependency_order st reg out \<and>
      (\<forall>e \<in> set (m_global reg). grounded st reg (reg_type (snd e)))) \<or>
    Exporter_save (\<lambda>out _. out) (record_entry written) (\<lambda>out _. out) st reg [] =
      Inl (ExportError (map fst (filter (\<lambda>e. \<not> grounded st reg (reg_type (snd e))) (m_global reg)))) \<and>
    (\<exists>e \<in> set (m_global reg). \<not> grounded st reg (reg_type (snd e)))"
proof -
  let ?s = "\<lparr>x_types = m_global reg, x_free = [], x_saved = {}, x_last_namespace = [], x_out = []\<rparr> :: entry list export_state"
  have fuel: "waiting ?s \<le> length (m_global reg)" by (simp add: waiting_def)
  have "exports st reg ?s" using export_inv_start[of st reg] by (auto simp: exports_def intro: exI[of _ "\<lambda>_. True"])
  from export_loop_ok[OF ok this fuel, of written] show ?thesis
  proof (elim disjE exE conjE)
    fix s' assume loop: "export_loop (length (m_global reg)) st (record_entry written) ?s = Inr s'"
      and s': "exports st reg s'" "x_types s' = []"
    let ?es = "filter (\<lambda>e. reg_persistent (snd e)) (x_free s')"
    have inv: "export_inv st reg {} (set ?es) (x_saved (drop_derived s')) (x_out s')"
      using drop_derived_ok(1)[OF ok s'(1)] s'(2) by (simp add: exports_def drop_derived_def)
    have dist: "distinct ?es"
      using nameSort_map.omap_sorted_distinct[of "x_free s'"] s'(1) by (simp add: exports_def distinct_map)
    obtain saved where final: "export_inv st reg {} {} saved (x_out s' @ ?es)"
      using save_entries_ok[OF ok dist _ inv, of written "[]" "[]"] by auto
    have recorded: "fold_result (\<lambda>out e. bind_result (record_entry written out e) (\<lambda>(_, out'). Inr out')) out es = Inr (out @ es)" for out es
      by (induction es arbitrary: out) (simp_all add: record_entry_def)
    have "Exporter_save (\<lambda>out _. out) (record_entry written) (\<lambda>out _. out) st reg [] = Inr (x_out s' @ ?es)"
      using loop by (simp add: Exporter_save_def recorded)
    moreover have "distinct (x_out s' @ ?es)" "set (x_out s' @ ?es) = {e \<in> set (m_global reg). reg_persistent (snd e)}"
      "dependency_order st reg (x_out s' @ ?es)" "\<forall>e \<in> set (m_global reg). grounded st reg (reg_type (snd e))"
      using final unfolding export_inv_def by blast+
    ultimately show ?thesis by blast
  next
    assume "export_loop (length (m_global reg)) st (record_entry written) ?s =
        Inl (ExportError (map fst (filter (\<lambda>e. \<not> grounded st reg (reg_type (snd e))) (m_global reg))))"
      and "\<exists>e \<in> set (m_global reg). \<not> grounded st reg (reg_type (snd e))"
    then show ?thesis by (intro disjI2) (simp add: Exporter_save_def)
  qed
qed

section \<open>Output formats\<close>

text \<open>
  The interface to two output formats of which one simulates the other: \<open>R\<close> relates their
  outputs, and saving an entry keeps it. Both exports then throw the same exception or end with
  related outputs.
\<close>

abbreviation related :: "('a \<Rightarrow> 'b \<Rightarrow> bool) \<Rightarrow> 'a result \<Rightarrow> 'b result \<Rightarrow> bool" where
  "related \<equiv> rel_sum (=)"

lemma related_bind:
  "related P r r' \<Longrightarrow> (\<And>x y. P x y \<Longrightarrow> related Q (f x) (g y)) \<Longrightarrow> related Q (bind_result r f) (bind_result r' g)"
  by (cases r; cases r') auto

lemma related_fold:
  assumes "R s s'" and "\<And>s s' x. R s s' \<Longrightarrow> related R (f s x) (g s' x)"
  shows "related R (fold_result f s xs) (fold_result g s' xs)"
  using assms(1)
proof (induction xs arbitrary: s s')
  case (Cons x xs)
  show ?case unfolding fold_result.simps by (rule related_bind[OF assms(2)[OF Cons.prems] Cons.IH])
qed simp

definition same_export :: "('o \<Rightarrow> 'p \<Rightarrow> bool) \<Rightarrow> 'o export_state \<Rightarrow> 'p export_state \<Rightarrow> bool" where
  "same_export R s s' \<longleftrightarrow> x_types s = x_types s' \<and> x_free s = x_free s' \<and> x_saved s = x_saved s' \<and>
     x_last_namespace s = x_last_namespace s' \<and> R (x_out s) (x_out s')"

locale export_simulation =
  fixes R :: "'o \<Rightarrow> 'p \<Rightarrow> bool" and save :: "'o \<Rightarrow> entry \<Rightarrow> (bool \<times> 'o) result"
    and save' :: "'p \<Rightarrow> entry \<Rightarrow> (bool \<times> 'p) result"
  assumes save_related: "R out out' \<Longrightarrow> related (rel_prod (=) R) (save out e) (save' out' e)"
begin

lemma save_entries_related:
  "R out out' \<Longrightarrow> related (rel_prod (=) (rel_prod (=) R)) (save_entries save ns (saved, last_ns, out) es)
     (save_entries save' ns (saved, last_ns, out') es)"
proof (induction es arbitrary: saved last_ns out out')
  case (Cons e es)
  show ?case unfolding save_entries.simps
    by (rule related_bind[OF save_related[OF Cons.prems]]) (auto intro: Cons.IH)
qed simp

lemma save_namespace_related:
  assumes "same_export R s s'"
  shows "related (same_export R) (save_namespace save s) (save_namespace save' s')"
proof -
  have same: "x_free s = x_free s'" "x_saved s = x_saved s'" "x_last_namespace s = x_last_namespace s'" and out: "R (x_out s) (x_out s')"
    using assms by (simp_all add: same_export_def)
  show ?thesis unfolding save_namespace_def Let_def same
    by (rule related_bind[OF save_entries_related[OF out]]) (use assms in \<open>auto simp: same_export_def\<close>)
qed

lemma same_export_steps:
  "same_export R s s' \<Longrightarrow> same_export R (collect_free st s) (collect_free st s')"
  "same_export R s s' \<Longrightarrow> same_export R (drop_derived s) (drop_derived s')"
  by (simp_all add: same_export_def collect_free_def drop_derived_def)

lemma export_loop_related:
  "same_export R s s' \<Longrightarrow> related (same_export R) (export_loop fuel st save s) (export_loop fuel st save' s')"
proof (induction fuel arbitrary: s s')
  case (Suc fuel)
  let ?s1 = "collect_free st s" and ?s1' = "collect_free st s'"
  have s1: "same_export R ?s1 ?s1'" by (rule same_export_steps(1)[OF Suc.prems])
  have s2: "same_export R (drop_derived ?s1) (drop_derived ?s1')" by (rule same_export_steps(2)[OF s1])
  have same: "x_types s = x_types s'" "x_free ?s1 = x_free ?s1'" "x_types ?s1 = x_types ?s1'"
    using Suc.prems s1 by (simp_all add: same_export_def)
  show ?case
    using Suc.prems by (simp add: Let_def same Suc.IH[OF s2] related_bind[OF save_namespace_related[OF s2] Suc.IH])
qed (simp add: same_export_def)

lemma Exporter_save_related:
  assumes "R (begin_export stream reg) (begin_export' stream' reg)"
    and "\<And>out out'. R out out' \<Longrightarrow> Q (end_export out reg) (end_export' out' reg)"
  shows "related Q (Exporter_save begin_export save end_export st reg stream) (Exporter_save begin_export' save' end_export' st reg stream')"
  unfolding Exporter_save_def
proof (rule related_bind[OF export_loop_related])
  fix s s' assume s: "same_export R s s'"
  have "related R (bind_result (save out e) (\<lambda>(_, out). Inr out)) (bind_result (save' out' e) (\<lambda>(_, out). Inr out))" if "R out out'" for out out' e
    by (rule related_bind[OF save_related[OF that]]) auto
  then have loop: "related R (fold_result (\<lambda>out e. bind_result (save out e) (\<lambda>(_, out). Inr out)) (x_out s) es)
      (fold_result (\<lambda>out e. bind_result (save' out e) (\<lambda>(_, out). Inr out)) (x_out s') es)" for es
    by (rule related_fold[rotated]) (use s in \<open>simp_all add: same_export_def\<close>)
  have free: "x_free s = x_free s'" using s by (simp add: same_export_def)
  show "related Q (bind_result (fold_result (\<lambda>out e. bind_result (save out e) (\<lambda>(_, out). Inr out)) (x_out s) (filter (\<lambda>e. reg_persistent (snd e)) (x_free s))) (\<lambda>out. Inr (end_export out reg)))
      (bind_result (fold_result (\<lambda>out e. bind_result (save' out e) (\<lambda>(_, out). Inr out)) (x_out s') (filter (\<lambda>e. reg_persistent (snd e)) (x_free s'))) (\<lambda>out. Inr (end_export' out reg)))"
    unfolding free by (rule related_bind[OF loop]) (simp add: assms(2))
qed (simp add: same_export_def assms(1))

end

text \<open>
  The interface to an output format that appends a piece of text for each entry. Its output is the
  concatenation of the pieces, in the order in which the entries are recorded.
\<close>

locale appending_format =
  fixes save :: "'a list \<Rightarrow> entry \<Rightarrow> (bool \<times> 'a list) result" and piece :: "entry \<Rightarrow> 'a list"
  assumes save_appends: "save out e = Inr (True, out @ piece e)"
begin

definition pieces :: "'a list \<Rightarrow> entry list \<Rightarrow> 'a list" where
  "pieces start es = start @ concat (map piece es)"

end

sublocale appending_format \<subseteq> recorded: export_simulation "\<lambda>out t. t = pieces start out" "record_entry (\<lambda>_ _. True)" save for start
  by unfold_locales (simp add: save_appends record_entry_def pieces_def)

context appending_format
begin

lemma Exporter_save_pieces:
  assumes "Exporter_save (\<lambda>out _. out) (record_entry (\<lambda>_ _. True)) (\<lambda>out _. out) st reg [] = Inr out"
  shows "Exporter_save begin_export save end_export st reg stream = Inr (end_export (pieces (begin_export stream reg) out) reg)"
proof -
  have "related (\<lambda>out t. t = end_export (pieces (begin_export stream reg) out) reg)
      (Exporter_save (\<lambda>out _. out) (record_entry (\<lambda>_ _. True)) (\<lambda>out _. out) st reg []) (Exporter_save begin_export save end_export st reg stream)"
    by (rule recorded.Exporter_save_related) (simp_all add: pieces_def)
  then show ?thesis unfolding assms by (cases "Exporter_save begin_export save end_export st reg stream") auto
qed

end

section \<open>Properties\<close>

text \<open>A registry with a pointer, which is not persistent, a structure that has it, and an alias.\<close>

definition export_store :: store where
  "export_store = \<lparr>objects = [2 \<mapsto> Numeric_ctor ''/int'' 4 SInt, 3 \<mapsto> Type_ctor ''/int*'' 8 (Pointer 2),
     4 \<mapsto> Type_ctor ''/A'' 8 (Compound [\<lparr>fld_name = ''p'', fld_type = 3, fld_offset = 0, fld_metadata = []\<rparr>])], next_id = 5\<rparr>"

definition export_registry :: Registry where
  "export_registry = registry_of [(''/A'', example_entry 4), (''/B'', example_entry 4), (''/int'', example_entry 2),
     (''/int*'', (example_entry 3)\<lparr>reg_persistent := False\<rparr>)]"

lemma export_types: "type_at export_store 2 = Numeric_ctor ''/int'' 4 SInt" "type_at export_store 3 = Type_ctor ''/int*'' 8 (Pointer 2)"
  "type_at export_store 4 = Type_ctor ''/A'' 8 (Compound [\<lparr>fld_name = ''p'', fld_type = 3, fld_offset = 0, fld_metadata = []\<rparr>])"
  "dom (objects export_store) = {2, 3, 4}"
  by (auto simp: export_store_def type_at_def)

lemma export_registry_ok: "registry_ok export_store export_registry"
  unfolding export_registry_def
proof (rule registry_of_ok)
  show "names_ok [(''/A'', example_entry 4), (''/B'', example_entry 4), (''/int'', example_entry 2),
      (''/int*'', (example_entry 3)\<lparr>reg_persistent := False\<rparr>)]"
    by (simp add: names_ok_def canonical_name_def isAbsoluteName_def NamespaceMark_def char_value_def)
qed (auto simp: export_types example_entry_def Numeric_ctor_def Type_ctor_def split: if_splits)

lemma export_grounded: "grounded export_store export_registry 2" "grounded export_store export_registry 3" "grounded export_store export_registry 4"
proof -
  have "global_type export_registry ''/int'' = Some 2" "global_type export_registry ''/int*'' = Some 3" "global_type export_registry ''/A'' = Some 4"
    by (simp_all add: export_registry_def registry_of_def global_type_def example_entry_def)
  then have ran: "2 \<in> ran (global_type export_registry)" "3 \<in> ran (global_type export_registry)" "4 \<in> ran (global_type export_registry)"
    by (blast intro: ranI)+
  show 2: "grounded export_store export_registry 2" by (rule grounded.intros) (use ran in \<open>auto simp: export_types Numeric_ctor_def Type_ctor_def\<close>)
  show 3: "grounded export_store export_registry 3" by (rule grounded.intros) (use 2 ran in \<open>auto simp: export_types Type_ctor_def\<close>)
  show "grounded export_store export_registry 4" by (rule grounded.intros) (use 3 ran in \<open>auto simp: export_types Type_ctor_def\<close>)
qed

text \<open>
  C7: Every registry whose types do not depend on themselves is exported completely: \<open>Exporter::save\<close>
  ends, hands every persistent type and alias to the output exactly once, and each one after
  everything it depends on, whatever the output format returns.
\<close>

theorem export_complete:
  assumes "registry_ok st reg" and "\<forall>e \<in> set (m_global reg). grounded st reg (reg_type (snd e))"
  shows "\<exists>out. Exporter_save (\<lambda>out _. out) (record_entry written) (\<lambda>out _. out) st reg [] = Inr out \<and> distinct out \<and>
    set out = {e \<in> set (m_global reg). reg_persistent (snd e)} \<and> dependency_order st reg out"
  using export_result[OF assms(1), of written] assms(2) by blast

theorem export_complete_witness:
  "\<exists>out. Exporter_save (\<lambda>out _. out) (record_entry (\<lambda>_ _. True)) (\<lambda>out _. out) export_store export_registry [] = Inr out \<and>
    distinct out \<and> set out = {(''/A'', example_entry 4), (''/B'', example_entry 4), (''/int'', example_entry 2)} \<and>
    dependency_order export_store export_registry out"
proof -
  have "\<forall>e \<in> set (m_global export_registry). grounded export_store export_registry (reg_type (snd e))"
    using export_grounded by (simp add: export_registry_def registry_of_def example_entry_def)
  moreover have "{e \<in> set (m_global export_registry). reg_persistent (snd e)} =
      {(''/A'', example_entry 4), (''/B'', example_entry 4), (''/int'', example_entry 2)}"
    by (auto simp: export_registry_def registry_of_def example_entry_def)
  ultimately show ?thesis using export_complete[OF export_registry_ok, of "\<lambda>_ _. True"] by simp
qed

text \<open>
  C16: When some types depend on themselves, also through pointers, or on types that are not in the
  registry, the export fails, and the exception names exactly the entries of these types and of the types that
  depend on them.
\<close>

theorem export_recursive:
  assumes "registry_ok st reg" and "e \<in> set (m_global reg)" and "\<not> grounded st reg (reg_type (snd e))"
  shows "Exporter_save (\<lambda>out _. out) (record_entry written) (\<lambda>out _. out) st reg [] =
    Inl (ExportError (map fst (filter (\<lambda>e. \<not> grounded st reg (reg_type (snd e))) (m_global reg))))"
  using export_result[OF assms(1), of written] assms(2,3) by blast

lemma node_not_grounded: "grounded node_store node_registry t \<Longrightarrow> t \<notin> {3, 4}"
proof (induction rule: grounded.induct)
  case (1 t)
  then show ?case using 1(3)[of 3] 1(3)[of 4] by (auto simp: node_types node_type_def Type_ctor_def)
qed

lemma node_int_grounded: "grounded node_store node_registry 2"
proof (rule grounded.intros)
  show "2 \<in> ran (global_type node_registry)" by (rule ranI[of _ "''/int''"]) (simp add: node_global)
qed (simp add: node_types Numeric_ctor_def Type_ctor_def)

theorem export_recursive_witness:
  "Exporter_save (\<lambda>out _. out) (record_entry (\<lambda>_ _. True)) (\<lambda>out _. out) node_store node_registry [] = Inl (ExportError [''/Node'', ''/Node*''])"
proof -
  have "registry_ok node_store node_registry" using node_separate by (simp add: separate_def)
  moreover have "(''/Node'', example_entry 3) \<in> set (m_global node_registry)" by (simp add: node_registry_def registry_of_def)
  ultimately have "Exporter_save (\<lambda>out _. out) (record_entry (\<lambda>_ _. True)) (\<lambda>out _. out) node_store node_registry [] =
      Inl (ExportError (map fst (filter (\<lambda>e. \<not> grounded node_store node_registry (reg_type (snd e))) (m_global node_registry))))"
    by (rule export_recursive) (use node_not_grounded[of 3] in \<open>auto simp: example_entry_def\<close>)
  moreover have "m_global node_registry = [(''/Node'', example_entry 3), (''/Node*'', example_entry 4), (''/int'', example_entry 2)]"
    by (simp add: node_registry_def registry_of_def)
  moreover have "\<not> grounded node_store node_registry 3" "\<not> grounded node_store node_registry 4" using node_not_grounded by blast+
  ultimately show ?thesis using node_int_grounded by (simp add: example_entry_def)
qed

end
