(* ===== verification/TlbExport.thy ===== *)
theory TlbExport
  imports Exporter
begin

text \<open>
  The XML export of registries (\<open>lang/tlb/export.cc\<close>): the visitor that writes one type, and the
  format that \<open>TlbExport\<close> plugs into \<open>Exporter::save\<close>. The output stream is the string written
  to it.
\<close>

section \<open>Strings\<close>

text \<open>An attribute, quoted.\<close>

definition attribute :: "string \<Rightarrow> string \<Rightarrow> string" where
  "attribute name v = name @ ''='' @ quote @ v @ quote"

text \<open>The loop searches from the start of the string again after each replacement.\<close>

function xmlEscape :: "string \<Rightarrow> string" where
  "xmlEscape result =
     (case find_first_of ''<>'' result of
        None \<Rightarrow> result
      | Some pos \<Rightarrow> xmlEscape (take pos result @
          (if result ! pos = CHR ''<'' then ''&lt;'' else ''&gt;'') @ drop (pos + 1) result))"
  by pat_completeness auto
termination
proof (relation "measure (\<lambda>s. length (filter (\<lambda>c. c \<in> set ''<>'') s))", goal_cases)
  case (2 result pos)
  then have "pos < length result" "result ! pos \<in> set ''<>''"
    using find_first_of_split by blast+
  then have "result = take pos result @ result ! pos # drop (pos + 1) result" by (simp add: id_take_nth_drop)
  then have "length (filter (\<lambda>c. c \<in> set ''<>'') result) =
      length (filter (\<lambda>c. c \<in> set ''<>'') (take pos result)) + Suc (length (filter (\<lambda>c. c \<in> set ''<>'') (drop (pos + 1) result)))"
    using \<open>result ! pos \<in> set ''<>''\<close> by (metis (no_types, lifting) filter.simps(2) filter_append length_Cons length_append)
  then show ?case by simp
qed simp

declare xmlEscape.simps [simp del]

section \<open>Writing one type\<close>

text \<open>The lines for a metadata value, or for a key that has none.\<close>

definition emitMetaData :: "MetaData \<Rightarrow> string" where
  "emitMetaData metadata = concat (map (\<lambda>(key, vs).
     if vs = [] then ''<metadata '' @ attribute ''key'' key @ '' />''
     else concat (map (\<lambda>v. ''<metadata '' @ attribute ''key'' key @ ''><![CDATA['' @ v @ '']]></metadata>'' @ newline) vs)) metadata)"

definition emitSourceID :: "string \<Rightarrow> string" where
  "emitSourceID source_id = (if source_id \<noteq> [] then attribute ''source_id'' (xmlEscape source_id) else [])"

text \<open>The lines that end every element: the metadata and the closing tag.\<close>

definition emit_end :: "string \<Rightarrow> MetaData \<Rightarrow> string \<Rightarrow> string" where
  "emit_end indent metadata tag = indent @ emitMetaData metadata @ newline @ indent @ ''</'' @ tag @ ''>''"

definition getStringCategory :: "NumericCategory \<Rightarrow> string" where
  "getStringCategory cat = (case cat of SInt \<Rightarrow> ''sint'' | UInt \<Rightarrow> ''uint'' | Float \<Rightarrow> ''float'')"

definition tlb_field :: "store \<Rightarrow> string \<Rightarrow> Field \<Rightarrow> string" where
  "tlb_field st indent f =
     indent @ ''<field '' @ attribute ''name'' (fld_name f) @ '' '' @ attribute ''type'' (xmlEscape (ty_name (type_at st (fld_type f)))) @
     '' '' @ attribute ''offset'' (show_nat (fld_offset f)) @ ''>'' @ newline @
     emit_end indent (fld_metadata f) ''field'' @ newline"

definition tlb_value :: "string \<Rightarrow> string \<times> int \<Rightarrow> string" where
  "tlb_value indent v = indent @ ''<value '' @ attribute ''symbol'' (fst v) @ '' '' @ attribute ''value'' (show_int (snd v)) @ ''/>'' @ newline"

definition tlb_indirect :: "store \<Rightarrow> Type \<Rightarrow> tid \<Rightarrow> string" where
  "tlb_indirect st obj on = '' '' @ attribute ''name'' (xmlEscape (ty_name obj)) @ '' '' @ attribute ''of'' (xmlEscape (ty_name (type_at st on)))"

text \<open>\<open>TlbExportVisitor\<close>, one case per \<open>visit_\<close>.\<close>

definition tlb_visit :: "store \<Rightarrow> string \<Rightarrow> string \<Rightarrow> Type \<Rightarrow> string" where
  "tlb_visit st indent source_id obj =
    (let name = ty_name obj; md = ty_metadata obj; sz = show_nat (ty_size obj) in
     case ty_kind obj of
       Opaque \<Rightarrow> ''<opaque '' @ attribute ''name'' (xmlEscape name) @ '' '' @ attribute ''size'' sz @ '' '' @ emitSourceID source_id @ ''>'' @ newline @
         emit_end indent md ''opaque''
     | Compound flds \<Rightarrow> ''<compound '' @ attribute ''name'' (xmlEscape name) @ '' '' @ attribute ''size'' sz @ '' '' @ emitSourceID source_id @ ''>'' @ newline @
         concat (map (tlb_field st (indent @ ''  '')) flds) @ emit_end indent md ''compound''
     | Numeric cat \<Rightarrow> ''<numeric '' @ attribute ''name'' name @ '' '' @ attribute ''category'' (getStringCategory cat) @ '' '' @ attribute ''size'' sz @ '' '' @
         emitSourceID source_id @ ''>'' @ newline @ emit_end indent md ''numeric''
     | NullType \<Rightarrow> ''<null  '' @ attribute ''name'' name @ '' '' @ emitSourceID source_id @ ''>'' @ newline @ emit_end indent md ''null''
     | Pointer on \<Rightarrow> ''<pointer '' @ tlb_indirect st obj on @ '' '' @ emitSourceID source_id @ ''>'' @ newline @ emit_end indent md ''pointer''
     | Array dim on \<Rightarrow> ''<array '' @ tlb_indirect st obj on @ '' '' @ attribute ''dimension'' (show_nat dim) @ '' '' @ emitSourceID source_id @ ''>'' @ newline @
         emit_end indent md ''array''
     | Container container_kind _ on \<Rightarrow> ''<container '' @ tlb_indirect st obj on @ '' '' @ attribute ''size'' sz @ '' '' @
         attribute ''kind'' (xmlEscape container_kind) @ '' '' @ emitSourceID source_id @ ''>'' @ newline @ emit_end indent md ''container''
     | Enum vs _ \<Rightarrow> ''<enum '' @ attribute ''name'' name @ '' '' @ emitSourceID source_id @ ''>'' @ newline @
         concat (map (tlb_value (indent @ ''  '')) vs) @ emit_end indent md ''enum'')"

section \<open>The format\<close>

definition TlbExport_begin :: "string \<Rightarrow> Registry \<Rightarrow> string" where
  "TlbExport_begin stream reg = stream @ ''<?xml '' @ attribute ''version'' ''1.0'' @ ''?>'' @ newline @ ''<typelib>'' @ newline"

definition TlbExport_end :: "string \<Rightarrow> Registry \<Rightarrow> string" where
  "TlbExport_end stream reg = stream @ ''</typelib>'' @ newline"

definition tlb_entry :: "store \<Rightarrow> entry \<Rightarrow> string" where
  "tlb_entry st e =
     (let obj = type_at st (reg_type (snd e)) in
      if isAlias st e then ''  <alias '' @ attribute ''name'' (xmlEscape (fst e)) @ '' '' @ attribute ''source'' (xmlEscape (ty_name obj)) @ ''/>'' @ newline
      else ''  '' @ tlb_visit st ''  '' (reg_source_id (snd e)) obj @ newline)"

definition TlbExport_save :: "store \<Rightarrow> string \<Rightarrow> entry \<Rightarrow> (bool \<times> string) result" where
  "TlbExport_save st stream e = Inr (True, stream @ tlb_entry st e)"

interpretation tlb: appending_format "TlbExport_save st" "tlb_entry st" for st
  by unfold_locales (simp add: TlbExport_save_def)

definition tlb_export :: "store \<Rightarrow> Registry \<Rightarrow> string result" where
  "tlb_export st reg = Exporter_save TlbExport_begin (TlbExport_save st) TlbExport_end st reg []"

end
