(* ===== verification/TlbImport.thy ===== *)
theory TlbImport
  imports Merge TypeBuilder
begin

text \<open>
  The XML import of registries (\<open>lang/tlb/import.cc\<close>, \<open>lang/tlb/xmltools.hh\<close>): the nodes of a
  document are collected by name, then \<open>Factory::build\<close> loads each of them, after the types it
  depends on. The tree of a document is what \<open>libxml2\<close> makes of it. The conversions of
  \<open>boost::lexical_cast\<close>, the tokenizer and the table of containers are parameters, collected in
  \<open>import_env\<close>.
\<close>

section \<open>XML trees\<close>

datatype xml =
    Element string "(string \<times> string) list" "xml list"
  | Text string
  | CData string
  | Comment string

text \<open>The names that \<open>libxml2\<close> gives to nodes.\<close>

fun xml_name :: "xml \<Rightarrow> string" where
  "xml_name (Element name _ _) = name"
| "xml_name (Text _) = ''text''"
| "xml_name (CData _) = ''cdata-section''"
| "xml_name (Comment _) = ''comment''"

fun xml_children :: "xml \<Rightarrow> xml list" where
  "xml_children (Element _ _ children) = children"
| "xml_children _ = []"

fun is_element :: "xml \<Rightarrow> bool" where
  "is_element (Element _ _ _) = True"
| "is_element _ = False"

text \<open>\<open>xmlFirstElementChild\<close> and \<open>xmlNextElementSibling\<close>, for the elements of one name.\<close>

definition elements_named :: "string \<Rightarrow> xml \<Rightarrow> xml list" where
  "elements_named name node = filter (\<lambda>x. is_element x \<and> xml_name x = name) (xml_children node)"

fun getStringAttribute :: "xml \<Rightarrow> string \<Rightarrow> string option" where
  "getStringAttribute (Element _ attrs _) name = map_of attrs name"
| "getStringAttribute _ name = None"

definition getAttribute :: "xml \<Rightarrow> string \<Rightarrow> string result" where
  "getAttribute node name = (case getStringAttribute node name of None \<Rightarrow> Inl (MissingAttribute name) | Some v \<Rightarrow> Inr v)"

definition getAttribute_default :: "xml \<Rightarrow> string \<Rightarrow> string \<Rightarrow> string" where
  "getAttribute_default node name default_value = (case getStringAttribute node name of None \<Rightarrow> default_value | Some v \<Rightarrow> v)"

record import_env =
  env_tok :: tokenizer
  env_containers :: AvailableContainers
  cast_size :: "string \<Rightarrow> nat option"
  cast_int :: "string \<Rightarrow> int option"

definition lexical_cast :: "(string \<Rightarrow> 'a option) \<Rightarrow> string \<Rightarrow> 'a result" where
  "lexical_cast conversion s = (case conversion s of None \<Rightarrow> Inl (BadLexicalCast s) | Some v \<Rightarrow> Inr v)"

definition getAttribute_as :: "(string \<Rightarrow> 'a option) \<Rightarrow> xml \<Rightarrow> string \<Rightarrow> 'a result" where
  "getAttribute_as conversion node name = bind_result (getAttribute node name) (lexical_cast conversion)"

definition getAttribute_int_default :: "import_env \<Rightarrow> xml \<Rightarrow> string \<Rightarrow> int \<Rightarrow> int result" where
  "getAttribute_int_default env node name default_value =
     (case getStringAttribute node name of None \<Rightarrow> Inr default_value | Some v \<Rightarrow> lexical_cast (cast_int env) v)"

section \<open>Metadata\<close>

fun is_cdata :: "xml \<Rightarrow> bool" where
  "is_cdata (CData _) = True"
| "is_cdata _ = False"

fun cdata_content :: "xml \<Rightarrow> string" where
  "cdata_content (CData s) = s"
| "cdata_content _ = []"

definition loadMetaData_node :: "MetaData \<Rightarrow> xml \<Rightarrow> MetaData result" where
  "loadMetaData_node metadata node =
     bind_result (getAttribute node ''key'') (\<lambda>key.
     let metadata' = MetaData_add_values metadata key [] in
     Inr (case find is_cdata (xml_children node) of
        None \<Rightarrow> metadata'
      | Some cdata \<Rightarrow> MetaData_add metadata' key (cdata_content cdata)))"

definition loadMetaData :: "xml \<Rightarrow> MetaData \<Rightarrow> MetaData result" where
  "loadMetaData node metadata = fold_result loadMetaData_node metadata (elements_named ''metadata'' node)"

section \<open>The factory\<close>

datatype NodeLoader = load_alias | load_numeric | load_null | load_opaque | load_enum | load_compound | load_container

record TypeNode =
  tn_xml :: xml
  tn_name :: string
  tn_file :: string
  tn_loader :: NodeLoader

type_synonym TypeMap = "(string \<times> TypeNode) list"

record Factory =
  m_map :: TypeMap
  f_store :: store
  f_registry :: Registry

text \<open>\<open>Factory::insert\<close>: the object is complete but for its metadata.\<close>

definition Factory_insert :: "import_env \<Rightarrow> TypeNode \<Rightarrow> Type \<Rightarrow> Factory \<Rightarrow> (tid \<times> Factory) result" where
  "Factory_insert env node obj f =
     bind_result (loadMetaData (tn_xml node) (ty_metadata obj)) (\<lambda>md.
     case new_type (f_store f) (obj\<lparr>ty_metadata := md\<rparr>) of (t, st) \<Rightarrow>
       bind_result (add (env_tok env) st (f_registry f) t (tn_file node)) (\<lambda>reg.
       Inr (t, f\<lparr>f_store := st, f_registry := reg\<rparr>)))"

definition Factory_alias :: "import_env \<Rightarrow> string \<Rightarrow> string \<Rightarrow> Factory \<Rightarrow> Factory result" where
  "Factory_alias env base newname f =
     bind_result (registry_alias (env_tok env) (f_store f) (f_registry f) base newname []) (\<lambda>reg.
     Inr (f\<lparr>f_registry := reg\<rparr>))"

text \<open>A type that is not known under the name it was asked for becomes known under it.\<close>

definition ensure_name :: "import_env \<Rightarrow> tid \<Rightarrow> string \<Rightarrow> Factory \<Rightarrow> Factory result" where
  "ensure_name env t name f =
     (let own = ty_name (type_at (f_store f) t) in
      if own \<noteq> name \<and> m_current (f_registry f) name = None then Factory_alias env own name f else Inr f)"

type_synonym build_fun = "string \<Rightarrow> Factory \<Rightarrow> (tid \<times> Factory) result"

subsection \<open>Loading one node\<close>

definition numeric_categories :: "(string \<times> NumericCategory) list" where
  "numeric_categories = [(''sint'', SInt), (''uint'', UInt), (''float'', Float)]"

definition getCategoryFromNode :: "(string \<times> 'a) list \<Rightarrow> string \<Rightarrow> 'a result" where
  "getCategoryFromNode categories name = (case map_of categories name of None \<Rightarrow> Inl RuntimeError | Some c \<Rightarrow> Inr c)"

definition do_load_numeric :: "import_env \<Rightarrow> TypeNode \<Rightarrow> Factory \<Rightarrow> (tid \<times> Factory) result" where
  "do_load_numeric env node f =
     bind_result (getAttribute (tn_xml node) ''category'') (\<lambda>cat_name.
     bind_result (getCategoryFromNode numeric_categories cat_name) (\<lambda>category.
     bind_result (getAttribute_as (cast_size env) (tn_xml node) ''size'') (\<lambda>sz.
     Factory_insert env node (Numeric_ctor (tn_name node) sz category) f)))"

definition do_load_null :: "import_env \<Rightarrow> TypeNode \<Rightarrow> Factory \<Rightarrow> (tid \<times> Factory) result" where
  "do_load_null env node f = Factory_insert env node (NullType_ctor (tn_name node)) f"

definition do_load_opaque :: "import_env \<Rightarrow> TypeNode \<Rightarrow> Factory \<Rightarrow> (tid \<times> Factory) result" where
  "do_load_opaque env node f =
     bind_result (getAttribute_as (cast_size env) (tn_xml node) ''size'') (\<lambda>sz.
     Factory_insert env node (OpaqueType_ctor (tn_name node) sz) f)"

definition do_load_container :: "build_fun \<Rightarrow> import_env \<Rightarrow> TypeNode \<Rightarrow> Factory \<Rightarrow> (tid \<times> Factory) result" where
  "do_load_container build_type env node f =
     bind_result (getAttribute (tn_xml node) ''of'') (\<lambda>indirect_name.
     bind_result (build_type indirect_name f) (\<lambda>(indirect, f1).
     bind_result (getAttribute (tn_xml node) ''kind'') (\<lambda>container_kind.
     bind_result (getAttribute_int_default env (tn_xml node) ''size'' (-1)) (\<lambda>sz.
     bind_result (createContainer (env_containers env) (env_tok env) (f_store f1) (f_registry f1) container_kind [indirect]) (\<lambda>(t, st, reg).
     bind_result (if sz > 0 then bind_result (get_ref st reg t) (\<lambda>u. Inr (setSize st u (nat sz))) else Inr st) (\<lambda>st'.
     bind_result (loadMetaData (tn_xml node) (ty_metadata (type_at st' t))) (\<lambda>md.
     Inr (t, f1\<lparr>f_store := update_type st' t (\<lambda>obj. obj\<lparr>ty_metadata := md\<rparr>), f_registry := reg\<rparr>))))))))"

definition load_enum_value :: "import_env \<Rightarrow> (string \<times> int) list \<times> int \<Rightarrow> xml \<Rightarrow> ((string \<times> int) list \<times> int) result" where
  "load_enum_value env s node = (case s of (vs, last_value) \<Rightarrow>
     bind_result (getAttribute node ''symbol'') (\<lambda>symbol.
     bind_result (getAttribute_as (cast_int env) node ''value'') (\<lambda>v.
     Enum_add vs last_value symbol v)))"

definition do_load_enum :: "import_env \<Rightarrow> TypeNode \<Rightarrow> Factory \<Rightarrow> (tid \<times> Factory) result" where
  "do_load_enum env node f =
     bind_result (fold_result (load_enum_value env) ([], -1) (elements_named ''value'' (tn_xml node))) (\<lambda>(vs, last_value).
     Factory_insert env node ((Enum_ctor (tn_name node) 0)\<lparr>ty_kind := Enum vs last_value\<rparr>) f)"

definition do_load_alias :: "build_fun \<Rightarrow> import_env \<Rightarrow> TypeNode \<Rightarrow> Factory \<Rightarrow> (tid \<times> Factory) result" where
  "do_load_alias build_type env node f =
     bind_result (getAttribute (tn_xml node) ''source'') (\<lambda>source.
     bind_result (build_type source f) (\<lambda>(t, f1).
     bind_result (Factory_alias env source (tn_name node) f1) (\<lambda>f2. Inr (t, f2))))"

text \<open>The metadata of the field that was added last.\<close>

definition set_field_metadata :: "Type \<Rightarrow> MetaData \<Rightarrow> Type" where
  "set_field_metadata obj md = (case ty_kind obj of
     Compound flds \<Rightarrow> obj\<lparr>ty_kind := Compound (butlast flds @ [(last flds)\<lparr>fld_metadata := md\<rparr>])\<rparr>
   | _ \<Rightarrow> obj)"

definition load_field :: "build_fun \<Rightarrow> import_env \<Rightarrow> Type \<times> Factory \<Rightarrow> xml \<Rightarrow> (Type \<times> Factory) result" where
  "load_field build_type env s node = (case s of (compound, f) \<Rightarrow>
     bind_result (getAttribute node ''name'') (\<lambda>name.
     bind_result (getAttribute node ''type'') (\<lambda>tname.
     bind_result (getAttribute_as (cast_size env) node ''offset'') (\<lambda>offset.
     bind_result (build_type tname f) (\<lambda>(t, f1).
     let compound' = addField (f_store f1) compound name t offset in
     bind_result (loadMetaData node []) (\<lambda>md.
     Inr (set_field_metadata compound' md, f1)))))))"

definition do_load_compound :: "build_fun \<Rightarrow> import_env \<Rightarrow> TypeNode \<Rightarrow> Factory \<Rightarrow> (tid \<times> Factory) result" where
  "do_load_compound build_type env node f =
     bind_result (getAttribute_as (cast_size env) (tn_xml node) ''size'') (\<lambda>sz.
     bind_result (fold_result (load_field build_type env) (Compound_ctor (tn_name node), f) (elements_named ''field'' (tn_xml node)))
       (\<lambda>(compound, f1).
     let flds = (case ty_kind compound of Compound flds \<Rightarrow> flds | _ \<Rightarrow> []) in
     Factory_insert env node (compound\<lparr>ty_kind := Compound (normalizeFieldOrder flds), ty_size := sz\<rparr>) f1))"

definition run_loader :: "build_fun \<Rightarrow> import_env \<Rightarrow> TypeNode \<Rightarrow> Factory \<Rightarrow> (tid \<times> Factory) result" where
  "run_loader build_type env node =
     (case tn_loader node of
        load_alias \<Rightarrow> do_load_alias build_type env node
      | load_numeric \<Rightarrow> do_load_numeric env node
      | load_null \<Rightarrow> do_load_null env node
      | load_opaque \<Rightarrow> do_load_opaque env node
      | load_enum \<Rightarrow> do_load_enum env node
      | load_compound \<Rightarrow> do_load_compound build_type env node
      | load_container \<Rightarrow> do_load_container build_type env node)"

subsection \<open>Building types in dependency order\<close>

definition erase_node :: "string \<Rightarrow> Factory \<Rightarrow> Factory" where
  "erase_node name f = f\<lparr>m_map := omap_erase name (m_map f)\<rparr>"

text \<open>\<open>m_registry.build\<close> returns a null pointer for an unknown base type, which the caller dereferences.\<close>

definition build_derived :: "import_env \<Rightarrow> string \<Rightarrow> Factory \<Rightarrow> (tid \<times> Factory) result" where
  "build_derived env name f =
     bind_result (build (env_tok env) (f_store f) (f_registry f) name 0) (\<lambda>(st, reg, derived).
     case derived of
       None \<Rightarrow> Inl UndefinedBehaviour
     | Some t \<Rightarrow> bind_result (ensure_name env t name (f\<lparr>f_store := st, f_registry := reg\<rparr>)) (\<lambda>f1.
         Inr (t, erase_node name f1)))"

text \<open>
  \<open>Factory::build\<close> erases the node before it loads it, so the recursion is at most as deep as the
  map has nodes: that is the fuel.
\<close>

primrec Factory_build :: "nat \<Rightarrow> import_env \<Rightarrow> build_fun" where
  "Factory_build 0 env = (\<lambda>name f. Inl OutOfFuel)"
| "Factory_build (Suc fuel) env = (\<lambda>name f.
     bind_result (getBaseTypename name) (\<lambda>basename.
     bind_result
       (case get (f_registry f) basename of
          Some base \<Rightarrow> Inr (base, erase_node basename f)
        | None \<Rightarrow> (case map_of (m_map f) basename of
            None \<Rightarrow> Inl (Undefined basename)
          | Some node \<Rightarrow>
              bind_result (run_loader (Factory_build fuel env) env node (erase_node basename f)) (\<lambda>(base, f1).
              bind_result (ensure_name env base basename f1) (\<lambda>f2. Inr (base, f2)))))
       (\<lambda>(base, f1). if basename = name then Inr (base, f1) else build_derived env name f1)))"

text \<open>\<open>build(map)\<close>: each round removes at least the node it starts with.\<close>

fun Factory_build_all :: "nat \<Rightarrow> import_env \<Rightarrow> Factory \<Rightarrow> Factory result" where
  "Factory_build_all 0 env f = (if m_map f = [] then Inr f else Inl OutOfFuel)"
| "Factory_build_all (Suc fuel) env f = (case m_map f of
     [] \<Rightarrow> Inr f
   | (name, _) # _ \<Rightarrow> bind_result (Factory_build (Suc (length (m_map f))) env name f) (\<lambda>(_, f'). Factory_build_all fuel env f'))"

section \<open>Reading a document\<close>

definition node_categories :: "(string \<times> NodeLoader) list" where
  "node_categories = [(''alias'', load_alias), (''numeric'', load_numeric), (''null'', load_null), (''opaque'', load_opaque),
     (''enum'', load_enum), (''compound'', load_compound), (''container'', load_container)]"

definition load_node :: "string \<Rightarrow> TypeMap \<Rightarrow> xml \<Rightarrow> TypeMap result" where
  "load_node file m type_node =
     bind_result (getAttribute type_node ''name'') (\<lambda>name.
     bind_result (getCategoryFromNode node_categories (xml_name type_node)) (\<lambda>loader.
     case map_of m name of
       Some _ \<Rightarrow> Inr m
     | None \<Rightarrow> Inr (omap_insert string_less name
         \<lparr>tn_xml = type_node, tn_name = name, tn_file = getAttribute_default type_node ''source_id'' file, tn_loader = loader\<rparr> m)))"

text \<open>\<open>parse\<close>; the document is \<open>None\<close> when it has no root element.\<close>

definition tlb_parse :: "import_env \<Rightarrow> string \<Rightarrow> xml option \<Rightarrow> store \<Rightarrow> Registry \<Rightarrow> (store \<times> Registry) result" where
  "tlb_parse env source_id root st reg =
     (case root of
        None \<Rightarrow> Inr (st, reg)
      | Some root_node \<Rightarrow>
          if xml_name root_node \<noteq> ''typelib'' then Inl (BadRootElement (xml_name root_node))
          else
            bind_result (fold_result (load_node source_id) []
              (filter (\<lambda>node. xml_name node \<noteq> ''comment'' \<and> xml_name node \<noteq> ''text'') (xml_children root_node))) (\<lambda>all_types.
            bind_result (Factory_build_all (length all_types) env \<lparr>m_map = all_types, f_store = st, f_registry = reg\<rparr>) (\<lambda>f.
            Inr (f_store f, f_registry f))))"

text \<open>\<open>TlbImport::load\<close>: \<open>xmlParseMemory\<close> returns no document when the text is not well formed.\<close>

definition TlbImport_load :: "(string \<Rightarrow> xml option option) \<Rightarrow> import_env \<Rightarrow> string \<Rightarrow> store \<Rightarrow> Registry \<Rightarrow> (store \<times> Registry) result" where
  "TlbImport_load xmlParseMemory env document st reg =
     (case xmlParseMemory document of None \<Rightarrow> Inl MalformedXML | Some root \<Rightarrow> tlb_parse env [] root st reg)"

end
