(* ===== verification/TlbCorrect.thy ===== *)
theory TlbCorrect
  imports TlbExport TlbImport
begin

text \<open>
  The XML import restores what the nodes of a document describe. \<open>copies\<close> says that a registry is a
  copy of another one, possibly in another store; \<open>exportable\<close> collects what the exported form can
  represent. \<open>import_inv\<close> is the invariant of \<open>Factory::build\<close>, \<open>builds\<close> what a call of it
  establishes; the recursion is by the dependencies of the types.
\<close>

section \<open>Copies of types\<close>

text \<open>
  A copy agrees in name, size, metadata, fields, values and dimensions, and refers to the types that
  have the names of the types the original refers to. The last value an enumeration was given is
  not exported.
\<close>

definition field_copy :: "(tid \<Rightarrow> tid \<Rightarrow> bool) \<Rightarrow> Field \<Rightarrow> Field \<Rightarrow> bool" where
  "field_copy \<rho> f g \<longleftrightarrow> fld_name g = fld_name f \<and> fld_offset g = fld_offset f \<and> fld_metadata g = fld_metadata f \<and>
     \<rho> (fld_type f) (fld_type g)"

definition kind_copy :: "(tid \<Rightarrow> tid \<Rightarrow> bool) \<Rightarrow> kind \<Rightarrow> kind \<Rightarrow> bool" where
  "kind_copy \<rho> k k' \<longleftrightarrow> (case k of
     Array dim on \<Rightarrow> (\<exists>on'. k' = Array dim on' \<and> \<rho> on on')
   | Pointer on \<Rightarrow> (\<exists>on'. k' = Pointer on' \<and> \<rho> on on')
   | Container c fac on \<Rightarrow> (\<exists>on'. k' = Container c fac on' \<and> \<rho> on on')
   | Compound fs \<Rightarrow> (\<exists>gs. k' = Compound gs \<and> list_all2 (field_copy \<rho>) fs gs)
   | Enum vs _ \<Rightarrow> (\<exists>last'. k' = Enum vs last')
   | _ \<Rightarrow> k' = k)"

definition type_copy :: "store \<Rightarrow> (string \<rightharpoonup> tid) \<Rightarrow> Type \<Rightarrow> Type \<Rightarrow> bool" where
  "type_copy st names obj obj' \<longleftrightarrow> ty_name obj' = ty_name obj \<and> ty_size obj' = ty_size obj \<and>
     ty_metadata obj' = ty_metadata obj \<and>
     kind_copy (\<lambda>t u. names (ty_name (type_at st t)) = Some u) (ty_kind obj) (ty_kind obj')"

definition copies :: "store \<Rightarrow> Registry \<Rightarrow> store \<Rightarrow> Registry \<Rightarrow> bool" where
  "copies st reg st' reg' \<longleftrightarrow> (\<forall>n u. global_type reg' n = Some u \<longrightarrow>
     (\<exists>t. global_type reg n = Some t \<and> type_copy st (global_type reg') (type_at st t) (type_at st' u)))"

lemma kind_copy_mono:
  assumes "kind_copy \<rho> k k'" and "\<And>a b. \<rho> a b \<Longrightarrow> \<rho>' a b"
  shows "kind_copy \<rho>' k k'"
proof (cases k)
  case (Compound fs)
  then obtain gs where gs: "k' = Compound gs" "list_all2 (field_copy \<rho>) fs gs"
    using assms(1) by (auto simp: kind_copy_def)
  have "list_all2 (field_copy \<rho>') fs gs"
    by (rule list_all2_mono[OF gs(2)]) (use assms(2) in \<open>auto simp: field_copy_def\<close>)
  then show ?thesis using Compound gs(1) by (simp add: kind_copy_def)
qed (use assms in \<open>auto simp: kind_copy_def\<close>)

lemma type_copy_mono:
  assumes "type_copy st names obj obj'" and "names \<subseteq>\<^sub>m names'"
  shows "type_copy st names' obj obj'"
proof -
  have le: "names n = Some u \<Longrightarrow> names' n = Some u" for n u using assms(2) by (metis domI map_le_def)
  have "kind_copy (\<lambda>t u. names (ty_name (type_at st t)) = Some u) (ty_kind obj) (ty_kind obj')"
    using assms(1) by (simp add: type_copy_def)
  then have "kind_copy (\<lambda>t u. names' (ty_name (type_at st t)) = Some u) (ty_kind obj) (ty_kind obj')"
    by (rule kind_copy_mono) (rule le)
  then show ?thesis using assms(1) by (simp add: type_copy_def)
qed

lemma kind_copy_refs:
  assumes "kind_copy \<rho> k k'" and "b \<in> set (kind_refs k')"
  shows "\<exists>a \<in> set (kind_refs k). \<rho> a b"
proof (cases k)
  case (Compound fs)
  then obtain gs where gs: "k' = Compound gs" "list_all2 (field_copy \<rho>) fs gs"
    using assms(1) by (auto simp: kind_copy_def)
  then obtain i where "i < length gs" "b = fld_type (gs ! i)" using assms(2) by (auto simp: in_set_conv_nth)
  then show ?thesis using gs(2) Compound by (auto simp: list_all2_conv_all_nth field_copy_def intro!: bexI[of _ "fs ! i"])
qed (use assms in \<open>auto simp: kind_copy_def\<close>)

section \<open>Registries that can be exported\<close>

text \<open>The names that mean a derived type.\<close>

definition derived_name_of :: "string \<Rightarrow> bool" where
  "derived_name_of n \<longleftrightarrow> (\<exists>m. n = getPointerName m) \<or> (\<exists>m dim. n = getArrayName m dim)"

lemma base_name_not_derived: "base_name n \<Longrightarrow> \<not> derived_name_of n"
  by (auto simp: base_name_def derived_name_of_def getPointerName_def getArrayName_def)

definition kind_exportable :: "import_env \<Rightarrow> store \<Rightarrow> Type \<Rightarrow> bool" where
  "kind_exportable env st obj \<longleftrightarrow> (case ty_kind obj of
     Array dim on \<Rightarrow> ty_name obj = getArrayName (ty_name (type_at st on)) dim \<and> dim < 2 ^ 31 \<and>
       ty_size obj = dim * ty_size (type_at st on) \<and> ty_metadata obj = []
   | Pointer on \<Rightarrow> ty_name obj = getPointerName (ty_name (type_at st on)) \<and> ty_size obj = 8 \<and> ty_metadata obj = []
   | Container c fac on \<Rightarrow> base_name (ty_name obj) \<and> env_containers env c = Some fac \<and> 0 < ty_size obj \<and> ty_size obj < 2 ^ 31 \<and>
       (case fac of
          VectorFactory \<Rightarrow> c = ''/std/vector'' \<and> ty_name obj = Vector_fullName (ty_name (type_at st on))
        | StringFactory \<Rightarrow> c = ''/std/string'' \<and> ty_name obj = ''/std/string'' \<and> ty_name (type_at st on) = ''/int8_t'')
   | NullType \<Rightarrow> base_name (ty_name obj) \<and> ty_size obj = 0
   | Enum vs _ \<Rightarrow> base_name (ty_name obj) \<and> ty_size obj = 4 \<and> omap_sorted string_less vs \<and>
       (\<forall>v \<in> snd ` set vs. - (2 ^ 31) \<le> v \<and> v < 2 ^ 31)
   | Compound flds \<Rightarrow> base_name (ty_name obj) \<and> ty_size obj < 2 ^ 64 \<and> normalizeFieldOrder flds = flds \<and>
       (\<forall>f \<in> set flds. fld_offset f < 2 ^ 64)
   | _ \<Rightarrow> base_name (ty_name obj) \<and> ty_size obj < 2 ^ 64)"

definition exportable :: "import_env \<Rightarrow> store \<Rightarrow> Registry \<Rightarrow> bool" where
  "exportable env st reg \<longleftrightarrow> registry_ok st reg \<and> alias_free st reg \<and>
     (\<forall>n t. global_type reg n = Some t \<longrightarrow> grounded st reg t \<and> isValidTypename n True \<and> kind_exportable env st (type_at st t)) \<and>
     (\<forall>n rt. map_of (m_global reg) n = Some rt \<longrightarrow> reg_persistent rt = (\<not> derived_name_of n))"

lemma registry_entry:
  assumes "registry_ok st reg" and "e \<in> set (m_global reg)"
  shows "map_of (m_global reg) (fst e) = Some (snd e)"
proof -
  have "(fst e, snd e) \<in> set (m_global reg)" using assms(2) by simp
  then show ?thesis by (rule map_of_is_SomeI[OF nameSort_map.omap_sorted_distinct[OF registry_ok_sorted[OF assms(1)]]])
qed

lemma exportableD:
  assumes "exportable env st reg" and "global_type reg n = Some t"
  shows "grounded st reg t" "isValidTypename n True" "kind_exportable env st (type_at st t)" "ty_name (type_at st t) = n"
    "canonical_name n"
  using assms registry_ok_type[of st reg n t] by (auto simp: exportable_def alias_free_def)

lemma exportable_refs:
  assumes "exportable env st reg" and "global_type reg n = Some t" and "u \<in> set (kind_refs (ty_kind (type_at st t)))"
  shows "global_type reg (ty_name (type_at st u)) = Some u"
proof -
  have "grounded st reg u" using exportableD(1)[OF assms(1,2)] assms(3) by (auto elim: grounded.cases)
  then have "u \<in> ran (global_type reg)" by (cases rule: grounded.cases) simp
  then obtain m where "global_type reg m = Some u" by (auto simp: ran_def)
  then show ?thesis using exportableD(4)[OF assms(1)] by simp
qed

section \<open>Adding a copy\<close>

lemma builder_okD:
  assumes "builder_ok st reg"
  shows "state_ok (st, reg)" "registry_ok st reg" "indirect_acyclic st" "alias_free st reg" "derived_ok st reg"
  using assms by (auto simp: builder_ok_def state_ok_def alias_free_def)

lemma add_name_new:
  assumes "registry_ok st reg" and "canonical_name name" and "isValidTypename name True" and "global_type reg name = None"
  obtains reg' where "add_name tok st reg name t p src = Inr reg'" "global_type reg' = (global_type reg)(name \<mapsto> t)"
    "map_of (m_global reg') name = Some \<lparr>reg_type = t, reg_persistent = p, reg_source_id = src\<rparr>"
proof -
  obtain reg' where r: "add_name tok st reg name t p src = Inr reg'"
    "m_global reg' = omap_insert nameSort name \<lparr>reg_type = t, reg_persistent = p, reg_source_id = src\<rparr> (m_global reg)"
    using add_name_cases[OF assms(1,2), of tok t p src] assms(3,4) by auto
  moreover have "map_of (m_global reg) name = None" using assms(4) by (simp add: global_type_def)
  ultimately show ?thesis
    using that global_type_insert[OF assms(1,4) r(2)] nameSort_map.omap_find_insert[OF registry_ok_sorted[OF assms(1)]] by simp
qed

lemma add_new:
  assumes ok: "builder_ok st reg" and name: "canonical_name (ty_name obj)" "isValidTypename (ty_name obj) True"
    "global_type reg (ty_name obj) = None" and refs: "set (kind_refs (ty_kind obj)) \<subseteq> ran (global_type reg)"
    and shape: "\<And>m. ty_name obj = getPointerName m \<Longrightarrow> \<exists>u. global_type reg m = Some u \<and> ty_kind obj = Pointer u"
      "\<And>m dim. ty_name obj = getArrayName m dim \<Longrightarrow> \<exists>u. global_type reg m = Some u \<and> ty_kind obj = Array dim u"
    and alloc: "new_type st obj = (i, st')"
  obtains reg' where "add tok st' reg i src = Inr reg'" "builder_ok st' reg'" "store_extends st st'"
    "global_type reg' = (global_type reg)(ty_name obj \<mapsto> i)" "type_at st' i = obj" "i \<notin> dom (objects st)" "i \<in> dom (objects st')"
    "map_of (m_global reg') (ty_name obj) = Some \<lparr>reg_type = i, reg_persistent = isPersistent st' (ty_name obj) i, reg_source_id = src\<rparr>"
proof -
  note B = builder_okD[OF ok] and A = new_type_at[OF builder_okD(3)[OF ok] alloc]
  let ?p = "isPersistent st' (ty_name obj) i"
  have "ran (global_type reg) \<subseteq> dom (objects st)" using registry_ok_type[OF B(2)] by (auto simp: ran_def)
  then have refs': "set (kind_refs (ty_kind obj)) \<subseteq> {..< next_id st}"
    using refs B(3) unfolding indirect_acyclic_def by blast
  have state: "state_ok (st', reg)" by (rule registry_step_ok[OF registry_step.create[OF refs' alloc] B(1)])
  then have reg: "registry_ok st' reg" by (simp add: state_ok_def)
  have i: "i \<in> dom (objects st')" using A(4) by simp
  obtain reg' where r: "add_name tok st' reg (ty_name obj) i ?p src = Inr reg'"
    "global_type reg' = (global_type reg)(ty_name obj \<mapsto> i)"
    "map_of (m_global reg') (ty_name obj) = Some \<lparr>reg_type = i, reg_persistent = ?p, reg_source_id = src\<rparr>"
    by (rule add_name_new[OF reg name])
  have ok': "registry_ok st' reg'"
    using add_name_ok[OF reg name(1) i, of tok ?p src] A(3) r(1) by (simp add: registry_extends_def)
  have old: "type_at st' u = type_at st u" if "global_type reg n = Some u" for n u
    using store_extends_at[OF A(6)] registry_ok_type[OF B(2) that] by blast
  have free: "alias_free st' reg'" using B(4) old A(3) by (auto simp: alias_free_def r(2))
  have "derived_ok st' reg'"
    unfolding derived_ok_def
  proof (intro allI conjI impI)
    fix m p
    have keep: "global_type reg m = Some u \<Longrightarrow> global_type reg' m = Some u" for u
      using r(2) name(3) by (cases "m = ty_name obj") simp_all
    { assume p: "global_type reg' (getPointerName m) = Some p"
      show "\<exists>u. global_type reg' m = Some u \<and> ty_kind (type_at st' p) = Pointer u"
      proof (cases "ty_name obj = getPointerName m")
        case True
        then show ?thesis using shape(1)[OF True] p r(2) A(3) keep by auto
      next
        case False
        then have "global_type reg (getPointerName m) = Some p" using p r(2) by simp
        then show ?thesis using B(5) old keep unfolding derived_ok_def by metis
      qed }
    fix dim assume p: "global_type reg' (getArrayName m dim) = Some p"
    show "\<exists>u. global_type reg' m = Some u \<and> ty_kind (type_at st' p) = Array dim u"
    proof (cases "ty_name obj = getArrayName m dim")
      case True
      then show ?thesis using shape(2)[OF True] p r(2) A(3) keep by auto
    next
      case False
      then have "global_type reg (getArrayName m dim) = Some p" using p r(2) by simp
      then show ?thesis using B(5) old keep unfolding derived_ok_def by metis
    qed
  qed
  then have "builder_ok st' reg'" using free ok' state by (simp add: builder_ok_def state_ok_def alias_free_def)
  moreover have "add tok st' reg i src = Inr reg'"
    using r(1) alias_free_none[OF ok' free] by (simp add: Registry.add_def add_persistent_def A(3) list_ex_iff)
  ultimately show ?thesis using that A r(2,3) i by blast
qed

lemma kind_exportable_name:
  assumes "kind_exportable env st obj"
  shows "ty_name obj = getPointerName m \<Longrightarrow> \<exists>on. ty_kind obj = Pointer on \<and> ty_name (type_at st on) = m"
    and "ty_name obj = getArrayName m dim \<Longrightarrow> \<exists>on. ty_kind obj = Array dim on \<and> ty_name (type_at st on) = m"
    and "\<not> derived_name_of (ty_name obj) \<longleftrightarrow> (\<forall>on. ty_kind obj \<noteq> Pointer on) \<and> (\<forall>dim on. ty_kind obj \<noteq> Array dim on)"
    and "\<not> derived_name_of (ty_name obj) \<longleftrightarrow> base_name (ty_name obj)"
  using assms base_name_not_derived[of "ty_name obj"]
  by (auto simp: kind_exportable_def derived_name_of_def getArrayName_inj split: kind.splits)

lemma copy_shape:
  assumes "exportable env st reg" and "global_type reg n = Some t" and "type_copy st names (type_at st t) obj"
  shows "ty_name obj = getPointerName m \<Longrightarrow> \<exists>u. names m = Some u \<and> ty_kind obj = Pointer u"
    and "ty_name obj = getArrayName m dim \<Longrightarrow> \<exists>u. names m = Some u \<and> ty_kind obj = Array dim u"
proof -
  note shape = kind_exportable_name(1,2)[OF exportableD(3)[OF assms(1,2)]]
  show "\<exists>u. names m = Some u \<and> ty_kind obj = Pointer u" if "ty_name obj = getPointerName m"
    using shape(1)[of m] that assms(3) by (auto simp: type_copy_def kind_copy_def)
  show "\<exists>u. names m = Some u \<and> ty_kind obj = Array dim u" if "ty_name obj = getArrayName m dim"
    using shape(2)[of m dim] that assms(3) by (auto simp: type_copy_def kind_copy_def)
qed

lemma copies_insert:
  assumes "copies st reg st' reg'" and "global_type reg'' = (global_type reg')(n \<mapsto> i)" and "global_type reg' n = None"
    and "\<And>m u. global_type reg' m = Some u \<Longrightarrow> type_at st'' u = type_at st' u"
    and "global_type reg n = Some t" and "type_copy st (global_type reg'') (type_at st t) (type_at st'' i)"
  shows "copies st reg st'' reg''"
  unfolding copies_def
proof (intro allI impI)
  fix m u assume u: "global_type reg'' m = Some u"
  have le: "global_type reg' \<subseteq>\<^sub>m global_type reg''" using assms(2,3) by (auto simp: map_le_def)
  show "\<exists>t. global_type reg m = Some t \<and> type_copy st (global_type reg'') (type_at st t) (type_at st'' u)"
  proof (cases "m = n")
    case True
    then show ?thesis using u assms(2,5,6) by auto
  next
    case False
    then have u': "global_type reg' m = Some u" using u assms(2) by simp
    then obtain t' where "global_type reg m = Some t'" "type_copy st (global_type reg') (type_at st t') (type_at st' u)"
      using assms(1) unfolding copies_def by blast
    then show ?thesis using type_copy_mono[OF _ le] assms(4)[OF u'] by auto
  qed
qed

lemma type_copy_refs:
  assumes "type_copy st names obj obj'"
  shows "set (kind_refs (ty_kind obj')) \<subseteq> ran names"
  using assms kind_copy_refs unfolding type_copy_def by (fastforce simp: ran_def)

text \<open>Adding a copy of a type of the source to the registry keeps it a copy.\<close>

lemma add_copy:
  assumes ok: "builder_ok st' reg'" "copies st reg st' reg'" and src: "exportable env st reg" "global_type reg n = Some t"
    and new: "global_type reg' n = None" "type_copy st (global_type reg') (type_at st t) obj" "new_type st' obj = (i, st'')"
  obtains reg'' where "add tok st'' reg' i s = Inr reg''" "builder_ok st'' reg''" "copies st reg st'' reg''" "store_extends st' st''"
    "global_type reg'' = (global_type reg')(n \<mapsto> i)"
    "map_of (m_global reg'') n = Some \<lparr>reg_type = i, reg_persistent = isPersistent st'' n i, reg_source_id = s\<rparr>"
proof -
  note E = exportableD[OF src] and B = builder_okD[OF ok(1)]
  have n: "ty_name obj = n" using new(2) E(4) by (simp add: type_copy_def)
  have names: "canonical_name (ty_name obj)" "isValidTypename (ty_name obj) True" "global_type reg' (ty_name obj) = None"
    using E(2,5) new(1) by (simp_all add: n)
  obtain reg'' where r: "add tok st'' reg' i s = Inr reg''" "builder_ok st'' reg''" "store_extends st' st''"
    "global_type reg'' = (global_type reg')(n \<mapsto> i)" "type_at st'' i = obj"
    "map_of (m_global reg'') n = Some \<lparr>reg_type = i, reg_persistent = isPersistent st'' n i, reg_source_id = s\<rparr>"
    using add_new[OF ok(1) names type_copy_refs[OF new(2)] copy_shape[OF src new(2)] new(3), of tok s] unfolding n by metis
  have le: "global_type reg' \<subseteq>\<^sub>m global_type reg''" using r(4) new(1) by (auto simp: map_le_def)
  have "copies st reg st'' reg''"
  proof (rule copies_insert[OF ok(2) r(4) new(1) _ src(2)])
    show "type_at st'' u = type_at st' u" if "global_type reg' m = Some u" for m u
      using store_extends_at[OF r(3)] registry_ok_type[OF B(2) that] by blast
    show "type_copy st (global_type reg'') (type_at st t) (type_at st'' i)"
      using type_copy_mono[OF new(2) le] r(5) by simp
  qed
  then show ?thesis using that r by blast
qed

section \<open>Loading nodes\<close>

text \<open>What the node of a type says about it.\<close>

definition field_node :: "store \<Rightarrow> Field \<Rightarrow> xml \<Rightarrow> bool" where
  "field_node st f x \<longleftrightarrow> getStringAttribute x ''name'' = Some (fld_name f) \<and>
     getStringAttribute x ''type'' = Some (ty_name (type_at st (fld_type f))) \<and>
     getStringAttribute x ''offset'' = Some (show_nat (fld_offset f)) \<and> loadMetaData x [] = Inr (fld_metadata f)"

definition value_node :: "string \<times> int \<Rightarrow> xml \<Rightarrow> bool" where
  "value_node v x \<longleftrightarrow> getStringAttribute x ''symbol'' = Some (fst v) \<and> getStringAttribute x ''value'' = Some (show_int (snd v))"

definition describes :: "store \<Rightarrow> Type \<Rightarrow> xml \<Rightarrow> bool" where
  "describes st obj x \<longleftrightarrow> getStringAttribute x ''name'' = Some (ty_name obj) \<and> loadMetaData x [] = Inr (ty_metadata obj) \<and>
     (case ty_kind obj of
        NullType \<Rightarrow> xml_name x = ''null''
      | Opaque \<Rightarrow> xml_name x = ''opaque'' \<and> getStringAttribute x ''size'' = Some (show_nat (ty_size obj))
      | Numeric cat \<Rightarrow> xml_name x = ''numeric'' \<and> getStringAttribute x ''size'' = Some (show_nat (ty_size obj)) \<and>
          getStringAttribute x ''category'' = Some (getStringCategory cat)
      | Enum vs _ \<Rightarrow> xml_name x = ''enum'' \<and> list_all2 value_node vs (elements_named ''value'' x)
      | Compound flds \<Rightarrow> xml_name x = ''compound'' \<and> getStringAttribute x ''size'' = Some (show_nat (ty_size obj)) \<and>
          list_all2 (field_node st) flds (elements_named ''field'' x)
      | Container c _ on \<Rightarrow> xml_name x = ''container'' \<and> getStringAttribute x ''size'' = Some (show_nat (ty_size obj)) \<and>
          getStringAttribute x ''kind'' = Some c \<and> getStringAttribute x ''of'' = Some (ty_name (type_at st on))
      | _ \<Rightarrow> False)"

definition node_for :: "store \<Rightarrow> string \<Rightarrow> RegistryType \<Rightarrow> TypeNode \<Rightarrow> bool" where
  "node_for st n rt node \<longleftrightarrow> tn_name node = n \<and> describes st (type_at st (reg_type rt)) (tn_xml node) \<and>
     map_of node_categories (xml_name (tn_xml node)) = Some (tn_loader node)"

text \<open>The conversions of \<open>boost::lexical_cast\<close> read back the numbers that a stream prints.\<close>

definition lexical_casts :: "import_env \<Rightarrow> bool" where
  "lexical_casts env \<longleftrightarrow> (\<forall>n < 2 ^ 64. cast_size env (show_nat n) = Some n) \<and>
     (\<forall>i. - (2 ^ 31) \<le> i \<longrightarrow> i < 2 ^ 31 \<longrightarrow> cast_int env (show_int i) = Some i)"

text \<open>
  The state of an import: the registry is a copy of a part of the source, the nodes that wait are
  nodes of persistent types of the source, and \<open>S\<close> are the names of the types that are being loaded.
\<close>

definition import_inv :: "store \<Rightarrow> Registry \<Rightarrow> string set \<Rightarrow> Factory \<Rightarrow> bool" where
  "import_inv st reg S f \<longleftrightarrow> builder_ok (f_store f) (f_registry f) \<and> copies st reg (f_store f) (f_registry f) \<and>
     (\<forall>n node. map_of (m_map f) n = Some node \<longrightarrow> (\<exists>rt. map_of (m_global reg) n = Some rt \<and> node_for st n rt node)) \<and>
     (\<forall>n rt. map_of (m_global reg) n = Some rt \<longrightarrow> reg_persistent rt \<longrightarrow>
        n \<in> dom (map_of (m_map f)) \<union> dom (global_type (f_registry f)) \<union> S)"

text \<open>Progress: nothing is lost, and only the names \<open>N\<close> are added.\<close>

definition import_grows :: "string set \<Rightarrow> Factory \<Rightarrow> Factory \<Rightarrow> bool" where
  "import_grows N f f' \<longleftrightarrow> store_extends (f_store f) (f_store f') \<and> global_type (f_registry f) \<subseteq>\<^sub>m global_type (f_registry f') \<and>
     dom (global_type (f_registry f')) \<subseteq> dom (global_type (f_registry f)) \<union> N \<and>
     (\<exists>P. m_map f' = filter (\<lambda>e. P (fst e)) (m_map f))"

lemma import_grows_refl [simp]: "import_grows N f f"
  by (auto simp: import_grows_def store_extends_def intro: exI[of _ "\<lambda>_. True"])

lemma import_grows_same_map:
  "store_extends (f_store f) (f_store f') \<Longrightarrow> global_type (f_registry f) \<subseteq>\<^sub>m global_type (f_registry f') \<Longrightarrow>
   dom (global_type (f_registry f')) \<subseteq> dom (global_type (f_registry f)) \<union> N \<Longrightarrow> m_map f' = m_map f \<Longrightarrow> import_grows N f f'"
  by (auto simp: import_grows_def intro: exI[of _ "\<lambda>_. True"])

lemma import_grows_length: "import_grows N f f' \<Longrightarrow> length (m_map f') \<le> length (m_map f)"
  by (auto simp: import_grows_def)

lemma import_grows_trans:
  assumes "import_grows N f g" and "import_grows M g h" and "N \<subseteq> K" and "M \<subseteq> K"
  shows "import_grows K f h"
proof -
  obtain P Q where "m_map g = filter (\<lambda>e. P (fst e)) (m_map f)" "m_map h = filter (\<lambda>e. Q (fst e)) (m_map g)"
    using assms(1,2) by (auto simp: import_grows_def)
  then have "m_map h = filter (\<lambda>e. P (fst e) \<and> Q (fst e)) (m_map f)" by (simp add: conj_commute)
  then have "\<exists>R. m_map h = filter (\<lambda>e. R (fst e)) (m_map f)" by (rule exI[of _ "\<lambda>k. P k \<and> Q k"])
  then show ?thesis
    using assms store_extends_trans[of "f_store f" "f_store g" "f_store h"] map_le_trans[of "global_type (f_registry f)"]
    unfolding import_grows_def by (intro conjI) blast+
qed

lemma import_grows_None:
  assumes "import_grows N f f'" and "global_type (f_registry f) n = None" and "n \<notin> N"
  shows "global_type (f_registry f') n = None"
proof -
  have "n \<notin> dom (global_type (f_registry f))" using assms(2) by auto
  then have "n \<notin> dom (global_type (f_registry f'))" using assms(1,3) unfolding import_grows_def by blast
  then show ?thesis by auto
qed

lemma import_invD:
  assumes "import_inv st reg S f"
  shows "builder_ok (f_store f) (f_registry f)" "copies st reg (f_store f) (f_registry f)"
    "registry_ok (f_store f) (f_registry f)"
    "map_of (m_map f) n = Some node \<Longrightarrow> \<exists>rt. map_of (m_global reg) n = Some rt \<and> node_for st n rt node"
    "map_of (m_global reg) n = Some rt \<Longrightarrow> reg_persistent rt \<Longrightarrow>
        n \<in> dom (map_of (m_map f)) \<union> dom (global_type (f_registry f)) \<union> S"
  using assms builder_okD(2) by (simp_all add: import_inv_def)

lemma Factory_insert_ok:
  assumes inv: "import_inv st reg S f" and src: "exportable env st reg" "global_type reg n = Some t" "global_type (f_registry f) n = None"
    and md: "loadMetaData (tn_xml node) (ty_metadata obj) = Inr md"
    and copy: "type_copy st (global_type (f_registry f)) (type_at st t) (obj\<lparr>ty_metadata := md\<rparr>)"
  obtains u f' where "Factory_insert env node obj f = Inr (u, f')" "import_inv st reg S f'" "import_grows {n} f f'"
    "global_type (f_registry f') n = Some u"
proof -
  note I = import_invD[OF inv]
  obtain i st'' where alloc: "new_type (f_store f) (obj\<lparr>ty_metadata := md\<rparr>) = (i, st'')" by fastforce
  obtain reg'' where r: "add (env_tok env) st'' (f_registry f) i (tn_file node) = Inr reg''" "builder_ok st'' reg''"
    "copies st reg st'' reg''" "store_extends (f_store f) st''" "global_type reg'' = (global_type (f_registry f))(n \<mapsto> i)"
    by (rule add_copy[OF I(1,2) src(1,2,3) copy alloc])
  let ?f = "f\<lparr>f_store := st'', f_registry := reg''\<rparr>"
  have "Factory_insert env node obj f = Inr (i, ?f)" using md alloc r(1) by (simp add: Factory_insert_def)
  moreover have "import_inv st reg S ?f" using inv r(2,3,5) by (auto simp: import_inv_def)
  moreover have "import_grows {n} f ?f" by (rule import_grows_same_map) (use r(4,5) src(3) in \<open>auto simp: map_le_def\<close>)
  ultimately show ?thesis using that r(5) by simp
qed

lemma attribute_simps:
  "getStringAttribute x n = Some v \<Longrightarrow> getAttribute x n = Inr v"
  "getStringAttribute x n = Some v \<Longrightarrow> conv v = Some w \<Longrightarrow> getAttribute_as conv x n = Inr w"
  by (simp_all add: getAttribute_def getAttribute_as_def lexical_cast_def)

lemma omap_insert_last:
  "\<forall>k' \<in> fst ` set m. string_less k' k \<Longrightarrow> omap_insert string_less k v m = m @ [(k, v)]"
  by (induction m) (auto simp: string_map.lt_asym)

lemma load_enum_values:
  assumes "list_all2 value_node vs xs" and "omap_sorted string_less (acc @ vs)"
    and "\<forall>v \<in> snd ` set vs. - (2 ^ 31) \<le> v \<and> v < 2 ^ 31" and "lexical_casts env"
  shows "\<exists>last'. fold_result (load_enum_value env) (acc, last_value) xs = Inr (acc @ vs, last')"
  using assms
proof (induction vs xs arbitrary: acc last_value rule: list_all2_induct)
  case (Cons v vs x xs)
  obtain k i where v: "v = (k, i)" by fastforce
  have less: "\<forall>k' \<in> fst ` set acc. string_less k' k" using Cons.prems(1) by (auto simp: v omap_sorted_def sorted_wrt_append)
  then have "map_of acc k = None" using string_map.lt_irrefl by (force simp: map_of_eq_None_iff)
  moreover have "cast_int env (show_int i) = Some i" using Cons.prems(2,3) by (auto simp: v lexical_casts_def)
  ultimately have "load_enum_value env (acc, last_value) x = Inr (acc @ [v], i)"
    using Cons(1) less by (simp add: load_enum_value_def value_node_def v Enum_add_def attribute_simps omap_insert_last)
  then show ?case using Cons.IH[of "acc @ [v]" i] Cons.prems by simp
qed simp

text \<open>What building a type establishes.\<close>

definition builds :: "store \<Rightarrow> Registry \<Rightarrow> string set \<Rightarrow> string set \<Rightarrow> string \<Rightarrow> Factory \<Rightarrow> (tid \<times> Factory) result \<Rightarrow> bool" where
  "builds st reg S N n f r \<longleftrightarrow> (\<exists>u f'. r = Inr (u, f') \<and> import_inv st reg S f' \<and> import_grows N f f' \<and>
     global_type (f_registry f') n = Some u)"

lemma plain_loader_ok:
  assumes inv: "import_inv st reg S f" and env: "lexical_casts env"
    and src: "exportable env st reg" "global_type reg n = Some t" "global_type (f_registry f) n = None"
    and node: "tn_name node = n" "describes st (type_at st t) (tn_xml node)"
      "map_of node_categories (xml_name (tn_xml node)) = Some (tn_loader node)"
    and plain: "kind_refs (ty_kind (type_at st t)) = []" "\<forall>flds. ty_kind (type_at st t) \<noteq> Compound flds"
  shows "builds st reg S {n} n f (run_loader build_type env node f)"
proof -
  note E = exportableD[OF src(1,2)]
  let ?obj = "type_at st t"
  have md: "loadMetaData (tn_xml node) [] = Inr (ty_metadata ?obj)" using node(2) by (simp add: describes_def)
  have insert: "builds st reg S {n} n f (Factory_insert env node obj f)"
    if "type_copy st (global_type (f_registry f)) ?obj (obj\<lparr>ty_metadata := ty_metadata ?obj\<rparr>)" "ty_metadata obj = []" for obj
    by (rule Factory_insert_ok[OF inv src, of node obj]) (use md that in \<open>auto simp: builds_def\<close>)
  have size: "cast_size env (show_nat (ty_size ?obj)) = Some (ty_size ?obj)" if "ty_size ?obj < 2 ^ 64"
    using env that by (simp add: lexical_casts_def)
  show ?thesis
  proof (cases "ty_kind ?obj")
    case NullType
    then have "tn_loader node = load_null" using node(2,3) by (simp add: describes_def node_categories_def)
    moreover have "type_copy st (global_type (f_registry f)) ?obj ((NullType_ctor n)\<lparr>ty_metadata := ty_metadata ?obj\<rparr>)"
      using NullType E(3,4) by (simp add: type_copy_def kind_copy_def NullType_ctor_def Type_ctor_def kind_exportable_def)
    then have "builds st reg S {n} n f (Factory_insert env node (NullType_ctor n) f)"
      by (rule insert) (simp add: NullType_ctor_def Type_ctor_def)
    ultimately show ?thesis by (simp add: run_loader_def do_load_null_def node(1))
  next
    case (Numeric cat)
    then have l: "tn_loader node = load_numeric" "getStringAttribute (tn_xml node) ''size'' = Some (show_nat (ty_size ?obj))"
      "getStringAttribute (tn_xml node) ''category'' = Some (getStringCategory cat)"
      using node(2,3) by (simp_all add: describes_def node_categories_def)
    have "type_copy st (global_type (f_registry f)) ?obj ((Numeric_ctor n (ty_size ?obj) cat)\<lparr>ty_metadata := ty_metadata ?obj\<rparr>)"
      using Numeric E(3,4) by (simp add: type_copy_def kind_copy_def Numeric_ctor_def Type_ctor_def kind_exportable_def)
    then have "builds st reg S {n} n f (Factory_insert env node (Numeric_ctor n (ty_size ?obj) cat) f)"
      by (rule insert) (simp add: Numeric_ctor_def Type_ctor_def)
    moreover have "getCategoryFromNode numeric_categories (getStringCategory cat) = Inr cat"
      by (cases cat) (simp_all add: getCategoryFromNode_def numeric_categories_def getStringCategory_def)
    moreover have "cast_size env (show_nat (ty_size ?obj)) = Some (ty_size ?obj)"
      using size E(3) Numeric by (simp add: kind_exportable_def)
    ultimately show ?thesis using l by (simp add: run_loader_def do_load_numeric_def node(1) attribute_simps)
  next
    case Opaque
    then have l: "tn_loader node = load_opaque" "getStringAttribute (tn_xml node) ''size'' = Some (show_nat (ty_size ?obj))"
      using node(2,3) by (simp_all add: describes_def node_categories_def)
    have "type_copy st (global_type (f_registry f)) ?obj ((OpaqueType_ctor n (ty_size ?obj))\<lparr>ty_metadata := ty_metadata ?obj\<rparr>)"
      using Opaque E(3,4) by (simp add: type_copy_def kind_copy_def OpaqueType_ctor_def Type_ctor_def kind_exportable_def)
    then have "builds st reg S {n} n f (Factory_insert env node (OpaqueType_ctor n (ty_size ?obj)) f)"
      by (rule insert) (simp add: OpaqueType_ctor_def Type_ctor_def)
    moreover have "cast_size env (show_nat (ty_size ?obj)) = Some (ty_size ?obj)"
      using size E(3) Opaque by (simp add: kind_exportable_def)
    ultimately show ?thesis using l by (simp add: run_loader_def do_load_opaque_def node(1) attribute_simps)
  next
    case (Enum vs last_value)
    then have l: "tn_loader node = load_enum" "list_all2 value_node vs (elements_named ''value'' (tn_xml node))"
      using node(2,3) by (simp_all add: describes_def node_categories_def)
    obtain last' where f: "fold_result (load_enum_value env) ([], -1) (elements_named ''value'' (tn_xml node)) = Inr (vs, last')"
      using load_enum_values[OF l(2), of "[]" env] E(3) env Enum by (auto simp: kind_exportable_def)
    let ?new = "(Enum_ctor n 0)\<lparr>ty_kind := Enum vs last'\<rparr>"
    have "type_copy st (global_type (f_registry f)) ?obj (?new\<lparr>ty_metadata := ty_metadata ?obj\<rparr>)"
      using Enum E(3,4) by (simp add: type_copy_def kind_copy_def Enum_ctor_def Type_ctor_def kind_exportable_def)
    then have "builds st reg S {n} n f (Factory_insert env node ?new f)"
      by (rule insert) (simp add: Enum_ctor_def Type_ctor_def)
    then show ?thesis using l(1) f by (simp add: run_loader_def do_load_enum_def node(1))
  qed (use plain in auto)
qed

subsection \<open>Compounds\<close>

abbreviation named_as :: "store \<Rightarrow> Factory \<Rightarrow> tid \<Rightarrow> tid \<Rightarrow> bool" where
  "named_as st f t u \<equiv> global_type (f_registry f) (ty_name (type_at st t)) = Some u"

lemma fields_grow:
  assumes "list_all2 (field_copy (named_as st f)) fs gs" and "import_grows N f f'"
  shows "list_all2 (field_copy (named_as st f')) fs gs"
proof (rule list_all2_mono[OF assms(1)])
  have "global_type (f_registry f) n = Some u \<Longrightarrow> global_type (f_registry f') n = Some u" for n u
    using assms(2) unfolding import_grows_def by (metis domI map_le_def)
  then show "field_copy (named_as st f') a b" if "field_copy (named_as st f) a b" for a b
    using that by (simp add: field_copy_def)
qed

lemma addField_kind:
  "ty_kind c = Compound gs \<Longrightarrow> ty_kind (addField st c n t off) = Compound (gs @ [\<lparr>fld_name = n, fld_type = t, fld_offset = off, fld_metadata = []\<rparr>])"
  "ty_name (addField st c n t off) = ty_name c" "ty_metadata (addField st c n t off) = ty_metadata c"
  by (auto simp: addField_def Let_def split: kind.splits)

lemma load_fields_ok:
  assumes "list_all2 (field_node st) flds xs"
    and "\<And>g f. g \<in> set flds \<Longrightarrow> import_inv st reg S f \<Longrightarrow> length (m_map f) < fuel \<Longrightarrow>
      builds st reg S N (ty_name (type_at st (fld_type g))) f (build_type (ty_name (type_at st (fld_type g))) f)"
    and "\<forall>g \<in> set flds. fld_offset g < 2 ^ 64" and "lexical_casts env"
    and "import_inv st reg S f" and "length (m_map f) < fuel"
    and "ty_kind c = Compound gs" and "list_all2 (field_copy (named_as st f)) fs gs"
  shows "\<exists>c' f' gs'. fold_result (load_field build_type env) (c, f) xs = Inr (c', f') \<and> import_inv st reg S f' \<and> import_grows N f f' \<and>
    ty_kind c' = Compound gs' \<and> list_all2 (field_copy (named_as st f')) (fs @ flds) gs' \<and>
    ty_name c' = ty_name c \<and> ty_metadata c' = ty_metadata c"
  using assms
proof (induction flds xs arbitrary: f c gs fs rule: list_all2_induct)
  case Nil
  then show ?case by (intro exI[of _ c] exI[of _ f] exI[of _ gs]) simp
next
  case (Cons g flds x xs)
  let ?n = "ty_name (type_at st (fld_type g))"
  obtain u f1 where b: "build_type ?n f = Inr (u, f1)" "import_inv st reg S f1" "import_grows N f f1" "named_as st f1 (fld_type g) u"
    using Cons.prems(1)[of g f] Cons.prems(4,5) by (auto simp: builds_def)
  let ?c = "set_field_metadata (addField (f_store f1) c (fld_name g) u (fld_offset g)) (fld_metadata g)"
  let ?g = "\<lparr>fld_name = fld_name g, fld_type = u, fld_offset = fld_offset g, fld_metadata = fld_metadata g\<rparr>"
  have c: "ty_kind ?c = Compound (gs @ [?g])" "ty_name ?c = ty_name c" "ty_metadata ?c = ty_metadata c"
    using Cons.prems(6) by (simp_all add: set_field_metadata_def addField_kind)
  have "cast_size env (show_nat (fld_offset g)) = Some (fld_offset g)" using Cons.prems(2,3) by (simp add: lexical_casts_def)
  then have step: "load_field build_type env (c, f) x = Inr (?c, f1)"
    using Cons(1) b(1) by (simp add: load_field_def field_node_def attribute_simps Let_def)
  have "length (m_map f1) < fuel" using import_grows_length[OF b(3)] Cons.prems(5) by simp
  moreover have "list_all2 (field_copy (named_as st f1)) (fs @ [g]) (gs @ [?g])"
    using fields_grow[OF Cons.prems(7) b(3)] b(4) by (simp add: list_all2_appendI field_copy_def)
  ultimately obtain c' f' gs' where r: "fold_result (load_field build_type env) (?c, f1) xs = Inr (c', f')" "import_inv st reg S f'"
    "import_grows N f1 f'" "ty_kind c' = Compound gs'" "list_all2 (field_copy (named_as st f')) (fs @ g # flds) gs'"
    "ty_name c' = ty_name c" "ty_metadata c' = ty_metadata c"
    using Cons.IH[OF _ _ _ b(2) _ c(1), of "fs @ [g]"] Cons.prems(1,2,3) c(2,3) by auto
  then show ?case using step import_grows_trans[OF b(3) r(3)] by auto
qed

lemma normalized_copy:
  assumes "list_all2 (field_copy \<rho>) fs gs" and "normalizeFieldOrder fs = fs"
  shows "normalizeFieldOrder gs = gs"
proof -
  let ?k = "\<lambda>f. (fld_offset f, fld_name f)"
  have "map ?k gs = map ?k fs"
    using assms(1) by (induction rule: list_all2_induct) (auto simp: field_copy_def)
  moreover have "sorted (map ?k fs)" using assms(2) sorted_sort_key[of ?k fs] by (simp add: normalizeFieldOrder_def)
  ultimately show ?thesis by (simp add: normalizeFieldOrder_def sort_key_id_if_sorted)
qed

lemma compound_loader_ok:
  assumes inv: "import_inv st reg S f" "length (m_map f) < fuel" and env: "lexical_casts env"
    and src: "exportable env st reg" "global_type reg n = Some t" "global_type (f_registry f) n = None"
    and node: "tn_name node = n" "describes st (type_at st t) (tn_xml node)"
      "map_of node_categories (xml_name (tn_xml node)) = Some (tn_loader node)"
    and kind: "ty_kind (type_at st t) = Compound flds" and N: "n \<notin> N"
    and build: "\<And>g f. g \<in> set flds \<Longrightarrow> import_inv st reg S f \<Longrightarrow> length (m_map f) < fuel \<Longrightarrow>
      builds st reg S N (ty_name (type_at st (fld_type g))) f (build_type (ty_name (type_at st (fld_type g))) f)"
  shows "builds st reg S (insert n N) n f (run_loader build_type env node f)"
proof -
  note E = exportableD[OF src(1,2)]
  let ?obj = "type_at st t"
  have l: "tn_loader node = load_compound" "getStringAttribute (tn_xml node) ''size'' = Some (show_nat (ty_size ?obj))"
    "list_all2 (field_node st) flds (elements_named ''field'' (tn_xml node))"
    "loadMetaData (tn_xml node) [] = Inr (ty_metadata ?obj)"
    using node(2,3) kind by (simp_all add: describes_def node_categories_def)
  have e: "normalizeFieldOrder flds = flds" "\<forall>g \<in> set flds. fld_offset g < 2 ^ 64" "ty_size ?obj < 2 ^ 64"
    using E(3) kind by (simp_all add: kind_exportable_def)
  have ctor: "ty_kind (Compound_ctor n) = Compound []" "ty_metadata (Compound_ctor n) = []" "ty_name (Compound_ctor n) = n"
    by (simp_all add: Compound_ctor_def Type_ctor_def)
  obtain c f1 gs where r: "fold_result (load_field build_type env) (Compound_ctor n, f) (elements_named ''field'' (tn_xml node)) = Inr (c, f1)"
    "import_inv st reg S f1" "import_grows N f f1" "ty_kind c = Compound gs" "list_all2 (field_copy (named_as st f1)) flds gs"
    "ty_name c = n" "ty_metadata c = []"
    using load_fields_ok[OF l(3) build e(2) env inv ctor(1), of "[]"] ctor(2,3) by auto
  let ?new = "c\<lparr>ty_kind := Compound (normalizeFieldOrder gs), ty_size := ty_size ?obj\<rparr>"
  have none: "global_type (f_registry f1) n = None"
    by (rule import_grows_None[OF r(3) src(3) N])
  have copy: "type_copy st (global_type (f_registry f1)) ?obj (?new\<lparr>ty_metadata := ty_metadata ?obj\<rparr>)"
    using r(4,5,6) E(4) kind normalized_copy[OF r(5) e(1)] by (simp add: type_copy_def kind_copy_def)
  have md: "loadMetaData (tn_xml node) (ty_metadata ?new) = Inr (ty_metadata ?obj)" using l(4) r(7) by simp
  obtain u f' where i: "Factory_insert env node ?new f1 = Inr (u, f')" "import_inv st reg S f'" "import_grows {n} f1 f'"
    "global_type (f_registry f') n = Some u"
    by (rule Factory_insert_ok[OF r(2) src(1,2) none md copy])
  have "cast_size env (show_nat (ty_size ?obj)) = Some (ty_size ?obj)" using env e(3) by (simp add: lexical_casts_def)
  then have "getAttribute_as (cast_size env) (tn_xml node) ''size'' = Inr (ty_size ?obj)" using l(2) by (rule attribute_simps(2)[rotated])
  then have "run_loader build_type env node f = Inr (u, f')"
    using l(1) r(1,4) i(1) by (simp add: run_loader_def do_load_compound_def node(1))
  moreover have "import_grows (insert n N) f f'" by (rule import_grows_trans[OF r(3) i(3)]) auto
  ultimately show ?thesis using i(2,4) unfolding builds_def by blast
qed

subsection \<open>Containers\<close>

lemma update_type_at: "type_at (update_type st i h) u = (if u = i then h (type_at st i) else type_at st u)"
  by (simp add: update_type_def type_at_def)

lemma builder_ok_update:
  assumes "builder_ok st reg" and "i \<in> dom (objects st)" and "ty_name (h (type_at st i)) = ty_name (type_at st i)"
    and "ty_kind (h (type_at st i)) = ty_kind (type_at st i)"
  shows "builder_ok (update_type st i h) reg"
proof -
  have kinds: "ty_kind (type_at (update_type st i h) u) = ty_kind (type_at st u)" "ty_name (type_at (update_type st i h) u) = ty_name (type_at st u)" for u
    using assms(3,4) by (simp_all add: update_type_at)
  have "state_ok (update_type st i h, reg)"
    using update_type_ok[of st reg i h] assms builder_okD(1)[OF assms(1)] by simp
  then show ?thesis using assms(1) unfolding builder_ok_def derived_ok_def kinds by blast
qed

lemma factory_new:
  assumes ok: "registry_ok st reg" and kind: "case fac of
      VectorFactory \<Rightarrow> c = ''/std/vector'' \<and> n = Vector_fullName (ty_name (type_at st u))
    | StringFactory \<Rightarrow> c = ''/std/string'' \<and> n = ''/std/string'' \<and> global_type reg ''/int8_t'' = Some u"
    and none: "global_type reg n = None" "canonical_name n"
  obtains obj where "ty_name obj = n" "ty_kind obj = Container c fac u" "ty_metadata obj = []"
    "call_factory fac tok st reg [u] = (case new_type st obj of (i, st') \<Rightarrow> bind_result (add tok st' reg i []) (\<lambda>reg'. Inr (i, st', reg')))"
proof (cases fac)
  case VectorFactory
  have n: "isAbsoluteName n" "n = Vector_fullName (ty_name (type_at st u))" "c = ''/std/vector''"
    using none(2) kind VectorFactory by (simp_all add: canonical_name_def)
  have "get reg n = None" using registry_ok_absolute[OF ok n(1)] none(1) by simp
  then have "has reg n True = Inr False" by (rule has_absent[OF n(1)]) (simp_all add: n(2) Vector_fullName_def)
  then show ?thesis using that[of "Vector_ctor st u"] n VectorFactory
    by (simp add: call_factory_def Vector_factory_def Vector_ctor_def Type_ctor_def Let_def)
next
  case StringFactory
  have n: "isAbsoluteName n" "n = ''/std/string''" "c = ''/std/string''" and u: "global_type reg ''/int8_t'' = Some u"
    using none(2) kind StringFactory by (simp_all add: canonical_name_def)
  have "get reg n = None" using registry_ok_absolute[OF ok n(1)] none(1) by simp
  then have "has reg ''/std/string'' True = Inr False" using has_absent[OF n(1)] n(2) by simp
  moreover have int8: "get reg ''/int8_t'' = Some u"
    using registry_ok_absolute[OF ok, of "''/int8_t''"] u by (simp add: isAbsoluteName_def NamespaceMark_def)
  moreover have "has reg ''/int8_t'' True = Inr True" using int8 by (auto simp: has_def get_def)
  ultimately show ?thesis using that[of "String_ctor u"] n StringFactory
    by (simp add: call_factory_def String_factory_def String_ctor_def Type_ctor_def)
qed

lemma container_loader_ok:
  assumes inv: "import_inv st reg S f" "length (m_map f) < fuel" and env: "lexical_casts env"
    and src: "exportable env st reg" "global_type reg n = Some t" "global_type (f_registry f) n = None"
    and node: "tn_name node = n" "describes st (type_at st t) (tn_xml node)"
      "map_of node_categories (xml_name (tn_xml node)) = Some (tn_loader node)"
    and kind: "ty_kind (type_at st t) = Container c fac on" and N: "n \<notin> N"
    and build: "builds st reg S N (ty_name (type_at st on)) f (build_type (ty_name (type_at st on)) f)"
  shows "builds st reg S (insert n N) n f (run_loader build_type env node f)"
proof -
  note E = exportableD[OF src(1,2)]
  let ?obj = "type_at st t"
  have l: "tn_loader node = load_container" "getStringAttribute (tn_xml node) ''size'' = Some (show_nat (ty_size ?obj))"
    "getStringAttribute (tn_xml node) ''kind'' = Some c" "getStringAttribute (tn_xml node) ''of'' = Some (ty_name (type_at st on))"
    "loadMetaData (tn_xml node) [] = Inr (ty_metadata ?obj)"
    using node(2,3) kind by (simp_all add: describes_def node_categories_def)
  obtain u f1 where b: "build_type (ty_name (type_at st on)) f = Inr (u, f1)" "import_inv st reg S f1" "import_grows N f f1" "named_as st f1 on u"
    using build by (auto simp: builds_def)
  note I = import_invD[OF b(2)]
  let ?st = "f_store f1" and ?reg = "f_registry f1"
  have none: "global_type ?reg n = None" by (rule import_grows_None[OF b(3) src(3) N])
  have u: "ty_name (type_at ?st u) = ty_name (type_at st on)" using builder_okD(4)[OF I(1)] b(4) by (simp add: alias_free_def)
  have e: "env_containers env c = Some fac" "0 < ty_size ?obj" "ty_size ?obj < 2 ^ 31" "base_name n"
    using E(3,4) kind by (auto simp: kind_exportable_def)
  obtain obj where obj: "ty_name obj = n" "ty_kind obj = Container c fac u" "ty_metadata obj = []"
    "call_factory fac (env_tok env) ?st ?reg [u] =
       (case new_type ?st obj of (i, st') \<Rightarrow> bind_result (add (env_tok env) st' ?reg i []) (\<lambda>reg'. Inr (i, st', reg')))"
    by (rule factory_new[OF I(3) _ none E(5), where fac = fac and c = c and u = u and tok = "env_tok env"])
      (use E(3,4) kind b(4) u in \<open>auto simp: kind_exportable_def split: factory.splits\<close>)
  obtain i st' where alloc: "new_type ?st obj = (i, st')" by fastforce
  have nd: "ty_name obj \<noteq> getPointerName m" "ty_name obj \<noteq> getArrayName m dim" for m dim
    using base_name_not_derived[OF e(4)] obj(1) by (auto simp: derived_name_of_def)
  have names: "canonical_name (ty_name obj)" "isValidTypename (ty_name obj) True" "global_type ?reg (ty_name obj) = None"
    using E(2,5) none obj(1) by simp_all
  have refs: "set (kind_refs (ty_kind obj)) \<subseteq> ran (global_type ?reg)" using obj(2) b(4) by (auto simp: ran_def)
  obtain reg' where r: "add (env_tok env) st' ?reg i [] = Inr reg'" "builder_ok st' reg'" "store_extends ?st st'"
    "global_type reg' = (global_type ?reg)(n \<mapsto> i)" "type_at st' i = obj" "i \<notin> dom (objects ?st)" "i \<in> dom (objects st')"
    using add_new[OF I(1) names refs _ _ alloc, of "env_tok env" "[]"] nd obj(1) by metis
  let ?st1 = "setSize st' i (ty_size ?obj)"
  let ?st2 = "update_type ?st1 i (\<lambda>obj. obj\<lparr>ty_metadata := ty_metadata ?obj\<rparr>)"
  let ?f = "f1\<lparr>f_store := ?st2, f_registry := reg'\<rparr>"
  have st1: "builder_ok ?st1 reg'" unfolding setSize_def by (rule builder_ok_update[OF r(2,7)]) simp_all
  have ok: "builder_ok ?st2 reg'" by (rule builder_ok_update[OF st1]) (use r(7) in \<open>simp_all add: setSize_def update_type_def\<close>)
  have at: "type_at ?st2 i = obj\<lparr>ty_size := ty_size ?obj, ty_metadata := ty_metadata ?obj\<rparr>" "type_at ?st1 i = obj\<lparr>ty_size := ty_size ?obj\<rparr>"
    by (simp_all add: setSize_def update_type_at r(5))
  have ext: "store_extends ?st ?st2" using r(3,6) by (auto simp: store_extends_def setSize_def update_type_def)
  have le: "global_type ?reg \<subseteq>\<^sub>m global_type reg'" using r(4) none by (auto simp: map_le_def)
  have "copies st reg ?st2 reg'"
  proof (rule copies_insert[OF I(2) r(4) none _ src(2)])
    show "type_at ?st2 v = type_at ?st v" if "global_type ?reg m = Some v" for m v
      using store_extends_at[OF ext] registry_ok_type[OF I(3) that] by blast
    have "global_type reg' (ty_name (type_at st on)) = Some u" using le b(4) by (metis domI map_le_def)
    then show "type_copy st (global_type reg') ?obj (type_at ?st2 i)"
      using E(4) kind obj(1,2) by (simp add: at type_copy_def kind_copy_def)
  qed
  then have inv': "import_inv st reg S ?f" using b(2) ok le unfolding import_inv_def by (auto simp: map_le_def dom_def r(4))
  have "import_grows {n} f1 ?f" by (rule import_grows_same_map) (use ext le r(4) in auto)
  then have grows: "import_grows (insert n N) f ?f" by (rule import_grows_trans[OF b(3)]) auto
  have "get reg' n = Some i"
    using registry_ok_absolute[OF builder_okD(2)[OF r(2)], of n] E(5) r(4) by (simp add: canonical_name_def)
  then have ref: "get_ref st' reg' i = Inr i" by (simp add: get_ref_def r(5) obj(1))
  have "show_int (int (ty_size ?obj)) = show_nat (ty_size ?obj)" by (simp add: show_int_def)
  moreover have "cast_int env (show_int (int (ty_size ?obj))) = Some (int (ty_size ?obj))"
    using env e(3) by (simp add: lexical_casts_def)
  ultimately have size: "getAttribute_int_default env (tn_xml node) ''size'' (-1) = Inr (int (ty_size ?obj))"
    using l(2) by (simp add: getAttribute_int_default_def lexical_cast_def)
  have "createContainer (env_containers env) (env_tok env) ?st ?reg c [u] = Inr (i, st', reg')"
    using obj(4) alloc r(1) by (simp add: createContainer_def e(1))
  then have "run_loader build_type env node f = Inr (i, ?f)"
    using l b(1) ref size e(2) obj(3)
    by (simp add: run_loader_def do_load_container_def attribute_simps(1)[OF l(3)] attribute_simps(1)[OF l(4)] at(2))
  then show ?thesis using inv' grows r(4) unfolding builds_def by auto
qed

section \<open>Derived types\<close>

definition refs_rel :: "store \<Rightarrow> tid rel" where
  "refs_rel st = {(t, u). u \<in> set (kind_refs (ty_kind (type_at st t)))}"

text \<open>The names of a type and of everything it refers to.\<close>

definition below :: "store \<Rightarrow> tid \<Rightarrow> string set" where
  "below st t = (\<lambda>u. ty_name (type_at st u)) ` {u. (t, u) \<in> (refs_rel st)\<^sup>*}"

lemma below_refl [simp]: "ty_name (type_at st t) \<in> below st t"
  by (auto simp: below_def)

lemma below_mono: "(t, u) \<in> (refs_rel st)\<^sup>* \<Longrightarrow> below st u \<subseteq> below st t"
  by (auto simp: below_def)

lemma registered_below:
  assumes "exportable env st reg" and "(t, u) \<in> (refs_rel st)\<^sup>*" and "global_type reg (ty_name (type_at st t)) = Some t"
  shows "global_type reg (ty_name (type_at st u)) = Some u"
  using assms(2,3)
proof (induction rule: rtrancl_induct)
  case (step u v)
  then show ?case using exportable_refs[OF assms(1)] by (auto simp: refs_rel_def)
qed

lemma is_derived_reaches: "is_derived st t ms t' \<Longrightarrow> (t', t) \<in> (refs_rel st)\<^sup>*"
proof (induction ms arbitrary: t)
  case (Cons m ms)
  then obtain u where u: "ty_kind (type_at st u) = (if mod_category m = CatPointer then Pointer t else Array (nat (mod_size m)) t)"
    "(t', u) \<in> (refs_rel st)\<^sup>*" by auto
  then have "(u, t) \<in> refs_rel st" by (auto simp: refs_rel_def split: if_splits)
  then show ?case using u(2) by (rule rtrancl.rtrancl_into_rtrancl[rotated])
qed simp

text \<open>Every type is derived from one that is not a pointer or an array.\<close>

lemma base_of:
  assumes "exportable env st reg" and "grounded st reg t" and "global_type reg (ty_name (type_at st t)) = Some t"
  shows "\<exists>tb ms. is_derived st tb ms t \<and> base_name (ty_name (type_at st tb)) \<and> list_all proper_modifier ms \<and>
    ty_name (type_at st t) = derived_name st tb ms"
  using assms(2,3)
proof (induction rule: grounded.induct)
  case (1 t)
  note E = exportableD[OF assms(1) 1(4)]
  have dom: "t \<in> dom (objects st)"
    using registry_ok_type[of st reg "ty_name (type_at st t)" t] 1(4) assms(1) by (simp add: exportable_def)
  have step: ?case if m: "proper_modifier m" and k: "ty_kind (type_at st t) = (if mod_category m = CatPointer then Pointer on else Array (nat (mod_size m)) on)"
    and nm: "ty_name (type_at st t) = ty_name (type_at st on) @ print_modifier m" for m on
  proof -
    have on: "on \<in> set (kind_refs (ty_kind (type_at st t)))" using k by auto
    obtain tb ms where "is_derived st tb ms on" "base_name (ty_name (type_at st tb))" "list_all proper_modifier ms"
      "ty_name (type_at st on) = derived_name st tb ms"
      using 1(3)[OF on] exportable_refs[OF assms(1) 1(4) on] by blast
    then show ?thesis
      using is_derived_snoc[OF _ dom k, of tb ms] m nm by (intro exI[of _ tb] exI[of _ "ms @ [m]"]) (simp add: derived_name_def)
  qed
  have base: ?case if "base_name (ty_name (type_at st t))"
    using that by (intro exI[of _ t] exI[of _ "[]"]) (simp add: derived_name_def)
  show ?case
  proof (cases "ty_kind (type_at st t)")
    case (Array dim on)
    then show ?thesis using E(3) by (intro step[of "array_modifier dim" on])
        (auto simp: proper_modifier_def array_modifier_def kind_exportable_def print_modifier_def getArrayName_def)
  next
    case (Pointer on)
    then show ?thesis using E(3) by (intro step[of pointer_modifier on])
        (auto simp: proper_modifier_def pointer_modifier_def kind_exportable_def print_modifier_def getPointerName_def)
  qed (use E(3) base in \<open>auto simp: kind_exportable_def\<close>)
qed

lemma get_or_add_copy:
  assumes ok: "builder_ok st' reg'" "copies st reg st' reg'" and src: "exportable env st reg" "global_type reg n = Some t"
    and copy: "type_copy st (global_type reg') (type_at st t) obj"
  obtains st'' reg'' w where "get_or_add tok (st', reg', u) obj = Inr (st'', reg'', w)" "builder_ok st'' reg''" "copies st reg st'' reg''"
    "store_extends st' st''" "global_type reg' \<subseteq>\<^sub>m global_type reg''" "dom (global_type reg'') \<subseteq> insert n (dom (global_type reg'))"
    "global_type reg'' n = Some w"
proof -
  note E = exportableD[OF src]
  have n: "ty_name obj = n" using copy E(4) by (simp add: type_copy_def)
  have get: "get reg' n = global_type reg' n"
    using registry_ok_absolute[OF builder_okD(2)[OF ok(1)]] E(5) by (simp add: canonical_name_def)
  show ?thesis
  proof (cases "global_type reg' n")
    case (Some w)
    then show ?thesis using that[of st' reg' w] get n ok by (auto simp: get_or_add_def store_extends_def)
  next
    case None
    obtain i st'' where alloc: "new_type st' obj = (i, st'')" by fastforce
    obtain reg'' where r: "add tok st'' reg' i [] = Inr reg''" "builder_ok st'' reg''" "copies st reg st'' reg''" "store_extends st' st''"
      "global_type reg'' = (global_type reg')(n \<mapsto> i)"
      by (rule add_copy[OF ok src None copy alloc])
    have le: "global_type reg' \<subseteq>\<^sub>m global_type reg''" using r(5) None by (auto simp: map_le_def)
    show ?thesis using that[OF _ r(2,3,4) le] r(1,5) get n None alloc by (simp add: get_or_add_def)
  qed
qed

lemma apply_modifier_copy:
  assumes ok: "builder_ok st' reg'" "copies st reg st' reg'" and src: "exportable env st reg" "global_type reg (ty_name (type_at st t)) = Some t"
    and m: "proper_modifier m" "ty_kind (type_at st t) = (if mod_category m = CatPointer then Pointer on else Array (nat (mod_size m)) on)"
    and u: "global_type reg' (ty_name (type_at st on)) = Some u"
  obtains st'' reg'' w where "apply_modifier tok (st', reg', u) m = Inr (st'', reg'', w)" "builder_ok st'' reg''" "copies st reg st'' reg''"
    "store_extends st' st''" "global_type reg' \<subseteq>\<^sub>m global_type reg''"
    "dom (global_type reg'') \<subseteq> insert (ty_name (type_at st t)) (dom (global_type reg'))" "global_type reg'' (ty_name (type_at st t)) = Some w"
proof -
  note E = exportableD[OF src]
  have on: "global_type reg (ty_name (type_at st on)) = Some on"
    by (rule exportable_refs[OF src]) (use m(2) in auto)
  have "ty_name (type_at st' u) = ty_name (type_at st on)" using builder_okD(4)[OF ok(1)] u by (simp add: alias_free_def)
  moreover have "ty_size (type_at st' u) = ty_size (type_at st on)"
    using ok(2) u on unfolding copies_def type_copy_def by fastforce
  ultimately have copy: "type_copy st (global_type reg') (type_at st t)
      (if mod_category m = CatPointer then Pointer_ctor st' u else Array_ctor st' u (nat (mod_size m)))"
    using E(3) m(2) u by (auto simp: kind_exportable_def type_copy_def kind_copy_def Pointer_ctor_def Array_ctor_def Type_ctor_def)
  obtain st'' reg'' w where r: "get_or_add tok (st', reg', u)
      (if mod_category m = CatPointer then Pointer_ctor st' u else Array_ctor st' u (nat (mod_size m))) = Inr (st'', reg'', w)"
    "builder_ok st'' reg''" "copies st reg st'' reg''" "store_extends st' st''" "global_type reg' \<subseteq>\<^sub>m global_type reg''"
    "dom (global_type reg'') \<subseteq> insert (ty_name (type_at st t)) (dom (global_type reg'))" "global_type reg'' (ty_name (type_at st t)) = Some w"
    by (rule get_or_add_copy[OF ok src copy])
  have "apply_modifier tok (st', reg', u) m = Inr (st'', reg'', w)"
    using m(1) r(1) by (auto simp: proper_modifier_def apply_modifier_def pointer_modifier_def array_modifier_def addArrayMajor_def
        numeral_eq_Suc[of One] simp del: One_nat_def)
  then show ?thesis using that r by blast
qed

lemma modifiers_copy:
  assumes src: "exportable env st reg" and "is_derived st tb ms t" and "list_all proper_modifier ms"
    and "global_type reg (ty_name (type_at st t)) = Some t"
    and "builder_ok st' reg'" and "copies st reg st' reg'" and "global_type reg' (ty_name (type_at st tb)) = Some u"
  shows "\<exists>st'' reg'' w. fold_result (apply_modifier tok) (st', reg', u) ms = Inr (st'', reg'', w) \<and> builder_ok st'' reg'' \<and>
    copies st reg st'' reg'' \<and> store_extends st' st'' \<and> global_type reg' \<subseteq>\<^sub>m global_type reg'' \<and>
    dom (global_type reg'') \<subseteq> dom (global_type reg') \<union> below st t \<and> global_type reg'' (ty_name (type_at st t)) = Some w"
  using assms(2-)
proof (induction ms arbitrary: tb st' reg' u)
  case Nil
  then show ?case by (auto simp: store_extends_def)
next
  case (Cons m ms)
  obtain v where v: "ty_kind (type_at st v) = (if mod_category m = CatPointer then Pointer tb else Array (nat (mod_size m)) tb)"
    "is_derived st v ms t" using Cons.prems(1) by auto
  have m: "proper_modifier m" "list_all proper_modifier ms" using Cons.prems(2) by simp_all
  note path = is_derived_reaches[OF v(2)]
  obtain st1 reg1 w where r: "apply_modifier tok (st', reg', u) m = Inr (st1, reg1, w)" "builder_ok st1 reg1" "copies st reg st1 reg1"
    "store_extends st' st1" "global_type reg' \<subseteq>\<^sub>m global_type reg1"
    "dom (global_type reg1) \<subseteq> insert (ty_name (type_at st v)) (dom (global_type reg'))" "global_type reg1 (ty_name (type_at st v)) = Some w"
    by (rule apply_modifier_copy[OF Cons.prems(4,5) src registered_below[OF src path Cons.prems(3)] m(1) v(1) Cons.prems(6)])
  obtain st2 reg2 w2 where q: "fold_result (apply_modifier tok) (st1, reg1, w) ms = Inr (st2, reg2, w2)" "builder_ok st2 reg2"
    "copies st reg st2 reg2" "store_extends st1 st2" "global_type reg1 \<subseteq>\<^sub>m global_type reg2"
    "dom (global_type reg2) \<subseteq> dom (global_type reg1) \<union> below st t" "global_type reg2 (ty_name (type_at st t)) = Some w2"
    using Cons.IH[OF v(2) m(2) Cons.prems(3) r(2,3,7)] by blast
  have "ty_name (type_at st v) \<in> below st t" using below_mono[OF path] below_refl by blast
  then have "dom (global_type reg2) \<subseteq> dom (global_type reg') \<union> below st t" using q(6) r(6) by blast
  then show ?case using q r(1) store_extends_trans[OF r(4) q(4)] map_le_trans[OF r(5) q(5)] by auto
qed

section \<open>Building every type\<close>

lemma import_inv_erase: "import_inv st reg S f \<Longrightarrow> import_inv st reg (insert n S) (erase_node n f)"
  by (auto simp: import_inv_def erase_node_def split: if_splits)

lemma import_inv_loaded:
  "import_inv st reg (insert n S) f \<Longrightarrow> n \<in> dom (global_type (f_registry f)) \<Longrightarrow> import_inv st reg S f"
  unfolding import_inv_def by blast

lemma import_grows_erase: "import_grows {} f (erase_node n f)"
  by (auto simp: import_grows_def erase_node_def store_extends_def omap_erase_def intro: exI[of _ "\<lambda>k. k \<noteq> n"])

lemma erase_node_simps [simp]:
  "f_store (erase_node n f) = f_store f" "f_registry (erase_node n f) = f_registry f" "m_map (erase_node n f) = omap_erase n (m_map f)"
  by (simp_all add: erase_node_def)

lemma erase_node_length: "map_of (m_map f) n = Some node \<Longrightarrow> length (m_map (erase_node n f)) < length (m_map f)"
  by (auto simp: omap_erase_def intro!: length_filter_less dest!: map_of_SomeD)

lemma ensure_name_own:
  "import_inv st reg S f \<Longrightarrow> global_type (f_registry f) n = Some u \<Longrightarrow> ensure_name env u n f = Inr f"
  using builder_okD(4)[of "f_store f" "f_registry f"] by (auto simp: ensure_name_def alias_free_def import_inv_def)

lemma builds_mono: "builds st reg S N n f r \<Longrightarrow> N \<subseteq> M \<Longrightarrow> builds st reg S M n f r"
  unfolding builds_def using import_grows_trans[of N f _ "{}" _ M] by fastforce

lemma build_derived_ok:
  assumes inv: "import_inv st reg S f" and src: "exportable env st reg" "global_type reg n = Some t"
    and der: "is_derived st tb ms t" "base_name (ty_name (type_at st tb))" "list_all proper_modifier ms" "n = derived_name st tb ms"
    and u: "global_type (f_registry f) (ty_name (type_at st tb)) = Some u"
  shows "builds st reg S (below st t) n f (build_derived env n f)"
proof -
  note I = import_invD[OF inv] and E = exportableD[OF src]
  let ?st = "f_store f" and ?reg = "f_registry f"
  have finished: "builds st reg S (below st t) n f (build_derived env n f)"
    if b: "build (env_tok env) ?st ?reg n 0 = Inr (st', reg', Some w)" and g: "builder_ok st' reg'" "copies st reg st' reg'"
      "store_extends ?st st'" "global_type ?reg \<subseteq>\<^sub>m global_type reg'" "dom (global_type reg') \<subseteq> dom (global_type ?reg) \<union> below st t"
      "global_type reg' n = Some w" for st' reg' w
  proof -
    let ?f = "f\<lparr>f_store := st', f_registry := reg'\<rparr>"
    have inv': "import_inv st reg S ?f"
      using inv g(1,2) map_le_implies_dom_le[OF g(4)] unfolding import_inv_def by simp blast
    then have "import_inv st reg S (erase_node n ?f)"
      by (intro import_inv_loaded[OF import_inv_erase]) (use g(6) in auto)
    moreover have "import_grows (below st t) f (erase_node n ?f)"
      by (rule import_grows_trans[OF import_grows_same_map[of f ?f "below st t"] import_grows_erase]) (use g in auto)
    moreover have "build_derived env n f = Inr (w, erase_node n ?f)"
      using b ensure_name_own[OF inv'] g(6) by (simp add: build_derived_def)
    ultimately show ?thesis using g(6) by (auto simp: builds_def)
  qed
  have abs: "isAbsoluteName n" using E(5) by (simp add: canonical_name_def)
  have get: "get ?reg n = global_type ?reg n" by (rule registry_ok_absolute[OF I(3) abs])
  show ?thesis
  proof (cases "global_type ?reg n")
    case (Some w)
    then have "build (env_tok env) ?st ?reg n 0 = Inr (?st, ?reg, Some w)" using get by (simp add: build_def)
    then show ?thesis by (rule finished) (use I(1,2) Some in \<open>auto simp: store_extends_def\<close>)
  next
    case None
    have t: "global_type reg (ty_name (type_at st t)) = Some t" using E(4) src(2) by simp
    obtain st' reg' w where r: "fold_result (apply_modifier (env_tok env)) (?st, ?reg, u) ms = Inr (st', reg', w)" "builder_ok st' reg'"
      "copies st reg st' reg'" "store_extends ?st st'" "global_type ?reg \<subseteq>\<^sub>m global_type reg'"
      "dom (global_type reg') \<subseteq> dom (global_type ?reg) \<union> below st t" "global_type reg' n = Some w"
      using modifiers_copy[OF src(1) der(1,3) t I(1,2) u] unfolding E(4) by blast
    have "canonical_name (ty_name (type_at st tb))" using registry_ok_type[OF I(3) u] by blast
    then have "get ?reg (ty_name (type_at st tb)) = Some u"
      using registry_ok_absolute[OF I(3)] u by (simp add: canonical_name_def)
    moreover have "parseTypename n = Inr (ty_name (type_at st tb), ms)"
      using parseTypename_loop_modifiers[OF der(2,3), of "[]" "[]"] der(4) by (simp add: parseTypename_def derived_name_def)
    ultimately have "build (env_tok env) ?st ?reg n 0 = Inr (st', reg', Some w)"
      using get None abs r(1) by (simp add: build_def getFullName_def TypeBuilder_build_def maybeParse_def build_spec_def)
    then show ?thesis by (rule finished) (use r in auto)
  qed
qed

lemma grounded_acyclic: "grounded st reg t \<Longrightarrow> (t, t) \<notin> (refs_rel st)\<^sup>+"
proof (induction rule: grounded.induct)
  case (1 t)
  show ?case
  proof
    assume "(t, t) \<in> (refs_rel st)\<^sup>+"
    then obtain r where r: "(t, r) \<in> refs_rel st" "(r, t) \<in> (refs_rel st)\<^sup>*" by (meson tranclD)
    then have "(r, r) \<in> (refs_rel st)\<^sup>+" by (meson rtrancl_into_trancl1)
    then show False using 1(3) r(1) by (simp add: refs_rel_def)
  qed
qed

lemma not_below_ref:
  assumes "exportable env st reg" and "global_type reg (ty_name (type_at st t)) = Some t" and "r \<in> set (kind_refs (ty_kind (type_at st t)))"
  shows "ty_name (type_at st t) \<notin> below st r"
proof
  assume "ty_name (type_at st t) \<in> below st r"
  then obtain v where v: "(r, v) \<in> (refs_rel st)\<^sup>*" "ty_name (type_at st v) = ty_name (type_at st t)" by (auto simp: below_def)
  have tr: "(t, r) \<in> refs_rel st" using assms(3) by (simp add: refs_rel_def)
  then have "(t, v) \<in> (refs_rel st)\<^sup>*" using v(1) by (meson converse_rtrancl_into_rtrancl)
  then have "v = t" using registered_below[OF assms(1) _ assms(2)] v(2) assms(2) by fastforce
  then have "(t, t) \<in> (refs_rel st)\<^sup>+" using v(1) tr by (meson rtrancl_into_trancl2)
  then show False using grounded_acyclic exportableD(1)[OF assms(1,2)] by blast
qed

text \<open>Loading the node of a type, when its references can be built.\<close>

lemma run_loader_ok:
  assumes inv: "import_inv st reg S f" "length (m_map f) < fuel" and env: "lexical_casts env"
    and src: "exportable env st reg" "global_type reg n = Some t" "global_type (f_registry f) n = None"
    and node: "node_for st n rt node" "reg_type rt = t"
    and build: "\<And>r f. r \<in> set (kind_refs (ty_kind (type_at st t))) \<Longrightarrow> import_inv st reg S f \<Longrightarrow> length (m_map f) < fuel \<Longrightarrow>
      builds st reg S (below st r) (ty_name (type_at st r)) f (build_type (ty_name (type_at st r)) f)"
  shows "builds st reg S (below st t) n f (run_loader build_type env node f)"
proof -
  note E = exportableD[OF src(1,2)]
  let ?N = "\<Union>r \<in> set (kind_refs (ty_kind (type_at st t))). below st r"
  have nd: "tn_name node = n" "describes st (type_at st t) (tn_xml node)"
      "map_of node_categories (xml_name (tn_xml node)) = Some (tn_loader node)"
    using node by (auto simp: node_for_def)
  have own: "global_type reg (ty_name (type_at st t)) = Some t" using E(4) src(2) by simp
  have N: "n \<notin> ?N" using not_below_ref[OF src(1) own] E(4) by auto
  have "below st r \<subseteq> below st t" if "r \<in> set (kind_refs (ty_kind (type_at st t)))" for r
    by (rule below_mono) (use that in \<open>auto simp: refs_rel_def\<close>)
  then have le: "insert n ?N \<subseteq> below st t" using below_refl[of st t] E(4) by auto
  have build': "builds st reg S ?N (ty_name (type_at st r)) g (build_type (ty_name (type_at st r)) g)"
    if "r \<in> set (kind_refs (ty_kind (type_at st t)))" "import_inv st reg S g" "length (m_map g) < fuel" for r g
    by (rule builds_mono[OF build[OF that]]) (use that(1) in auto)
  consider flds where "ty_kind (type_at st t) = Compound flds"
    | c fac on where "ty_kind (type_at st t) = Container c fac on"
    | "kind_refs (ty_kind (type_at st t)) = []" "\<forall>flds. ty_kind (type_at st t) \<noteq> Compound flds"
    using nd(2) by (cases "ty_kind (type_at st t)") (auto simp: describes_def)
  then show ?thesis
  proof cases
    case (1 flds)
    have "builds st reg S (insert n ?N) n f (run_loader build_type env node f)"
      by (rule compound_loader_ok[OF inv env src nd 1 N]) (use build' 1 in auto)
    then show ?thesis by (rule builds_mono[OF _ le])
  next
    case (2 c fac on)
    have "builds st reg S (insert n ?N) n f (run_loader build_type env node f)"
      by (rule container_loader_ok[OF inv env src nd 2 N]) (use build'[OF _ inv] 2 in auto)
    then show ?thesis by (rule builds_mono[OF _ le])
  next
    case 3
    show ?thesis by (rule builds_mono[OF plain_loader_ok[OF inv(1) env src nd 3]]) (use le in auto)
  qed
qed

text \<open>\<open>Factory::build\<close> of the name of a type, outside of the types that are being loaded.\<close>

definition buildable :: "import_env \<Rightarrow> store \<Rightarrow> Registry \<Rightarrow> tid \<Rightarrow> bool" where
  "buildable env st reg t \<longleftrightarrow> (\<forall>fuel f S. import_inv st reg S f \<longrightarrow> length (m_map f) < fuel \<longrightarrow> below st t \<inter> S = {} \<longrightarrow>
     builds st reg S (below st t) (ty_name (type_at st t)) f (Factory_build fuel env (ty_name (type_at st t)) f))"

lemma buildableD:
  "buildable env st reg t \<Longrightarrow> import_inv st reg S f \<Longrightarrow> length (m_map f) < fuel \<Longrightarrow> below st t \<inter> S = {} \<Longrightarrow>
   builds st reg S (below st t) (ty_name (type_at st t)) f (Factory_build fuel env (ty_name (type_at st t)) f)"
  unfolding buildable_def by blast

text \<open>The first part of \<open>Factory::build\<close>: the base type.\<close>

definition build_base :: "nat \<Rightarrow> import_env \<Rightarrow> string \<Rightarrow> Factory \<Rightarrow> (tid \<times> Factory) result" where
  "build_base fuel env basename f =
     (case get (f_registry f) basename of
        Some base \<Rightarrow> Inr (base, erase_node basename f)
      | None \<Rightarrow> (case map_of (m_map f) basename of
          None \<Rightarrow> Inl (Undefined basename)
        | Some node \<Rightarrow>
            bind_result (run_loader (Factory_build fuel env) env node (erase_node basename f)) (\<lambda>(base, f1).
            bind_result (ensure_name env base basename f1) (\<lambda>f2. Inr (base, f2)))))"

lemma Factory_build_base:
  "Factory_build (Suc fuel) env name f =
     bind_result (getBaseTypename name) (\<lambda>basename. bind_result (build_base fuel env basename f)
       (\<lambda>(base, f1). if basename = name then Inr (base, f1) else build_derived env name f1))"
  by (simp add: build_base_def)

lemma build_base_ok:
  assumes inv: "import_inv st reg S f" "length (m_map f) < Suc fuel" and env: "lexical_casts env"
    and src: "exportable env st reg" "global_type reg n = Some t" "base_name n" and S: "below st t \<inter> S = {}"
    and refs: "\<And>r. r \<in> set (kind_refs (ty_kind (type_at st t))) \<Longrightarrow> buildable env st reg r"
  shows "builds st reg S (below st t) n (erase_node n f) (build_base fuel env n f)"
proof -
  note I = import_invD[OF inv(1)] and E = exportableD[OF src(1,2)]
  have get: "get (f_registry f) n = global_type (f_registry f) n"
    using registry_ok_absolute[OF I(3)] E(5) by (simp add: canonical_name_def)
  have n: "n \<in> below st t" using below_refl[of st t] E(4) by simp
  show ?thesis
  proof (cases "global_type (f_registry f) n")
    case (Some u)
    have "import_inv st reg S (erase_node n f)"
      by (rule import_inv_loaded[OF import_inv_erase[OF inv(1)]]) (use Some in auto)
    then show ?thesis using Some get unfolding builds_def build_base_def by simp
  next
    case None
    obtain rt where rt: "map_of (m_global reg) n = Some rt" "reg_type rt = t" using src(2) by (auto simp: global_type_def)
    have "reg_persistent rt" using src(1,3) rt(1) base_name_not_derived by (auto simp: exportable_def)
    then obtain node where node: "map_of (m_map f) n = Some node" using I(5)[OF rt(1)] None S n by auto
    then have for_node: "node_for st n rt node" using I(4) rt(1) by fastforce
    let ?f = "erase_node n f"
    have inv': "import_inv st reg (insert n S) ?f" by (rule import_inv_erase[OF inv(1)])
    have len: "length (m_map ?f) < fuel" using erase_node_length[OF node] inv(2) by simp
    have own: "global_type reg (ty_name (type_at st t)) = Some t" using E(4) src(2) by simp
    have "builds st reg (insert n S) (below st t) n ?f (run_loader (Factory_build fuel env) env node ?f)"
    proof (rule run_loader_ok[OF inv' len env src(1,2) _ for_node rt(2)])
      show "global_type (f_registry ?f) n = None" using None by simp
      fix r g assume r: "r \<in> set (kind_refs (ty_kind (type_at st t)))" and g: "import_inv st reg (insert n S) g" "length (m_map g) < fuel"
      have "below st r \<subseteq> below st t" by (rule below_mono) (use r in \<open>auto simp: refs_rel_def\<close>)
      then have "below st r \<inter> insert n S = {}" using S not_below_ref[OF src(1) own r] E(4) by auto
      then show "builds st reg (insert n S) (below st r) (ty_name (type_at st r)) g (Factory_build fuel env (ty_name (type_at st r)) g)"
        by (rule buildableD[OF refs[OF r] g])
    qed
    then obtain u f' where r: "run_loader (Factory_build fuel env) env node ?f = Inr (u, f')" "import_inv st reg (insert n S) f'"
      "import_grows (below st t) ?f f'" "global_type (f_registry f') n = Some u" unfolding builds_def by blast
    have inv'': "import_inv st reg S f'" by (rule import_inv_loaded[OF r(2)]) (use r(4) in auto)
    moreover have "build_base fuel env n f = Inr (u, f')"
      using get None node r(1) ensure_name_own[OF inv'' r(4)] by (simp add: build_base_def)
    ultimately show ?thesis using r(3,4) unfolding builds_def by blast
  qed
qed

lemma builds_erased: "builds st reg S N n (erase_node m f) r \<Longrightarrow> builds st reg S N n f r"
  unfolding builds_def using import_grows_trans[OF import_grows_erase[of f m], of N _ N] by fastforce

lemma buildable_step:
  assumes env: "lexical_casts env" and src: "exportable env st reg" "global_type reg (ty_name (type_at st t)) = Some t"
    and IH: "\<And>u. (t, u) \<in> (refs_rel st)\<^sup>+ \<Longrightarrow> buildable env st reg u"
  shows "buildable env st reg t"
  unfolding buildable_def
proof (intro allI impI)
  fix fuel f S assume inv: "import_inv st reg S f" and len: "length (m_map f) < fuel" and S: "below st t \<inter> S = {}"
  let ?n = "ty_name (type_at st t)"
  obtain tb ms where b: "is_derived st tb ms t" "base_name (ty_name (type_at st tb))" "list_all proper_modifier ms" "?n = derived_name st tb ms"
    using base_of[OF src(1) exportableD(1)[OF src] src(2)] by blast
  let ?b = "ty_name (type_at st tb)"
  note path = is_derived_reaches[OF b(1)]
  note le = below_mono[OF path]
  obtain k where k: "fuel = Suc k" using len by (cases fuel) auto
  have base: "builds st reg S (below st tb) ?b f (build_base k env ?b f)"
  proof (rule builds_erased, rule build_base_ok[OF inv len[unfolded k] env src(1) registered_below[OF src(1) path src(2)] b(2)])
    show "below st tb \<inter> S = {}" using S le by blast
    show "buildable env st reg r" if "r \<in> set (kind_refs (ty_kind (type_at st tb)))" for r
      by (rule IH) (use that path in \<open>auto simp: refs_rel_def intro: rtrancl_into_trancl1\<close>)
  qed
  then obtain u f' where r: "build_base k env ?b f = Inr (u, f')" "import_inv st reg S f'" "import_grows (below st tb) f f'"
    "global_type (f_registry f') ?b = Some u" unfolding builds_def by blast
  have parse: "getBaseTypename ?n = Inr ?b"
    using parseTypename_loop_modifiers[OF b(2,3), of "[]" "[]"] b(4) by (simp add: getBaseTypename_def parseTypename_def derived_name_def)
  show "builds st reg S (below st t) ?n f (Factory_build fuel env ?n f)"
  proof (cases "?b = ?n")
    case True
    then have "Factory_build fuel env ?n f = Inr (u, f')" using r(1) parse unfolding k Factory_build_base by simp
    moreover have "import_grows (below st t) f f'" by (rule import_grows_trans[OF r(3) import_grows_refl[of "{}"] le]) simp
    ultimately show ?thesis using r(2,4) True unfolding builds_def by auto
  next
    case False
    then have eq: "Factory_build fuel env ?n f = build_derived env ?n f'" using r(1) parse unfolding k Factory_build_base by simp
    obtain w g where "build_derived env ?n f' = Inr (w, g)" "import_inv st reg S g" "import_grows (below st t) f' g"
      "global_type (f_registry g) ?n = Some w"
      using build_derived_ok[OF r(2) src b r(4)] unfolding builds_def by blast
    then show ?thesis using eq import_grows_trans[OF r(3) _ le, of "below st t" g] unfolding builds_def by auto
  qed
qed

lemma grounded_buildable:
  assumes "lexical_casts env" and "exportable env st reg" and "grounded st reg t"
  shows "(t, u) \<in> (refs_rel st)\<^sup>* \<Longrightarrow> buildable env st reg u"
  using assms(3)
proof (induction arbitrary: u rule: grounded.induct)
  case (1 t)
  have below: "buildable env st reg v" if tv: "(t, v) \<in> (refs_rel st)\<^sup>+" for v
  proof -
    obtain r where "(t, r) \<in> refs_rel st" "(r, v) \<in> (refs_rel st)\<^sup>*" using tv by (meson tranclD)
    then show ?thesis using 1(3)[of r v] by (simp add: refs_rel_def)
  qed
  obtain n where n: "global_type reg n = Some t" using 1(1) by (auto simp: ran_def)
  then have own: "global_type reg (ty_name (type_at st t)) = Some t" using exportableD(4)[OF assms(2)] by simp
  show ?case
  proof (cases "u = t")
    case True
    then show ?thesis using buildable_step[OF assms(1,2) own below] by simp
  next
    case False
    then show ?thesis using below 1(4) by (simp add: rtrancl_eq_or_trancl)
  qed
qed

lemma build_entry:
  assumes env: "lexical_casts env" and src: "exportable env st reg" and inv: "import_inv st reg {} f" and n: "n \<in> fst ` set (m_map f)"
  shows "\<exists>u f'. Factory_build (Suc (length (m_map f))) env n f = Inr (u, f') \<and> import_inv st reg {} f' \<and>
    length (m_map f') < length (m_map f)"
proof -
  obtain node where node: "map_of (m_map f) n = Some node" using n by (metis domD dom_map_of_conv_image_fst)
  then obtain rt where rt: "map_of (m_global reg) n = Some rt" "node_for st n rt node" using import_invD(4)[OF inv] by blast
  then have t: "global_type reg n = Some (reg_type rt)" by (simp add: global_type_def)
  note E = exportableD[OF src t]
  have plain: "base_name n"
  proof -
    have "\<not> derived_name_of (ty_name (type_at st (reg_type rt)))"
      unfolding kind_exportable_name(3)[OF E(3)] using rt(2) by (auto simp: node_for_def describes_def)
    then show ?thesis using kind_exportable_name(4)[OF E(3)] E(4) by simp
  qed
  have "builds st reg {} (below st (reg_type rt)) n (erase_node n f) (build_base (length (m_map f)) env n f)"
  proof (rule build_base_ok[OF inv _ env src t plain])
    show "buildable env st reg r" if "r \<in> set (kind_refs (ty_kind (type_at st (reg_type rt))))" for r
      by (rule grounded_buildable[OF env src E(1)]) (use that in \<open>auto simp: refs_rel_def\<close>)
  qed simp_all
  then obtain u f' where r: "build_base (length (m_map f)) env n f = Inr (u, f')" "import_inv st reg {} f'"
    "import_grows (below st (reg_type rt)) (erase_node n f) f'" unfolding builds_def by blast
  have "getBaseTypename n = Inr n"
    using parseTypename_loop_modifiers[OF plain, of "[]" "[]" "[]"] by (simp add: getBaseTypename_def parseTypename_def)
  then have "Factory_build (Suc (length (m_map f))) env n f = Inr (u, f')" using r(1) unfolding Factory_build_base by simp
  moreover have "length (m_map f') < length (m_map f)" using import_grows_length[OF r(3)] erase_node_length[OF node] by simp
  ultimately show ?thesis using r(2) by blast
qed

lemma build_all_ok:
  assumes "lexical_casts env" and "exportable env st reg" and "import_inv st reg {} f" and "length (m_map f) \<le> fuel"
  shows "\<exists>f'. Factory_build_all fuel env f = Inr f' \<and> import_inv st reg {} f' \<and> m_map f' = []"
  using assms(3,4)
proof (induction fuel arbitrary: f)
  case (Suc fuel)
  show ?case
  proof (cases "m_map f")
    case (Cons e es)
    obtain n node where e: "e = (n, node)" by fastforce
    have "n \<in> fst ` set (m_map f)" using Cons e by simp
    then obtain u f' where b: "Factory_build (Suc (length (m_map f))) env n f = Inr (u, f')" "import_inv st reg {} f'"
      "length (m_map f') < length (m_map f)" using build_entry[OF assms(1,2) Suc.prems(1)] by blast
    have "Factory_build_all (Suc fuel) env f = Factory_build_all fuel env f'"
      using b(1) Cons e by (simp del: Factory_build.simps)
    then show ?thesis using Suc.IH[OF b(2)] b(3) Suc.prems(2) by simp
  qed (use Suc.prems in simp)
qed simp

section \<open>Reading a document\<close>

lemma load_nodes_ok:
  assumes "omap_sorted string_less m" and "distinct (map fst es)" and "fst ` set es \<inter> dom (map_of m) = {}"
    and "\<And>e. e \<in> set es \<Longrightarrow> describes st (type_at st (reg_type (snd e))) (T e) \<and> ty_name (type_at st (reg_type (snd e))) = fst e"
  shows "\<exists>m'. fold_result (load_node sid) m (map T es) = Inr m' \<and>
    (\<forall>n node. map_of m' n = Some node \<longrightarrow> map_of m n = Some node \<or> (\<exists>rt. (n, rt) \<in> set es \<and> node_for st n rt node)) \<and>
    dom (map_of m') = dom (map_of m) \<union> fst ` set es"
  using assms
proof (induction es arbitrary: m)
  case (Cons e es)
  obtain n rt where e: "e = (n, rt)" by fastforce
  have d: "describes st (type_at st (reg_type rt)) (T e)" "ty_name (type_at st (reg_type rt)) = n" using Cons.prems(4)[of e] by (simp_all add: e)
  then have name: "getAttribute (T e) ''name'' = Inr n" by (simp add: describes_def attribute_simps)
  obtain l where l: "map_of node_categories (xml_name (T e)) = Some l"
    using d(1) by (cases "ty_kind (type_at st (reg_type rt))") (auto simp: describes_def node_categories_def)
  have new: "map_of m n = None" using Cons.prems(3) by (auto simp: e)
  let ?node = "\<lparr>tn_xml = T e, tn_name = n, tn_file = getAttribute_default (T e) ''source_id'' sid, tn_loader = l\<rparr>"
  let ?m = "omap_insert string_less n ?node m"
  have step: "load_node sid m (T e) = Inr ?m" using name l new by (simp add: load_node_def getCategoryFromNode_def)
  have m': "map_of ?m = (map_of m)(n \<mapsto> ?node)" using string_map.omap_find_insert[OF Cons.prems(1)] new by simp
  have node: "node_for st n rt ?node" using d(1) l by (simp add: node_for_def)
  have "fst ` set es \<inter> dom (map_of ?m) = {}" unfolding m' using Cons.prems(2,3) by (auto simp: e)
  then obtain m'' where r: "fold_result (load_node sid) ?m (map T es) = Inr m''"
    "\<forall>k nd. map_of m'' k = Some nd \<longrightarrow> map_of ?m k = Some nd \<or> (\<exists>rt. (k, rt) \<in> set es \<and> node_for st k rt nd)"
    "dom (map_of m'') = dom (map_of ?m) \<union> fst ` set es"
    using Cons.IH[of ?m] Cons.prems(2,4) string_map.omap_sorted_insert[OF Cons.prems(1)] by auto
  have "map_of m k = Some nd \<or> (\<exists>rt. (k, rt) \<in> set (e # es) \<and> node_for st k rt nd)" if "map_of m'' k = Some nd" for k nd
    using r(2)[rule_format, OF that] node unfolding m' by (auto simp: e split: if_splits)
  moreover have "dom (map_of m'') = dom (map_of m) \<union> fst ` set (e # es)" using r(3) unfolding m' by (auto simp: e)
  ultimately show ?case using step r(1) by auto
qed simp

text \<open>
  Importing the nodes of all persistent types of a registry into an empty one makes a copy of the
  registry.
\<close>

lemma tlb_parse_ok:
  assumes env: "lexical_casts env" and src: "exportable env st reg" and es: "set es = {e \<in> set (m_global reg). reg_persistent (snd e)}" "distinct es"
    and nodes: "filter (\<lambda>node. xml_name node \<noteq> ''comment'' \<and> xml_name node \<noteq> ''text'') (xml_children root) = map T es" "xml_name root = ''typelib''"
    and T: "\<And>e. e \<in> set es \<Longrightarrow> describes st (type_at st (reg_type (snd e))) (T e)"
    and empty: "builder_ok st0 reg0" "m_global reg0 = []"
  shows "\<exists>st' reg'. tlb_parse env sid (Some root) st0 reg0 = Inr (st', reg') \<and> registry_ok st' reg' \<and> copies st reg st' reg' \<and>
    fst ` set es \<subseteq> dom (global_type reg')"
proof -
  have ok: "registry_ok st reg" "alias_free st reg" using src by (simp_all add: exportable_def)
  have entry: "map_of (m_global reg) (fst e) = Some (snd e)" if "e \<in> set es" for e
    by (rule registry_entry[OF ok(1)]) (use that es(1) in simp)
  have name: "ty_name (type_at st (reg_type (snd e))) = fst e" if "e \<in> set es" for e
    using entry[OF that] ok(2) by (simp add: alias_free_def global_type_def)
  have "distinct (map fst es)"
    unfolding distinct_map using es(2) entry by (auto intro!: inj_onI) (metis fst_conv option.inject snd_conv)
  then obtain m where m: "fold_result (load_node sid) [] (map T es) = Inr m"
    "\<And>n node. map_of m n = Some node \<Longrightarrow> \<exists>rt. (n, rt) \<in> set es \<and> node_for st n rt node" "dom (map_of m) = fst ` set es"
    using load_nodes_ok[where m = "[]" and es = es and st = st and T = T and sid = sid] T name by auto
  let ?f = "\<lparr>m_map = m, f_store = st0, f_registry = reg0\<rparr>"
  have "import_inv st reg {} ?f"
    unfolding import_inv_def
  proof (intro conjI allI impI)
    show "builder_ok (f_store ?f) (f_registry ?f)" using empty(1) by simp
    show "copies st reg (f_store ?f) (f_registry ?f)" using empty(2) by (simp add: copies_def global_type_def)
    show "\<exists>rt. map_of (m_global reg) n = Some rt \<and> node_for st n rt node" if "map_of (m_map ?f) n = Some node" for n node
      using m(2)[of n node] that entry by force
    show "n \<in> dom (map_of (m_map ?f)) \<union> dom (global_type (f_registry ?f)) \<union> {}"
      if "map_of (m_global reg) n = Some rt" "reg_persistent rt" for n rt
      using that m(3) es(1) by (force dest: map_of_SomeD)
  qed
  then obtain f' where f': "Factory_build_all (length m) env ?f = Inr f'" "import_inv st reg {} f'" "m_map f' = []"
    using build_all_ok[OF env src, of ?f "length m"] by auto
  note I = import_invD[OF f'(2)]
  have "n \<in> dom (global_type (f_registry f'))" if "n \<in> fst ` set es" for n
    using that I(5) entry es(1) f'(3) by fastforce
  moreover have "tlb_parse env sid (Some root) st0 reg0 = Inr (f_store f', f_registry f')"
    using nodes m(1) f'(1) by (simp add: tlb_parse_def)
  ultimately show ?thesis using I(2,3) by blast
qed

end
