(* ===== verification/TlbMarkup.thy ===== *)
theory TlbMarkup
  imports TlbCorrect
begin

text \<open>
  The XML text that the exporter writes. A \<open>markup\<close> is an XML document with its layout;
  \<open>show_markup\<close> is its text and \<open>xml_tree\<close> the tree that a parser makes of it. \<open>xml_parser\<close> states
  what the import relies on: that \<open>libxml2\<close> parses the documents of this form. A recursive descent
  parser, \<open>parse_document\<close>, satisfies it.
\<close>

section \<open>Documents\<close>

datatype markup =
    Tag string "(string \<times> string \<times> string) list" string "markup list"
  | EmptyTag string "(string \<times> string \<times> string) list" string
  | Chars string
  | Cdata string

definition show_attributes :: "(string \<times> string \<times> string) list \<Rightarrow> string" where
  "show_attributes attrs = concat (map (\<lambda>(space, name, v). space @ attribute name (xmlEscape v)) attrs)"

fun show_markup :: "markup \<Rightarrow> string" where
  "show_markup (Tag name attrs space content) =
     ''<'' @ name @ show_attributes attrs @ space @ ''>'' @ concat (map show_markup content) @ ''</'' @ name @ ''>''"
| "show_markup (EmptyTag name attrs space) = ''<'' @ name @ show_attributes attrs @ space @ ''/>''"
| "show_markup (Chars s) = s"
| "show_markup (Cdata s) = ''<![CDATA['' @ s @ '']]>''"

text \<open>A parser joins adjacent text.\<close>

fun add_text :: "string \<Rightarrow> xml list \<Rightarrow> xml list" where
  "add_text s (Text t # xs) = Text (s @ t) # xs"
| "add_text s xs = Text s # xs"

fun join_text :: "xml list \<Rightarrow> xml list" where
  "join_text [] = []"
| "join_text (Text s # xs) = add_text s (join_text xs)"
| "join_text (x # xs) = x # join_text xs"

fun xml_tree :: "markup \<Rightarrow> xml" where
  "xml_tree (Tag name attrs _ content) = Element name (map snd attrs) (join_text (map xml_tree content))"
| "xml_tree (EmptyTag name attrs _) = Element name (map snd attrs) []"
| "xml_tree (Chars s) = Text s"
| "xml_tree (Cdata s) = CData s"

definition name_char :: "char \<Rightarrow> bool" where
  "name_char c \<longleftrightarrow> c \<in> set ''abcdefghijklmnopqrstuvwxyz_''"

definition value_char :: "char \<Rightarrow> bool" where
  "value_char c \<longleftrightarrow> 32 \<le> (of_char c :: nat) \<and> (of_char c :: nat) < 127 \<and> c \<noteq> CHR 0x22 \<and> c \<noteq> CHR ''&''"

definition name_ok :: "string \<Rightarrow> bool" where
  "name_ok name \<longleftrightarrow> name \<noteq> [] \<and> list_all name_char name"

definition spaces :: "string \<Rightarrow> bool" where
  "spaces s \<longleftrightarrow> list_all (\<lambda>c. c = CHR '' '') s"

definition attributes_ok :: "(string \<times> string \<times> string) list \<Rightarrow> bool" where
  "attributes_ok attrs \<longleftrightarrow> distinct (map (fst \<circ> snd) attrs) \<and>
     list_all (\<lambda>(space, name, v). space \<noteq> [] \<and> spaces space \<and> name_ok name \<and> list_all value_char v) attrs"

definition cdata_ok :: "string \<Rightarrow> bool" where
  "cdata_ok s \<longleftrightarrow> s \<noteq> [] \<and> \<not> contains_string '']]>'' s \<and>
     list_all (\<lambda>c. 32 \<le> (of_char c :: nat) \<and> (of_char c :: nat) < 127 \<or> c = CHR 0x0A) s"

fun markup_ok :: "markup \<Rightarrow> bool" where
  "markup_ok (Tag name attrs space content) \<longleftrightarrow> name_ok name \<and> attributes_ok attrs \<and> spaces space \<and> list_all markup_ok content"
| "markup_ok (EmptyTag name attrs space) \<longleftrightarrow> name_ok name \<and> attributes_ok attrs \<and> spaces space"
| "markup_ok (Chars s) \<longleftrightarrow> s \<noteq> [] \<and> list_all (\<lambda>c. c = CHR '' '' \<or> c = CHR 0x0A) s"
| "markup_ok (Cdata s) \<longleftrightarrow> cdata_ok s"

fun is_Tag :: "markup \<Rightarrow> bool" where
  "is_Tag (Tag _ _ _ _) = True"
| "is_Tag _ = False"

definition xml_prolog :: string where
  "xml_prolog = ''<?xml '' @ attribute ''version'' ''1.0'' @ ''?>'' @ newline"

text \<open>\<open>xmlParseMemory\<close> parses a well formed document to its tree.\<close>

definition xml_parser :: "(string \<Rightarrow> xml option option) \<Rightarrow> bool" where
  "xml_parser parse_memory \<longleftrightarrow> (\<forall>m. markup_ok m \<longrightarrow> is_Tag m \<longrightarrow>
     parse_memory (xml_prolog @ show_markup m @ newline) = Some (Some (xml_tree m)))"

section \<open>Escaping\<close>

definition escape_char :: "char \<Rightarrow> string" where
  "escape_char c = (if c = CHR ''<'' then ''&lt;'' else if c = CHR ''>'' then ''&gt;'' else [c])"

lemma find_first_of_None: "find_first_of cs s = None \<longleftrightarrow> list_all (\<lambda>c. c \<notin> set cs) s"
  by (induction s) auto

lemma escape_plain: "list_all (\<lambda>c. c \<notin> set ''<>'') s \<Longrightarrow> concat (map escape_char s) = s"
  by (induction s) (auto simp: escape_char_def)

lemma xmlEscape_map: "xmlEscape s = concat (map escape_char s)"
proof (induction s rule: xmlEscape.induct)
  case (1 s)
  show ?case
  proof (cases "find_first_of ''<>'' s")
    case None
    then have "concat (map escape_char s) = s" using escape_plain[of s] by (simp only: find_first_of_None)
    then show ?thesis using None by (subst xmlEscape.simps) simp
  next
    case (Some pos)
    let ?r = "if s ! pos = CHR ''<'' then ''&lt;'' else ''&gt;''"
    have p: "pos < length s" "s ! pos \<in> set ''<>''" using find_first_of_split[OF Some] by blast+
    have r: "concat (map escape_char ?r) = ?r" "escape_char (s ! pos) = ?r"
      using p(2) by (auto simp: escape_char_def)
    have "concat (map escape_char (take pos s @ ?r @ drop (pos + 1) s)) =
        concat (map escape_char (take pos s)) @ ?r @ concat (map escape_char (drop (pos + 1) s))"
      using r(1) by simp
    also have "\<dots> = concat (map escape_char (take pos s @ s ! pos # drop (pos + 1) s))" using r(2) by simp
    also have "take pos s @ s ! pos # drop (pos + 1) s = s" using p(1) by (simp add: id_take_nth_drop[symmetric])
    finally show ?thesis using 1[OF Some] Some by (subst xmlEscape.simps) simp
  qed
qed

lemma xmlEscape_plain: "list_all (\<lambda>c. c \<notin> set ''<>'') s \<Longrightarrow> xmlEscape s = s"
  by (simp add: xmlEscape_map escape_plain)

fun unescape :: "string \<Rightarrow> string" where
  "unescape [] = []"
| "unescape (c # s) =
     (if c \<noteq> CHR ''&'' then c # unescape s
      else if starts_with ''lt;'' s then CHR ''<'' # unescape (drop 3 s)
      else if starts_with ''gt;'' s then CHR ''>'' # unescape (drop 3 s)
      else c # unescape s)"

lemma unescape_escape: "list_all value_char s \<Longrightarrow> unescape (xmlEscape s) = s"
  unfolding xmlEscape_map by (induction s) (auto simp: escape_char_def value_char_def numeral_3_eq_3)

lemma quote_not_in_escape: "list_all value_char s \<Longrightarrow> CHR 0x22 \<notin> set (xmlEscape s)"
  unfolding xmlEscape_map by (induction s) (auto simp: escape_char_def value_char_def)

section \<open>A parser\<close>

text \<open>The attributes of a tag, whether the tag is empty, and the rest of the text.\<close>

fun parse_attributes :: "nat \<Rightarrow> string \<Rightarrow> ((string \<times> string) list \<times> bool \<times> string) option" where
  "parse_attributes 0 s = None"
| "parse_attributes (Suc fuel) s =
     (let s1 = dropWhile (\<lambda>c. c = CHR '' '') s; name = takeWhile name_char s1; s2 = drop (length name) s1 in
      if starts_with ''>'' s1 then Some ([], False, drop 1 s1)
      else if starts_with ''/>'' s1 then Some ([], True, drop 2 s1)
      else if name \<noteq> [] \<and> starts_with (''='' @ quote) s2 then
        let v = takeWhile (\<lambda>c. c \<noteq> CHR 0x22) (drop 2 s2) in
        map_option (\<lambda>(attrs, r). ((name, unescape v) # attrs, r)) (parse_attributes fuel (drop (length v + 3) s2))
      else None)"

fun split_cdata :: "string \<Rightarrow> (string \<times> string) option" where
  "split_cdata [] = None"
| "split_cdata (c # s) = (if starts_with '']]>'' (c # s) then Some ([], drop 2 s)
     else map_option (\<lambda>(v, r). (c # v, r)) (split_cdata s))"

fun parse_content :: "nat \<Rightarrow> string \<Rightarrow> (xml list \<times> string) option" where
  "parse_content 0 s = None"
| "parse_content (Suc fuel) s =
     (if s = [] \<or> starts_with ''</'' s then Some ([], s)
      else if starts_with ''<![CDATA['' s then
        (case split_cdata (drop 9 s) of
           None \<Rightarrow> None
         | Some (v, r) \<Rightarrow> map_option (\<lambda>(xs, r'). (CData v # xs, r')) (parse_content fuel r))
      else if starts_with ''<'' s then
        let name = takeWhile name_char (drop 1 s) in
        (case parse_attributes (length s) (drop (length name + 1) s) of
           None \<Rightarrow> None
         | Some (attrs, True, r) \<Rightarrow> map_option (\<lambda>(xs, r'). (Element name attrs [] # xs, r')) (parse_content fuel r)
         | Some (attrs, False, r) \<Rightarrow> (case parse_content fuel r of
             None \<Rightarrow> None
           | Some (content, r1) \<Rightarrow>
               if starts_with (''</'' @ name @ ''>'') r1
               then map_option (\<lambda>(xs, r'). (Element name attrs content # xs, r')) (parse_content fuel (drop (length name + 3) r1))
               else None))
      else map_option (\<lambda>(xs, r). (add_text [hd s] xs, r)) (parse_content fuel (tl s)))"

declare parse_content.simps(2) [simp del] parse_attributes.simps(2) [simp del]

definition parse_document :: "string \<Rightarrow> xml option option" where
  "parse_document s =
     (if \<not> starts_with xml_prolog s then None
      else case parse_content (Suc (length s)) (drop (length xml_prolog) s) of
        Some (x # _, []) \<Rightarrow> if is_element x then Some (Some x) else None
      | _ \<Rightarrow> None)"

lemma takeWhile_until: "list_all P xs \<Longrightarrow> \<not> P c \<Longrightarrow> takeWhile P (xs @ c # r) = xs"
  by (induction xs) auto

lemma dropWhile_until: "list_all P xs \<Longrightarrow> \<not> P c \<Longrightarrow> dropWhile P (xs @ c # r) = c # r"
  by (induction xs) auto

lemma name_chars [simp]: "\<not> name_char (CHR '' '')" "\<not> name_char (CHR ''>'')" "\<not> name_char (CHR ''/'')" "\<not> name_char (CHR ''='')"
  "\<not> name_char (CHR ''<'')" "\<not> name_char (CHR ''!'')"
  by (simp_all add: name_char_def)

lemma parse_attributes_end:
  assumes "spaces space"
  shows "parse_attributes (Suc fuel) (space @ ''>'' @ r) = Some ([], False, r)"
    and "parse_attributes (Suc fuel) (space @ ''/>'' @ r) = Some ([], True, r)"
proof -
  have "dropWhile (\<lambda>c. c = CHR '' '') (space @ CHR ''>'' # r) = CHR ''>'' # r"
    "dropWhile (\<lambda>c. c = CHR '' '') (space @ CHR ''/'' # CHR ''>'' # r) = CHR ''/'' # CHR ''>'' # r"
    using assms by (auto simp: spaces_def intro: dropWhile_until)
  then show "parse_attributes (Suc fuel) (space @ ''>'' @ r) = Some ([], False, r)"
    "parse_attributes (Suc fuel) (space @ ''/>'' @ r) = Some ([], True, r)"
    by (simp_all add: parse_attributes.simps(2) Let_def)
qed

lemma parse_attribute:
  assumes "spaces space" and "name_ok name" and "list_all value_char v"
  shows "parse_attributes (Suc fuel) (space @ attribute name (xmlEscape v) @ r) =
    map_option (\<lambda>(attrs, r). ((name, v) # attrs, r)) (parse_attributes fuel r)"
proof -
  let ?s = "space @ attribute name (xmlEscape v) @ r" and ?e = "xmlEscape v"
  obtain c name' where n: "name = c # name'" "name_char c" using assms(2) by (cases name) (auto simp: name_ok_def)
  then have ne: "c \<noteq> CHR '' ''" "c \<noteq> CHR ''>''" "c \<noteq> CHR ''/''" by (auto simp: name_char_def)
  have s: "dropWhile (\<lambda>c. c = CHR '' '') ?s = attribute name ?e @ r"
    using dropWhile_until[of "\<lambda>c. c = CHR '' ''" space c] assms(1) ne(1) by (simp add: attribute_def n(1) spaces_def)
  have name: "takeWhile name_char (attribute name ?e @ r) = name"
    using takeWhile_until[of name_char name "CHR ''=''"] assms(2) by (simp add: attribute_def name_ok_def)
  have "list_all (\<lambda>c. c \<noteq> CHR 0x22) ?e" using quote_not_in_escape[OF assms(3)] by (auto simp: list_all_iff)
  then have v: "takeWhile (\<lambda>c. c \<noteq> CHR 0x22) (?e @ CHR 0x22 # r) = ?e" by (rule takeWhile_until) simp
  have "\<not> starts_with ''>'' (attribute name ?e @ r)" "\<not> starts_with ''/>'' (attribute name ?e @ r)"
    using ne by (simp_all add: attribute_def n(1))
  then show ?thesis
    using s name v unescape_escape[OF assms(3)] n(1)
    by (simp add: parse_attributes.simps(2) Let_def) (simp add: attribute_def quote_def numeral_2_eq_2 numeral_3_eq_3)
qed

lemma parse_show_attributes:
  assumes "attributes_ok attrs" and "length attrs < fuel" and "spaces space"
  shows "parse_attributes fuel (show_attributes attrs @ space @ ''>'' @ r) = Some (map snd attrs, False, r)"
    and "parse_attributes fuel (show_attributes attrs @ space @ ''/>'' @ r) = Some (map snd attrs, True, r)"
proof -
  have ok: "list_all (\<lambda>(space, name, v). space \<noteq> [] \<and> spaces space \<and> name_ok name \<and> list_all value_char v) attrs"
    using assms(1) by (simp add: attributes_ok_def)
  have "parse_attributes fuel (show_attributes attrs @ t) = map_option (\<lambda>(as, r). (map snd attrs @ as, r)) (parse_attributes (fuel - length attrs) t)"
    for t using ok assms(2)
  proof (induction attrs arbitrary: fuel)
    case Nil
    then show ?case by (simp add: show_attributes_def option.map_ident case_prod_beta')
  next
    case (Cons a attrs)
    obtain sp n v where a: "a = (sp, n, v)" by (cases a)
    obtain k where k: "fuel = Suc k" using Cons.prems(2) by (cases fuel) auto
    have h: "spaces sp" "name_ok n" "list_all value_char v" using Cons.prems(1) by (simp_all add: a)
    show ?case using parse_attribute[OF h, of k "show_attributes attrs @ t"] Cons.IH[of k] Cons.prems
      by (simp add: a k show_attributes_def option.map_comp comp_def case_prod_beta')
  qed
  moreover obtain k where "fuel - length attrs = Suc k" using assms(2) by (metis Suc_diff_Suc)
  ultimately show "parse_attributes fuel (show_attributes attrs @ space @ ''>'' @ r) = Some (map snd attrs, False, r)"
    "parse_attributes fuel (show_attributes attrs @ space @ ''/>'' @ r) = Some (map snd attrs, True, r)"
    using parse_attributes_end[OF assms(3), of k r] by simp_all
qed

lemma split_cdata_end:
  "\<not> contains_string '']]>'' s \<Longrightarrow> split_cdata (s @ '']]>'' @ r) = Some (s, r)"
proof (induction s)
  case (Cons c s)
  have "\<not> starts_with '']]>'' (c # s @ '']]>'' @ r)"
  proof (cases s)
    case Nil
    then show ?thesis using Cons.prems by auto
  next
    case (Cons d s')
    then show ?thesis using Cons.prems \<open>\<not> contains_string '']]>'' (c # s)\<close> by (cases s') auto
  qed
  then show ?case using Cons by simp
qed (simp add: numeral_2_eq_2)

lemma add_text_Cons: "add_text (c # s) xs = add_text [c] (add_text s xs)"
  by (cases "(s, xs)" rule: add_text.cases) auto

lemma parse_char:
  assumes "c = CHR '' '' \<or> c = CHR 0x0A"
  shows "parse_content (Suc fuel) (c # s) = map_option (\<lambda>(xs, r). (add_text [c] xs, r)) (parse_content fuel s)"
  using assms by (auto simp: parse_content.simps(2))

lemma parse_chars:
  assumes "s \<noteq> []" and "list_all (\<lambda>c. c = CHR '' '' \<or> c = CHR 0x0A) s"
  shows "parse_content (length s + fuel) (s @ rest) = map_option (\<lambda>(xs, r). (add_text s xs, r)) (parse_content fuel rest)"
  using assms
proof (induction s)
  case (Cons c s)
  then have c: "c = CHR '' '' \<or> c = CHR 0x0A" by simp
  show ?case
  proof (cases s)
    case Nil
    then show ?thesis using parse_char[OF c] by simp
  next
    case (Cons d s')
    then have "parse_content (length s + fuel) (s @ rest) = map_option (\<lambda>(xs, r). (add_text s xs, r)) (parse_content fuel rest)"
      using Cons.IH Cons.prems by simp
    then show ?thesis using parse_char[OF c, of "length s + fuel" "s @ rest"]
      by (simp add: option.map_comp comp_def case_prod_beta' add_text_Cons[of c s])
  qed
qed simp

lemma parse_cdata:
  assumes "cdata_ok s"
  shows "parse_content (Suc fuel) (''<![CDATA['' @ s @ '']]>'' @ rest) = map_option (\<lambda>(xs, r). (CData s # xs, r)) (parse_content fuel rest)"
proof -
  have "drop 9 (''<![CDATA['' @ s @ '']]>'' @ rest) = s @ '']]>'' @ rest" by simp
  then show ?thesis using split_cdata_end[of s rest] assms
    by (simp add: parse_content.simps(2) cdata_ok_def del: append.simps) simp
qed

lemma tag_start:
  assumes "name_ok name" and "r \<noteq> []" and "\<not> name_char (hd r)"
  shows "takeWhile name_char (name @ r) = name" "\<not> starts_with ''</'' (CHR ''<'' # name @ r)"
    "\<not> starts_with ''<![CDATA['' (CHR ''<'' # name @ r)"
proof -
  show "takeWhile name_char (name @ r) = name"
    using takeWhile_until[of name_char name "hd r" "tl r"] assms by (simp add: name_ok_def)
  obtain c name' where n: "name = c # name'" "name_char c" using assms(1) by (cases name) (auto simp: name_ok_def)
  then have "c \<noteq> CHR ''/''" "c \<noteq> CHR ''!''" by (auto simp: name_char_def)
  then show "\<not> starts_with ''</'' (CHR ''<'' # name @ r)" "\<not> starts_with ''<![CDATA['' (CHR ''<'' # name @ r)" using n(1) by simp_all
qed

lemma show_attributes_head:
  assumes "attributes_ok attrs" and "spaces space" and "r \<noteq> []" and "\<not> name_char (hd r)"
  shows "\<not> name_char (hd (show_attributes attrs @ space @ r))"
proof (cases attrs)
  case Nil
  then show ?thesis using assms by (cases space) (auto simp: show_attributes_def spaces_def)
next
  case (Cons a as)
  then obtain sp n v where a: "a = (sp, n, v)" "sp \<noteq> []" "spaces sp" using assms(1) by (cases a) (auto simp: attributes_ok_def)
  then show ?thesis using Cons by (cases sp) (auto simp: show_attributes_def spaces_def)
qed

lemma length_show_attributes: "attributes_ok attrs \<Longrightarrow> length attrs \<le> length (show_attributes attrs)"
  unfolding attributes_ok_def
proof (induction attrs)
  case (Cons a attrs)
  obtain sp n v where "a = (sp, n, v)" by (cases a)
  then show ?case using Cons by (auto simp: show_attributes_def attribute_def)
qed (simp add: show_attributes_def)

lemma parse_empty_tag:
  assumes "name_ok name" and "attributes_ok attrs" and "spaces space"
  shows "parse_content (Suc fuel) (show_markup (EmptyTag name attrs space) @ rest) =
    map_option (\<lambda>(xs, r). (xml_tree (EmptyTag name attrs space) # xs, r)) (parse_content fuel rest)"
proof -
  let ?r = "show_attributes attrs @ space @ ''/>'' @ rest" and ?s = "show_markup (EmptyTag name attrs space) @ rest"
  have s: "?s = CHR ''<'' # name @ ?r" by simp
  have "\<not> name_char (hd ?r)" by (rule show_attributes_head[OF assms(2,3)]) simp_all
  note start = tag_start[OF assms(1) _ this]
  have "parse_attributes (length ?s) ?r = Some (map snd attrs, True, rest)"
    by (rule parse_show_attributes(2)[OF assms(2) _ assms(3)]) (use length_show_attributes[OF assms(2)] in simp)
  then show ?thesis using start unfolding s by (simp add: parse_content.simps(2) Let_def)
qed

lemma parse_tag:
  assumes "name_ok name" and "attributes_ok attrs" and "spaces space"
    and "parse_content fuel (concat (map show_markup content) @ ''</'' @ name @ ''>'' @ rest) = Some (xs, ''</'' @ name @ ''>'' @ rest)"
  shows "parse_content (Suc fuel) (show_markup (Tag name attrs space content) @ rest) =
    map_option (\<lambda>(ys, r). (Element name (map snd attrs) xs # ys, r)) (parse_content fuel rest)"
proof -
  let ?c = "concat (map show_markup content) @ ''</'' @ name @ ''>'' @ rest"
  let ?r = "show_attributes attrs @ space @ ''>'' @ ?c" and ?s = "show_markup (Tag name attrs space content) @ rest"
  have s: "?s = CHR ''<'' # name @ ?r" by simp
  have "\<not> name_char (hd ?r)" by (rule show_attributes_head[OF assms(2,3)]) simp_all
  note start = tag_start[OF assms(1) _ this]
  have "parse_attributes (length ?s) ?r = Some (map snd attrs, False, ?c)"
    by (rule parse_show_attributes(1)[OF assms(2) _ assms(3)]) (use length_show_attributes[OF assms(2)] in simp)
  moreover have "starts_with (''</'' @ name @ ''>'') (''</'' @ name @ ''>'' @ rest)"
    using starts_with_append[of "''</'' @ name @ ''>''" rest] by simp
  moreover have "drop (length name + 3) (''</'' @ name @ ''>'' @ rest) = rest" by (simp add: numeral_3_eq_3)
  ultimately show ?thesis using start assms(4) unfolding s
    by (simp add: parse_content.simps(2) Let_def del: append.simps) (simp add: numeral_3_eq_3)
qed

lemma parse_show_content:
  assumes "list_all markup_ok ms" and "r = [] \<or> starts_with ''</'' r" and "length (concat (map show_markup ms)) < fuel"
  shows "parse_content fuel (concat (map show_markup ms) @ r) = Some (join_text (map xml_tree ms), r)"
  using assms
proof (induction fuel arbitrary: ms r rule: less_induct)
  case (less fuel)
  obtain k where k: "fuel = Suc k" using less.prems(3) by (cases fuel) auto
  show ?case
  proof (cases ms)
    case Nil
    then show ?thesis using less.prems(2) by (auto simp: k parse_content.simps(2))
  next
    case (Cons m ms')
    let ?rest = "concat (map show_markup ms') @ r"
    have ok: "markup_ok m" "list_all markup_ok ms'" using less.prems(1) Cons by simp_all
    have rest: "parse_content j ?rest = Some (join_text (map xml_tree ms'), r)" if "j < fuel" "length (concat (map show_markup ms')) < j" for j
      using less.IH[OF that(1) ok(2) less.prems(2) that(2)] .
    have len: "length (show_markup m) + length (concat (map show_markup ms')) < Suc k" using less.prems(3) Cons k by simp
    show ?thesis
    proof (cases m)
      case (Chars s)
      then have s: "s \<noteq> []" "list_all (\<lambda>c. c = CHR '' '' \<or> c = CHR 0x0A) s" using ok(1) by simp_all
      have "fuel = length s + (fuel - length s)" using len Chars k by simp
      then show ?thesis using parse_chars[OF s, of "fuel - length s" ?rest] rest[of "fuel - length s"] len s(1) Chars Cons k by simp
    next
      case (Cdata s)
      then show ?thesis using parse_cdata[of s k ?rest] rest[of k] len ok(1) Cons k by simp
    next
      case (EmptyTag name attrs space)
      then show ?thesis using parse_empty_tag[of name attrs space k ?rest] rest[of k] len ok(1) Cons k by simp
    next
      case (Tag name attrs space content)
      let ?tail = "''</'' @ name @ ''>'' @ ?rest"
      have "parse_content k (concat (map show_markup content) @ ?tail) = Some (join_text (map xml_tree content), ?tail)"
        by (rule less.IH) (use ok(1) len Tag k in auto)
      from parse_tag[OF _ _ _ this] show ?thesis using rest[of k] len ok(1) Tag Cons k by simp
    qed
  qed
qed

lemma parse_document_parser: "xml_parser parse_document"
  unfolding xml_parser_def
proof (intro allI impI)
  fix m assume m: "markup_ok m" "is_Tag m"
  let ?s = "xml_prolog @ show_markup m @ newline"
  have "parse_content (Suc (length ?s)) (concat (map show_markup [m, Chars newline]) @ []) = Some (join_text (map xml_tree [m, Chars newline]), [])"
    by (rule parse_show_content) (use m(1) in \<open>simp_all add: newline_def\<close>)
  moreover have "is_element (xml_tree m)" "join_text [xml_tree m, Text newline] = [xml_tree m, Text newline]"
    using m(2) by (cases m; simp)+
  ultimately show "parse_document ?s = Some (Some (xml_tree m))" by (simp add: parse_document_def)
qed

end
