(* ===== verification/TlbRoundtrip.thy ===== *)
theory TlbRoundtrip
  imports TlbMarkup
begin

text \<open>
  Export and import of registries in XML compose: the exported text is that of a document, the tree
  of the document describes every persistent type, and importing it restores the registry.
\<close>

section \<open>The exported document\<close>

definition metadata_markup :: "MetaData \<Rightarrow> markup list" where
  "metadata_markup md = concat (map (\<lambda>(key, vs).
     if vs = [] then [EmptyTag ''metadata'' [('' '', ''key'', key)] '' '']
     else concat (map (\<lambda>v. [Tag ''metadata'' [('' '', ''key'', key)] [] [Cdata v], Chars newline]) vs)) md)"

definition end_markup :: "string \<Rightarrow> MetaData \<Rightarrow> markup list" where
  "end_markup indent md = Chars indent # metadata_markup md @ [Chars (newline @ indent)]"

definition field_markup :: "store \<Rightarrow> string \<Rightarrow> Field \<Rightarrow> markup list" where
  "field_markup st indent f = [Chars indent,
     Tag ''field'' [('' '', ''name'', fld_name f), ('' '', ''type'', ty_name (type_at st (fld_type f))), ('' '', ''offset'', show_nat (fld_offset f))] []
       (Chars newline # end_markup indent (fld_metadata f)), Chars newline]"

definition value_markup :: "string \<Rightarrow> string \<times> int \<Rightarrow> markup list" where
  "value_markup indent v = [Chars indent, EmptyTag ''value'' [('' '', ''symbol'', fst v), ('' '', ''value'', show_int (snd v))] [], Chars newline]"

definition tag_markup :: "string \<Rightarrow> (string \<times> string \<times> string) list \<Rightarrow> string \<Rightarrow> markup list \<Rightarrow> markup" where
  "tag_markup name attrs source_id content =
     Tag name (attrs @ (if source_id \<noteq> [] then [('' '', ''source_id'', source_id)] else [])) (if source_id \<noteq> [] then [] else '' '') (Chars newline # content)"

definition type_markup :: "store \<Rightarrow> string \<Rightarrow> string \<Rightarrow> Type \<Rightarrow> markup" where
  "type_markup st indent source_id obj =
    (let name = ty_name obj; tail = end_markup indent (ty_metadata obj); sz = show_nat (ty_size obj) in
     case ty_kind obj of
       Opaque \<Rightarrow> tag_markup ''opaque'' [('' '', ''name'', name), ('' '', ''size'', sz)] source_id tail
     | Compound flds \<Rightarrow> tag_markup ''compound'' [('' '', ''name'', name), ('' '', ''size'', sz)] source_id
         (concat (map (field_markup st (indent @ ''  '')) flds) @ tail)
     | Numeric cat \<Rightarrow> tag_markup ''numeric'' [('' '', ''name'', name), ('' '', ''category'', getStringCategory cat), ('' '', ''size'', sz)] source_id tail
     | NullType \<Rightarrow> tag_markup ''null'' [(''  '', ''name'', name)] source_id tail
     | Container c _ on \<Rightarrow> tag_markup ''container'' [(''  '', ''name'', name), ('' '', ''of'', ty_name (type_at st on)), ('' '', ''size'', sz), ('' '', ''kind'', c)] source_id tail
     | Enum vs _ \<Rightarrow> tag_markup ''enum'' [('' '', ''name'', name)] source_id (concat (map (value_markup (indent @ ''  '')) vs) @ tail)
     | Pointer on \<Rightarrow> tag_markup ''pointer'' [(''  '', ''name'', name), ('' '', ''of'', ty_name (type_at st on))] source_id tail
     | Array dim on \<Rightarrow> tag_markup ''array'' [(''  '', ''name'', name), ('' '', ''of'', ty_name (type_at st on)), ('' '', ''dimension'', show_nat dim)] source_id tail)"

definition entry_markup :: "store \<Rightarrow> entry \<Rightarrow> markup" where
  "entry_markup st e = type_markup st ''  '' (reg_source_id (snd e)) (type_at st (reg_type (snd e)))"

definition document_markup :: "store \<Rightarrow> entry list \<Rightarrow> markup" where
  "document_markup st es = Tag ''typelib'' [] [] (Chars newline # concat (map (\<lambda>e. [Chars ''  '', entry_markup st e, Chars newline]) es))"

text \<open>
  The strings that XML can represent: the exporter escapes \<open><\<close> and \<open>>\<close> in some names only, and
  neither \<open>&\<close> nor quotes.
\<close>

definition plain_text :: "string \<Rightarrow> bool" where
  "plain_text s \<longleftrightarrow> list_all value_char s \<and> list_all (\<lambda>c. c \<notin> set ''<>'') s"

definition metadata_text :: "MetaData \<Rightarrow> bool" where
  "metadata_text md \<longleftrightarrow> MetaData_ok md \<and> list_all (\<lambda>(k, vs). plain_text k \<and> list_all cdata_ok vs) md"

definition type_text :: "store \<Rightarrow> Type \<Rightarrow> bool" where
  "type_text st obj \<longleftrightarrow> list_all value_char (ty_name obj) \<and> metadata_text (ty_metadata obj) \<and>
     (case ty_kind obj of
        NullType \<Rightarrow> plain_text (ty_name obj)
      | Numeric _ \<Rightarrow> plain_text (ty_name obj)
      | Enum vs _ \<Rightarrow> plain_text (ty_name obj) \<and> list_all (\<lambda>v. plain_text (fst v)) vs
      | Compound flds \<Rightarrow> list_all (\<lambda>f. plain_text (fld_name f) \<and> list_all value_char (ty_name (type_at st (fld_type f))) \<and>
          metadata_text (fld_metadata f)) flds
      | Container c _ on \<Rightarrow> list_all value_char c \<and> list_all value_char (ty_name (type_at st on))
      | Pointer on \<Rightarrow> list_all value_char (ty_name (type_at st on))
      | Array _ on \<Rightarrow> list_all value_char (ty_name (type_at st on))
      | Opaque \<Rightarrow> True)"

definition entry_text :: "store \<Rightarrow> entry \<Rightarrow> bool" where
  "entry_text st e \<longleftrightarrow> \<not> isAlias st e \<and> list_all value_char (reg_source_id (snd e)) \<and> type_text st (type_at st (reg_type (snd e)))"

lemma digits_value: "list_all is_digit s \<Longrightarrow> plain_text s"
  by (induction s) (auto simp: plain_text_def is_digit_def value_char_def Let_def)

lemma show_nat_text [simp]: "plain_text (show_nat n)"
  by (rule digits_value[OF show_nat_digits])

lemma plain_text_Cons: "plain_text (c # s) \<longleftrightarrow> value_char c \<and> c \<notin> set ''<>'' \<and> plain_text s"
  by (auto simp: plain_text_def)

lemma show_int_text [simp]: "plain_text (show_int i)"
  by (simp add: show_int_def plain_text_Cons value_char_def)

lemma plain_textD [simp]: "plain_text s \<Longrightarrow> xmlEscape s = s" "plain_text s \<Longrightarrow> list_all value_char s"
  by (simp_all add: plain_text_def xmlEscape_plain)

lemma category_text [simp]: "plain_text (getStringCategory cat)"
  by (cases cat) (simp_all add: getStringCategory_def plain_text_def value_char_def)

lemma show_metadata:
  assumes "metadata_text md"
  shows "concat (map show_markup (metadata_markup md)) = emitMetaData md"
proof -
  have "concat (map show_markup (concat (map (\<lambda>v. [Tag ''metadata'' [('' '', ''key'', k)] [] [Cdata v], Chars newline]) vs))) =
      concat (map (\<lambda>v. ''<metadata '' @ attribute ''key'' k @ ''><![CDATA['' @ v @ '']]></metadata>'' @ newline) vs)" if "plain_text k" for k vs
    using that by (induction vs) (simp_all add: show_attributes_def)
  moreover have "list_all (\<lambda>(k, vs). plain_text k) md" using assms by (auto simp: metadata_text_def list_all_iff)
  ultimately show ?thesis
    by (induction md) (auto simp: metadata_markup_def emitMetaData_def show_attributes_def)
qed

lemma show_end:
  "metadata_text md \<Longrightarrow> concat (map show_markup (end_markup indent md)) @ ''</'' @ tag @ ''>'' = emit_end indent md tag"
  using show_metadata[of md] by (simp add: end_markup_def emit_end_def)

lemma show_tag:
  "show_markup (tag_markup name attrs source_id content) = ''<'' @ name @ show_attributes attrs @ '' '' @ emitSourceID source_id @ ''>'' @
     newline @ concat (map show_markup content) @ ''</'' @ name @ ''>''"
  by (simp add: tag_markup_def show_attributes_def emitSourceID_def)

lemma show_field:
  assumes "plain_text (fld_name f)" and "metadata_text (fld_metadata f)"
  shows "concat (map show_markup (field_markup st indent f)) = tlb_field st indent f"
  using assms show_end[OF assms(2), of indent "''field''"]
  by (simp add: field_markup_def tlb_field_def show_attributes_def)

lemma show_value: "plain_text (fst v) \<Longrightarrow> concat (map show_markup (value_markup indent v)) = tlb_value indent v"
  by (simp add: value_markup_def tlb_value_def show_attributes_def)

lemma show_concat: "list_all (\<lambda>x. concat (map show_markup (f x)) = g x) xs \<Longrightarrow> concat (map show_markup (concat (map f xs))) = concat (map g xs)"
  by (induction xs) auto

lemma show_type:
  assumes "type_text st obj"
  shows "show_markup (type_markup st indent source_id obj) = tlb_visit st indent source_id obj"
proof -
  have md: "metadata_text (ty_metadata obj)" using assms by (simp add: type_text_def)
  note tail = show_end[OF md, of indent "''opaque''", simplified] show_end[OF md, of indent "''compound''", simplified]
    show_end[OF md, of indent "''numeric''", simplified] show_end[OF md, of indent "''null''", simplified]
    show_end[OF md, of indent "''container''", simplified] show_end[OF md, of indent "''enum''", simplified]
    show_end[OF md, of indent "''pointer''", simplified] show_end[OF md, of indent "''array''", simplified]
  show ?thesis
  proof (cases "ty_kind obj")
    case (Compound flds)
    then have "list_all (\<lambda>f. concat (map show_markup (field_markup st (indent @ ''  '') f)) = tlb_field st (indent @ ''  '') f) flds"
      using assms by (auto simp: type_text_def list_all_iff show_field)
    from show_concat[OF this] show ?thesis using Compound tail
      by (simp add: type_markup_def tlb_visit_def show_tag Let_def) (simp add: show_attributes_def)
  next
    case (Enum vs last_value)
    then have "list_all (\<lambda>v. concat (map show_markup (value_markup (indent @ ''  '') v)) = tlb_value (indent @ ''  '') v) vs"
      using assms by (auto simp: type_text_def list_all_iff show_value)
    from show_concat[OF this] show ?thesis using Enum assms tail
      by (simp add: type_markup_def tlb_visit_def show_tag Let_def type_text_def) (simp add: show_attributes_def)
  qed (use assms tail in \<open>simp_all add: type_markup_def tlb_visit_def show_tag Let_def type_text_def tlb_indirect_def,
        simp_all add: show_attributes_def\<close>)
qed

lemma show_entry:
  "entry_text st e \<Longrightarrow> concat (map show_markup [Chars ''  '', entry_markup st e, Chars newline]) = tlb_entry st e"
  by (simp add: entry_text_def tlb_entry_def entry_markup_def show_type Let_def)

lemma show_document:
  assumes "list_all (entry_text st) es"
  shows "TlbExport_end (tlb.pieces st (TlbExport_begin [] reg) es) reg = xml_prolog @ show_markup (document_markup st es) @ newline"
proof -
  have "list_all (\<lambda>e. concat (map show_markup [Chars ''  '', entry_markup st e, Chars newline]) = tlb_entry st e) es"
    using assms by (rule list.pred_mono_strong) (rule show_entry)
  from show_concat[OF this] show ?thesis
    by (simp add: TlbExport_end_def TlbExport_begin_def tlb.pieces_def xml_prolog_def document_markup_def show_attributes_def)
qed

section \<open>The document is well formed\<close>

lemma tag_names: "name_ok ''opaque''" "name_ok ''compound''" "name_ok ''numeric''" "name_ok ''null''" "name_ok ''container''"
  "name_ok ''enum''" "name_ok ''pointer''" "name_ok ''array''" "name_ok ''field''" "name_ok ''value''" "name_ok ''metadata''"
  "name_ok ''typelib''" "name_ok ''name''" "name_ok ''size''" "name_ok ''category''" "name_ok ''of''" "name_ok ''kind''"
  "name_ok ''dimension''" "name_ok ''type''" "name_ok ''offset''" "name_ok ''symbol''" "name_ok ''key''" "name_ok ''source_id''"
  by (simp_all add: name_ok_def name_char_def)

lemma attributes_ok_simps:
  "attributes_ok []"
  "attributes_ok ((space, name, v) # attrs) \<longleftrightarrow> name \<notin> fst ` snd ` set attrs \<and> space \<noteq> [] \<and> spaces space \<and> name_ok name \<and>
     list_all value_char v \<and> attributes_ok attrs"
  by (auto simp: attributes_ok_def image_image)

lemma spaces_simps [simp]: "spaces []" "spaces '' ''" "spaces ''  ''"
  by (simp_all add: spaces_def)

lemma list_all_concat_map: "(\<And>x. x \<in> set xs \<Longrightarrow> list_all P (f x)) \<Longrightarrow> list_all P (concat (map f xs))"
  by (auto simp: list_all_iff)

lemma metadata_markup_ok:
  assumes "metadata_text md"
  shows "list_all markup_ok (metadata_markup md)"
  unfolding metadata_markup_def
proof (rule list_all_concat_map)
  fix x assume x: "x \<in> set md"
  obtain k vs where kv: "x = (k, vs)" by fastforce
  have "plain_text k" "list_all cdata_ok vs" using assms x kv by (auto simp: metadata_text_def list_all_iff)
  then have "attributes_ok [('' '', ''key'', k)]" by (simp add: attributes_ok_simps tag_names)
  then show "list_all markup_ok (case x of (key, vs) \<Rightarrow> if vs = [] then [EmptyTag ''metadata'' [('' '', ''key'', key)] '' '']
      else concat (map (\<lambda>v. [Tag ''metadata'' [('' '', ''key'', key)] [] [Cdata v], Chars newline]) vs))"
    using \<open>list_all cdata_ok vs\<close> by (auto simp: kv tag_names newline_def list_all_iff)
qed

lemma end_markup_ok: "metadata_text md \<Longrightarrow> spaces indent \<Longrightarrow> indent \<noteq> [] \<Longrightarrow> list_all markup_ok (end_markup indent md)"
  using metadata_markup_ok[of md] by (auto simp: end_markup_def newline_def spaces_def list_all_iff)

lemma tag_markup_ok:
  assumes "name_ok name" and "attributes_ok attrs" and "list_all value_char source_id" and "''source_id'' \<notin> fst ` snd ` set attrs"
    and "list_all markup_ok content"
  shows "markup_ok (tag_markup name attrs source_id content)"
proof -
  have "attributes_ok (attrs @ [('' '', ''source_id'', source_id)])"
    using assms(2-4) tag_names by (auto simp: attributes_ok_def)
  then show ?thesis using assms by (simp add: tag_markup_def newline_def)
qed

lemma field_markup_ok:
  "plain_text (fld_name f) \<Longrightarrow> list_all value_char (ty_name (type_at st (fld_type f))) \<Longrightarrow> metadata_text (fld_metadata f) \<Longrightarrow>
   list_all markup_ok (field_markup st ''    '' f)"
  using end_markup_ok[of "fld_metadata f" "''    ''"]
  by (simp add: field_markup_def newline_def attributes_ok_simps tag_names spaces_def)

lemma value_markup_ok: "plain_text (fst v) \<Longrightarrow> list_all markup_ok (value_markup ''    '' v)"
  by (simp add: value_markup_def newline_def attributes_ok_simps tag_names)

lemma type_markup_ok:
  assumes "type_text st obj" and "list_all value_char source_id"
  shows "markup_ok (type_markup st ''  '' source_id obj)"
proof -
  have md: "metadata_text (ty_metadata obj)" using assms by (simp add: type_text_def)
  have tail: "list_all markup_ok (end_markup ''  '' (ty_metadata obj))" by (rule end_markup_ok[OF md]) simp_all
  show ?thesis
  proof (cases "ty_kind obj")
    case (Compound flds)
    have "list_all markup_ok (concat (map (field_markup st ''    '') flds))"
      by (rule list_all_concat_map) (use assms(1) Compound in \<open>auto simp: type_text_def list_all_iff intro: field_markup_ok[unfolded list_all_iff, rule_format]\<close>)
    then show ?thesis using assms tail Compound
      by (auto simp: type_markup_def Let_def type_text_def tag_names attributes_ok_simps intro!: tag_markup_ok)
  next
    case (Enum vs last_value)
    have "list_all markup_ok (concat (map (value_markup ''    '') vs))"
      by (rule list_all_concat_map, rule value_markup_ok) (use assms(1) Enum in \<open>auto simp: type_text_def list_all_iff\<close>)
    then show ?thesis using assms tail Enum
      by (auto simp: type_markup_def Let_def type_text_def tag_names attributes_ok_simps intro!: tag_markup_ok)
  qed (use assms tail in \<open>auto simp: type_markup_def Let_def type_text_def tag_names attributes_ok_simps intro!: tag_markup_ok\<close>)
qed

lemma document_markup_ok: "list_all (entry_text st) es \<Longrightarrow> markup_ok (document_markup st es)"
  by (auto simp: document_markup_def tag_names attributes_ok_simps newline_def list_all_iff entry_text_def entry_markup_def type_markup_ok)

section \<open>The document describes the types\<close>

definition named :: "string \<Rightarrow> markup list \<Rightarrow> xml list" where
  "named name ms = filter (\<lambda>x. is_element x \<and> xml_name x = name) (map xml_tree ms)"

lemma filter_add_text: "filter (\<lambda>x. is_element x \<and> P x) (add_text s xs) = filter (\<lambda>x. is_element x \<and> P x) xs"
  by (cases "(s, xs)" rule: add_text.cases) simp_all

lemma filter_join_text: "filter (\<lambda>x. is_element x \<and> P x) (join_text xs) = filter (\<lambda>x. is_element x \<and> P x) xs"
  by (induction xs rule: join_text.induct) (simp_all add: filter_add_text)

lemma elements_named_Tag: "elements_named name (xml_tree (Tag n attrs space content)) = named name content"
  by (simp add: elements_named_def named_def filter_join_text)

lemma named_simps [simp]:
  "named name [] = []" "named name (Chars s # ms) = named name ms" "named name (xs @ ys) = named name xs @ named name ys"
  "named name (Tag n attrs space content # ms) = (if n = name then [xml_tree (Tag n attrs space content)] else []) @ named name ms"
  "named name (EmptyTag n attrs space # ms) = (if n = name then [xml_tree (EmptyTag n attrs space)] else []) @ named name ms"
  by (simp_all add: named_def)

lemma named_concat: "named name (concat (map f xs)) = concat (map (\<lambda>x. named name (f x)) xs)"
  by (induction xs) simp_all

definition metadata_nodes :: "MetaData \<Rightarrow> xml list" where
  "metadata_nodes md = concat (map (\<lambda>(key, vs). if vs = [] then [Element ''metadata'' [(''key'', key)] []]
     else map (\<lambda>v. Element ''metadata'' [(''key'', key)] [CData v]) vs) md)"

lemma named_metadata: "named name (metadata_markup md) = (if name = ''metadata'' then metadata_nodes md else [])"
proof -
  have "named name (concat (map (\<lambda>v. [Tag ''metadata'' [('' '', ''key'', k)] [] [Cdata v], Chars newline]) vs)) =
      (if name = ''metadata'' then map (\<lambda>v. Element ''metadata'' [(''key'', k)] [CData v]) vs else [])" for k vs
    by (induction vs) simp_all
  then show ?thesis by (induction md) (auto simp: metadata_markup_def metadata_nodes_def)
qed

lemma named_end [simp]: "named name (end_markup indent md) = (if name = ''metadata'' then metadata_nodes md else [])"
  by (simp add: end_markup_def named_metadata)

lemma omap_assign_last:
  assumes "\<forall>k' \<in> fst ` set m. string_less k' k"
  shows "omap_assign string_less k v m = m @ [(k, v)]" "omap_assign string_less k v (m @ [(k, w)]) = m @ [(k, v)]"
  using assms by (induction m) (auto simp: string_map.lt_asym string_map.lt_irrefl)

lemma insort_last: "\<forall>w \<in> set vs. w < v \<Longrightarrow> insort v vs = vs @ [v]"
  by (induction vs) auto

lemma insort_insert_last:
  fixes v :: string
  assumes "sorted (vs @ [v])" and "distinct (vs @ [v])"
  shows "List.insort_insert v vs = vs @ [v]"
proof -
  have "\<forall>w \<in> set vs. w < v" using assms by (auto simp: sorted_append order.strict_iff_order)
  then show ?thesis using insort_last[of vs v] assms(2) by (simp add: List.insort_insert_key_def)
qed

lemma load_metadata_value:
  assumes "\<forall>k' \<in> fst ` set m. string_less k' k" and "sorted (vs @ ws)" and "distinct (vs @ ws)"
  shows "fold_result loadMetaData_node (m @ [(k, vs)]) (map (\<lambda>v. Element ''metadata'' [(''key'', k)] [CData v]) ws) = Inr (m @ [(k, vs @ ws)])"
  using assms(2,3)
proof (induction ws arbitrary: vs)
  case (Cons w ws)
  have "map_of m k = None" using assms(1) string_map.lt_irrefl by (force simp: map_of_eq_None_iff)
  then have "MetaData_get (m @ [(k, vs)]) k = vs" by (simp add: MetaData_get_def map_add_def)
  moreover have "List.insort_insert w vs = vs @ [w]"
    by (rule insort_insert_last) (use Cons.prems in \<open>auto simp: sorted_append\<close>)
  ultimately have "loadMetaData_node (m @ [(k, vs)]) (Element ''metadata'' [(''key'', k)] [CData w]) = Inr (m @ [(k, vs @ [w])])"
    using omap_assign_last(2)[OF assms(1)]
    by (simp add: loadMetaData_node_def getAttribute_def MetaData_add_values_def MetaData_add_def Let_def)
  then show ?case using Cons.IH[of "vs @ [w]"] Cons.prems by simp
qed simp

lemma load_metadata_nodes:
  assumes "MetaData_ok (m @ md)"
  shows "fold_result loadMetaData_node m (metadata_nodes md) = Inr (m @ md)"
  using assms
proof (induction md arbitrary: m)
  case (Cons e md)
  obtain k vs where e: "e = (k, vs)" by fastforce
  have less: "\<forall>k' \<in> fst ` set m. string_less k' k" using Cons.prems by (auto simp: MetaData_ok_def omap_sorted_def sorted_wrt_append e)
  have vs: "sorted vs" "distinct vs" using Cons.prems by (auto simp: MetaData_ok_def e)
  have none: "MetaData_get m k = []"
    using less string_map.lt_irrefl by (force simp: MetaData_get_def map_of_eq_None_iff split: option.split dest: map_of_SomeD)
  have "fold_result loadMetaData_node m (if vs = [] then [Element ''metadata'' [(''key'', k)] []]
     else map (\<lambda>v. Element ''metadata'' [(''key'', k)] [CData v]) vs) = Inr (m @ [(k, vs)])"
  proof (cases vs)
    case Nil
    then show ?thesis using none omap_assign_last(1)[OF less]
      by (simp add: loadMetaData_node_def getAttribute_def MetaData_add_values_def Let_def)
  next
    case (Cons v ws)
    have "loadMetaData_node m (Element ''metadata'' [(''key'', k)] [CData v]) = Inr (m @ [(k, [v])])"
      using none omap_assign_last[OF less] less string_map.lt_irrefl
      by (force simp: loadMetaData_node_def getAttribute_def MetaData_add_values_def MetaData_add_def Let_def MetaData_get_def
          map_of_eq_None_iff List.insort_insert_key_def split: option.split dest: map_of_SomeD)
    then show ?thesis using load_metadata_value[OF less, of "[v]" ws] vs Cons by simp
  qed
  moreover have "metadata_nodes (e # md) = (if vs = [] then [Element ''metadata'' [(''key'', k)] []]
     else map (\<lambda>v. Element ''metadata'' [(''key'', k)] [CData v]) vs) @ metadata_nodes md" by (simp add: metadata_nodes_def e)
  ultimately show ?case using Cons.IH[of "m @ [(k, vs)]"] Cons.prems by (simp add: fold_result_append e del: map_append)
qed (simp add: metadata_nodes_def)

lemma load_metadata_Tag:
  assumes "MetaData_ok md" and "named ''metadata'' content = metadata_nodes md"
  shows "loadMetaData (xml_tree (Tag n attrs space content)) [] = Inr md"
  using load_metadata_nodes[of "[]" md] assms by (simp add: loadMetaData_def elements_named_Tag del: xml_tree.simps)

lemma tag_attribute: "getStringAttribute (xml_tree (tag_markup name attrs source_id content)) att =
    (case map_of (map snd attrs) att of Some v \<Rightarrow> Some v
     | None \<Rightarrow> if source_id \<noteq> [] \<and> att = ''source_id'' then Some source_id else None)"
  by (auto simp: tag_markup_def map_add_def split: option.splits)

lemma tag_elements: "elements_named n (xml_tree (tag_markup name attrs source_id content)) = named n content"
  by (simp add: tag_markup_def elements_named_Tag del: xml_tree.simps)

lemma tag_name [simp]: "xml_name (xml_tree (tag_markup name attrs source_id content)) = name"
  by (simp add: tag_markup_def)

lemma tag_metadata:
  "MetaData_ok md \<Longrightarrow> named ''metadata'' content = metadata_nodes md \<Longrightarrow>
   loadMetaData (xml_tree (tag_markup name attrs source_id content)) [] = Inr md"
  unfolding tag_markup_def by (rule load_metadata_Tag) simp_all

lemma field_markup_named:
  "named n (field_markup st indent f) = (if n = ''field'' then
     [xml_tree (Tag ''field'' [('' '', ''name'', fld_name f), ('' '', ''type'', ty_name (type_at st (fld_type f))), ('' '', ''offset'', show_nat (fld_offset f))] []
       (Chars newline # end_markup indent (fld_metadata f)))] else [])"
  by (simp add: field_markup_def del: xml_tree.simps)

lemma field_node_markup:
  assumes "metadata_text (fld_metadata f)"
  shows "field_node st f (xml_tree (Tag ''field'' [('' '', ''name'', fld_name f), ('' '', ''type'', ty_name (type_at st (fld_type f))),
     ('' '', ''offset'', show_nat (fld_offset f))] [] (Chars newline # end_markup indent (fld_metadata f))))" (is "field_node st f ?x")
proof -
  have "loadMetaData ?x [] = Inr (fld_metadata f)"
    by (rule load_metadata_Tag) (use assms in \<open>simp_all add: metadata_text_def\<close>)
  moreover have "getStringAttribute ?x ''name'' = Some (fld_name f)" "getStringAttribute ?x ''type'' = Some (ty_name (type_at st (fld_type f)))"
    "getStringAttribute ?x ''offset'' = Some (show_nat (fld_offset f))" by simp_all
  ultimately show ?thesis unfolding field_node_def by blast
qed

lemma concat_singletons: "concat (map (\<lambda>x. [f x]) xs) = map f xs"
  by (induction xs) simp_all

lemma describes_markup:
  assumes "type_text st obj" and "\<forall>on. ty_kind obj \<noteq> Pointer on" and "\<forall>dim on. ty_kind obj \<noteq> Array dim on"
  shows "describes st obj (xml_tree (type_markup st indent source_id obj))"
proof -
  have md: "MetaData_ok (ty_metadata obj)" using assms(1) by (simp add: type_text_def metadata_text_def)
  show ?thesis
  proof (cases "ty_kind obj")
    case (Compound flds)
    have "list_all2 (field_node st) flds (named ''field'' (concat (map (field_markup st (indent @ ''  '')) flds)))"
      unfolding named_concat field_markup_named using assms(1) Compound
      by (simp add: concat_singletons list_all2_map2 del: xml_tree.simps)
        (auto simp: type_text_def list_all_iff intro!: list_all2_all_nthI field_node_markup simp del: xml_tree.simps)
    then show ?thesis using Compound md
      by (simp add: describes_def type_markup_def Let_def tag_attribute tag_elements)
        (rule tag_metadata, simp_all add: named_concat field_markup_named)
  next
    case (Enum vs last_value)
    have "named ''value'' (concat (map (value_markup (indent @ ''  '')) vs)) =
        map (\<lambda>v. xml_tree (EmptyTag ''value'' [('' '', ''symbol'', fst v), ('' '', ''value'', show_int (snd v))] [])) vs"
      by (induction vs) (simp_all add: value_markup_def)
    then have "list_all2 value_node vs (named ''value'' (concat (map (value_markup (indent @ ''  '')) vs)))"
      by (simp add: list_all2_map2 value_node_def list.rel_refl)
    then show ?thesis using Enum md
      by (simp add: describes_def type_markup_def Let_def tag_attribute tag_elements)
        (rule tag_metadata, simp_all add: named_concat value_markup_def)
  qed (use assms md in \<open>auto simp: describes_def type_markup_def Let_def tag_attribute intro!: tag_metadata\<close>)
qed

section \<open>Export and import\<close>

lemma filter_nodes_join:
  "filter (\<lambda>x. xml_name x \<noteq> ''comment'' \<and> xml_name x \<noteq> ''text'') (join_text xs) = filter (\<lambda>x. xml_name x \<noteq> ''comment'' \<and> xml_name x \<noteq> ''text'') xs"
proof (induction xs rule: join_text.induct)
  case (2 s xs)
  then show ?case by (cases "(s, join_text xs)" rule: add_text.cases) auto
qed simp_all

lemma document_nodes:
  assumes "\<And>e. e \<in> set es \<Longrightarrow> xml_name (xml_tree (entry_markup st e)) \<notin> {''comment'', ''text''}"
  shows "filter (\<lambda>x. xml_name x \<noteq> ''comment'' \<and> xml_name x \<noteq> ''text'') (xml_children (xml_tree (document_markup st es))) =
    map (\<lambda>e. xml_tree (entry_markup st e)) es"
  using assms unfolding document_markup_def xml_tree.simps xml_children.simps filter_nodes_join by (induction es) auto

lemma tlb_roundtrip_ok:
  assumes parser: "xml_parser xmlParseMemory" and env: "lexical_casts env" and src: "exportable env st reg"
    and chars: "\<forall>e \<in> set (m_global reg). reg_persistent (snd e) \<longrightarrow> entry_text st e" and empty: "empty_state (st0, reg0)"
  shows "\<exists>xml st' reg'. tlb_export st reg = Inr xml \<and> TlbImport_load xmlParseMemory env xml st0 reg0 = Inr (st', reg') \<and>
    registry_ok st' reg' \<and> copies st reg st' reg' \<and> (\<forall>e \<in> set (m_global reg). reg_persistent (snd e) \<longrightarrow> global_type reg' (fst e) \<noteq> None)"
proof -
  have ok: "registry_ok st reg" using src by (simp add: exportable_def)
  have entry: "map_of (m_global reg) (fst e) = Some (snd e)" if "e \<in> set (m_global reg)" for e
    by (rule registry_entry[OF ok that])
  have kinds: "kind_exportable env st (type_at st (reg_type (snd e)))" "grounded st reg (reg_type (snd e))"
    "ty_name (type_at st (reg_type (snd e))) = fst e" if "e \<in> set (m_global reg)" for e
    using exportableD[OF src, of "fst e" "reg_type (snd e)"] entry[OF that] by (simp_all add: global_type_def)
  obtain es where es: "Exporter_save (\<lambda>out _. out) (record_entry (\<lambda>_ _. True)) (\<lambda>out _. out) st reg [] = Inr es" "distinct es"
    "set es = {e \<in> set (m_global reg). reg_persistent (snd e)}"
    using export_result[OF ok, of "\<lambda>_ _. True"] kinds(2) by blast
  have texts: "list_all (entry_text st) es" using chars es(3) by (auto simp: list_all_iff)
  let ?doc = "document_markup st es"
  have "tlb_export st reg = Inr (TlbExport_end (tlb.pieces st (TlbExport_begin [] reg) es) reg)"
    unfolding tlb_export_def by (rule tlb.Exporter_save_pieces[OF es(1)])
  then have xml: "tlb_export st reg = Inr (xml_prolog @ show_markup ?doc @ newline)" unfolding show_document[OF texts] .
  have tree: "xmlParseMemory (xml_prolog @ show_markup ?doc @ newline) = Some (Some (xml_tree ?doc))"
  proof -
    have "is_Tag ?doc" by (simp add: document_markup_def)
    then show ?thesis using parser document_markup_ok[OF texts] unfolding xml_parser_def by blast
  qed
  have describes: "describes st (type_at st (reg_type (snd e))) (xml_tree (entry_markup st e))" if "e \<in> set es" for e
  proof -
    have e: "e \<in> set (m_global reg)" "reg_persistent (snd e)" using that es(3) by auto
    have "\<not> derived_name_of (fst e)" using src entry[OF e(1)] e(2) unfolding exportable_def by blast
    then show ?thesis unfolding entry_markup_def using kind_exportable_name(3)[OF kinds(1)[OF e(1)]] kinds(3)[OF e(1)] texts that
      by (intro describes_markup) (auto simp: entry_text_def list_all_iff)
  qed
  have start: "builder_ok st0 reg0" "m_global reg0 = []"
    using empty empty_state_ok[OF empty] by (simp_all add: builder_ok_def empty_state_def derived_ok_def global_type_def)
  have "xml_name (xml_tree (entry_markup st e)) \<notin> {''comment'', ''text''}" if "e \<in> set es" for e
    using describes[OF that] by (auto simp: describes_def split: kind.splits)
  from document_nodes[OF this] obtain st' reg' where "tlb_parse env [] (Some (xml_tree ?doc)) st0 reg0 = Inr (st', reg')" "registry_ok st' reg'"
    "copies st reg st' reg'" "fst ` set es \<subseteq> dom (global_type reg')"
    using tlb_parse_ok[OF env src es(3,2) _ _ describes start, of "xml_tree ?doc" "[]"] by (auto simp: document_markup_def)
  then show ?thesis using xml tree es(3) by (auto simp: TlbImport_load_def)
qed

section \<open>Properties\<close>

text \<open>
  C2: Export and import in XML are inverse: a registry without aliases and recursive types, whose
  names and metadata XML can represent and whose fields are in the order of their offsets, is exported to a text that imports without an exception into
  an empty registry. The result is well formed, has all persistent types, and every type of it
  has the name, size, metadata, fields, values, dimension and element type of the type of that name
  in the exported registry, with references to the types of the same names.
\<close>

theorem tlb_roundtrip:
  assumes "xml_parser xmlParseMemory" and "lexical_casts env" and "exportable env st reg"
    and "\<forall>e \<in> set (m_global reg). reg_persistent (snd e) \<longrightarrow> entry_text st e" and "empty_state (st0, reg0)"
  shows "\<exists>xml st' reg'. tlb_export st reg = Inr xml \<and> TlbImport_load xmlParseMemory env xml st0 reg0 = Inr (st', reg') \<and>
    registry_ok st' reg' \<and> copies st reg st' reg' \<and> (\<forall>e \<in> set (m_global reg). reg_persistent (snd e) \<longrightarrow> global_type reg' (fst e) \<noteq> None)"
  by (rule tlb_roundtrip_ok[OF assms])

text \<open>A registry with a structure, an array, a vector and an enumeration.\<close>

definition tlb_types :: "tid \<rightharpoonup> Type" where
  "tlb_types = [2 \<mapsto> Numeric_ctor ''/int'' 4 SInt, 3 \<mapsto> Type_ctor ''/int[3]'' 12 (Array 3 2),
     4 \<mapsto> Type_ctor ''/Mode'' 4 (Enum [(''OFF'', 0), (''ON'', 5)] 5),
     5 \<mapsto> Type_ctor ''/std/vector</int>'' 24 (Container ''/std/vector'' VectorFactory 2),
     6 \<mapsto> (Type_ctor ''/S'' 40 (Compound [\<lparr>fld_name = ''m'', fld_type = 4, fld_offset = 0, fld_metadata = []\<rparr>,
       \<lparr>fld_name = ''a'', fld_type = 3, fld_offset = 4, fld_metadata = [(''unit'', [''meter''])]\<rparr>,
       \<lparr>fld_name = ''v'', fld_type = 5, fld_offset = 16, fld_metadata = []\<rparr>]))\<lparr>ty_metadata := [(''doc'', [''A & B'', ''x < y'']), (''empty'', [])]\<rparr>]"

definition tlb_store :: store where
  "tlb_store = \<lparr>objects = tlb_types, next_id = 7\<rparr>"

definition tlb_registry :: Registry where
  "tlb_registry = registry_of [(''/Mode'', example_entry 4), (''/S'', example_entry 6), (''/int'', example_entry 2),
     (''/int[3]'', (example_entry 3)\<lparr>reg_persistent := False\<rparr>), (''/std/vector</int>'', example_entry 5)]"

definition read_size :: "string \<Rightarrow> nat option" where
  "read_size s = (if s \<noteq> [] \<and> list_all is_digit s \<and> read_digits s < 2 ^ 64 then Some (read_digits s) else None)"

definition read_int :: "string \<Rightarrow> int option" where
  "read_int s = (case s of [] \<Rightarrow> None
   | c # r \<Rightarrow> if c = CHR ''-'' then map_option (\<lambda>n. - int n) (read_size r) else map_option int (read_size s))"

definition tlb_env :: import_env where
  "tlb_env = \<lparr>env_tok = example_tok, env_containers = [''/std/vector'' \<mapsto> VectorFactory, ''/std/string'' \<mapsto> StringFactory],
     cast_size = read_size, cast_int = read_int\<rparr>"

lemma read_size_show: "n < 2 ^ 64 \<Longrightarrow> read_size (show_nat n) = Some n"
  by (simp add: read_size_def show_nat_digits read_show_nat)

lemma tlb_env_casts: "lexical_casts tlb_env"
proof -
  have "read_int (show_int i) = Some i" if "- (2 ^ 31) \<le> i" "i < 2 ^ 31" for i
  proof (cases "i < 0")
    case True
    then show ?thesis using that by (simp add: read_int_def show_int_def read_size_show)
  next
    case False
    obtain c r where c: "show_nat (nat i) = c # r" by (cases "show_nat (nat i)") simp_all
    then have "c \<noteq> CHR ''-''" using show_nat_chars[of "CHR ''-''" "nat i"] by (auto simp: is_digit_def)
    then show ?thesis using False that c read_size_show[of "nat i"] by (simp add: read_int_def show_int_def)
  qed
  then show ?thesis by (simp add: lexical_casts_def tlb_env_def read_size_show)
qed

lemma tlb_store_types:
  "type_at tlb_store 2 = Numeric_ctor ''/int'' 4 SInt" "type_at tlb_store 3 = Type_ctor ''/int[3]'' 12 (Array 3 2)"
  "type_at tlb_store 4 = Type_ctor ''/Mode'' 4 (Enum [(''OFF'', 0), (''ON'', 5)] 5)"
  "type_at tlb_store 5 = Type_ctor ''/std/vector</int>'' 24 (Container ''/std/vector'' VectorFactory 2)"
  "type_at tlb_store 6 = (Type_ctor ''/S'' 40 (Compound [\<lparr>fld_name = ''m'', fld_type = 4, fld_offset = 0, fld_metadata = []\<rparr>,
       \<lparr>fld_name = ''a'', fld_type = 3, fld_offset = 4, fld_metadata = [(''unit'', [''meter''])]\<rparr>,
       \<lparr>fld_name = ''v'', fld_type = 5, fld_offset = 16, fld_metadata = []\<rparr>]))\<lparr>ty_metadata := [(''doc'', [''A & B'', ''x < y'']), (''empty'', [])]\<rparr>"
  "dom (objects tlb_store) = {2, 3, 4, 5, 6}"
  by (auto simp: tlb_store_def tlb_types_def type_at_def)

lemma tlb_registry_ok: "registry_ok tlb_store tlb_registry"
  unfolding tlb_registry_def
proof (rule registry_of_ok)
  show "names_ok [(''/Mode'', example_entry 4), (''/S'', example_entry 6), (''/int'', example_entry 2),
     (''/int[3]'', (example_entry 3)\<lparr>reg_persistent := False\<rparr>), (''/std/vector</int>'', example_entry 5)]"
    by (simp add: names_ok_def canonical_name_def isAbsoluteName_def NamespaceMark_def char_value_def)
qed (auto simp: tlb_store_types example_entry_def Numeric_ctor_def Type_ctor_def split: if_splits)

lemma tlb_global: "global_type tlb_registry = [''/Mode'' \<mapsto> 4, ''/S'' \<mapsto> 6, ''/int'' \<mapsto> 2, ''/int[3]'' \<mapsto> 3, ''/std/vector</int>'' \<mapsto> 5]"
  by (auto simp: tlb_registry_def registry_of_def global_type_def example_entry_def fun_eq_iff)

lemma tlb_grounded: "t \<in> {2, 3, 4, 5, 6} \<Longrightarrow> grounded tlb_store tlb_registry t"
proof -
  have ran: "{2, 3, 4, 5, 6} \<subseteq> ran (global_type tlb_registry)" unfolding tlb_global by (simp add: ran_map_upd)
  note kinds = tlb_store_types Numeric_ctor_def Type_ctor_def
  have 2: "grounded tlb_store tlb_registry 2" by (rule grounded.intros) (use ran in \<open>auto simp: kinds\<close>)
  have 3: "grounded tlb_store tlb_registry 3" by (rule grounded.intros) (use ran 2 in \<open>auto simp: kinds\<close>)
  have 4: "grounded tlb_store tlb_registry 4" by (rule grounded.intros) (use ran in \<open>auto simp: kinds\<close>)
  have 5: "grounded tlb_store tlb_registry 5" by (rule grounded.intros) (use ran 2 in \<open>auto simp: kinds\<close>)
  have 6: "grounded tlb_store tlb_registry 6" by (rule grounded.intros) (use ran 3 4 5 in \<open>auto simp: kinds\<close>)
  show "t \<in> {2, 3, 4, 5, 6} \<Longrightarrow> grounded tlb_store tlb_registry t" using 2 3 4 5 6 by auto
qed

lemma tlb_names_valid: "isValidTypename ''/Mode'' True" "isValidTypename ''/S'' True" "isValidTypename ''/int'' True"
  "isValidTypename ''/int[3]'' True" "isValidTypename ''/std/vector</int>'' True"
  by code_simp+

lemma show_nat_3: "show_nat 3 = ''3''"
  by code_simp

lemma tlb_names_derived: "\<not> derived_name_of ''/Mode''" "\<not> derived_name_of ''/S''" "\<not> derived_name_of ''/int''"
  "derived_name_of ''/int[3]''" "\<not> derived_name_of ''/std/vector</int>''"
proof -
  have "''/int[3]'' = getArrayName ''/int'' 3" by (simp add: getArrayName_def show_nat_3)
  then show "derived_name_of ''/int[3]''" unfolding derived_name_of_def by blast
qed (rule base_name_not_derived, simp add: base_name_def)+

lemma tlb_kinds: "t \<in> {2, 3, 4, 5, 6} \<Longrightarrow> kind_exportable tlb_env tlb_store (type_at tlb_store t)"
  by (auto simp: kind_exportable_def tlb_store_types Numeric_ctor_def Type_ctor_def base_name_def getArrayName_def show_nat_3
      tlb_env_def Vector_fullName_def normalizeFieldOrder_def string_less_def)

lemma tlb_exportable: "exportable tlb_env tlb_store tlb_registry"
  unfolding exportable_def
proof (intro conjI allI impI)
  show "registry_ok tlb_store tlb_registry" by (rule tlb_registry_ok)
  show "alias_free tlb_store tlb_registry"
    by (auto simp: alias_free_def tlb_global tlb_store_types Numeric_ctor_def Type_ctor_def split: if_splits)
  fix n t assume n: "global_type tlb_registry n = Some t"
  then have t: "t \<in> {2, 3, 4, 5, 6}" by (auto simp: tlb_global split: if_splits)
  then show "grounded tlb_store tlb_registry t" "kind_exportable tlb_env tlb_store (type_at tlb_store t)"
    by (rule tlb_grounded, rule tlb_kinds)
  show "isValidTypename n True" using n tlb_names_valid by (auto simp: tlb_global split: if_splits)
next
  show "reg_persistent rt = (\<not> derived_name_of n)" if "map_of (m_global tlb_registry) n = Some rt" for n rt
    using that tlb_names_derived by (auto simp: tlb_registry_def registry_of_def example_entry_def split: if_splits)
qed

lemma tlb_text: "e \<in> set (m_global tlb_registry) \<Longrightarrow> reg_persistent (snd e) \<Longrightarrow> entry_text tlb_store e"
  by (auto simp: tlb_registry_def registry_of_def example_entry_def entry_text_def isAlias_def type_text_def tlb_store_types
      Numeric_ctor_def Type_ctor_def plain_text_def value_char_def metadata_text_def MetaData_ok_def string_less_def cdata_ok_def)

theorem tlb_roundtrip_witness:
  "\<exists>xml st' reg'. tlb_export tlb_store tlb_registry = Inr xml \<and>
    TlbImport_load parse_document tlb_env xml start_store start_registry = Inr (st', reg') \<and> registry_ok st' reg' \<and>
    copies tlb_store tlb_registry st' reg' \<and> global_type reg' ''/S'' \<noteq> None"
proof -
  have "empty_state (start_store, start_registry)" by (simp add: empty_state_def start_store_def start_registry_def)
  moreover have "(''/S'', example_entry 6) \<in> set (m_global tlb_registry)" "reg_persistent (example_entry 6)"
    by (simp_all add: tlb_registry_def registry_of_def example_entry_def)
  ultimately show ?thesis
    using tlb_roundtrip[OF parse_document_parser tlb_env_casts tlb_exportable, of start_store start_registry] tlb_text by fastforce
qed

text \<open>
  C19: Recursive types cannot be imported: the node of a type is erased before it is loaded, so a
  structure whose first field is derived from the structure itself, such as a pointer to it, is reported as
  undefined although the document defines it.
\<close>

theorem import_recursive_undefined:
  assumes "getBaseTypename n = Inr n" and "get (f_registry f) n = None" and "map_of (m_map f) n = Some node"
    and "tn_loader node = load_compound" and "getAttribute_as (cast_size env) (tn_xml node) ''size'' = Inr sz"
    and "elements_named ''field'' (tn_xml node) = x # xs" and "getAttribute x ''name'' = Inr field" and "getAttribute x ''type'' = Inr tname"
    and "getAttribute_as (cast_size env) x ''offset'' = Inr offset" and "getBaseTypename tname = Inr n"
  shows "Factory_build (Suc (Suc fuel)) env n f = Inl (Undefined n)"
  using assms by (simp add: run_loader_def do_load_compound_def load_field_def)

definition recursive_node :: TypeNode where
  "recursive_node = \<lparr>tn_xml = Element ''compound'' [(''name'', ''/Node''), (''size'', ''8'')]
       [Text newline, Element ''field'' [(''name'', ''next''), (''type'', ''/Node*''), (''offset'', ''0'')] []],
     tn_name = ''/Node'', tn_file = [], tn_loader = load_compound\<rparr>"

theorem import_recursive_undefined_witness:
  "Factory_build 2 tlb_env ''/Node'' \<lparr>m_map = [(''/Node'', recursive_node)], f_store = start_store, f_registry = start_registry\<rparr> =
   Inl (Undefined ''/Node'')"
proof -
  have "getBaseTypename ''/Node'' = Inr ''/Node''" "getBaseTypename ''/Node*'' = Inr ''/Node''"
    by code_simp+
  moreover have "show_nat 8 = ''8''" "show_nat 0 = ''0''" by code_simp+
  then have "read_size ''8'' = Some 8" "read_size ''0'' = Some 0" using read_size_show[of 8] read_size_show[of 0] by simp_all
  ultimately show ?thesis
    using import_recursive_undefined[of "''/Node''" "\<lparr>m_map = [(''/Node'', recursive_node)], f_store = start_store, f_registry = start_registry\<rparr>"
        recursive_node tlb_env 8 "Element ''field'' [(''name'', ''next''), (''type'', ''/Node*''), (''offset'', ''0'')] []" "[]" "''next''" "''/Node*''" 0 0]
    by (simp add: recursive_node_def start_registry_def get_def getAttribute_as_def getAttribute_def lexical_cast_def tlb_env_def
        elements_named_def numeral_2_eq_2 del: Factory_build.simps)
qed

end
