(* ===== verification/ConfigSet.thy ===== *)
theory ConfigSet
  imports Prelude
begin

text \<open>
  The configuration of importers and exporters (\<open>typelib/utilmm/configset.cc\<close>,
  \<open>configset.hh\<close>): named values, several per name, and named children. The pointer to the parent
  is left out, nothing in the repository reads it. The conversions of \<open>boost::lexical_cast\<close> are
  arguments. Proved: \<open>set\<close> and \<open>insert\<close> against \<open>get\<close>.
\<close>

text \<open>A \<open>std::multimap\<close>: values of equal keys are in the order of their insertion.\<close>

definition multimap_insert :: "string \<Rightarrow> 'v \<Rightarrow> (string \<times> 'v) list \<Rightarrow> (string \<times> 'v) list" where
  "multimap_insert k v m = takeWhile (\<lambda>e. \<not> string_less k (fst e)) m @ (k, v) # dropWhile (\<lambda>e. \<not> string_less k (fst e)) m"

definition multimap_range :: "string \<Rightarrow> (string \<times> 'v) list \<Rightarrow> 'v list" where
  "multimap_range k m = map snd (takeWhile (\<lambda>e. fst e = k) (dropWhile (\<lambda>e. fst e \<noteq> k) m))"

datatype config_set = ConfigSet (m_values: "(string \<times> string) list") (m_children: "(string \<times> config_set) list")

definition config_empty :: "config_set \<Rightarrow> bool" where
  "config_empty c \<longleftrightarrow> m_values c = [] \<and> m_children c = []"

definition config_clear :: "config_set \<Rightarrow> config_set" where
  "config_clear c = ConfigSet [] []"

definition children :: "config_set \<Rightarrow> string \<Rightarrow> config_set list" where
  "children c name = multimap_range name (m_children c)"

definition child :: "config_set \<Rightarrow> string \<Rightarrow> config_set" where
  "child c name = (case children c name of [] \<Rightarrow> ConfigSet [] [] | d # _ \<Rightarrow> d)"

definition config_exists :: "config_set \<Rightarrow> string \<Rightarrow> bool" where
  "config_exists c name \<longleftrightarrow> list_ex (\<lambda>e. fst e = name) (m_values c) \<or> list_ex (\<lambda>e. fst e = name) (m_children c)"

definition config_insert :: "config_set \<Rightarrow> string \<Rightarrow> string \<Rightarrow> config_set" where
  "config_insert c name v = ConfigSet (multimap_insert name v (m_values c)) (m_children c)"

definition config_insert_list :: "config_set \<Rightarrow> string \<Rightarrow> string list \<Rightarrow> config_set" where
  "config_insert_list c name vs = fold (\<lambda>v c'. config_insert c' name v) vs c"

definition config_insert_child :: "config_set \<Rightarrow> string \<Rightarrow> config_set \<Rightarrow> config_set" where
  "config_insert_child c name d = ConfigSet (m_values c) (multimap_insert name d (m_children c))"

definition config_erase :: "config_set \<Rightarrow> string \<Rightarrow> config_set" where
  "config_erase c name = ConfigSet (omap_erase name (m_values c)) (m_children c)"

definition config_put :: "config_set \<Rightarrow> string \<Rightarrow> string \<Rightarrow> config_set" where
  "config_put c name v = config_insert (config_erase c name) name v"

definition config_put_list :: "config_set \<Rightarrow> string \<Rightarrow> string list \<Rightarrow> config_set" where
  "config_put_list c name vs = config_insert_list (config_erase c name) name vs"

section \<open>Typed access\<close>

definition convert_bool :: "string \<Rightarrow> bool result" where
  "convert_bool v =
     (if v = ''true'' \<or> v = ''1'' then Inr True
      else if v = ''false'' \<or> v = ''0'' then Inr False
      else Inl (BadLexicalCast v))"

text \<open>The specialization for lists of strings, the one for other lists, and the access to one value.\<close>

definition config_get_strings :: "config_set \<Rightarrow> string \<Rightarrow> string list \<Rightarrow> string list" where
  "config_get_strings c name defval = (let vs = multimap_range name (m_values c) in if vs = [] then defval else vs)"

definition config_get_list :: "(string \<Rightarrow> 'a result) \<Rightarrow> config_set \<Rightarrow> string \<Rightarrow> 'a list \<Rightarrow> 'a list result" where
  "config_get_list convert c name defval =
     (let vs = config_get_strings c name [] in
      if vs = [] then Inr defval
      else fold_result (\<lambda>res v. bind_result (convert v) (\<lambda>x. Inr (res @ [x]))) [] vs)"

definition config_get :: "(string \<Rightarrow> 'a result) \<Rightarrow> config_set \<Rightarrow> string \<Rightarrow> 'a \<Rightarrow> 'a result" where
  "config_get convert c name defval = bind_result (config_get_list convert c name [defval]) (\<lambda>vs. Inr (hd vs))"

definition config_get_string :: "config_set \<Rightarrow> string \<Rightarrow> string \<Rightarrow> string" where
  "config_get_string c name defval = hd (config_get_strings c name [defval])"

section \<open>Properties\<close>

text \<open>The entries are sorted by their keys.\<close>

definition multimap_sorted :: "(string \<times> 'v) list \<Rightarrow> bool" where
  "multimap_sorted m \<longleftrightarrow> sorted (map fst m)"

lemma multimap_range_filter: "multimap_sorted m \<Longrightarrow> multimap_range k m = map snd (filter (\<lambda>e. fst e = k) m)"
proof (induction m)
  case (Cons e m)
  have "takeWhile (\<lambda>e. fst e = k) m = filter (\<lambda>e. fst e = k) m" if "fst e = k"
    using Cons.prems that
  proof (induction m)
    case (Cons d m)
    have "filter (\<lambda>e. fst e = k) m = []" if "fst d \<noteq> k"
      using Cons.prems that by (force simp: multimap_sorted_def filter_empty_conv)
    then show ?case using Cons by (auto simp: multimap_sorted_def)
  qed simp
  then show ?case using Cons by (auto simp: multimap_range_def multimap_sorted_def)
qed (simp add: multimap_range_def)

lemma multimap_sorted_insert: "multimap_sorted m \<Longrightarrow> multimap_sorted (multimap_insert k v m)"
proof (induction m)
  case (Cons e m)
  then show ?case by (auto simp: multimap_sorted_def multimap_insert_def string_less_def dest: set_takeWhileD set_dropWhileD)
qed (simp add: multimap_sorted_def multimap_insert_def)

lemma multimap_insert_filter:
  assumes "multimap_sorted m"
  shows "filter (\<lambda>e. fst e = j) (multimap_insert k v m) = filter (\<lambda>e. fst e = j) m @ (if j = k then [(k, v)] else [])"
proof -
  have "filter (\<lambda>e. fst e = k) (dropWhile (\<lambda>e. \<not> string_less k (fst e)) m) = []"
    using assms
  proof (induction m)
    case (Cons e m)
    then show ?case by (auto simp: multimap_sorted_def string_less_def filter_empty_conv)
  qed simp
  moreover have "filter P (takeWhile Q m) @ filter P (dropWhile Q m) = filter P m" for P Q
    by (metis filter_append takeWhile_dropWhile_id)
  ultimately show ?thesis by (simp add: multimap_insert_def) (metis append_Nil2)
qed

lemma config_insert_list_values:
  assumes "multimap_sorted (m_values c)"
  shows "multimap_sorted (m_values (config_insert_list c name vs)) \<and>
    multimap_range j (m_values (config_insert_list c name vs)) = multimap_range j (m_values c) @ (if j = name then vs else [])"
  using assms
proof (induction vs arbitrary: c)
  case (Cons v vs)
  let ?c = "config_insert c name v"
  have c: "multimap_sorted (m_values ?c)" using Cons.prems by (simp add: config_insert_def multimap_sorted_insert)
  have "multimap_range j (m_values ?c) = multimap_range j (m_values c) @ (if j = name then [v] else [])"
    using Cons.prems c by (simp add: multimap_range_filter) (simp add: config_insert_def multimap_insert_filter)
  then show ?case using Cons.IH[OF c] by (simp add: config_insert_list_def)
qed (simp add: config_insert_list_def)

text \<open>
  \<open>config_set::set\<close> replaces the values of a name by the given ones, in their order, and leaves the
  other names alone; an empty list makes \<open>get\<close> return the default.
\<close>

lemma config_put_get:
  assumes "multimap_sorted (m_values c)"
  shows "config_get_strings (config_put_list c name vs) j defval =
    (if j = name then if vs = [] then defval else vs else config_get_strings c j defval)"
proof -
  have e: "multimap_sorted (m_values (config_erase c name))"
    using assms by (simp add: config_erase_def omap_erase_def multimap_sorted_def sorted_filter)
  have "multimap_range j (m_values (config_erase c name)) = (if j = name then [] else multimap_range j (m_values c))"
    using assms e by (simp add: multimap_range_filter)
      (auto simp: config_erase_def omap_erase_def filter_empty_conv intro!: arg_cong[where f = "map snd"] filter_cong)
  then show ?thesis using config_insert_list_values[OF e, of name vs j]
    by (simp add: config_get_strings_def config_put_list_def)
qed

end
