(* ===== verification/IdlExport.thy ===== *)
theory IdlExport
  imports Exporter ConfigSet StringAlgorithms
begin

text \<open>
  The export of registries to the CORBA interface definition language (\<open>lang/idl/export.cc\<close>):
  identifiers of types, the visitor that writes one type, the modules that are opened and closed
  as the namespace changes, and the format that \<open>IDLExport\<close> plugs into \<open>Exporter::save\<close>. The
  output stream is the string written to it. The string algorithms of
  \<open>boost\<close> are the parameter \<open>B\<close> (see \<open>StringAlgorithms\<close>).
\<close>

section \<open>Strings\<close>

definition nameSplit :: "boost \<Rightarrow> string \<Rightarrow> string list" where
  "nameSplit B name = rev (dropWhile (\<lambda>t. t = []) (rev (dropWhile (\<lambda>t. t = []) (split B ''/'' name))))"

definition namespaceIndentLevel :: "boost \<Rightarrow> string \<Rightarrow> nat" where
  "namespaceIndentLevel B ns = length (nameSplit B ns)"

definition strip_underscore :: "string \<Rightarrow> string" where
  "strip_underscore name = (if char_at name 0 = CHR ''_'' then tl name else name)"

definition stripLeadingUnderscore :: "boost \<Rightarrow> string \<Rightarrow> string" where
  "stripLeadingUnderscore B name = join B (map strip_underscore (split B ''::'' name)) ''::''"

text \<open>
  The loop of \<open>normalizeIDLName\<close> replaces the first special character until none is left. Its
  position is kept in an \<open>unsigned int\<close>: names are shorter than \<open>2 ^ 32\<close>.
\<close>

function replace_marks :: "string \<Rightarrow> string" where
  "replace_marks result =
     (case find_first_of ''<>/,'' result of
        None \<Rightarrow> result
      | Some template_mark \<Rightarrow> replace_marks (result[template_mark := CHR ''_'']))"
  by pat_completeness auto
termination
proof (relation "measure (\<lambda>s. length (filter (\<lambda>c. c \<in> set ''<>/,'') s))", goal_cases)
  case (2 result pos)
  then have pos: "pos < length result" "result ! pos \<in> set ''<>/,''"
    using find_first_of_split by blast+
  have "result = take pos result @ result ! pos # drop (Suc pos) result" using pos(1) by (rule id_take_nth_drop)
  then have "filter (\<lambda>c. c \<in> set ''<>/,'') result =
      filter (\<lambda>c. c \<in> set ''<>/,'') (take pos result) @ result ! pos # filter (\<lambda>c. c \<in> set ''<>/,'') (drop (Suc pos) result)"
    using pos(2) by (metis (no_types, lifting) filter.simps(2) filter_append)
  then show ?case using pos(1) by (simp add: upd_conv_take_nth_drop)
qed simp

declare replace_marks.simps [simp del]

definition normalizeIDLName :: "boost \<Rightarrow> string \<Rightarrow> string" where
  "normalizeIDLName B name = stripLeadingUnderscore B (replace_marks name)"

section \<open>The exporter\<close>

record IDLExport =
  idl_namespace :: string
  idl_ns_prefix :: string
  idl_ns_suffix :: string
  idl_indent :: string
  idl_blob_threshold :: int
  idl_opaque_as_any :: bool
  idl_selected_types :: "string list"
  idl_typedefs :: "(string \<times> string list) list"
  idl_exported_typedefs :: "(string \<times> tid) list"

text \<open>The constructor. The threshold is not initialized by it, but by \<open>save\<close>.\<close>

definition IDLExport_ctor :: IDLExport where
  "IDLExport_ctor = \<lparr>idl_namespace = ''/'', idl_ns_prefix = [], idl_ns_suffix = [], idl_indent = [], idl_blob_threshold = 0,
     idl_opaque_as_any = False, idl_selected_types = [], idl_typedefs = [], idl_exported_typedefs = []\<rparr>"

definition getIDLAbsoluteNamespace :: "string \<Rightarrow> IDLExport \<Rightarrow> string" where
  "getIDLAbsoluteNamespace type_ns x = idl_ns_prefix x @ type_ns @ idl_ns_suffix x"

section \<open>Identifiers of types\<close>

text \<open>
  The methods of \<open>IDLTypeIdentifierVisitor\<close>. A result is the target namespace with the parts of
  the identifier before and after the name of a field. \<open>base\<close> is \<open>getIDLBase\<close> without a field
  name, for the types they refer to.
\<close>

definition identifier_Opaque :: "IDLExport \<Rightarrow> Type \<Rightarrow> (string \<times> string \<times> string) result" where
  "identifier_Opaque x obj = (if idl_opaque_as_any x then Inr ([], ''any'', []) else Inl (UnsupportedType (ty_name obj)))"

definition identifier_Container :: "(tid \<Rightarrow> (string \<times> string) result) \<Rightarrow> boost \<Rightarrow> IDLExport \<Rightarrow> store \<Rightarrow> Type \<Rightarrow> string \<Rightarrow> tid
    \<Rightarrow> (string \<times> string \<times> string) result" where
  "identifier_Container base B x st obj container_kind on =
     (if ty_name obj = ''/std/string'' then Inr ([], ''string'', [])
      else bind_result (base on) (\<lambda>(ns, _).
        let element_name = replace_all B (replace_all B (ty_name (type_at st on)) NamespaceMarkString ''_'') '' '' ''_'' in
        Inr (if ns = [] then getIDLAbsoluteNamespace ''/'' x else ns, getTypename container_kind @ ''_'' @ element_name @ ''_'', [])))"

definition identifier_Numeric :: "Type \<Rightarrow> NumericCategory \<Rightarrow> string" where
  "identifier_Numeric obj cat =
     (if ty_name obj = ''/bool'' then ''boolean''
      else if cat \<noteq> Float then
        (if cat = UInt \<and> ty_size obj \<noteq> 1 then ''unsigned '' else []) @
        (if ty_size obj = 1 then ''octet'' else if ty_size obj = 2 then ''short''
         else if ty_size obj = 4 then ''long'' else if ty_size obj = 8 then ''long long'' else [])
      else if ty_size obj = 4 then ''float'' else ''double'')"

definition identifier_Array :: "(tid \<Rightarrow> (string \<times> string) result) \<Rightarrow> store \<Rightarrow> Type \<Rightarrow> nat \<Rightarrow> tid \<Rightarrow> (string \<times> string \<times> string) result" where
  "identifier_Array base st obj dim on =
     (if getCategory (type_at st on) = CatArray then Inl (UnsupportedType (ty_name obj))
      else bind_result (base on) (\<lambda>(ns, element). Inr (ns, element, ''['' @ show_nat dim @ '']'')))"

text \<open>\<open>IDLTypeIdentifierVisitor::apply\<close>.\<close>

definition IDLTypeIdentifierVisitor_apply :: "(tid \<Rightarrow> (string \<times> string) result) \<Rightarrow> boost \<Rightarrow> IDLExport \<Rightarrow> store \<Rightarrow> tid
    \<Rightarrow> (string \<times> string \<times> string) result" where
  "IDLTypeIdentifierVisitor_apply base B x st t =
     (let obj = type_at st t; ns = getIDLAbsoluteNamespace (Type_getNamespace obj) x in
      bind_result
        (case ty_kind obj of
           NullType \<Rightarrow> Inl (UnsupportedType (ty_name obj))
         | Numeric cat \<Rightarrow> Inr ([], identifier_Numeric obj cat, [])
         | Enum _ _ \<Rightarrow> Inr (ns, getBasename obj, [])
         | Array dim on \<Rightarrow> identifier_Array base st obj dim on
         | Pointer _ \<Rightarrow> Inl (UnsupportedType (ty_name obj))
         | Opaque \<Rightarrow> identifier_Opaque x obj
         | Compound _ \<Rightarrow> Inr (ns, getBasename obj, [])
         | Container container_kind _ on \<Rightarrow> identifier_Container base B x st obj container_kind on)
        (\<lambda>(target, front, back). Inr (target, normalizeIDLName B front, back)))"

text \<open>
  \<open>getIDLBase\<close>; the field name is empty when there is none. The fuel bounds the nesting of
  arrays and containers.
\<close>

fun getIDLBase_rec :: "nat \<Rightarrow> boost \<Rightarrow> IDLExport \<Rightarrow> store \<Rightarrow> tid \<Rightarrow> string \<Rightarrow> (string \<times> string) result" where
  "getIDLBase_rec 0 B x st t field_name = Inl OutOfFuel"
| "getIDLBase_rec (Suc fuel) B x st t field_name =
     bind_result (IDLTypeIdentifierVisitor_apply (\<lambda>u. getIDLBase_rec fuel B x st u []) B x st t) (\<lambda>(ns, front, back).
     Inr (ns, if field_name = [] then front @ back else front @ '' '' @ stripLeadingUnderscore B field_name @ back))"

definition getIDLBase :: "boost \<Rightarrow> IDLExport \<Rightarrow> store \<Rightarrow> tid \<Rightarrow> string \<Rightarrow> (string \<times> string) result" where
  "getIDLBase B x st t field_name = getIDLBase_rec (next_id st) B x st t field_name"

definition getIDLRelative :: "boost \<Rightarrow> IDLExport \<Rightarrow> store \<Rightarrow> tid \<Rightarrow> string \<Rightarrow> string \<Rightarrow> string result" where
  "getIDLRelative B x st t relative_to field_name =
     bind_result (getIDLBase B x st t field_name) (\<lambda>(ns, name).
     if ns = [] then Inr name
     else bind_result (getMinimalPathTo (ns @ getBasename (type_at st t)) relative_to) (\<lambda>path.
       Inr (normalizeIDLName B (replace_all B path NamespaceMarkString ''::'') @ name)))"

definition getIDLAbsolute :: "boost \<Rightarrow> IDLExport \<Rightarrow> store \<Rightarrow> tid \<Rightarrow> string \<Rightarrow> string result" where
  "getIDLAbsolute B x st t field_name =
     bind_result (getIDLBase B x st t field_name) (\<lambda>(ns, name).
     Inr (if ns = [] then name else normalizeIDLName B (replace_all B ns NamespaceMarkString ''::'') @ name))"

section \<open>Writing one type\<close>

definition indentation :: "boost \<Rightarrow> string \<Rightarrow> string" where
  "indentation B ns = replicate (4 * namespaceIndentLevel B ns) (CHR '' '')"

text \<open>
  The methods of \<open>IDLExportVisitor\<close>. A result is the text with the target namespace and the map
  of exported typedefs.
\<close>

definition export_field :: "boost \<Rightarrow> IDLExport \<Rightarrow> store \<Rightarrow> string \<Rightarrow> string \<Rightarrow> Field \<Rightarrow> string result" where
  "export_field B x st indent stream f =
     bind_result (getIDLAbsolute B x st (fld_type f) (fld_name f)) (\<lambda>declaration.
     Inr (stream @ indent @ declaration @ '';'' @ newline))"

definition export_Compound :: "boost \<Rightarrow> IDLExport \<Rightarrow> store \<Rightarrow> string \<Rightarrow> Type \<Rightarrow> Field list \<Rightarrow> string result" where
  "export_Compound B x st indent obj flds =
     bind_result (fold_result (export_field B x st (indent @ ''    ''))
       (indent @ ''struct '' @ normalizeIDLName B (getBasename obj) @ '' {'' @ newline) flds) (\<lambda>stream.
     Inr (stream @ indent @ ''};'' @ newline))"

definition export_Enum :: "boost \<Rightarrow> string \<Rightarrow> Type \<Rightarrow> (string \<times> int) list \<Rightarrow> string" where
  "export_Enum B indent obj vs =
     indent @ ''enum '' @ stripLeadingUnderscore B (getBasename obj) @ '' { '' @
     join B (map (\<lambda>v. stripLeadingUnderscore B (fst v)) vs) '', '' @ '' };'' @ newline"

definition export_Container :: "boost \<Rightarrow> IDLExport \<Rightarrow> store \<Rightarrow> tid \<Rightarrow> tid \<Rightarrow> (string \<times> tid) list
    \<Rightarrow> (string \<times> string \<times> (string \<times> tid) list) result" where
  "export_Container B x st t on exported =
     bind_result (getIDLBase B x st on []) (\<lambda>(ns, _).
     let target = (if ns = [] then getIDLAbsoluteNamespace ''/'' x else ns) in
     bind_result (getIDLAbsolute B x st on []) (\<lambda>element_name.
     bind_result (getIDLBase B x st t []) (\<lambda>(_, base_name).
     let typedef_name = replace_all B base_name ''::'' ''_'' in
     Inr (indentation B target @ ''typedef sequence<'' @ element_name @ ''> '' @ typedef_name @ '';'' @ newline, target,
       omap_insert string_less (Type_getNamespace (type_at st on) @ typedef_name) t exported))))"

definition IDLExportVisitor_apply :: "boost \<Rightarrow> IDLExport \<Rightarrow> store \<Rightarrow> tid \<Rightarrow> (string \<times> string \<times> (string \<times> tid) list) result" where
  "IDLExportVisitor_apply B x st t =
     (let obj = type_at st t; ns = getIDLAbsoluteNamespace (Type_getNamespace obj) x; exported = idl_exported_typedefs x in
      case ty_kind obj of
        NullType \<Rightarrow> Inl (NullTypeFound (ty_name obj))
      | Numeric _ \<Rightarrow> Inr ([], ns, exported)
      | Enum vs _ \<Rightarrow> Inr (export_Enum B (indentation B ns) obj vs, ns, exported)
      | Array _ _ \<Rightarrow> Inl (UnsupportedType (ty_name obj))
      | Pointer _ \<Rightarrow> Inl (UnsupportedType (ty_name obj))
      | Opaque \<Rightarrow> if idl_opaque_as_any x then Inr ([], ns, exported) else Inl (UnsupportedType (ty_name obj))
      | Compound flds \<Rightarrow> bind_result (export_Compound B x st (indentation B ns) obj flds) (\<lambda>stream. Inr (stream, ns, exported))
      | Container _ _ on \<Rightarrow> if ty_name obj = ''/std/string'' then Inr ([], ns, exported) else export_Container B x st t on exported)"

section \<open>Modules\<close>

text \<open>
  The exporter with its output stream. \<open>std::string(m_indent, 0, m_indent.size() - 4)\<close> keeps the
  whole indentation when it is shorter than four characters.
\<close>

primrec closeNamespaces :: "nat \<Rightarrow> IDLExport \<times> string \<Rightarrow> IDLExport \<times> string" where
  "closeNamespaces 0 s = s"
| "closeNamespaces (Suc levels) s = closeNamespaces levels
     (let indent = substr (idl_indent (fst s)) 0 (sub_size_t (length (idl_indent (fst s))) 4) in
      ((fst s)\<lparr>idl_indent := indent\<rparr>, snd s @ newline @ indent @ ''};'' @ newline))"

fun openNamespaces :: "boost \<Rightarrow> string list \<Rightarrow> IDLExport \<times> string \<Rightarrow> IDLExport \<times> string" where
  "openNamespaces B [] s = s"
| "openNamespaces B (m # ms) (x, stream) =
     openNamespaces B ms (x\<lparr>idl_indent := idl_indent x @ ''    ''\<rparr>, stream @ idl_indent x @ ''module '' @ normalizeIDLName B m @ '' {'' @ newline)"

fun drop_common :: "string list \<Rightarrow> string list \<Rightarrow> string list \<times> string list" where
  "drop_common (a # as) (b # bs) = (if a = b then drop_common as bs else (a # as, b # bs))"
| "drop_common as bs = (as, bs)"

definition adaptNamespace :: "boost \<Rightarrow> string \<Rightarrow> IDLExport \<times> string \<Rightarrow> IDLExport \<times> string" where
  "adaptNamespace B ns s =
     (let (x, stream) =
        (if idl_namespace (fst s) \<noteq> ns then
           case drop_common (nameSplit B (idl_namespace (fst s))) (nameSplit B ns) of
             (old_namespace, new_namespace) \<Rightarrow> openNamespaces B new_namespace (closeNamespaces (length old_namespace) s)
         else s)
      in (x\<lparr>idl_namespace := ns\<rparr>, stream))"

section \<open>Saving one entry\<close>

definition checkType :: "store \<Rightarrow> tid \<Rightarrow> unit result" where
  "checkType st t =
     (case ty_kind (type_at st t) of
        Pointer _ \<Rightarrow> Inl (UnsupportedType (ty_name (type_at st t)))
      | Array _ on \<Rightarrow> if getCategory (type_at st on) \<in> {CatArray, CatPointer} then Inl (UnsupportedType (ty_name (type_at st t))) else Inr ()
      | _ \<Rightarrow> Inr ())"

text \<open>The names of a structure or enumeration with and without the keyword.\<close>

definition same_tag :: "Type \<Rightarrow> string \<Rightarrow> bool" where
  "same_tag obj name \<longleftrightarrow> Type_getNamespace obj = getNamespace name \<and>
     (getBasename obj = ''struct '' @ getTypename name \<or> getBasename obj = ''enum '' @ getTypename name \<or>
      getTypename name = ''struct '' @ getBasename obj \<or> getTypename name = ''enum '' @ getBasename obj)"

text \<open>The text of a typedef, empty when none is written.\<close>

definition typedef_text :: "boost \<Rightarrow> IDLExport \<Rightarrow> store \<Rightarrow> tid \<Rightarrow> string \<Rightarrow> string result" where
  "typedef_text B x st t name =
     (let obj = type_at st t; base_name = stripLeadingUnderscore B (getTypename name);
          plain = (if find_first_of '' '' (getTypename name) = None
            then bind_result (getIDLAbsolute B x st t []) (\<lambda>d. Inr (d @ '' '' @ base_name @ '';'')) else Inr []) in
      case ty_kind obj of
        Array dim on \<Rightarrow> bind_result (getIDLAbsolute B x st on []) (\<lambda>d. Inr (d @ '' '' @ base_name @ ''['' @ show_nat dim @ ''];''))
      | Container _ _ on \<Rightarrow>
          if ty_name obj = ''/std/string'' then plain
          else bind_result (getIDLAbsolute B x st on []) (\<lambda>d. Inr (''sequence<'' @ d @ ''> '' @ base_name @ '';''))
      | Opaque \<Rightarrow> Inr (if idl_opaque_as_any x then ''any '' @ base_name @ '';'' else [])
      | _ \<Rightarrow> plain)"

definition push_typedef :: "IDLExport \<Rightarrow> string \<Rightarrow> string \<Rightarrow> IDLExport" where
  "push_typedef x ns def =
     x\<lparr>idl_typedefs := omap_assign string_less ns ((case map_of (idl_typedefs x) ns of None \<Rightarrow> [] | Some ls \<Rightarrow> ls) @ [def]) (idl_typedefs x)\<rparr>"

text \<open>\<open>Type::operator!=\<close> compares the addresses of the types, here their \<open>tid\<close>.\<close>

definition save_alias :: "boost \<Rightarrow> store \<Rightarrow> IDLExport \<Rightarrow> string \<Rightarrow> tid \<Rightarrow> (bool \<times> IDLExport) result" where
  "save_alias B st x name t =
     (if same_tag (type_at st t) name then Inr (False, x)
      else bind_result (checkType st t) (\<lambda>_.
        case map_of (idl_exported_typedefs x) name of
          Some u \<Rightarrow> if u \<noteq> t then Inl (UnsupportedType (ty_name (type_at st t))) else Inr (False, x)
        | None \<Rightarrow>
            if find_first_of ''/<>'' (getTypename name) \<noteq> None then Inr (False, x)
            else bind_result (typedef_text B x st t name) (\<lambda>def.
              Inr (True, if def \<noteq> [] then push_typedef x (getIDLAbsoluteNamespace (getNamespace name) x) def else x))))"

text \<open>
  The namespace and the text of a type that is not an alias, if it has one, and the typedefs that
  were exported. A type above the threshold is a sequence of octets.
\<close>

definition save_type :: "boost \<Rightarrow> store \<Rightarrow> IDLExport \<Rightarrow> string \<Rightarrow> tid \<Rightarrow> (IDLExport \<times> (string \<times> string) option) result" where
  "save_type B st x name t =
     (if idl_blob_threshold x \<noteq> 0 \<and> to_int32 (ty_size (type_at st t)) > idl_blob_threshold x then
        (let target = getIDLAbsoluteNamespace (getNamespace name) x in
         Inr (x, Some (target, indentation B target @ ''typedef sequence<octet> '' @ getBasename (type_at st t) @ '';'' @ newline)))
      else bind_result (IDLExportVisitor_apply B x st t) (\<lambda>(res, target, exported).
        Inr (x\<lparr>idl_exported_typedefs := exported\<rparr>, if res = [] then None else Some (target, res))))"

definition IDLExport_save_entry :: "boost \<Rightarrow> store \<Rightarrow> IDLExport \<times> string \<Rightarrow> entry \<Rightarrow> (bool \<times> IDLExport \<times> string) result" where
  "IDLExport_save_entry B st s e =
     (let t = reg_type (snd e) in
      if idl_selected_types (fst s) \<noteq> [] \<and> ty_name (type_at st t) \<notin> set (idl_selected_types (fst s)) then Inr (False, s)
      else if isAlias st e then bind_result (save_alias B st (fst s) (fst e) t) (\<lambda>(written, x). Inr (written, x, snd s))
      else bind_result (save_type B st (fst s) (fst e) t) (\<lambda>(x, item). case item of
          None \<Rightarrow> Inr (False, x, snd s)
        | Some (target, res) \<Rightarrow> (case adaptNamespace B target (x, snd s) of (x', stream) \<Rightarrow> Inr (True, x', stream @ res))))"

section \<open>Saving a registry\<close>

definition generateTypedefs :: "boost \<Rightarrow> IDLExport \<times> string \<Rightarrow> IDLExport \<times> string" where
  "generateTypedefs B s = fold (\<lambda>(ns, ls) s'.
     case adaptNamespace B ns s' of (x, stream) \<Rightarrow>
       (x, stream @ concat (map (\<lambda>def. idl_indent x @ ''typedef '' @ def @ newline) ls))) (idl_typedefs (fst s)) s"

definition IDLExport_end :: "boost \<Rightarrow> IDLExport \<times> string \<Rightarrow> Registry \<Rightarrow> IDLExport \<times> string" where
  "IDLExport_end B s reg = (let s' = generateTypedefs B s in
     closeNamespaces (namespaceIndentLevel B (idl_namespace (fst s'))) s')"

text \<open>The options. \<open>lexical_int\<close> is \<open>boost::lexical_cast<int>\<close>.\<close>

definition configure :: "(string \<Rightarrow> int option) \<Rightarrow> config_set \<Rightarrow> IDLExport \<Rightarrow> IDLExport result" where
  "configure lexical_int config x =
     (let prefix = config_get_string config ''namespace_prefix'' [];
          suffix = config_get_string config ''namespace_suffix'' [];
          to_int = (\<lambda>v. case lexical_int v of None \<Rightarrow> Inl (BadLexicalCast v) | Some i \<Rightarrow> Inr i) in
      bind_result (config_get to_int config ''blob_threshold'' 0) (\<lambda>blob_threshold.
      bind_result (config_get convert_bool config ''opaque_as_any'' False) (\<lambda>opaque_as_any.
      Inr (x\<lparr>idl_ns_prefix := (if prefix \<noteq> [] \<and> substr prefix 0 1 \<noteq> NamespaceMarkString then NamespaceMarkString @ prefix else prefix),
             idl_ns_suffix := (if suffix \<noteq> [] \<and> substr suffix (length suffix - 1) 1 \<noteq> NamespaceMarkString then suffix @ NamespaceMarkString else suffix),
             idl_blob_threshold := blob_threshold, idl_opaque_as_any := opaque_as_any,
             idl_selected_types := config_get_strings config ''selected'' []\<rparr>))))"

definition IDLExport_save :: "boost \<Rightarrow> (string \<Rightarrow> int option) \<Rightarrow> IDLExport \<Rightarrow> config_set \<Rightarrow> store \<Rightarrow> Registry \<Rightarrow> string \<Rightarrow> (IDLExport \<times> string) result" where
  "IDLExport_save B lexical_int x config st reg stream =
     bind_result (configure lexical_int config x) (\<lambda>x'.
     Exporter_save (\<lambda>s _. s) (IDLExport_save_entry B st) (IDLExport_end B) st reg (x', stream))"

end
