(* ===== verification/IdlCorrect.thy ===== *)
theory IdlCorrect
  imports IdlExport
begin

text \<open>
  Properties of the IDL export. The text it writes is a sequence of module openings, module
  closings and declarations; \<open>run_chunks\<close> is the reader of such a sequence that keeps the stack of
  open modules. The export with modules simulates one that only collects declarations with their
  namespaces, through the locale \<open>export_simulation\<close>. The name by which a field refers to a
  structure is the path of modules in which the structure is declared.
\<close>

section \<open>Fuel\<close>

text \<open>The recursion through arrays and containers ends: the fuel of \<open>getIDLBase\<close> is enough.\<close>

lemma getIDLBase_rec_fuel:
  assumes "wf_store st" and "indirect_acyclic st"
  shows "t \<in> dom (objects st) \<Longrightarrow> t < fuel \<Longrightarrow> getIDLBase_rec fuel B x st t f \<noteq> Inl OutOfFuel"
proof (induction fuel arbitrary: t f)
  case (Suc fuel)
  have rec: "getIDLBase_rec fuel B x st on [] \<noteq> Inl OutOfFuel" if "indirection (ty_kind (type_at st t)) = Some on" for on
  proof (rule Suc.IH)
    show "on < fuel" using assms(2) Suc.prems that unfolding indirect_acyclic_def by (metis Suc_leI Suc_le_lessD le_trans less_Suc_eq_le)
    have "on \<in> set (kind_refs (ty_kind (type_at st t)))" using that by (cases "ty_kind (type_at st t)") auto
    then show "on \<in> dom (objects st)" using assms(1) Suc.prems(1) unfolding wf_store_def type_at_def by (auto simp: domIff) blast
  qed
  have "IDLTypeIdentifierVisitor_apply (\<lambda>u. getIDLBase_rec fuel B x st u []) B x st t \<noteq> Inl OutOfFuel"
    using rec by (cases "ty_kind (type_at st t)")
      (auto simp: IDLTypeIdentifierVisitor_apply_def Let_def identifier_Opaque_def identifier_Array_def identifier_Container_def bind_result_def split: sum.splits)
  then show ?case
    by (cases "IDLTypeIdentifierVisitor_apply (\<lambda>u. getIDLBase_rec fuel B x st u []) B x st t") auto
qed simp

lemma getIDLBase_returns:
  "wf_store st \<Longrightarrow> indirect_acyclic st \<Longrightarrow> t \<in> dom (objects st) \<Longrightarrow> getIDLBase B x st t f \<noteq> Inl OutOfFuel"
  unfolding getIDLBase_def by (rule getIDLBase_rec_fuel) (auto simp: indirect_acyclic_def)

section \<open>Modules\<close>

datatype idl_chunk = OpenModule string string | CloseModule string | Declaration string

fun show_chunk :: "idl_chunk \<Rightarrow> string" where
  "show_chunk (OpenModule indent m) = indent @ ''module '' @ m @ '' {'' @ newline"
| "show_chunk (CloseModule indent) = newline @ indent @ ''};'' @ newline"
| "show_chunk (Declaration d) = d"

definition indent_of :: "nat \<Rightarrow> string" where
  "indent_of n = replicate (4 * n) (CHR '' '')"

text \<open>
  The reader: the stack of open modules, and the declarations read so far, each with the modules it
  is in. It fails on a closing without an opening and on a wrong indentation of a module.
\<close>

fun run_chunks :: "idl_chunk list \<Rightarrow> string list \<times> (string list \<times> string) list \<Rightarrow> (string list \<times> (string list \<times> string) list) option" where
  "run_chunks [] s = Some s"
| "run_chunks (OpenModule indent m # cs) (ms, ds) = (if indent = indent_of (length ms) then run_chunks cs (ms @ [m], ds) else None)"
| "run_chunks (CloseModule indent # cs) (ms, ds) =
     (if ms \<noteq> [] \<and> indent = indent_of (length ms - 1) then run_chunks cs (butlast ms, ds) else None)"
| "run_chunks (Declaration d # cs) (ms, ds) = run_chunks cs (ms, ds @ [(ms, d)])"

lemma run_chunks_append: "run_chunks (as @ bs) s = Option.bind (run_chunks as s) (run_chunks bs)"
  by (induction as s rule: run_chunks.induct) auto

definition modules_of :: "boost \<Rightarrow> string \<Rightarrow> string list" where
  "modules_of B ns = map (normalizeIDLName B) (nameSplit B ns)"

abbreviation chunks_text :: "idl_chunk list \<Rightarrow> string" where
  "chunks_text cs \<equiv> concat (map show_chunk cs)"

lemma indent_of_less: "substr (indent_of (Suc n)) 0 (sub_size_t (length (indent_of (Suc n))) 4) = indent_of n"
  by (simp add: indent_of_def substr_def take_replicate min_def)

lemma indent_of_more: "indent_of n @ ''    '' = indent_of (Suc n)"
proof -
  have "4 * Suc n = 4 * n + 4" by simp
  moreover have "replicate 4 (CHR '' '') = ''    ''" by code_simp
  ultimately show ?thesis unfolding indent_of_def by (simp only: replicate_add)
qed

lemma same_place_simps:
  "idl_indent x = i \<Longrightarrow> x\<lparr>idl_indent := i\<rparr> = x"
  "idl_namespace x = ns \<Longrightarrow> x\<lparr>idl_namespace := ns\<rparr> = x"
  by (cases x, simp)+

lemma closeNamespaces_chunks:
  assumes "idl_indent x = indent_of (length ms)" and "n \<le> length ms"
  shows "\<exists>cs. closeNamespaces n (x, out) = (x\<lparr>idl_indent := indent_of (length ms - n)\<rparr>, out @ chunks_text cs) \<and>
    run_chunks cs (ms, ds) = Some (take (length ms - n) ms, ds)"
  using assms
proof (induction n arbitrary: x ms out)
  case 0
  then show ?case by (intro exI[of _ "[]"]) (simp add: same_place_simps)
next
  case (Suc n)
  let ?i = "indent_of (length ms - 1)"
  have ms: "ms \<noteq> []" "length ms = Suc (length (butlast ms))" using Suc.prems(2) by (cases ms; simp)+
  then have cut: "substr (idl_indent x) 0 (sub_size_t (length (idl_indent x)) 4) = ?i"
    unfolding Suc.prems(1) by (metis diff_Suc_1 indent_of_less)
  have "n \<le> length (butlast ms)" using Suc.prems(2) by simp
  then obtain cs where cs: "closeNamespaces n (x\<lparr>idl_indent := ?i\<rparr>, out @ newline @ ?i @ ''};'' @ newline) =
      (x\<lparr>idl_indent := indent_of (length (butlast ms) - n)\<rparr>, (out @ newline @ ?i @ ''};'' @ newline) @ chunks_text cs)"
    "run_chunks cs (butlast ms, ds) = Some (take (length (butlast ms) - n) (butlast ms), ds)"
    using Suc.IH[of "x\<lparr>idl_indent := ?i\<rparr>" "butlast ms" "out @ newline @ ?i @ ''};'' @ newline"] by auto
  have "take (length ms - Suc n) ms = take (length (butlast ms) - n) (butlast ms)" using Suc.prems(2) by (simp add: take_butlast)
  then show ?case using cs ms(1) cut by (intro exI[of _ "CloseModule ?i # cs"]) (simp add: Let_def)
qed

lemma openNamespaces_chunks:
  assumes "idl_indent x = indent_of (length ms)"
  shows "\<exists>cs. openNamespaces B ns (x, out) = (x\<lparr>idl_indent := indent_of (length ms + length ns)\<rparr>, out @ chunks_text cs) \<and>
    run_chunks cs (ms, ds) = Some (ms @ map (normalizeIDLName B) ns, ds)"
  using assms
proof (induction ns arbitrary: x ms out)
  case Nil
  then show ?case by (intro exI[of _ "[]"]) (simp add: same_place_simps)
next
  case (Cons n ns)
  let ?m = "normalizeIDLName B n"
  obtain cs where cs: "openNamespaces B ns (x\<lparr>idl_indent := idl_indent x @ ''    ''\<rparr>, out @ idl_indent x @ ''module '' @ ?m @ '' {'' @ newline) =
      (x\<lparr>idl_indent := indent_of (length (ms @ [?m]) + length ns)\<rparr>, (out @ idl_indent x @ ''module '' @ ?m @ '' {'' @ newline) @ chunks_text cs)"
    "run_chunks cs (ms @ [?m], ds) = Some ((ms @ [?m]) @ map (normalizeIDLName B) ns, ds)"
    using Cons.IH[of "x\<lparr>idl_indent := idl_indent x @ ''    ''\<rparr>" "ms @ [?m]" "out @ idl_indent x @ ''module '' @ ?m @ '' {'' @ newline"]
      Cons.prems indent_of_more by auto
  then show ?case using Cons.prems by (intro exI[of _ "OpenModule (indent_of (length ms)) ?m # cs"]) simp
qed

lemma drop_common_prefix: "drop_common as bs = (as', bs') \<Longrightarrow> \<exists>c. as = c @ as' \<and> bs = c @ bs'"
  by (induction as bs rule: drop_common.induct) (auto split: if_splits intro: exI[of _ "_ # _"])

lemma adaptNamespace_chunks:
  assumes "idl_indent x = indent_of (length (modules_of B (idl_namespace x)))"
  shows "\<exists>cs. adaptNamespace B ns (x, out) =
      (x\<lparr>idl_namespace := ns, idl_indent := indent_of (length (modules_of B ns))\<rparr>, out @ chunks_text cs) \<and>
    run_chunks cs (modules_of B (idl_namespace x), ds) = Some (modules_of B ns, ds)"
proof (cases "idl_namespace x = ns")
  case True
  then show ?thesis using assms
    by (intro exI[of _ "[]"]) (simp add: adaptNamespace_def same_place_simps)
next
  case False
  obtain as bs where drop: "drop_common (nameSplit B (idl_namespace x)) (nameSplit B ns) = (as, bs)" by fastforce
  from drop_common_prefix[OF this] obtain c where c: "nameSplit B (idl_namespace x) = c @ as" "nameSplit B ns = c @ bs" by blast
  let ?ms = "map (normalizeIDLName B) c"
  have "length as \<le> length (modules_of B (idl_namespace x))" by (simp add: modules_of_def c)
  from closeNamespaces_chunks[OF assms this, of out ds] obtain cs1 where cs1:
    "closeNamespaces (length as) (x, out) = (x\<lparr>idl_indent := indent_of (length ?ms)\<rparr>, out @ chunks_text cs1)"
    "run_chunks cs1 (modules_of B (idl_namespace x), ds) = Some (?ms, ds)"
    by (auto simp: modules_of_def c)
  obtain cs2 where cs2: "openNamespaces B bs (x\<lparr>idl_indent := indent_of (length ?ms)\<rparr>, out @ chunks_text cs1) =
      (x\<lparr>idl_indent := indent_of (length ?ms + length bs)\<rparr>, (out @ chunks_text cs1) @ chunks_text cs2)"
    "run_chunks cs2 (?ms, ds) = Some (?ms @ map (normalizeIDLName B) bs, ds)"
    using openNamespaces_chunks[of "x\<lparr>idl_indent := indent_of (length ?ms)\<rparr>" ?ms B bs "out @ chunks_text cs1" ds] by auto
  show ?thesis
    using False drop cs1 cs2 by (intro exI[of _ "cs1 @ cs2"]) (simp add: adaptNamespace_def run_chunks_append modules_of_def c)
qed

section \<open>The declarations of a registry\<close>

text \<open>
  The export without modules: it collects the declarations with the namespaces they belong to, in
  the order in which the entries are saved.
\<close>

definition save_item :: "boost \<Rightarrow> store \<Rightarrow> IDLExport \<times> (string \<times> string) list \<Rightarrow> entry \<Rightarrow> (bool \<times> IDLExport \<times> (string \<times> string) list) result" where
  "save_item B st s e =
     (let t = reg_type (snd e) in
      if idl_selected_types (fst s) \<noteq> [] \<and> ty_name (type_at st t) \<notin> set (idl_selected_types (fst s)) then Inr (False, s)
      else if isAlias st e then bind_result (save_alias B st (fst s) (fst e) t) (\<lambda>(written, x). Inr (written, x, snd s))
      else bind_result (save_type B st (fst s) (fst e) t) (\<lambda>(x, item). case item of
          None \<Rightarrow> Inr (False, x, snd s) | Some d \<Rightarrow> Inr (True, x, snd s @ [d])))"

definition typedef_items :: "boost \<Rightarrow> IDLExport \<Rightarrow> (string \<times> string) list" where
  "typedef_items B x = map (\<lambda>(ns, ls). (ns, concat (map (\<lambda>def. indentation B ns @ ''typedef '' @ def @ newline) ls))) (idl_typedefs x)"

definition idl_items :: "boost \<Rightarrow> (string \<Rightarrow> int option) \<Rightarrow> config_set \<Rightarrow> store \<Rightarrow> Registry \<Rightarrow> (string \<times> string) list result" where
  "idl_items B lexical_int config st reg =
     bind_result (configure lexical_int config IDLExport_ctor) (\<lambda>x.
     bind_result (Exporter_save (\<lambda>s _. s) (save_item B st) (\<lambda>s _. s) st reg (x, [])) (\<lambda>(y, items). Inr (items @ typedef_items B y)))"

text \<open>What is written for a type depends neither on the current namespace nor on the indentation.\<close>

abbreviation placed :: "string \<Rightarrow> string \<Rightarrow> IDLExport \<Rightarrow> IDLExport" where
  "placed ns i x \<equiv> x\<lparr>idl_namespace := ns, idl_indent := i\<rparr>"

lemma getIDLAbsoluteNamespace_placed [simp]: "getIDLAbsoluteNamespace n (placed ns i x) = getIDLAbsoluteNamespace n x"
  by (simp add: getIDLAbsoluteNamespace_def)

lemma identifier_placed [simp]:
  "IDLTypeIdentifierVisitor_apply base B (placed ns i x) st t = IDLTypeIdentifierVisitor_apply base B x st t"
  by (cases "ty_kind (type_at st t)") (simp_all add: IDLTypeIdentifierVisitor_apply_def identifier_Container_def identifier_Opaque_def cong: if_cong)

lemma getIDLBase_rec_placed [simp]: "getIDLBase_rec fuel B (placed ns i x) st t f = getIDLBase_rec fuel B x st t f"
  by (induction fuel arbitrary: t f) simp_all

lemma getIDLAbsolute_placed [simp]: "getIDLAbsolute B (placed ns i x) st t f = getIDLAbsolute B x st t f"
  "getIDLBase B (placed ns i x) st t f = getIDLBase B x st t f"
  by (simp_all add: getIDLAbsolute_def getIDLBase_def)

lemma export_field_placed [simp]: "export_field B (placed ns i x) = export_field B x"
  by (simp add: fun_eq_iff export_field_def)

lemma IDLExportVisitor_apply_placed [simp]: "IDLExportVisitor_apply B (placed ns i x) st t = IDLExportVisitor_apply B x st t"
  by (cases "ty_kind (type_at st t)") (simp_all add: IDLExportVisitor_apply_def export_Compound_def export_Container_def Let_def cong: if_cong)

lemma save_alias_placed:
  "save_alias B st (placed ns i x) name t = bind_result (save_alias B st x name t) (\<lambda>(w, y). Inr (w, placed ns i y))"
proof -
  have def_text: "typedef_text B (placed ns i x) st t name = typedef_text B x st t name"
    unfolding typedef_text_def Let_def by (simp split: kind.split)
  have push: "push_typedef (placed ns i x) n d = placed ns i (push_typedef x n d)" for n d
    by (simp add: push_typedef_def)
  show ?thesis unfolding save_alias_def def_text push
    by (auto simp: bind_result_assoc push intro!: bind_result_cong split: option.split)
qed

lemma save_type_placed:
  "save_type B st (placed ns i x) name t = bind_result (save_type B st x name t) (\<lambda>(y, item). Inr (placed ns i y, item))"
  unfolding save_type_def Let_def by (auto simp: bind_result_assoc intro!: bind_result_cong)

text \<open>The simulation.\<close>

definition writes_items :: "boost \<Rightarrow> IDLExport \<times> (string \<times> string) list \<Rightarrow> IDLExport \<times> string \<Rightarrow> bool" where
  "writes_items B = (\<lambda>(y, items) (x, out). x = placed (idl_namespace x) (idl_indent x) y \<and>
     idl_indent x = indent_of (length (modules_of B (idl_namespace x))) \<and>
     (\<exists>cs. out = chunks_text cs \<and>
        run_chunks cs ([], []) = Some (modules_of B (idl_namespace x), map (\<lambda>(ns, d). (modules_of B ns, d)) items)))"

lemma writes_items_adapt:
  assumes "writes_items B (y, items) (x, out)"
  shows "\<exists>x' out'. adaptNamespace B ns (x, out) = (x', out') \<and> idl_indent x' = indentation B ns \<and>
    x' = placed ns (indentation B ns) x \<and> writes_items B (y, items @ [(ns, d)]) (x', out' @ d)"
proof -
  let ?ds = "map (\<lambda>(ns, d). (modules_of B ns, d)) items"
  have x: "x = placed (idl_namespace x) (idl_indent x) y" "idl_indent x = indent_of (length (modules_of B (idl_namespace x)))"
    using assms unfolding writes_items_def by blast+
  obtain cs where cs: "out = chunks_text cs" "run_chunks cs ([], []) = Some (modules_of B (idl_namespace x), ?ds)"
    using assms by (auto simp: writes_items_def)
  from adaptNamespace_chunks[OF x(2), of ns out ?ds] obtain cs' where cs':
    "adaptNamespace B ns (x, out) = (placed ns (indent_of (length (modules_of B ns))) x, out @ chunks_text cs')"
    "run_chunks cs' (modules_of B (idl_namespace x), ?ds) = Some (modules_of B ns, ?ds)" by blast
  have i: "indent_of (length (modules_of B ns)) = indentation B ns"
    by (simp add: indent_of_def modules_of_def indentation_def namespaceIndentLevel_def)
  have "run_chunks ((cs @ cs') @ [Declaration d]) ([], []) = Some (modules_of B ns, map (\<lambda>(ns, d). (modules_of B ns, d)) (items @ [(ns, d)]))"
    using cs(2) cs'(2) by (simp add: run_chunks_append)
  moreover have "placed ns i x = placed ns i y" for i by (subst x(1)) simp
  ultimately show ?thesis using cs(1) cs'(1) i
    by (auto simp: writes_items_def intro!: exI[of _ "(cs @ cs') @ [Declaration d]"])
qed

interpretation idl: export_simulation "writes_items B" "save_item B st" "IDLExport_save_entry B st" for B st
proof
  fix s :: "IDLExport \<times> (string \<times> string) list" and s' :: "IDLExport \<times> string" and e :: entry
  assume R: "writes_items B s s'"
  obtain y items x out where s: "s = (y, items)" "s' = (x, out)" by fastforce
  let ?n = "idl_namespace x" and ?i = "idl_indent x" and ?t = "reg_type (snd e)"
  have x: "x = placed ?n ?i y" using R unfolding s writes_items_def by blast
  have same: "idl_selected_types x = idl_selected_types y" by (subst x) simp
  have keep: "writes_items B (z, items) (placed ?n ?i z, out)" for z using R s by (simp add: writes_items_def)
  show "related (rel_prod (=) (writes_items B)) (save_item B st s e) (IDLExport_save_entry B st s' e)"
  proof (cases "idl_selected_types y \<noteq> [] \<and> ty_name (type_at st ?t) \<notin> set (idl_selected_types y)")
    case True
    then show ?thesis using R by (simp add: save_item_def IDLExport_save_entry_def s same)
  next
    case selected: False
    show ?thesis
    proof (cases "isAlias st e")
      case True
      have "save_alias B st x (fst e) ?t = bind_result (save_alias B st y (fst e) ?t) (\<lambda>(w, z). Inr (w, placed ?n ?i z))"
        by (subst x) (rule save_alias_placed)
      then show ?thesis using selected True keep
        by (simp add: save_item_def IDLExport_save_entry_def s same) (cases "save_alias B st y (fst e) ?t", auto)
    next
      case False
      have "save_type B st x (fst e) ?t = bind_result (save_type B st y (fst e) ?t) (\<lambda>(z, item). Inr (placed ?n ?i z, item))"
        by (subst x) (rule save_type_placed)
      moreover have "related (rel_prod (=) (writes_items B)) (case item of None \<Rightarrow> Inr (False, z, items) | Some d \<Rightarrow> Inr (True, z, items @ [d]))
          (case item of None \<Rightarrow> Inr (False, placed ?n ?i z, out) | Some (target, res) \<Rightarrow>
            (case adaptNamespace B target (placed ?n ?i z, out) of (x', stream) \<Rightarrow> Inr (True, x', stream @ res)))" for z item
      proof (cases item)
        case (Some d)
        obtain target res where d: "d = (target, res)" by fastforce
        from writes_items_adapt[OF keep[of z], of target res] obtain x' out' where
          "adaptNamespace B target (placed ?n ?i z, out) = (x', out')" "writes_items B (z, items @ [(target, res)]) (x', out' @ res)" by blast
        then show ?thesis by (simp add: Some d)
      qed (simp add: keep)
      ultimately show ?thesis using selected False
        by (simp add: save_item_def IDLExport_save_entry_def s same) (cases "save_type B st y (fst e) ?t", auto)
    qed
  qed
qed

lemma generateTypedefs_items:
  assumes "writes_items B (y, items) (x, out)"
  shows "\<exists>x' out'. generateTypedefs B (x, out) = (x', out') \<and> writes_items B (y, items @ typedef_items B y) (x', out')"
proof -
  let ?step = "\<lambda>(ns, ls) s'. case adaptNamespace B ns s' of (x, stream) \<Rightarrow>
    (x, stream @ concat (map (\<lambda>def. idl_indent x @ ''typedef '' @ def @ newline) ls))"
  let ?item = "\<lambda>(ns, ls). (ns, concat (map (\<lambda>def. indentation B ns @ ''typedef '' @ def @ newline) ls))"
  have "\<exists>x' out'. fold ?step defs (x, out) = (x', out') \<and> writes_items B (y, items @ map ?item defs) (x', out')"
    if "writes_items B (y, items) (x, out)" for defs items x out
    using that
  proof (induction defs arbitrary: items x out)
    case (Cons def defs)
    obtain ns ls where def: "def = (ns, ls)" by fastforce
    let ?d = "concat (map (\<lambda>def. indentation B ns @ ''typedef '' @ def @ newline) ls)"
    from writes_items_adapt[OF Cons.prems, of ns ?d] obtain x' out' where x': "adaptNamespace B ns (x, out) = (x', out')"
      "idl_indent x' = indentation B ns" "writes_items B (y, items @ [(ns, ?d)]) (x', out' @ ?d)" by blast
    from Cons.IH[OF x'(3)] show ?case using x'(1,2) by (simp add: def)
  qed simp
  moreover have "x = placed (idl_namespace x) (idl_indent x) y" using assms unfolding writes_items_def by blast
  then have "idl_typedefs x = idl_typedefs y" by (metis IDLExport.select_convs(8) IDLExport.surjective IDLExport.update_convs(1,4))
  ultimately show ?thesis using assms unfolding generateTypedefs_def typedef_items_def by simp
qed

definition writes_document :: "boost \<Rightarrow> (string \<times> string) list \<Rightarrow> string \<Rightarrow> bool" where
  "writes_document B items out \<longleftrightarrow>
     (\<exists>cs. out = chunks_text cs \<and> run_chunks cs ([], []) = Some ([], map (\<lambda>(ns, d). (modules_of B ns, d)) items))"

lemma IDLExport_end_document:
  assumes "writes_items B (y, items) (x, out)"
  shows "writes_document B (items @ typedef_items B y) (snd (IDLExport_end B (x, out) reg))"
proof -
  let ?ds = "map (\<lambda>(ns, d). (modules_of B ns, d)) (items @ typedef_items B y)"
  obtain x' out' where x': "generateTypedefs B (x, out) = (x', out')" "writes_items B (y, items @ typedef_items B y) (x', out')"
    using generateTypedefs_items[OF assms] by blast
  then obtain cs where cs: "out' = chunks_text cs" "run_chunks cs ([], []) = Some (modules_of B (idl_namespace x'), ?ds)"
    and i: "idl_indent x' = indent_of (length (modules_of B (idl_namespace x')))"
    unfolding writes_items_def by blast
  have len: "namespaceIndentLevel B (idl_namespace x') = length (modules_of B (idl_namespace x'))"
    by (simp add: namespaceIndentLevel_def modules_of_def)
  from closeNamespaces_chunks[OF i order_refl, of out' ?ds] obtain cs' where cs':
    "closeNamespaces (length (modules_of B (idl_namespace x'))) (x', out') = (x'\<lparr>idl_indent := indent_of 0\<rparr>, out' @ chunks_text cs')"
    "run_chunks cs' (modules_of B (idl_namespace x'), ?ds) = Some ([], ?ds)" by auto
  have "run_chunks (cs @ cs') ([], []) = Some ([], ?ds)" using cs(2) cs'(2) by (simp add: run_chunks_append)
  then show ?thesis unfolding writes_document_def
    using x'(1) cs(1) cs'(1) len by (intro exI[of _ "cs @ cs'"]) (simp add: IDLExport_end_def)
qed

lemma nameSplit_root: "boost_spec B \<Longrightarrow> nameSplit B ''/'' = []"
  using split_at[of B "[]" "''/''" "''/''" "[]"] split_plain[of B "[]" "''/''"] by (simp add: nameSplit_def only_of_def)

lemma configure_place: "configure lexical_int config x = Inr y \<Longrightarrow>
    idl_namespace y = idl_namespace x \<and> idl_indent y = idl_indent x"
  by (auto simp: configure_def Let_def)

section \<open>Properties\<close>

text \<open>
  C8: The IDL export of a registry writes its declarations into the modules of their
  namespaces: what it writes is a sequence of module openings, closings and declarations in which
  every opened module is closed again, the modules are indented by their depth, and the declarations
  are those of the export without modules, in the same order, each inside exactly the modules of its
  namespace. When the export throws, so does the one without modules.
\<close>

theorem idl_modules:
  assumes "boost_spec B"
  shows "case IDLExport_save B lexical_int IDLExport_ctor config st reg [] of
      Inl e \<Rightarrow> idl_items B lexical_int config st reg = Inl e
    | Inr (x, out) \<Rightarrow> (\<exists>items cs. idl_items B lexical_int config st reg = Inr items \<and> out = chunks_text cs \<and>
        run_chunks cs ([], []) = Some ([], map (\<lambda>(ns, d). (modules_of B ns, d)) items))"
proof (cases "configure lexical_int config IDLExport_ctor")
  case (Inl e)
  then show ?thesis by (simp add: IDLExport_save_def idl_items_def)
next
  case (Inr x)
  from configure_place[OF Inr] have "writes_items B (x, []) (x, [])"
    using nameSplit_root[OF assms]
    by (auto simp: writes_items_def IDLExport_ctor_def modules_of_def indent_of_def same_place_simps intro!: exI[of _ "[]"])
  then have "related (\<lambda>(y, items) (x, out). writes_document B (items @ typedef_items B y) out)
      (Exporter_save (\<lambda>s _. s) (save_item B st) (\<lambda>s _. s) st reg (x, []))
      (Exporter_save (\<lambda>s _. s) (IDLExport_save_entry B st) (IDLExport_end B) st reg (x, []))"
    by (rule idl.Exporter_save_related) (auto simp: split_beta dest: IDLExport_end_document)
  then show ?thesis unfolding IDLExport_save_def idl_items_def Inr writes_document_def
    by (cases "Exporter_save (\<lambda>s _. s) (save_item B st) (\<lambda>s _. s) st reg (x, [])";
        cases "Exporter_save (\<lambda>s _. s) (IDLExport_save_entry B st) (IDLExport_end B) st reg (x, [])") auto
qed

text \<open>Two structures in different modules, one with a field of the other.\<close>

definition idl_store :: store where
  "idl_store = \<lparr>objects = [2 \<mapsto> Numeric_ctor ''/int'' 4 SInt,
     3 \<mapsto> Type_ctor ''/A/S'' 4 (Compound [\<lparr>fld_name = ''a'', fld_type = 2, fld_offset = 0, fld_metadata = []\<rparr>]),
     4 \<mapsto> Type_ctor ''/B/T'' 4 (Compound [\<lparr>fld_name = ''s'', fld_type = 3, fld_offset = 0, fld_metadata = []\<rparr>])], next_id = 5\<rparr>"

definition idl_registry :: Registry where
  "idl_registry = registry_of [(''/A/S'', example_entry 3), (''/B/T'', example_entry 4), (''/int'', example_entry 2)]"

theorem idl_modules_witness:
  "\<exists>x cs. IDLExport_save boost_impl (\<lambda>_. None) IDLExport_ctor (ConfigSet [] []) idl_store idl_registry [] = Inr (x, chunks_text cs) \<and>
    run_chunks cs ([], []) = Some ([],
      [([''A''], ''    struct S {'' @ newline @ ''        long a;'' @ newline @ ''    };'' @ newline),
       ([''B''], ''    struct T {'' @ newline @ ''        ::A::S s;'' @ newline @ ''    };'' @ newline)])"
proof -
  let ?items = "[(''/A/'', ''    struct S {'' @ newline @ ''        long a;'' @ newline @ ''    };'' @ newline),
    (''/B/'', ''    struct T {'' @ newline @ ''        ::A::S s;'' @ newline @ ''    };'' @ newline)]"
  have items: "idl_items boost_impl (\<lambda>_. None) (ConfigSet [] []) idl_store idl_registry = Inr ?items" by code_simp
  have modules: "modules_of boost_impl ''/A/'' = [''A'']" "modules_of boost_impl ''/B/'' = [''B'']" by code_simp+
  show ?thesis
    using idl_modules[OF boost_impl_spec, of "\<lambda>_. None" "ConfigSet [] []" idl_store idl_registry] items modules
    by (auto split: sum.splits)
qed

section \<open>References\<close>

lemma replace_marks_map: "replace_marks s = map (\<lambda>c. if c \<in> set ''<>/,'' then CHR ''_'' else c) s"
proof (induction s rule: replace_marks.induct)
  case (1 s)
  let ?f = "\<lambda>c. if c \<in> set ''<>/,'' then CHR ''_'' else c"
  show ?case
  proof (cases "find_first_of ''<>/,'' s")
    case None
    then have "\<forall>c \<in> set s. c \<notin> set ''<>/,''" by (induction s) (auto split: if_splits)
    then have "map ?f s = s" by (intro map_idI) auto
    then show ?thesis using None by (subst replace_marks.simps) simp
  next
    case (Some pos)
    then have "pos < length s" "s ! pos \<in> set ''<>/,''" using find_first_of_split by blast+
    then have "map ?f (s[pos := CHR ''_'']) = map ?f s" by (simp add: map_update list_update_same_conv)
    then show ?thesis using 1[OF Some] Some by (subst replace_marks.simps) simp
  qed
qed

text \<open>A path of names: all are non-empty and free of separators.\<close>

definition path_ok :: "string list \<Rightarrow> bool" where
  "path_ok ts \<longleftrightarrow> (\<forall>m \<in> set ts. m \<noteq> [] \<and> CHR ''/'' \<notin> set m \<and> CHR '':'' \<notin> set m)"

lemma split_path:
  assumes "boost_spec B" and "\<forall>m \<in> set ms. m \<noteq> [] \<and> (\<forall>c \<in> set m. c \<notin> set cs)" and "sep \<noteq> []" and "only_of cs sep"
  shows "split B cs (concat (map (\<lambda>m. m @ sep) ms)) = ms @ [[]]" "split B cs (sep @ concat (map (\<lambda>m. m @ sep) ms)) = [] # ms @ [[]]"
proof -
  have start: "concat (map (\<lambda>m. m @ sep) ms) = [] \<or> hd (concat (map (\<lambda>m. m @ sep) ms)) \<notin> set cs"
    if "\<forall>m \<in> set ms. m \<noteq> [] \<and> (\<forall>c \<in> set m. c \<notin> set cs)" for ms
    using that by (cases ms) (auto simp: hd_append)
  show rest: "split B cs (concat (map (\<lambda>m. m @ sep) ms)) = ms @ [[]]"
    using assms(2)
  proof (induction ms)
    case Nil
    then show ?case using split_plain[OF assms(1), of "[]" cs] by simp
  next
    case (Cons m ms)
    then have "split B cs (m @ sep @ concat (map (\<lambda>m. m @ sep) ms)) = m # split B cs (concat (map (\<lambda>m. m @ sep) ms))"
      using start[of ms] by (intro split_at[OF assms(1)]) (use assms(3,4) in auto)
    then show ?case using Cons by simp
  qed
  show "split B cs (sep @ concat (map (\<lambda>m. m @ sep) ms)) = [] # ms @ [[]]"
    using split_at[OF assms(1), of "[]" cs sep "concat (map (\<lambda>m. m @ sep) ms)"] start[OF assms(2)] assms(3,4) rest by simp
qed

lemma join_path:
  assumes "boost_spec B"
  shows "join B ([] # ms @ [[]]) sep = sep @ concat (map (\<lambda>m. m @ sep) ms)"
proof -
  have j: "join_spec (join B)" using assms by (simp add: boost_spec_def)
  have "join B (ms @ [[]]) sep = concat (map (\<lambda>m. m @ sep) ms)"
  proof (induction ms)
    case (Cons m ms)
    then show ?case using j by (cases ms) (auto simp: join_spec_def)
  qed (use j in \<open>simp add: join_spec_def\<close>)
  then show ?thesis using j by (cases ms) (auto simp: join_spec_def)
qed

lemma replace_path:
  assumes "boost_spec B" and "path_ok ts"
  shows "replace_all B (''/'' @ concat (map (\<lambda>m. m @ ''/'') ts)) ''/'' ''::'' = ''::'' @ concat (map (\<lambda>m. m @ ''::'') ts)"
proof -
  have r: "replace_spec (replace_all B)" using assms(1) by (simp add: boost_spec_def)
  have none: "\<not> contains_string ''/'' m" if "CHR ''/'' \<notin> set m" for m using that by (auto simp: contains_string_iff)
  have at: "replace_all B (m @ ''/'' @ b) ''/'' ''::'' = m @ ''::'' @ replace_all B b ''/'' ''::''" if "CHR ''/'' \<notin> set m" for m b
    using r none[OF that] unfolding replace_spec_def by (metis append_Nil2 butlast.simps(2) list.distinct(1))
  have "replace_all B (concat (map (\<lambda>m. m @ ''/'') ts)) ''/'' ''::'' = concat (map (\<lambda>m. m @ ''::'') ts)"
    using assms(2)
  proof (induction ts)
    case Nil
    then show ?case using r none[of "[]"] unfolding replace_spec_def by simp
  next
    case (Cons m ts)
    then show ?case using at[of m "concat (map (\<lambda>m. m @ ''/'') ts)"] by (simp add: path_ok_def)
  qed
  then show ?thesis using at[of "[]" "concat (map (\<lambda>m. m @ ''/'') ts)"] by simp
qed

lemma path_modules:
  assumes "boost_spec B" and "path_ok ts"
  shows "modules_of B (''/'' @ concat (map (\<lambda>m. m @ ''/'') ts)) = map (\<lambda>m. strip_underscore (replace_marks m)) ts"
proof -
  have ts: "\<forall>m \<in> set ts. m \<noteq> [] \<and> (\<forall>c \<in> set m. c \<notin> set ''/'')" using assms(2) by (auto simp: path_ok_def)
  have "split B ''/'' (''/'' @ concat (map (\<lambda>m. m @ ''/'') ts)) = [] # ts @ [[]]"
    by (rule split_path(2)[OF assms(1) ts]) (simp_all add: only_of_def)
  moreover have no_empty: "dropWhile (\<lambda>t. t = []) ms = ms" if "\<forall>m \<in> set ms. m \<noteq> []" for ms :: "string list"
    using that by (cases ms) auto
  moreover have "dropWhile (\<lambda>t. t = []) (ts @ [[]]) = (if ts = [] then [] else ts @ [[]])" using ts by (cases ts) auto
  moreover have "dropWhile (\<lambda>t. t = []) (rev ts) = rev ts" by (rule no_empty) (use ts in simp)
  ultimately have "nameSplit B (''/'' @ concat (map (\<lambda>m. m @ ''/'') ts)) = ts" by (simp add: nameSplit_def)
  moreover have "normalizeIDLName B m = strip_underscore (replace_marks m)" if "m \<in> set ts" for m
  proof -
    have "\<forall>c \<in> set (replace_marks m). c \<notin> set ''::''" using assms(2) that by (auto simp: path_ok_def replace_marks_map)
    then show ?thesis using split_plain[OF assms(1)] assms(1)
      by (simp add: normalizeIDLName_def stripLeadingUnderscore_def boost_spec_def join_spec_def)
  qed
  ultimately show ?thesis by (simp add: modules_of_def)
qed

lemma path_reference:
  assumes "boost_spec B" and "path_ok ts"
  shows "normalizeIDLName B (''::'' @ concat (map (\<lambda>m. m @ ''::'') ts)) =
    concat (map (\<lambda>m. ''::'' @ m) (map (\<lambda>m. strip_underscore (replace_marks m)) ts)) @ ''::''"
proof -
  have "replace_marks (''::'' @ concat (map (\<lambda>m. m @ ''::'') ts)) = ''::'' @ concat (map (\<lambda>m. m @ ''::'') (map replace_marks ts))"
    by (simp add: replace_marks_map map_concat comp_def)
  moreover have "\<forall>m \<in> set (map replace_marks ts). m \<noteq> [] \<and> (\<forall>c \<in> set m. c \<notin> set ''::'')"
    using assms(2) by (auto simp: path_ok_def replace_marks_map)
  then have "split B ''::'' (''::'' @ concat (map (\<lambda>m. m @ ''::'') (map replace_marks ts))) = [] # map replace_marks ts @ [[]]"
    by (rule split_path(2)[OF assms(1)]) (simp_all add: only_of_def)
  moreover have "strip_underscore [] = []" by (simp add: strip_underscore_def char_at_def)
  ultimately have "normalizeIDLName B (''::'' @ concat (map (\<lambda>m. m @ ''::'') ts)) =
      join B ([] # map (\<lambda>m. strip_underscore (replace_marks m)) ts @ [[]]) ''::''"
    by (simp add: normalizeIDLName_def stripLeadingUnderscore_def comp_def)
  also have "\<dots> = ''::'' @ concat (map (\<lambda>m. m @ ''::'') (map (\<lambda>m. strip_underscore (replace_marks m)) ts))" by (rule join_path[OF assms(1)])
  also have "\<dots> = concat (map (\<lambda>m. ''::'' @ m) (map (\<lambda>m. strip_underscore (replace_marks m)) ts)) @ ''::''" by (induction ts) auto
  finally show ?thesis .
qed

lemma export_fields_prefix: "fold_result (export_field B x st i) s flds = Inr s' \<Longrightarrow> \<exists>r. s' = s @ r"
  by (induction flds arbitrary: s) (auto simp: export_field_def, fastforce)

text \<open>
  C9: A structure is referred to, by the fields and typedefs that use it, under the absolute name
  that consists of the modules in which it is declared and the name under which it is declared.
\<close>

theorem idl_reference:
  assumes "boost_spec B" and "ty_kind (type_at st t) = Compound flds" and "0 < next_id st"
    and "IDLExportVisitor_apply B x st t = Inr (d, target, exported)"
    and "target = ''/'' @ concat (map (\<lambda>m. m @ ''/'') ts)" and "path_ok ts"
  shows "\<exists>name rest. d = indentation B target @ ''struct '' @ name @ '' {'' @ newline @ rest \<and>
    getIDLAbsolute B x st t [] = Inr (concat (map (\<lambda>m. ''::'' @ m) (modules_of B target)) @ ''::'' @ name)"
proof -
  let ?name = "normalizeIDLName B (getBasename (type_at st t))"
  have target: "target = getIDLAbsoluteNamespace (Type_getNamespace (type_at st t)) x"
    using assms(2,4) by (auto simp: IDLExportVisitor_apply_def Let_def)
  obtain stream where stream: "fold_result (export_field B x st (indentation B target @ ''    ''))
      (indentation B target @ ''struct '' @ ?name @ '' {'' @ newline) flds = Inr stream" "d = stream @ indentation B target @ ''};'' @ newline"
    using assms(2,4) target by (auto simp: IDLExportVisitor_apply_def Let_def export_Compound_def)
  from export_fields_prefix[OF stream(1)] obtain r where "stream = (indentation B target @ ''struct '' @ ?name @ '' {'' @ newline) @ r" by blast
  then have d: "d = indentation B target @ ''struct '' @ ?name @ '' {'' @ newline @ r @ indentation B target @ ''};'' @ newline"
    using stream(2) by simp
  obtain n where "next_id st = Suc n" using assms(3) gr0_conv_Suc by blast
  then have "getIDLBase B x st t [] = Inr (target, ?name)"
    using assms(2) target by (simp add: getIDLBase_def IDLTypeIdentifierVisitor_apply_def Let_def)
  then have "getIDLAbsolute B x st t [] = Inr (normalizeIDLName B (''::'' @ concat (map (\<lambda>m. m @ ''::'') ts)) @ ?name)"
    using replace_path[OF assms(1,6)] by (simp add: getIDLAbsolute_def assms(5) NamespaceMarkString_def NamespaceMark_def)
  then have "getIDLAbsolute B x st t [] = Inr (concat (map (\<lambda>m. ''::'' @ m) (modules_of B target)) @ ''::'' @ ?name)"
    unfolding assms(5) path_modules[OF assms(1,6)] path_reference[OF assms(1,6)] by (simp add: comp_def)
  with d show ?thesis by blast
qed

theorem idl_reference_witness:
  "\<exists>name rest. ''    struct S {'' @ newline @ ''        long a;'' @ newline @ ''    };'' @ newline =
      indentation boost_impl ''/A/'' @ ''struct '' @ name @ '' {'' @ newline @ rest \<and>
    getIDLAbsolute boost_impl IDLExport_ctor idl_store 3 [] = Inr (''::A::'' @ name)"
proof -
  have kind: "ty_kind (type_at idl_store 3) = Compound [\<lparr>fld_name = ''a'', fld_type = 2, fld_offset = 0, fld_metadata = []\<rparr>]"
    and pos: "0 < next_id idl_store" by (simp_all add: idl_store_def type_at_def Type_ctor_def)
  have visit: "IDLExportVisitor_apply boost_impl IDLExport_ctor idl_store 3 =
      Inr (''    struct S {'' @ newline @ ''        long a;'' @ newline @ ''    };'' @ newline, ''/A/'', [])" by code_simp
  have path: "''/A/'' = ''/'' @ concat (map (\<lambda>m. m @ ''/'') [''A''])" "path_ok [''A'']" by (simp_all add: path_ok_def)
  have "concat (map (\<lambda>m. ''::'' @ m) (modules_of boost_impl ''/A/'')) @ ''::'' @ name = ''::A::'' @ name" for name
    by (subgoal_tac "modules_of boost_impl ''/A/'' = [''A'']") (simp, code_simp)
  with idl_reference[OF boost_impl_spec kind pos visit path] show ?thesis by (simp only:)
qed

end
