(* ===== verification/Spec2Isabelle.thy ===== *)
theory Spec2Isabelle
  imports CompareCorrect EndianCorrect Display TlbRoundtrip IdlCorrect
begin

text \<open>
  A verification of Typelib, the C++ library of the Rock tool chain that describes C and C++
  data types at run time and manipulates values of these types in raw memory.

  \<^bold>\<open>The program.\<close> A registry (\<open>typelib/registry.cc\<close>) owns type objects
  (\<open>typelib/typemodel.cc\<close>) under names (\<open>typelib/typename.cc\<close>). Types are numerics, enumerations,
  opaque types, compounds, arrays, pointers and containers; derived types are built from their names
  (\<open>typelib/typebuilder.cc\<close>). For each type a bytecode program, its memory layout
  (\<open>typelib/memory_layout.cc\<close>), says which bytes are data, padding, arrays and containers.
  Interpreters of this bytecode (\<open>typelib/value_ops.cc\<close>) initialize, zero, destroy, copy, compare,
  dump and load values; they call the containers \<open>std::vector\<close> and \<open>std::string\<close>
  (\<open>lang/csupport/containers.cc\<close>), which call the interpreters again for their elements. Visitors
  walk over values (\<open>typelib/value.cc\<close>), swap their byte order (\<open>typelib/endianness.cc\<close>) and print
  them (\<open>typelib/csvoutput.cc\<close>, \<open>typelib/typedisplay.cc\<close> for types).
  Registries are merged, reduced and resized, and written in dependency order to output formats
  (\<open>typelib/exporter.cc\<close>), one of which is an XML format that can be read back
  (\<open>lang/tlb/export.cc\<close>, \<open>lang/tlb/import.cc\<close>) and another one CORBA IDL (\<open>lang/idl/export.cc\<close>).

  \<^bold>\<open>The theories.\<close>
  \<^item> \<open>Prelude\<close>: exceptions as values (\<open>error\<close>, \<open>result\<close>), loops that throw (\<open>fold_result\<close>), size
    arithmetic modulo \<open>2 ^ 64\<close>, strings, numbers, ordered maps over a comparator (the locale
    \<open>map_comparator\<close>), reachability of state machines (the locale \<open>stateful_component\<close>).
  \<^item> \<open>Typename\<close>: \<open>typename.cc\<close>: validation of names, namespaces, relative names, the order of the
    registry map. The tokenizer of \<open>boost\<close> is the parameter \<open>tok\<close> with the specification
    \<open>NameTokenizer_spec\<close>.
  \<^item> \<open>TypeModel\<close>: type objects in a \<open>store\<close> from identities to records, so that sharing and recursion
    through references are those of the C++ objects; metadata, enumerations, fields, and the
    comparison \<open>isSame\<close> and \<open>canCastTo\<close> with its recursion stack.
  \<^item> \<open>Registry\<close>: the operations of \<open>registry.cc\<close>, alias propagation included, and the invariant
    \<open>registry_ok\<close>. \<open>RegistryOutcome\<close>: the registry that \<open>add\<close> and \<open>alias\<close> leave behind when they throw
    halfway. \<open>RegistryInvariant\<close>: the step relation \<open>registry_step\<close> of creating and modifying types,
    \<open>add\<close>, \<open>alias\<close> (whatever their outcome), \<open>setDefaultNamespace\<close>, \<open>importNamespace\<close>, \<open>removeAlias\<close>,
    \<open>clearAliases\<close>, \<open>remove\<close>, \<open>setSourceID\<close> and \<open>clear\<close>, and its reachable states; name resolution,
    removal. Merging, reducing, resizing and building derived types are not steps of it; the theories
    below state what they do.
  \<^item> \<open>TypeBuilder\<close>: \<open>typebuilder.cc\<close>: building derived types from names.
  \<^item> \<open>Merge\<close>, \<open>MergeCorrect\<close>: \<open>Type::merge\<close>, \<open>Registry::merge\<close>, \<open>Registry::minimal\<close>, \<open>Type::resize\<close>,
    \<open>Registry::resize\<close> and the container factories; a merged registry is bisimilar to its source.
  \<^item> \<open>MemoryLayout\<close>: \<open>memory_layout.cc\<close>: the visitor that builds layouts, both simplifiers, validation,
    block skipping. \<open>LayoutSemantics\<close>, \<open>LayoutInit\<close>, \<open>LayoutOf\<close>, \<open>TypeCells\<close>, \<open>LayoutBlocks\<close>: the
    bytecode denotes a list of cells (data, padding, container); the layout of a type denotes exactly
    the cells of the type, and simplifying keeps them, up to trailing padding and as long as the number
    of cells is a \<open>size_t\<close>: the counts wrap modulo \<open>2 ^ 64\<close> as in the code.
  \<^item> \<open>ValueMemory\<close>: raw memory with live container objects; the streams of \<open>value_ops.cc\<close> over memory
    and the locales \<open>output_stream\<close> and \<open>input_stream\<close> that state what the interpreters need of a
    stream. \<open>ValueOps\<close>, \<open>Marshalling\<close>: the interpreters and the containers. \<open>ValueSemantics\<close>: the
    relation \<open>holds\<close> between cells, memory and the value in it.
  \<^item> \<open>Interpreter\<close>: the locale \<open>bytecode_interpreter\<close>, one induction over bytecode for all
    interpreters; \<open>DumpCorrect\<close>, \<open>InitCorrect\<close>, \<open>LoadCorrect\<close> and \<open>CompareCorrect\<close> instantiate it;
    \<open>Roundtrip\<close> composes layouts, containers, streams and interpreters: what is dumped is loaded again,
    what is initialized is a value of its type.
  \<^item> \<open>Visitors\<close>: \<open>value.cc\<close>: visitors of values and the access to fields. \<open>Endianness\<close>,
    \<open>EndianCorrect\<close>: \<open>endianness.cc\<close> and \<open>endian_swap.hh\<close>: the visitor that swaps in place and the
    one that compiles the swap of a type to bytecode, that the visitor reverses the bytes of every
    number in place, and that both do the same, on types without inner trailing padding.
  \<^item> \<open>StringAlgorithms\<close>: what the sources use of the string algorithms of \<open>boost\<close>, the parameter \<open>B\<close> with
    the specification \<open>boost_spec\<close>. \<open>Display\<close>: \<open>typedisplay.cc\<close> and \<open>csvoutput.cc\<close>: the display of types
    ends, and the columns of CSV lines hold what the header names.
  \<^item> \<open>Exporter\<close>: \<open>exporter.cc\<close>: the loop that saves entries in dependency order, that it ends and saves
    each entry once; the locales \<open>export_simulation\<close> and \<open>appending_format\<close> state what an output format
    must satisfy for its output to be determined by the sequence of entries.
  \<^item> \<open>TlbExport\<close>, \<open>TlbImport\<close>: the XML format: the text of an entry, and the import of an XML tree with
    the factory that builds types on demand. \<open>TlbCorrect\<close>: importing the tree of an exported registry
    yields a copy of it. \<open>TlbMarkup\<close>: the text of the export is the markup of that tree; the XML library is
    the parameter with the specification \<open>xml_parser\<close>, which a parser for this markup satisfies.
    \<open>TlbRoundtrip\<close>: the composition of both.
  \<^item> \<open>ConfigSet\<close>: \<open>utilmm/configset.cc\<close>, the options of exporters. \<open>IdlExport\<close>: \<open>lang/idl/export.cc\<close>:
    the declarations and modules of the CORBA interface language. \<open>IdlCorrect\<close>: the modules are balanced
    and every declaration is in the modules of its namespace, by a simulation (\<open>export_simulation\<close>) of an
    export without modules; references name the place of the declaration.

  \<^bold>\<open>Fuel and bounds.\<close> Recursions that follow references take fuel, and each has a theorem that the fuel
  of its entry point is enough: the number of objects for comparisons, indirections for alias
  propagation, objects squared for merging (\<open>merge_fuel\<close>), nesting of types for layouts, the length of
  the bytecode for interpreters, nesting of containers for containers, the number of entries for the
  export (\<open>export_loop\<close>), the number of XML nodes for the import (\<open>Factory_build\<close>), the number
  of objects for IDL identifiers. \<open>OutOfFuel\<close> is then
  not a result. \<open>Type::resize\<close> has no bound in the code; \<open>resize_recursive_diverges\<close> is an
  example of a recursive type on which it does not return. \<open>UndefinedBehaviour\<close> marks the branches where the C++ program reads out
  of range.

  \<^bold>\<open>Platform.\<close> Sizes are \<open>size_t\<close> values of 64 bits (\<open>add_size_t\<close>, \<open>mul_size_t\<close>, \<open>sub_size_t\<close> wrap);
  \<open>well_laid\<close> says that the sizes, offsets and fields of a store are consistent. \<open>native_store\<close>
  collects what the value operations assume: sizes of \<open>std::vector\<close> and
  \<open>std::string\<close> are 24 and 32 bytes, pointers are larger than bytecode operations, layouts are shorter
  than the address space, no array has dimension 0.

  \<^bold>\<open>Not modelled.\<close> Streams over files, the plugin manager and the file front end of the importers are
  input and output; \<open>Registry::isSame\<close> advances an end iterator and has no defined result to state; the list of standard types of the C plugin
  is data; the Ruby bindings and the clang importer are glue to an interpreter and a compiler that are not part of the repository.
\<close>

end
